(* ===== verification/Py_Prelude.thy ===== *)
theory Py_Prelude
  imports Complex_Main "HOL-Library.AList" "HOL-Library.Multiset"
begin

section \<open>Prelude: exceptions, outcomes and dictionaries\<close>

text \<open>
  The Python constructs every component shares.

  \<^item> An exception is a value of \<open>py_error\<close> (the exception's class; messages are not modelled).
  \<^item> A method of a stateful object takes the state and returns an \<open>outcome\<close>: either the exception
    or the returned value, together with the state at that moment. The state is present in the
    exceptional case too, so that whether a method that raises has changed anything is a fact to
    be proved, and is not built into the types.
  \<^item> A \<open>dict\<close> with string keys is an association list in insertion order. Assigning to an existing
    key replaces the value in place, assigning to a new key appends, as in Python;
    \<open>AList.update\<close> is exactly that.
  \<^item> A \<open>frozenset\<close> is a list of its elements without repetition, in the order in which it is
    iterated over; equality of frozensets is equality of the sets of their elements.
  \<^item> A \<open>float\<close> is an exact rational number (type \<open>rat\<close>): rounding, infinities and NaN are not
    modelled.
\<close>

datatype py_error =
    KeyError
  | ValueError
  | TypeError
  | RuntimeError
  | AssertionError
  | PermissionError
  | AttributeError
  | OSError
  | AdapterInputError
  | SemanticViolation
  | InvalidTransition
  | InsufficientEvidence

type_synonym 'a res = "py_error + 'a"
type_synonym ('s, 'a) outcome = "(py_error + 'a) \<times> 's"
type_synonym 'v dict = "(string \<times> 'v) list"

named_theorems core_defs \<open>definitions of the operations of the semantic core\<close>
named_theorems dict_simps \<open>facts on dictionaries\<close>

subsection \<open>Sequencing\<close>

text \<open>
  \<open>bind_res m k\<close> sequences two expressions that may raise; \<open>reads s m k\<close> evaluates \<open>m\<close> in a
  state \<open>s\<close> it does not change, so an exception leaves \<open>s\<close>; \<open>calls r k\<close> goes on after a method
  call, from the state that call left.
\<close>

definition bind_res :: "'a res \<Rightarrow> ('a \<Rightarrow> 'b res) \<Rightarrow> 'b res" where
  "bind_res m k = (case m of Inl e \<Rightarrow> Inl e | Inr x \<Rightarrow> k x)"

definition reads :: "'s \<Rightarrow> 'b res \<Rightarrow> ('b \<Rightarrow> ('s, 'a) outcome) \<Rightarrow> ('s, 'a) outcome" where
  "reads s m k = (case m of Inl e \<Rightarrow> (Inl e, s) | Inr x \<Rightarrow> k x)"

definition calls :: "('s, 'b) outcome \<Rightarrow> ('b \<Rightarrow> 's \<Rightarrow> ('s, 'a) outcome) \<Rightarrow> ('s, 'a) outcome" where
  "calls r k = (case r of (Inl e, s) \<Rightarrow> (Inl e, s) | (Inr x, s) \<Rightarrow> k x s)"

definition raise_if :: "bool \<Rightarrow> py_error \<Rightarrow> unit res" where
  "raise_if c e = (if c then Inl e else Inr ())"

lemma bind_res_simps [simp]:
  "bind_res (Inl e) k = Inl e" "bind_res (Inr x) k = k x"
  by (simp_all add: bind_res_def)

lemma reads_simps [simp]:
  "reads s (Inl e) k = (Inl e, s)" "reads s (Inr x) k = k x"
  by (simp_all add: reads_def)

lemma calls_simps [simp]:
  "calls (Inl e, s) k = (Inl e, s)" "calls (Inr x, s) k = k x s"
  by (simp_all add: calls_def)

lemma raise_if_simps [simp]:
  "raise_if True e = Inl e" "raise_if False e = Inr ()"
  by (simp_all add: raise_if_def)

lemma raise_if_eq [simp]:
  "raise_if c e = Inr u \<longleftrightarrow> \<not> c" "raise_if c e = Inl e' \<longleftrightarrow> c \<and> e' = e"
  by (auto simp: raise_if_def)

lemma bind_res_Inr: "bind_res m k = Inr y \<longleftrightarrow> (\<exists>x. m = Inr x \<and> k x = Inr y)"
  by (cases m) auto

lemma bind_res_Inl: "bind_res m k = Inl e \<longleftrightarrow> m = Inl e \<or> (\<exists>x. m = Inr x \<and> k x = Inl e)"
  by (cases m) auto

lemma reads_Inr: "reads s m k = (Inr y, s') \<longleftrightarrow> (\<exists>x. m = Inr x \<and> k x = (Inr y, s'))"
  by (cases m) auto

lemma reads_Inl:
  "reads s m k = (Inl e, s') \<longleftrightarrow>
     m = Inl e \<and> s' = s \<or> (\<exists>x. m = Inr x \<and> k x = (Inl e, s'))"
  by (cases m) auto

lemma calls_Inr:
  "calls r k = (Inr y, s') \<longleftrightarrow> (\<exists>x s. r = (Inr x, s) \<and> k x s = (Inr y, s'))"
  by (cases r; cases "fst r") auto

lemma calls_Inl:
  "calls r k = (Inl e, s') \<longleftrightarrow>
     r = (Inl e, s') \<or> (\<exists>x s. r = (Inr x, s) \<and> k x s = (Inl e, s'))"
  by (cases r; cases "fst r") auto

lemmas outcome_iffs = bind_res_Inr bind_res_Inl reads_Inr reads_Inl calls_Inr calls_Inl

text \<open>Python's truth value of an optional string: neither \<open>None\<close> nor the empty string.\<close>

definition truthy :: "string option \<Rightarrow> bool" where
  "truthy x = (case x of None \<Rightarrow> False | Some s \<Rightarrow> s \<noteq> '''')"

lemma truthy_simps [simp]: "\<not> truthy None" "truthy (Some s) \<longleftrightarrow> s \<noteq> ''''"
  by (simp_all add: truthy_def)

text \<open>Optional values, where the source calls something only on a value that is not \<open>None\<close>.\<close>

definition frozenset :: "'a list \<Rightarrow> 'a list" where
  "frozenset xs = remdups xs"

lemma set_frozenset [simp]: "set (frozenset xs) = set xs"
  by (simp add: frozenset_def)

definition same_set :: "'a list \<Rightarrow> 'a list \<Rightarrow> bool" where
  "same_set xs ys \<longleftrightarrow> list_all (\<lambda>x. List.member ys x) xs \<and> list_all (\<lambda>y. List.member xs y) ys"

lemma same_set_iff: "same_set xs ys \<longleftrightarrow> set xs = set ys"
  by (auto simp: same_set_def list_all_iff)

definition subset_list :: "'a list \<Rightarrow> 'a list \<Rightarrow> bool" where
  "subset_list xs ys \<longleftrightarrow> list_all (\<lambda>x. List.member ys x) xs"

lemma subset_list_iff: "subset_list xs ys \<longleftrightarrow> set xs \<subseteq> set ys"
  by (auto simp: subset_list_def list_all_iff)

subsection \<open>Loops that may raise\<close>

text \<open>A \<open>for\<close> loop whose body only checks, and an \<open>any(...)\<close> or \<open>all(...)\<close> whose test may raise.\<close>

fun for_each :: "'a list \<Rightarrow> ('a \<Rightarrow> unit res) \<Rightarrow> unit res" where
  "for_each [] f = Inr ()"
| "for_each (x # xs) f = bind_res (f x) (\<lambda>_. for_each xs f)"

fun filter_res :: "('a \<Rightarrow> bool res) \<Rightarrow> 'a list \<Rightarrow> 'a list res" where
  "filter_res f [] = Inr []"
| "filter_res f (x # xs) =
     bind_res (f x) (\<lambda>b. bind_res (filter_res f xs) (\<lambda>ys. Inr (if b then x # ys else ys)))"

fun map_res :: "('a \<Rightarrow> 'b res) \<Rightarrow> 'a list \<Rightarrow> 'b list res" where
  "map_res f [] = Inr []"
| "map_res f (x # xs) = bind_res (f x) (\<lambda>y. bind_res (map_res f xs) (\<lambda>ys. Inr (y # ys)))"

fun all_res :: "('a \<Rightarrow> bool res) \<Rightarrow> 'a list \<Rightarrow> bool res" where
  "all_res f [] = Inr True"
| "all_res f (x # xs) = bind_res (f x) (\<lambda>b. if b then all_res f xs else Inr False)"

lemma for_each_Inr: "for_each xs f = Inr () \<longleftrightarrow> (\<forall>x\<in>set xs. f x = Inr ())"
  by (induction xs) (auto simp: bind_res_Inr)

lemma for_each_Inl: "for_each xs f = Inl e \<Longrightarrow> \<exists>x\<in>set xs. f x = Inl e"
  by (induction xs) (auto simp: bind_res_Inl)

lemma filter_res_Inr:
  "(\<And>x. x \<in> set xs \<Longrightarrow> f x = Inr (P x)) \<Longrightarrow> filter_res f xs = Inr (filter P xs)"
  by (induction xs) auto

lemma map_res_Inr:
  "(\<And>x. x \<in> set xs \<Longrightarrow> f x = Inr (h x)) \<Longrightarrow> map_res f xs = Inr (map h xs)"
  by (induction xs) auto

lemma for_each_cong [fundef_cong]:
  "xs = ys \<Longrightarrow> (\<And>x. x \<in> set ys \<Longrightarrow> f x = g x) \<Longrightarrow> for_each xs f = for_each ys g"
  by (induction xs arbitrary: ys) auto

lemma bind_res_cong [fundef_cong]:
  "m = m' \<Longrightarrow> (\<And>x. m' = Inr x \<Longrightarrow> k x = k' x) \<Longrightarrow> bind_res m k = bind_res m' k'"
  by (cases m') auto

lemma all_res_cong [fundef_cong]:
  "xs = ys \<Longrightarrow> (\<And>x. x \<in> set ys \<Longrightarrow> f x = h x) \<Longrightarrow> all_res f xs = all_res h ys"
  by (induction xs arbitrary: ys) (auto intro!: bind_res_cong)

lemma all_res_Inr:
  "(\<And>x. x \<in> set xs \<Longrightarrow> f x = Inr (P x)) \<Longrightarrow> all_res f xs = Inr (\<forall>x\<in>set xs. P x)"
  by (induction xs) auto

subsection \<open>Dictionaries\<close>

definition has_key :: "'v dict \<Rightarrow> string \<Rightarrow> bool" where
  "has_key d k = (case map_of d k of None \<Rightarrow> False | Some _ \<Rightarrow> True)"

definition getitem :: "'v dict \<Rightarrow> string \<Rightarrow> 'v res" where
  "getitem d k = (case map_of d k of None \<Rightarrow> Inl KeyError | Some v \<Rightarrow> Inr v)"

abbreviation setitem :: "string \<Rightarrow> 'v \<Rightarrow> 'v dict \<Rightarrow> 'v dict" where
  "setitem \<equiv> AList.update"

abbreviation delitem :: "string \<Rightarrow> 'v dict \<Rightarrow> 'v dict" where
  "delitem \<equiv> AList.delete"

definition keys_of :: "'v dict \<Rightarrow> string list" where
  "keys_of d = map fst d"

definition values_of :: "'v dict \<Rightarrow> 'v list" where
  "values_of d = map snd d"

lemma has_key_iff: "has_key d k \<longleftrightarrow> k \<in> set (keys_of d)"
  by (simp add: has_key_def keys_of_def map_of_eq_None_iff split: option.splits)
     (metis map_of_eq_None_iff option.distinct(1) set_map)

lemma has_key_Some: "has_key d k \<longleftrightarrow> (\<exists>v. map_of d k = Some v)"
  by (auto simp: has_key_def split: option.splits)

lemma not_has_key [simp]: "\<not> has_key d k \<longleftrightarrow> map_of d k = None"
  by (auto simp: has_key_def split: option.splits)

lemma getitem_Inr [simp]: "getitem d k = Inr v \<longleftrightarrow> map_of d k = Some v"
  by (auto simp: getitem_def split: option.splits)

lemma getitem_Inl [simp]: "getitem d k = Inl e \<longleftrightarrow> map_of d k = None \<and> e = KeyError"
  by (auto simp: getitem_def split: option.splits)

lemma map_of_setitem [simp]: "map_of (setitem k v d) = (map_of d)(k \<mapsto> v)"
  by (rule update_conv')

lemma has_key_setitem [simp]: "has_key (setitem k v d) i \<longleftrightarrow> i = k \<or> has_key d i"
  by (auto simp: has_key_def)

lemma map_of_in_keys: "map_of d k = Some v \<Longrightarrow> k \<in> set (keys_of d)"
  by (auto simp: keys_of_def dest: map_of_SomeD intro: rev_image_eqI)

lemma map_of_None_keys: "map_of d k = None \<longleftrightarrow> k \<notin> set (keys_of d)"
  by (simp add: keys_of_def map_of_eq_None_iff)

lemma keys_of_setitem:
  "keys_of (setitem k v d) = (if k \<in> set (keys_of d) then keys_of d else keys_of d @ [k])"
  by (simp add: keys_of_def update_keys)

lemma setitem_new: "map_of d k = None \<Longrightarrow> setitem k v d = d @ [(k, v)]"
  by (induction d) (auto split: if_splits)

lemma delitem_setitem_new: "map_of d k = None \<Longrightarrow> delitem k (setitem k v d) = d"
  by (induction d) (auto split: if_splits)

lemma map_of_keys_of: "k \<in> set (keys_of d) \<Longrightarrow> \<exists>v. map_of d k = Some v"
  by (metis map_of_None_keys not_None_eq)

lemma in_values_of: "map_of d k = Some v \<Longrightarrow> v \<in> set (values_of d)"
  by (auto simp: values_of_def dest: map_of_SomeD intro: rev_image_eqI)

lemma values_of_in:
  "distinct (keys_of d) \<Longrightarrow> v \<in> set (values_of d) \<Longrightarrow> \<exists>k. map_of d k = Some v"
  by (auto simp: values_of_def keys_of_def)

lemma values_of_iff:
  "distinct (keys_of d) \<Longrightarrow> v \<in> set (values_of d) \<longleftrightarrow> (\<exists>k. map_of d k = Some v)"
  by (meson in_values_of values_of_in)

lemma values_of_new: "map_of d k = None \<Longrightarrow> values_of (setitem k v d) = values_of d @ [v]"
  by (simp add: setitem_new values_of_def)

text \<open>Replacing the value of a key keeps every projection on which old and new value agree.\<close>

lemma map_values_replace:
  "map_of d k = Some u \<Longrightarrow> f v = f u \<Longrightarrow> map f (values_of (setitem k v d)) = map f (values_of d)"
  by (induction d) (auto simp: values_of_def split: if_splits)

lemma items_iff:
  "distinct (keys_of d) \<Longrightarrow> (k, v) \<in> set d \<longleftrightarrow> map_of d k = Some v"
  by (simp add: keys_of_def)

lemma keys_of_map_snd [simp]: "keys_of (map (\<lambda>(k, v). (k, f k v)) d) = keys_of d"
  by (induction d) (auto simp: keys_of_def)

lemma map_of_map_snd: "map_of (map (\<lambda>(k, v). (k, f k v)) d) k = map_option (f k) (map_of d k)"
  by (induction d) auto

declare has_key_Some [dict_simps] map_of_None_keys [dict_simps] values_of_iff [dict_simps]

subsection \<open>Integers: \<open>max\<close> with a default, ranges, decimal strings\<close>

definition py_max :: "int \<Rightarrow> int list \<Rightarrow> int" where
  "py_max d xs = (case xs of [] \<Rightarrow> d | y # ys \<Rightarrow> fold max ys y)"

lemma fold_max_le: "fold max ys (y::int) \<ge> y \<and> (\<forall>x\<in>set ys. x \<le> fold max ys y)"
  by (induction ys arbitrary: y) (auto, (metis max.bounded_iff)+)

lemma fold_max_in: "fold max ys (y::int) \<in> insert y (set ys)"
  by (induction ys arbitrary: y) (auto, metis max_def)

lemma py_max_eqI:
  assumes "m \<in> set xs" and "\<forall>x\<in>set xs. x \<le> m"
  shows "py_max d xs = m"
proof -
  from assms(1) obtain y ys where xs: "xs = y # ys" by (cases xs) auto
  have "fold max ys y \<in> set xs" using fold_max_in [of ys y] by (simp add: xs)
  with assms(2) have "fold max ys y \<le> m" by blast
  moreover have "m \<le> fold max ys y" using assms(1) fold_max_le [of y ys] by (auto simp: xs)
  ultimately show ?thesis by (simp add: py_max_def xs)
qed

lemma py_max_upto: "py_max 0 [1..int n] = int n"
proof (cases "n = 0")
  case False
  then obtain ys where ys: "[1..int n] = 1 # ys" by (simp add: upto.simps [of 1])
  then have set: "insert 1 (set ys) = {1..int n}" by (metis list.simps(15) set_upto)
  have "fold max ys 1 \<in> {1..int n}" using fold_max_in [of ys 1] set by simp
  moreover have "int n \<in> insert 1 (set ys)" unfolding set using False by simp
  then have "int n \<le> fold max ys 1" using fold_max_le [of 1 ys] by auto
  ultimately show ?thesis by (simp add: py_max_def ys)
qed (simp add: py_max_def)

lemma upto_snoc: "[1..int n] @ [int n + 1] = [1..int (Suc n)]"
  by (subst upto_rec2) (auto simp: add.commute)

text \<open>\<open>str\<close> of an integer.\<close>

definition digit_char :: "nat \<Rightarrow> char" where
  "digit_char d = char_of (48 + d)"

fun nat_str :: "nat \<Rightarrow> string" where
  "nat_str n = (if n < 10 then [digit_char n] else nat_str (n div 10) @ [digit_char (n mod 10)])"

declare nat_str.simps [simp del]

definition int_str :: "int \<Rightarrow> string" where
  "int_str z = (if z < 0 then ''-'' @ nat_str (nat (- z)) else nat_str (nat z))"

lemma digit_char_inj:
  assumes "digit_char a = digit_char b" and "a < 10" and "b < 10"
  shows "a = b"
proof -
  have "of_char (digit_char a) = (of_char (digit_char b) :: nat)" using assms(1) by simp
  with assms(2,3) show ?thesis by (simp add: digit_char_def)
qed

lemma digit_char_not_minus: "d < 10 \<Longrightarrow> digit_char d \<noteq> CHR ''-''"
proof
  assume "d < 10" and "digit_char d = CHR ''-''"
  then have "of_char (digit_char d) = (45 :: nat)" by simp
  with \<open>d < 10\<close> show False by (simp add: digit_char_def)
qed

lemma nat_str_not_Nil [simp]: "nat_str n \<noteq> []"
  by (subst nat_str.simps) simp

lemma Nil_not_nat_str [simp]: "[] \<noteq> nat_str n"
  by (metis nat_str_not_Nil)

lemma nat_str_inj: "nat_str m = nat_str n \<Longrightarrow> m = n"
proof (induction m arbitrary: n rule: nat_str.induct)
  case (1 m)
  show ?case
  proof (cases "m < 10")
    case True
    with 1 have "n < 10 \<and> digit_char m = digit_char n"
      by (auto simp: nat_str.simps [of m] nat_str.simps [of n] split: if_splits)
    with True show ?thesis by (auto dest: digit_char_inj)
  next
    case False
    with 1 have n: "\<not> n < 10" and eq: "nat_str (m div 10) = nat_str (n div 10)"
      and last: "digit_char (m mod 10) = digit_char (n mod 10)"
      by (auto simp: nat_str.simps [of m] nat_str.simps [of n] split: if_splits)
    have "m div 10 = n div 10" by (rule "1.IH" [OF False eq])
    moreover have "m mod 10 = n mod 10" by (rule digit_char_inj [OF last]) simp_all
    ultimately show ?thesis by (metis div_mult_mod_eq)
  qed
qed

lemma hd_nat_str: "hd (nat_str n) \<noteq> CHR ''-''"
proof (induction n rule: nat_str.induct)
  case (1 n)
  then show ?case by (subst nat_str.simps) (simp add: digit_char_not_minus)
qed

lemma int_str_inj: "int_str a = int_str b \<Longrightarrow> a = b"
  using hd_nat_str [of "nat a"] hd_nat_str [of "nat b"]
  by (auto simp: int_str_def split: if_splits dest: nat_str_inj) (metis list.sel(1))+

text \<open>\<open>sep.join(xs)\<close>, and a digit of a hexadecimal escape.\<close>

fun join_with :: "string \<Rightarrow> string list \<Rightarrow> string" where
  "join_with sep [] = []"
| "join_with sep [x] = x"
| "join_with sep (x # y # xs) = x @ sep @ join_with sep (y # xs)"

definition hex_digit :: "nat \<Rightarrow> char" where
  "hex_digit d = (if d < 10 then char_of (48 + d) else char_of (87 + d))"

end
