(* ===== verification/Entities.thy ===== *)
theory Entities
  imports Py_Prelude
begin

section \<open>The entities of the semantic core\<close>

text \<open>
  The enumerations and frozen dataclasses of \<open>continuity/entities.py\<close>, one datatype per \<open>Enum\<close> and
  one record per dataclass, fields in the order of the source. Constructors keep the names of the
  enum members and are written with the name of the enum, as in Python (\<open>AttemptAuthority.CURRENT\<close>);
  record fields carry a prefix, because several dataclasses have a field of the same name.
  Every field of an entity is immutable: operations replace whole entities, as
  \<open>dataclasses.replace\<close> does.
\<close>

subsection \<open>Enumerations\<close>

datatype ProgramStatus = CREATED | RUNNING | COMPLETED | FAILED | CANCELLED

datatype ContinuationLifecycle =
  CREATED | ACTIVE | WAITING | SPECULATIVE | JOINING | TERMINAL | ABANDONED

datatype RequestStatus = CREATED | READY | RUNNING | COMPLETED | FAILED | CANCELLED

datatype ExecutionStatus = CREATED | DISPATCHED | RUNNING | SUCCEEDED | FAILED | CANCELLED

datatype AttemptAuthority = NONE | CURRENT | COMMITTED | SUPERSEDED

datatype PhaseType = PREFILL | DECODE | STATE_PULL | STATE_TRANSFER | OTHER

datatype PhaseStatus = CREATED | RUNNING | COMPLETED | FAILED | CANCELLED

datatype StateLifecycle = ACTIVE | WAITING | SPECULATIVE | TERMINAL

datatype StateValidity = VALID | INVALID

datatype ReplicaStatus = MATERIALIZING | VALID | STALE | TRANSFERRING | EVICTING | LOST | INVALID

datatype BindingStatus = PROPOSED | ACTIVE | MIGRATING | SUPERSEDED | RELEASED | INVALID

datatype EvidenceAuthority = ESTIMATED | DERIVED | EXACT_OBSERVATION | AUTHORITATIVE

datatype EvidenceStatus = VALID | STALE | UNKNOWN | FAILED | AMBIGUOUS

datatype ReconcileOutcome =
  MATCHED | WAIT | RETRY | RECOMPUTE | MIGRATE | REJECT | REPAIR | FAIL | AMBIGUOUS

text \<open>
  \<open>EvidenceAuthority\<close> is an \<open>IntEnum\<close>: its members compare as the integers 1 to 4. The class
  instance makes the library's order available on it.
\<close>

fun authority_value :: "EvidenceAuthority \<Rightarrow> int" where
  "authority_value ESTIMATED = 1"
| "authority_value DERIVED = 2"
| "authority_value EXACT_OBSERVATION = 3"
| "authority_value AUTHORITATIVE = 4"

lemma authority_value_inj: "authority_value a = authority_value b \<Longrightarrow> a = b"
  by (cases a; cases b) simp_all

instantiation EvidenceAuthority :: linorder
begin

definition less_eq_EvidenceAuthority :: "EvidenceAuthority \<Rightarrow> EvidenceAuthority \<Rightarrow> bool" where
  "a \<le> b \<longleftrightarrow> authority_value a \<le> authority_value b"

definition less_EvidenceAuthority :: "EvidenceAuthority \<Rightarrow> EvidenceAuthority \<Rightarrow> bool" where
  "a < b \<longleftrightarrow> authority_value a < authority_value b"

instance
  by standard
     (auto simp: less_eq_EvidenceAuthority_def less_EvidenceAuthority_def intro: authority_value_inj)

end

lemmas authority_order_simps = less_eq_EvidenceAuthority_def less_EvidenceAuthority_def

subsection \<open>Events, programs, sessions, continuations\<close>

record SemanticEvent =
  sev_id :: string
  sev_kind :: string
  sev_subject_type :: string
  sev_subject_id :: string
  sev_payload :: "(string \<times> string) list"

record Program =
  prog_id :: string
  prog_status :: ProgramStatus

record Session =
  sess_id :: string
  sess_program_id :: string

record Continuation =
  cont_id :: string
  cont_session_id :: string
  cont_parent_ids :: "string list"
  cont_lifecycle :: ContinuationLifecycle

subsection \<open>Requests, attempts, phases, contexts\<close>

record LogicalRequest =
  req_id :: string
  req_continuation_id :: string
  req_status :: RequestStatus
  req_current_attempt_id :: "string option"
  req_committed_attempt_id :: "string option"
  req_authoritative_output_id :: "string option"

record Attempt =
  att_id :: string
  att_request_id :: string
  att_generation :: int
  att_execution_status :: ExecutionStatus
  att_authority_status :: AttemptAuthority

record Phase =
  ph_id :: string
  ph_attempt_id :: string
  ph_ordinal :: int
  ph_type :: PhaseType
  ph_status :: PhaseStatus

record ExecutionContext =
  ctx_program_id :: string
  ctx_session_id :: string
  ctx_continuation_id :: string
  ctx_request_id :: string
  ctx_attempt_id :: string
  ctx_phase_id :: "string option"

subsection \<open>Reusable state, replicas, bindings\<close>

record ReusableState =
  st_id :: string
  st_origin_type :: string
  st_origin_id :: string
  st_origin_continuation_id :: string
  st_origin_request_id :: "string option"
  st_producer_attempt_id :: "string option"
  st_semantic_type :: string
  st_representation :: string
  st_lifecycle :: StateLifecycle
  st_validity :: StateValidity
  st_derived_from :: "string list"
  st_producer_phase_id :: "string option"

record StateReplica =
  rep_id :: string
  rep_state_id :: string
  rep_location_id :: string
  rep_status :: ReplicaStatus
  rep_binding_id :: "string option"
  rep_binding_epoch :: "int option"

record Binding =
  bnd_id :: string
  bnd_subject_id :: string
  bnd_location_id :: string
  bnd_base_epoch :: int
  bnd_epoch :: int
  bnd_status :: BindingStatus

subsection \<open>Evidence and outputs\<close>

record Evidence =
  ev_id :: string
  ev_claim :: string
  ev_source :: string
  ev_authority :: EvidenceAuthority
  ev_status :: EvidenceStatus
  ev_observed_at :: rat
  ev_scope :: "(string \<times> string) list"
  ev_valid_until :: "rat option"
  ev_confidence :: "rat option"
  ev_derived_from :: "string list"
  ev_derivation_rule :: "string option"
  ev_claim_key :: "string option"
  ev_claim_value :: "string option"

record Output =
  out_id :: string
  out_attempt_id :: string
  out_terminal :: bool
  out_evidence_ids :: "string list"

text \<open>\<open>Evidence.__post_init__\<close>: the constructor raises unless the structured claim is complete.\<close>

definition evidence_post_init :: "Evidence \<Rightarrow> Evidence res" where
  "evidence_post_init e =
     (if (ev_claim_key e = None) \<noteq> (ev_claim_value e = None) then Inl ValueError
      else if ev_claim_key e \<noteq> None \<and> \<not> truthy (ev_claim_key e) then Inl ValueError
      else if ev_claim_key e \<noteq> None \<and> \<not> truthy (ev_claim_value e) then Inl ValueError
      else Inr e)"

text \<open>
  The generated \<open>__eq__\<close> of the dataclasses the core compares: field by field, frozensets as sets.
\<close>

definition event_eq :: "SemanticEvent \<Rightarrow> SemanticEvent \<Rightarrow> bool" where
  "event_eq a b \<longleftrightarrow>
     sev_id a = sev_id b \<and> sev_kind a = sev_kind b \<and> sev_subject_type a = sev_subject_type b \<and>
     sev_subject_id a = sev_subject_id b \<and> same_set (sev_payload a) (sev_payload b)"

definition evidence_eq :: "Evidence \<Rightarrow> Evidence \<Rightarrow> bool" where
  "evidence_eq a b \<longleftrightarrow>
     ev_id a = ev_id b \<and> ev_claim a = ev_claim b \<and> ev_source a = ev_source b \<and>
     ev_authority a = ev_authority b \<and> ev_status a = ev_status b \<and>
     ev_observed_at a = ev_observed_at b \<and> same_set (ev_scope a) (ev_scope b) \<and>
     ev_valid_until a = ev_valid_until b \<and> ev_confidence a = ev_confidence b \<and>
     same_set (ev_derived_from a) (ev_derived_from b) \<and>
     ev_derivation_rule a = ev_derivation_rule b \<and> ev_claim_key a = ev_claim_key b \<and>
     ev_claim_value a = ev_claim_value b"

definition output_eq :: "Output \<Rightarrow> Output \<Rightarrow> bool" where
  "output_eq a b \<longleftrightarrow>
     out_id a = out_id b \<and> out_attempt_id a = out_attempt_id b \<and>
     out_terminal a = out_terminal b \<and> same_set (out_evidence_ids a) (out_evidence_ids b)"

lemma event_eq_refl [simp]: "event_eq a a"
  by (simp add: event_eq_def same_set_iff)

lemma evidence_eq_refl [simp]: "evidence_eq a a"
  by (simp add: evidence_eq_def same_set_iff)

lemma output_eq_refl [simp]: "output_eq a a"
  by (simp add: output_eq_def same_set_iff)

end
