(* ===== verification/Core_State.thy ===== *)
theory Core_State
  imports Entities
begin

section \<open>The state of the semantic core\<close>

text \<open>
  The attributes of \<open>ContinuityCore\<close> (\<open>continuity/core_base.py\<close>), \<open>__init__\<close> and \<open>_unique\<close>.
  The callback \<open>semantic_validity\<close> is supplied by the user of the core and is never changed: it is
  an argument of the operations that call it. The reading of \<open>time.time()\<close>, taken when a caller
  passes no \<open>now\<close>, is an argument as well.
\<close>

record core =
  programs :: "Program dict"
  sessions :: "Session dict"
  continuations :: "Continuation dict"
  requests :: "LogicalRequest dict"
  attempts :: "Attempt dict"
  phases :: "Phase dict"
  states :: "ReusableState dict"
  replicas :: "StateReplica dict"
  bindings :: "Binding dict"
  evidence :: "Evidence dict"
  outputs :: "Output dict"
  events :: "SemanticEvent dict"
  event_order :: "string list"
  current_binding_by_subject :: "string dict"
  current_epoch_by_subject :: "int dict"
  last_allocated_epoch_by_subject :: "int dict"

definition empty_core :: core where
  "empty_core =
     \<lparr>programs = [], sessions = [], continuations = [], requests = [], attempts = [], phases = [],
      states = [], replicas = [], bindings = [], evidence = [], outputs = [], events = [],
      event_order = [], current_binding_by_subject = [], current_epoch_by_subject = [],
      last_allocated_epoch_by_subject = []\<rparr>"

subsection \<open>Identity\<close>

definition id_taken :: "core \<Rightarrow> string \<Rightarrow> bool" where
  "id_taken g i \<longleftrightarrow>
     has_key (programs g) i \<or> has_key (sessions g) i \<or> has_key (continuations g) i \<or>
     has_key (requests g) i \<or> has_key (attempts g) i \<or> has_key (phases g) i \<or>
     has_key (states g) i \<or> has_key (replicas g) i \<or> has_key (bindings g) i \<or>
     has_key (evidence g) i \<or> has_key (outputs g) i \<or> has_key (events g) i"

definition unique :: "core \<Rightarrow> string \<Rightarrow> unit res" where
  "unique g i = raise_if (id_taken g i) SemanticViolation"

lemma unique_iff [simp]:
  "unique g i = Inr u \<longleftrightarrow> \<not> id_taken g i"
  "unique g i = Inl e \<longleftrightarrow> id_taken g i \<and> e = SemanticViolation"
  by (simp_all add: unique_def)

text \<open>
  The list of all identifiers in use, collection by collection. That it has no repetition says
  three things at once: each collection is a proper dictionary, no two collections share a key,
  and a key is never used twice.
\<close>

definition all_ids :: "core \<Rightarrow> string list" where
  "all_ids g =
     keys_of (programs g) @ keys_of (sessions g) @ keys_of (continuations g) @
     keys_of (requests g) @ keys_of (attempts g) @ keys_of (phases g) @ keys_of (states g) @
     keys_of (replicas g) @ keys_of (bindings g) @ keys_of (evidence g) @ keys_of (outputs g) @
     keys_of (events g)"

lemma id_taken_iff: "id_taken g i \<longleftrightarrow> i \<in> set (all_ids g)"
  by (simp add: id_taken_def all_ids_def has_key_iff)

lemma not_id_taken:
  assumes "\<not> id_taken g i"
  shows "map_of (programs g) i = None" "map_of (sessions g) i = None"
    "map_of (continuations g) i = None" "map_of (requests g) i = None"
    "map_of (attempts g) i = None" "map_of (phases g) i = None" "map_of (states g) i = None"
    "map_of (replicas g) i = None" "map_of (bindings g) i = None" "map_of (evidence g) i = None"
    "map_of (outputs g) i = None" "map_of (events g) i = None"
  using assms by (simp_all add: id_taken_def)

definition keyed :: "('v \<Rightarrow> string) \<Rightarrow> 'v dict \<Rightarrow> bool" where
  "keyed f d \<longleftrightarrow> (\<forall>k v. map_of d k = Some v \<longrightarrow> f v = k)"

lemma keyedD: "keyed f d \<Longrightarrow> map_of d k = Some v \<Longrightarrow> f v = k"
  by (simp add: keyed_def)

lemma keyed_setitem: "keyed f d \<Longrightarrow> f v = k \<Longrightarrow> keyed f (setitem k v d)"
  by (simp add: keyed_def)

lemma keyed_Nil [simp]: "keyed f []"
  by (simp add: keyed_def)

definition ids_ok :: "core \<Rightarrow> bool" where
  "ids_ok g \<longleftrightarrow>
     distinct (all_ids g) \<and> keyed prog_id (programs g) \<and> keyed sess_id (sessions g) \<and>
     keyed cont_id (continuations g) \<and> keyed req_id (requests g) \<and> keyed att_id (attempts g) \<and>
     keyed ph_id (phases g) \<and> keyed st_id (states g) \<and> keyed rep_id (replicas g) \<and>
     keyed bnd_id (bindings g) \<and> keyed ev_id (evidence g) \<and> keyed out_id (outputs g) \<and>
     keyed sev_id (events g)"

lemma ids_ok_empty: "ids_ok empty_core"
  by (simp add: ids_ok_def empty_core_def all_ids_def keys_of_def)

lemma ids_okD:
  assumes "ids_ok g"
  shows "distinct (keys_of (programs g))" "distinct (keys_of (sessions g))"
    "distinct (keys_of (continuations g))" "distinct (keys_of (requests g))"
    "distinct (keys_of (attempts g))" "distinct (keys_of (phases g))"
    "distinct (keys_of (states g))" "distinct (keys_of (replicas g))"
    "distinct (keys_of (bindings g))" "distinct (keys_of (evidence g))"
    "distinct (keys_of (outputs g))" "distinct (keys_of (events g))"
    "keyed prog_id (programs g)" "keyed sess_id (sessions g)" "keyed cont_id (continuations g)"
    "keyed req_id (requests g)" "keyed att_id (attempts g)" "keyed ph_id (phases g)"
    "keyed st_id (states g)" "keyed rep_id (replicas g)" "keyed bnd_id (bindings g)"
    "keyed ev_id (evidence g)" "keyed out_id (outputs g)" "keyed sev_id (events g)"
  using assms by (simp_all add: ids_ok_def all_ids_def)

text \<open>A new entity under a fresh identifier, and a replacement under the same identifier.\<close>

lemma all_ids_new_aux:
  assumes "\<not> id_taken g i" and "distinct (all_ids g)"
  shows "distinct (all_ids (g\<lparr>programs := setitem i p (programs g)\<rparr>))"
    "distinct (all_ids (g\<lparr>sessions := setitem i s (sessions g)\<rparr>))"
    "distinct (all_ids (g\<lparr>continuations := setitem i c (continuations g)\<rparr>))"
    "distinct (all_ids (g\<lparr>requests := setitem i r (requests g)\<rparr>))"
    "distinct (all_ids (g\<lparr>attempts := setitem i a (attempts g)\<rparr>))"
    "distinct (all_ids (g\<lparr>phases := setitem i ph (phases g)\<rparr>))"
    "distinct (all_ids (g\<lparr>states := setitem i st (states g)\<rparr>))"
    "distinct (all_ids (g\<lparr>replicas := setitem i rp (replicas g)\<rparr>))"
    "distinct (all_ids (g\<lparr>bindings := setitem i b (bindings g)\<rparr>))"
    "distinct (all_ids (g\<lparr>evidence := setitem i e (evidence g)\<rparr>))"
    "distinct (all_ids (g\<lparr>outputs := setitem i out (outputs g)\<rparr>))"
    "distinct (all_ids (g\<lparr>events := setitem i ev (events g)\<rparr>))"
  using assms by (auto simp: id_taken_iff all_ids_def keys_of_setitem)

lemma keys_of_replace: "map_of d i = Some u \<Longrightarrow> keys_of (setitem i v d) = keys_of d"
  by (simp add: keys_of_setitem map_of_in_keys)

lemmas ids_ok_simps =
  ids_ok_def keyed_setitem all_ids_new_aux

end
