(* ===== verification/Graph_Search.thy ===== *)
theory Graph_Search
  imports Py_Prelude
begin

section \<open>The two graph searches of the semantic core\<close>

text \<open>
  The core keeps two directed graphs: Continuations with their parents and reusable States with
  the States they are derived from. It searches them in two ways. \<open>dfs_node\<close> and \<open>dfs_any\<close> are
  the nested function \<open>dfs\<close> of \<open>_has_cycle\<close> and \<open>_state_cycle\<close> with its two mutable sets
  \<open>visiting\<close> and \<open>visited\<close>; \<open>ancestor_loop\<close> is the loop of \<open>is_ancestor\<close> with its stack
  \<open>todo\<close> and its set \<open>seen\<close>. A graph is a dictionary from a node to its successors. Both searches
  are proved to decide what their names say: a cycle, and reachability.
\<close>

definition edges :: "string list dict \<Rightarrow> (string \<times> string) set" where
  "edges adj = {(x, p). \<exists>ps. map_of adj x = Some ps \<and> p \<in> set ps}"

definition closed_graph :: "string list dict \<Rightarrow> bool" where
  "closed_graph adj \<longleftrightarrow> (\<forall>(x, p) \<in> edges adj. p \<in> set (keys_of adj))"

lemma edgesI [intro]: "map_of adj x = Some ps \<Longrightarrow> p \<in> set ps \<Longrightarrow> (x, p) \<in> edges adj"
  by (auto simp: edges_def)

lemma edgesE [elim]:
  assumes "(x, p) \<in> edges adj"
  obtains ps where "map_of adj x = Some ps" and "p \<in> set ps"
  using assms by (auto simp: edges_def)

lemma closed_graphD: "closed_graph adj \<Longrightarrow> (x, p) \<in> edges adj \<Longrightarrow> p \<in> set (keys_of adj)"
  by (auto simp: closed_graph_def)

lemma card_keys_less:
  assumes "map_of adj n = Some ps" and "n \<notin> set vis"
  shows "card (set (keys_of adj) - set (n # vis)) < card (set (keys_of adj) - set vis)"
proof (rule psubset_card_mono)
  have "n \<in> set (keys_of adj)" by (rule map_of_in_keys [OF assms(1)])
  with assms(2) show "set (keys_of adj) - set (n # vis) \<subset> set (keys_of adj) - set vis"
    by auto
qed simp

subsection \<open>Depth-first search for a cycle\<close>

text \<open>
  \<open>Inr None\<close> is the early return of \<open>True\<close> (a node met again while it is being visited);
  \<open>Inr (Some visited)\<close> is the return of \<open>False\<close> with the set of visited nodes. \<open>dfs_any\<close> is the
  loop over a node's successors, and also the outer \<open>any(dfs(n) for n in nodes)\<close>.
\<close>

function dfs_node :: "string list dict \<Rightarrow> string list \<Rightarrow> string list \<Rightarrow> string \<Rightarrow> string list option res"
  and dfs_any :: "string list dict \<Rightarrow> string list \<Rightarrow> string list \<Rightarrow> string list \<Rightarrow> string list option res"
where
  "dfs_node adj visiting visited n =
     (if n \<in> set visiting then Inr None
      else if n \<in> set visited then Inr (Some visited)
      else (case map_of adj n of
              None \<Rightarrow> Inl KeyError
            | Some ps \<Rightarrow>
                (case dfs_any adj (n # visiting) visited ps of
                   Inl e \<Rightarrow> Inl e
                 | Inr None \<Rightarrow> Inr None
                 | Inr (Some visited') \<Rightarrow> Inr (Some (n # visited')))))"
| "dfs_any adj visiting visited [] = Inr (Some visited)"
| "dfs_any adj visiting visited (p # ps) =
     (case dfs_node adj visiting visited p of
        Inl e \<Rightarrow> Inl e
      | Inr None \<Rightarrow> Inr None
      | Inr (Some visited') \<Rightarrow> dfs_any adj visiting visited' ps)"
  by pat_completeness auto
termination
  by (relation "measures
        [case_sum (\<lambda>(adj, vis, _, _). card (set (keys_of adj) - set vis))
                  (\<lambda>(adj, vis, _, _). card (set (keys_of adj) - set vis)),
         case_sum (\<lambda>_. 0) (\<lambda>(_, _, _, ps). Suc (length ps))]")
     (auto dest: card_keys_less)

declare dfs_node.simps [simp del]

definition finds_cycle :: "string list dict \<Rightarrow> bool res" where
  "finds_cycle adj = bind_res (dfs_any adj [] [] (keys_of adj)) (\<lambda>r. Inr (Option.is_none r))"

text \<open>A reported cycle is one: every node being visited leads to the current node.\<close>

lemma dfs_sound:
  "dfs_node adj vis ved n = Inr None \<Longrightarrow> \<forall>v\<in>set vis. (v, n) \<in> (edges adj)\<^sup>+ \<Longrightarrow>
     \<exists>x. (x, x) \<in> (edges adj)\<^sup>+"
  "dfs_any adj vis ved ps = Inr None \<Longrightarrow> \<forall>v\<in>set vis. \<forall>p\<in>set ps. (v, p) \<in> (edges adj)\<^sup>+ \<Longrightarrow>
     \<exists>x. (x, x) \<in> (edges adj)\<^sup>+"
proof (induction adj vis ved n and adj vis ved ps rule: dfs_node_dfs_any.induct)
  case (1 adj vis ved n)
  show ?case
  proof (cases "n \<in> set vis")
    case True
    with 1(3) show ?thesis by auto
  next
    case False
    with 1(2) obtain ps where ps: "map_of adj n = Some ps" and nv: "n \<notin> set ved"
      and rec: "dfs_any adj (n # vis) ved ps = Inr None"
      by (auto simp: dfs_node.simps [of adj vis ved n] split: if_splits option.splits sum.splits)
    have "\<forall>v\<in>set (n # vis). \<forall>p\<in>set ps. (v, p) \<in> (edges adj)\<^sup>+"
      using 1(3) ps by (auto intro: trancl_into_trancl)
    with 1(1) [OF False nv ps rec] show ?thesis by blast
  qed
next
  case (3 adj vis ved p ps)
  then show ?case by (auto split: sum.splits option.splits)
qed simp

text \<open>
  Without a report the visited nodes are closed under successors and none of them is on a cycle.
\<close>

definition settled :: "string list dict \<Rightarrow> string list \<Rightarrow> bool" where
  "settled adj ved \<longleftrightarrow> (\<forall>x\<in>set ved. (x, x) \<notin> (edges adj)\<^sup>+ \<and> edges adj `` {x} \<subseteq> set ved)"

lemma settled_closed:
  assumes "settled adj ved" and "x \<in> set ved" and "(x, y) \<in> (edges adj)\<^sup>*"
  shows "y \<in> set ved"
  using assms(3) by induction (use assms in \<open>auto simp: settled_def\<close>)

lemma settled_Cons:
  assumes "settled adj ved" and "n \<notin> set ved" and "map_of adj n = Some ps" and "set ps \<subseteq> set ved"
  shows "settled adj (n # ved)"
proof -
  have succ: "edges adj `` {n} \<subseteq> set ved" using assms(3,4) by (auto elim!: edgesE)
  have "(n, n) \<notin> (edges adj)\<^sup>+"
  proof
    assume "(n, n) \<in> (edges adj)\<^sup>+"
    then obtain p where "(n, p) \<in> edges adj" and "(p, n) \<in> (edges adj)\<^sup>*" by (meson tranclD)
    with succ settled_closed [OF assms(1)] have "n \<in> set ved" by blast
    with assms(2) show False ..
  qed
  with assms(1) succ show ?thesis by (auto simp: settled_def)
qed

lemma dfs_complete:
  "dfs_node adj vis ved n = Inr (Some ved') \<Longrightarrow> settled adj ved \<Longrightarrow> set vis \<inter> set ved = {} \<Longrightarrow>
     settled adj ved' \<and> set vis \<inter> set ved' = {} \<and> set ved \<subseteq> set ved' \<and> n \<in> set ved'"
  "dfs_any adj vis ved ps = Inr (Some ved') \<Longrightarrow> settled adj ved \<Longrightarrow> set vis \<inter> set ved = {} \<Longrightarrow>
     settled adj ved' \<and> set vis \<inter> set ved' = {} \<and> set ved \<subseteq> set ved' \<and> set ps \<subseteq> set ved'"
proof (induction adj vis ved n and adj vis ved ps arbitrary: ved' and ved' rule: dfs_node_dfs_any.induct)
  case (1 adj vis ved n)
  show ?case
  proof (cases "n \<in> set ved")
    case True
    with 1(2-4) show ?thesis by (auto simp: dfs_node.simps [of adj vis ved n] split: if_splits)
  next
    case False
    with 1(2) obtain ps ved1 where nvis: "n \<notin> set vis" and ps: "map_of adj n = Some ps"
      and rec: "dfs_any adj (n # vis) ved ps = Inr (Some ved1)" and ved': "ved' = n # ved1"
      by (auto simp: dfs_node.simps [of adj vis ved n] split: if_splits option.splits sum.splits)
    have ih: "settled adj ved1 \<and> set (n # vis) \<inter> set ved1 = {} \<and> set ved \<subseteq> set ved1 \<and> set ps \<subseteq> set ved1"
      using 1(1) [OF nvis False ps rec 1(3)] 1(4) False by simp
    then have "n \<notin> set ved1" by auto
    with ih ps have "settled adj ved'" unfolding ved' by (blast intro: settled_Cons)
    with ih nvis show ?thesis by (auto simp: ved')
  qed
next
  case (3 adj vis ved p ps)
  from 3(3) obtain ved1 where a: "dfs_node adj vis ved p = Inr (Some ved1)"
    and b: "dfs_any adj vis ved1 ps = Inr (Some ved')"
    by (auto split: sum.splits option.splits)
  from 3(1) [OF a 3(4,5)] have one: "settled adj ved1" "set vis \<inter> set ved1 = {}"
    "set ved \<subseteq> set ved1" "p \<in> set ved1" by auto
  from 3(2) [OF a refl b one(1,2)] one(3,4) show ?case by auto
qed simp

lemma dfs_total:
  "closed_graph adj \<Longrightarrow> n \<in> set (keys_of adj) \<Longrightarrow> dfs_node adj vis ved n \<noteq> Inl e"
  "closed_graph adj \<Longrightarrow> set ps \<subseteq> set (keys_of adj) \<Longrightarrow> dfs_any adj vis ved ps \<noteq> Inl e"
proof (induction adj vis ved n and adj vis ved ps rule: dfs_node_dfs_any.induct)
  case (1 adj vis ved n)
  then obtain ps where ps: "map_of adj n = Some ps" by (auto dest: map_of_keys_of)
  then have "set ps \<subseteq> set (keys_of adj)" using 1(2) by (auto dest: closed_graphD)
  with 1 ps show ?case
    by (auto simp: dfs_node.simps [of adj vis ved n] split: sum.splits option.splits)
next
  case (3 adj vis ved p ps)
  then show ?case by (auto split: sum.splits option.splits)
qed simp

lemma edges_keys: "(x, y) \<in> edges adj \<Longrightarrow> x \<in> set (keys_of adj)"
  by (auto dest: map_of_in_keys)

lemma finds_cycle_correct:
  assumes "closed_graph adj"
  shows "finds_cycle adj = Inr (\<not> acyclic (edges adj))"
proof (cases "dfs_any adj [] [] (keys_of adj)")
  case (Inl e)
  with dfs_total(2) [OF assms] show ?thesis by blast
next
  case (Inr r)
  show ?thesis
  proof (cases r)
    case None
    with Inr dfs_sound(2) [of adj "[]" "[]"] have "\<not> acyclic (edges adj)"
      by (auto simp: acyclic_def)
    with Inr None show ?thesis by (simp add: finds_cycle_def)
  next
    case (Some ved)
    with Inr dfs_complete(2) [of adj "[]" "[]"]
    have s: "settled adj ved" and k: "set (keys_of adj) \<subseteq> set ved" by (auto simp: settled_def)
    have "acyclic (edges adj)"
    proof (clarsimp simp: acyclic_def)
      fix x assume c: "(x, x) \<in> (edges adj)\<^sup>+"
      then obtain y where "(x, y) \<in> edges adj" by (meson tranclD)
      with k have "x \<in> set ved" by (auto dest: edges_keys)
      with s c show False by (auto simp: settled_def)
    qed
    with Inr Some show ?thesis by (simp add: finds_cycle_def)
  qed
qed

subsection \<open>The worklist search for an ancestor\<close>

text \<open>The head of \<open>todo\<close> is the end of the Python list, where \<open>pop\<close> takes and \<open>extend\<close> adds.\<close>

function ancestor_loop :: "string list dict \<Rightarrow> string \<Rightarrow> string list \<Rightarrow> string list \<Rightarrow> bool res" where
  "ancestor_loop adj a [] seen = Inr False"
| "ancestor_loop adj a (x # todo) seen =
     (if x = a then Inr True
      else if x \<in> set seen then ancestor_loop adj a todo seen
      else (case map_of adj x of
              None \<Rightarrow> Inl KeyError
            | Some ps \<Rightarrow> ancestor_loop adj a (rev ps @ todo) (x # seen)))"
  by pat_completeness auto
termination
  by (relation "measures [\<lambda>(adj, _, _, seen). card (set (keys_of adj) - set seen),
                          \<lambda>(_, _, todo, _). length todo]")
     (auto dest: card_keys_less)

lemma ancestor_loop_sound:
  "ancestor_loop adj a todo seen = Inr True \<Longrightarrow> \<exists>t\<in>set todo. (t, a) \<in> (edges adj)\<^sup>*"
proof (induction adj a todo seen rule: ancestor_loop.induct)
  case (2 adj a x todo seen)
  then show ?case
    by (auto split: if_splits option.splits intro: converse_rtrancl_into_rtrancl)
qed simp

lemma ancestor_loop_complete:
  "ancestor_loop adj a todo seen = Inr False \<Longrightarrow>
     \<forall>s\<in>set seen. s \<noteq> a \<and> edges adj `` {s} \<subseteq> set seen \<union> set todo \<Longrightarrow>
     \<forall>s\<in>set seen \<union> set todo. (s, a) \<notin> (edges adj)\<^sup>*"
proof (induction adj a todo seen rule: ancestor_loop.induct)
  case (1 adj a seen)
  have "t \<in> set seen" if "(s, t) \<in> (edges adj)\<^sup>*" and "s \<in> set seen" for s t
    using that by induction (use 1(2) in auto)
  with 1(2) show ?case by auto
next
  case (2 adj a x todo seen)
  show ?case
  proof (cases "x \<in> set seen")
    case True
    with 2 show ?thesis by (auto split: if_splits)
  next
    case False
    with 2(3) obtain ps where ps: "map_of adj x = Some ps" and xa: "x \<noteq> a"
      and rec: "ancestor_loop adj a (rev ps @ todo) (x # seen) = Inr False"
      by (auto split: if_splits option.splits)
    have "\<forall>s\<in>set (x # seen). s \<noteq> a \<and> edges adj `` {s} \<subseteq> set (x # seen) \<union> set (rev ps @ todo)"
      using 2(4) ps xa by auto
    with 2(2) [OF xa False ps rec] show ?thesis by auto
  qed
qed

lemma ancestor_loop_total:
  "closed_graph adj \<Longrightarrow> set todo \<subseteq> set (keys_of adj) \<Longrightarrow> ancestor_loop adj a todo seen \<noteq> Inl e"
proof (induction adj a todo seen rule: ancestor_loop.induct)
  case (2 adj a x todo seen)
  then obtain ps where ps: "map_of adj x = Some ps" by (auto dest: map_of_keys_of)
  then have "set ps \<subseteq> set (keys_of adj)" using 2(3) by (auto dest: closed_graphD)
  with 2 ps show ?case by auto
qed simp

definition reaches :: "string list dict \<Rightarrow> string \<Rightarrow> string \<Rightarrow> bool res" where
  "reaches adj a d =
     (if a = d then Inr True
      else bind_res (getitem adj d) (\<lambda>ps. ancestor_loop adj a (rev ps) []))"

lemma reaches_correct:
  assumes "closed_graph adj" and "d \<in> set (keys_of adj)"
  shows "reaches adj a d = Inr ((d, a) \<in> (edges adj)\<^sup>*)"
proof (cases "a = d")
  case True
  then show ?thesis by (simp add: reaches_def)
next
  case False
  from assms(2) obtain ps where ps: "map_of adj d = Some ps" by (auto dest: map_of_keys_of)
  have sub: "set (rev ps) \<subseteq> set (keys_of adj)" using assms(1) ps by (auto dest: closed_graphD)
  have step: "(d, a) \<in> (edges adj)\<^sup>* \<longleftrightarrow> (\<exists>p\<in>set ps. (p, a) \<in> (edges adj)\<^sup>*)"
  proof
    assume "(d, a) \<in> (edges adj)\<^sup>*"
    then obtain p where "(d, p) \<in> edges adj" and "(p, a) \<in> (edges adj)\<^sup>*"
      using False by (metis converse_rtranclE)
    with ps show "\<exists>p\<in>set ps. (p, a) \<in> (edges adj)\<^sup>*" by (auto elim!: edgesE)
  next
    assume "\<exists>p\<in>set ps. (p, a) \<in> (edges adj)\<^sup>*"
    with ps show "(d, a) \<in> (edges adj)\<^sup>*" by (meson converse_rtrancl_into_rtrancl edgesI)
  qed
  obtain b where b: "ancestor_loop adj a (rev ps) [] = Inr b"
    using ancestor_loop_total [OF assms(1) sub] by (cases "ancestor_loop adj a (rev ps) []") auto
  have "b \<longleftrightarrow> (\<exists>p\<in>set ps. (p, a) \<in> (edges adj)\<^sup>*)"
    using ancestor_loop_sound [of adj a "rev ps" "[]"] ancestor_loop_complete [of adj a "rev ps" "[]"] b
    by (cases b) auto
  with False ps b step show ?thesis by (simp add: reaches_def getitem_def)
qed

subsection \<open>Adding a fresh node\<close>

lemma edges_setitem_new:
  assumes "map_of adj n = None"
  shows "edges (setitem n ps adj) = edges adj \<union> {n} \<times> set ps"
  using assms by (auto simp: edges_def split: if_splits)

lemma acyclic_new_node:
  assumes "acyclic r" and "n \<notin> Range r" and "n \<notin> P"
  shows "acyclic (r \<union> {n} \<times> P)"
proof (rule acyclicI, rule allI, rule notI)
  fix x assume c: "(x, x) \<in> (r \<union> {n} \<times> P)\<^sup>+"
  have nr: "n \<notin> Range (r \<union> {n} \<times> P)" using assms(2,3) by auto
  have "(y, z) \<in> r\<^sup>+" if "(y, z) \<in> (r \<union> {n} \<times> P)\<^sup>+" and "y \<noteq> n" for y z
    using that
  proof induction
    case (base z)
    then show ?case by auto
  next
    case (step z w)
    have "z \<noteq> n" using step(1) nr by (metis tranclE RangeI)
    with step show ?case by (auto intro: trancl_into_trancl)
  qed
  moreover have "x \<noteq> n" using c nr by (metis tranclE RangeI)
  ultimately show False using c assms(1) by (auto simp: acyclic_def)
qed

text \<open>A new node adds no path between nodes that were there before.\<close>

lemma rtrancl_new_node:
  assumes "n \<notin> Range r" and "n \<notin> P" and "y \<noteq> n"
  shows "(y, z) \<in> (r \<union> {n} \<times> P)\<^sup>* \<longleftrightarrow> (y, z) \<in> r\<^sup>*"
proof
  assume "(y, z) \<in> (r \<union> {n} \<times> P)\<^sup>*"
  then show "(y, z) \<in> r\<^sup>*"
  proof induction
    case (step u w)
    have "u \<noteq> n"
      using step(1) assms(3) by (cases rule: rtranclE) (use assms(1,2) in \<open>auto simp: Range_iff\<close>)
    with step show ?case by (auto intro: rtrancl_into_rtrancl)
  qed simp
next
  assume "(y, z) \<in> r\<^sup>*"
  then show "(y, z) \<in> (r \<union> {n} \<times> P)\<^sup>*" by (rule rtrancl_mono [THEN subsetD, rotated]) auto
qed

end
