(* ===== verification/Core_Graph.thy ===== *)
theory Core_Graph
  imports Core_State Graph_Search
begin

section \<open>Programs, sessions and the continuation graph\<close>

text \<open>
  The "identity / graph" operations of \<open>ContinuityCore\<close>, with \<open>_has_cycle\<close>, \<open>is_ancestor\<close> and
  \<open>_refresh_state_lifecycles\<close>. Continuations form a graph by their parents, all of one session;
  a reusable State belongs to its origin Continuation, and its lifecycle is derived from the
  lifecycles of the Continuations that descend from the origin. The theory proves that the graph
  stays acyclic, so that the check for a cycle never fires, and that the cached lifecycle of every
  State is at all times the one its descendants imply.
\<close>

subsection \<open>Programs and sessions\<close>

definition create_program :: "core \<Rightarrow> string \<Rightarrow> (core, Program) outcome" where
  "create_program g i =
     reads g (unique g i) (\<lambda>_.
     let p = \<lparr>prog_id = i, prog_status = ProgramStatus.CREATED\<rparr>
     in (Inr p, g\<lparr>programs := setitem i p (programs g)\<rparr>))"

definition set_program_status :: "core \<Rightarrow> string \<Rightarrow> ProgramStatus \<Rightarrow> (core, Program) outcome" where
  "set_program_status g program_id status =
     reads g (getitem (programs g) program_id) (\<lambda>p.
     if prog_status p \<in> {ProgramStatus.COMPLETED, ProgramStatus.FAILED, ProgramStatus.CANCELLED} \<and>
        status \<noteq> prog_status p
     then (Inl InvalidTransition, g)
     else let p' = p\<lparr>prog_status := status\<rparr>
          in (Inr p', g\<lparr>programs := setitem program_id p' (programs g)\<rparr>))"

definition create_session :: "core \<Rightarrow> string \<Rightarrow> string \<Rightarrow> (core, Session) outcome" where
  "create_session g i program_id =
     reads g (unique g i) (\<lambda>_.
     reads g (getitem (programs g) program_id) (\<lambda>_.
     let s = \<lparr>sess_id = i, sess_program_id = program_id\<rparr>
     in (Inr s, g\<lparr>sessions := setitem i s (sessions g)\<rparr>)))"

subsection \<open>Searching the graph\<close>

definition parent_graph :: "Continuation dict \<Rightarrow> string list dict" where
  "parent_graph cs = map (\<lambda>(k, c). (k, cont_parent_ids c)) cs"

definition session_nodes :: "Continuation dict \<Rightarrow> string \<Rightarrow> Continuation dict" where
  "session_nodes cs sid = filter (\<lambda>(_, c). cont_session_id c = sid) cs"

definition session_graph :: "Continuation dict \<Rightarrow> string \<Rightarrow> string list dict" where
  "session_graph cs sid =
     (let nodes = session_nodes cs sid
      in map (\<lambda>(k, c). (k, filter (has_key nodes) (cont_parent_ids c))) nodes)"

definition has_cycle :: "core \<Rightarrow> string \<Rightarrow> bool res" where
  "has_cycle g session_id = finds_cycle (session_graph (continuations g) session_id)"

definition is_ancestor :: "core \<Rightarrow> string \<Rightarrow> string \<Rightarrow> bool res" where
  "is_ancestor g ancestor_id descendant_id =
     reaches (parent_graph (continuations g)) ancestor_id descendant_id"

subsection \<open>The derived lifecycle of States\<close>

fun lifecycle_rank :: "ContinuationLifecycle \<Rightarrow> StateLifecycle option" where
  "lifecycle_rank ContinuationLifecycle.ACTIVE = Some StateLifecycle.ACTIVE"
| "lifecycle_rank ContinuationLifecycle.WAITING = Some StateLifecycle.WAITING"
| "lifecycle_rank ContinuationLifecycle.SPECULATIVE = Some StateLifecycle.SPECULATIVE"
| "lifecycle_rank _ = None"

definition pick_lifecycle :: "StateLifecycle list \<Rightarrow> StateLifecycle" where
  "pick_lifecycle candidates =
     (if StateLifecycle.ACTIVE \<in> set candidates then StateLifecycle.ACTIVE
      else if StateLifecycle.WAITING \<in> set candidates then StateLifecycle.WAITING
      else if StateLifecycle.SPECULATIVE \<in> set candidates then StateLifecycle.SPECULATIVE
      else StateLifecycle.TERMINAL)"

definition state_lifecycle_of :: "core \<Rightarrow> ReusableState \<Rightarrow> StateLifecycle res" where
  "state_lifecycle_of g x =
     bind_res (filter_res (\<lambda>c. is_ancestor g (st_origin_continuation_id x) (cont_id c))
                 (values_of (continuations g)))
       (\<lambda>cs. Inr (pick_lifecycle (List.map_filter (\<lambda>c. lifecycle_rank (cont_lifecycle c)) cs)))"

fun refresh_loop :: "core \<Rightarrow> (string \<times> ReusableState) list \<Rightarrow> (core, unit) outcome" where
  "refresh_loop g [] = (Inr (), g)"
| "refresh_loop g ((sid, x) # items) =
     reads g (state_lifecycle_of g x) (\<lambda>life.
     refresh_loop (g\<lparr>states := setitem sid (x\<lparr>st_lifecycle := life\<rparr>) (states g)\<rparr>) items)"

definition refresh_state_lifecycles :: "core \<Rightarrow> (core, unit) outcome" where
  "refresh_state_lifecycles g = refresh_loop g (states g)"

subsection \<open>Continuations\<close>

definition check_parents :: "core \<Rightarrow> string \<Rightarrow> string list \<Rightarrow> unit res" where
  "check_parents g session_id parents =
     for_each parents (\<lambda>pid.
       bind_res (getitem (continuations g) pid) (\<lambda>p.
       raise_if (cont_session_id p \<noteq> session_id) SemanticViolation))"

definition create_continuation ::
  "core \<Rightarrow> string \<Rightarrow> string \<Rightarrow> string list \<Rightarrow> ContinuationLifecycle \<Rightarrow> (core, Continuation) outcome" where
  "create_continuation g i session_id parent_ids lifecycle =
     reads g (unique g i) (\<lambda>_.
     reads g (getitem (sessions g) session_id) (\<lambda>_.
     let parents = frozenset parent_ids in
     reads g (check_parents g session_id parents) (\<lambda>_.
     let c = \<lparr>cont_id = i, cont_session_id = session_id, cont_parent_ids = parents,
              cont_lifecycle = lifecycle\<rparr>;
         g1 = g\<lparr>continuations := setitem i c (continuations g)\<rparr>
     in reads g1 (has_cycle g1 session_id) (\<lambda>cyc.
        if cyc then (Inl SemanticViolation, g1\<lparr>continuations := delitem i (continuations g1)\<rparr>)
        else calls (refresh_state_lifecycles g1) (\<lambda>_ g2. (Inr c, g2))))))"

definition set_continuation_lifecycle ::
  "core \<Rightarrow> string \<Rightarrow> ContinuationLifecycle \<Rightarrow> (core, Continuation) outcome" where
  "set_continuation_lifecycle g continuation_id lifecycle =
     reads g (getitem (continuations g) continuation_id) (\<lambda>c.
     if cont_lifecycle c \<in> {ContinuationLifecycle.TERMINAL, ContinuationLifecycle.ABANDONED} \<and>
        lifecycle \<noteq> cont_lifecycle c
     then (Inl InvalidTransition, g)
     else let c' = c\<lparr>cont_lifecycle := lifecycle\<rparr>
          in calls (refresh_state_lifecycles
                      (g\<lparr>continuations := setitem continuation_id c' (continuations g)\<rparr>))
               (\<lambda>_ g2. (Inr c', g2)))"

definition resume_after_wait :: "core \<Rightarrow> string \<Rightarrow> string \<Rightarrow> (core, Continuation) outcome" where
  "resume_after_wait g waiting_id child_id =
     reads g (getitem (continuations g) waiting_id) (\<lambda>c.
     if cont_lifecycle c \<noteq> ContinuationLifecycle.WAITING then (Inl InvalidTransition, g)
     else
       calls (create_continuation g child_id (cont_session_id c) [waiting_id]
                ContinuationLifecycle.ACTIVE)
         (\<lambda>child g1.
          calls (refresh_state_lifecycles
                   (g1\<lparr>continuations :=
                        setitem waiting_id (c\<lparr>cont_lifecycle := ContinuationLifecycle.TERMINAL\<rparr>)
                          (continuations g1)\<rparr>))
            (\<lambda>_ g2. (Inr child, g2))))"

subsection \<open>The invariant of the graph\<close>

definition parents_rel :: "Continuation dict \<Rightarrow> (string \<times> string) set" where
  "parents_rel cs = edges (parent_graph cs)"

definition graph_ok :: "Session dict \<Rightarrow> Continuation dict \<Rightarrow> bool" where
  "graph_ok ss cs \<longleftrightarrow>
     (\<forall>k c. map_of cs k = Some c \<longrightarrow>
        (\<exists>s. map_of ss (cont_session_id c) = Some s) \<and>
        (\<forall>p\<in>set (cont_parent_ids c). \<exists>q. map_of cs p = Some q \<and> cont_session_id q = cont_session_id c)) \<and>
     acyclic (parents_rel cs)"

lemma map_of_parent_graph: "map_of (parent_graph cs) k = map_option cont_parent_ids (map_of cs k)"
  by (simp add: parent_graph_def map_of_map_snd)

lemma keys_of_parent_graph [simp]: "keys_of (parent_graph cs) = keys_of cs"
  by (simp add: parent_graph_def)

lemma parents_rel_iff:
  "(x, p) \<in> parents_rel cs \<longleftrightarrow> (\<exists>c. map_of cs x = Some c \<and> p \<in> set (cont_parent_ids c))"
  by (auto simp: parents_rel_def edges_def map_of_parent_graph)

lemma parents_rel_cong:
  "(\<And>k. map_option cont_parent_ids (map_of cs k) = map_option cont_parent_ids (map_of cs' k)) \<Longrightarrow>
     parents_rel cs = parents_rel cs'"
  by (simp add: parents_rel_def edges_def map_of_parent_graph)

lemma graph_ok_closed: "graph_ok ss cs \<Longrightarrow> closed_graph (parent_graph cs)"
  unfolding closed_graph_def
  by (auto simp: graph_ok_def parents_rel_iff map_of_parent_graph edges_def dest: map_of_in_keys)

lemma is_ancestor_correct:
  assumes "graph_ok ss (continuations g)" and "map_of (continuations g) d = Some c"
  shows "is_ancestor g a d = Inr ((d, a) \<in> (parents_rel (continuations g))\<^sup>*)"
  unfolding is_ancestor_def parents_rel_def
  by (rule reaches_correct) (use assms in \<open>auto intro: graph_ok_closed map_of_in_keys\<close>)

text \<open>The check for a cycle is exact, and never fires on a graph that satisfies the invariant.\<close>

lemma closed_session_graph: "closed_graph (session_graph cs sid)"
  unfolding closed_graph_def
proof (clarify elim!: edgesE)
  fix x p ps
  assume "map_of (session_graph cs sid) x = Some ps" and "p \<in> set ps"
  then have "has_key (session_nodes cs sid) p"
    by (auto simp: session_graph_def Let_def map_of_map_snd)
  then show "p \<in> set (keys_of (session_graph cs sid))"
    by (simp add: has_key_iff session_graph_def Let_def)
qed

lemma has_cycle_correct:
  "has_cycle g sid = Inr (\<not> acyclic (edges (session_graph (continuations g) sid)))"
  unfolding has_cycle_def by (rule finds_cycle_correct [OF closed_session_graph])

lemma map_of_session_nodes:
  "distinct (keys_of cs) \<Longrightarrow>
     map_of (session_nodes cs sid) k =
       (case map_of cs k of None \<Rightarrow> None | Some c \<Rightarrow> if cont_session_id c = sid then Some c else None)"
  by (induction cs) (auto simp: session_nodes_def keys_of_def map_of_eq_None_iff split: option.split
      dest: map_of_SomeD)

lemma session_graph_sub:
  assumes "distinct (keys_of cs)"
  shows "edges (session_graph cs sid) \<subseteq> parents_rel cs"
  using assms
  by (auto simp: edges_def parents_rel_iff session_graph_def Let_def map_of_map_snd
      map_of_session_nodes split: option.splits if_splits)

lemma no_cycle:
  assumes "graph_ok ss (continuations g)" and "distinct (keys_of (continuations g))"
  shows "has_cycle g sid = Inr False"
  using assms session_graph_sub [OF assms(2)]
  by (auto simp: has_cycle_correct graph_ok_def intro: acyclic_subset)

subsection \<open>What the refresh computes\<close>

text \<open>
  The specification of a State's lifecycle: \<open>ACTIVE\<close> if some descendant of its origin is active,
  else \<open>WAITING\<close>, else \<open>SPECULATIVE\<close>, and \<open>TERMINAL\<close> if no descendant is live.
\<close>

definition descends :: "Continuation dict \<Rightarrow> string \<Rightarrow> string \<Rightarrow> bool" where
  "descends cs d a \<longleftrightarrow> (d, a) \<in> (parents_rel cs)\<^sup>*"

definition live_below :: "Continuation dict \<Rightarrow> string \<Rightarrow> ContinuationLifecycle \<Rightarrow> bool" where
  "live_below cs origin life \<longleftrightarrow>
     (\<exists>k c. map_of cs k = Some c \<and> descends cs k origin \<and> cont_lifecycle c = life)"

definition derived_lifecycle :: "Continuation dict \<Rightarrow> string \<Rightarrow> StateLifecycle" where
  "derived_lifecycle cs origin =
     (if live_below cs origin ContinuationLifecycle.ACTIVE then StateLifecycle.ACTIVE
      else if live_below cs origin ContinuationLifecycle.WAITING then StateLifecycle.WAITING
      else if live_below cs origin ContinuationLifecycle.SPECULATIVE then StateLifecycle.SPECULATIVE
      else StateLifecycle.TERMINAL)"

definition relife :: "Continuation dict \<Rightarrow> ReusableState dict \<Rightarrow> ReusableState dict" where
  "relife cs d =
     map (\<lambda>(k, x). (k, x\<lparr>st_lifecycle := derived_lifecycle cs (st_origin_continuation_id x)\<rparr>)) d"

definition fresh_lifecycles :: "Continuation dict \<Rightarrow> ReusableState dict \<Rightarrow> bool" where
  "fresh_lifecycles cs d \<longleftrightarrow>
     (\<forall>k x. map_of d k = Some x \<longrightarrow>
        st_lifecycle x = derived_lifecycle cs (st_origin_continuation_id x))"

definition graph_inv :: "core \<Rightarrow> bool" where
  "graph_inv g \<longleftrightarrow> ids_ok g \<and> graph_ok (sessions g) (continuations g)"

lemma graph_invD:
  assumes "graph_inv g"
  shows "graph_ok (sessions g) (continuations g)" "distinct (keys_of (continuations g))"
    "keyed cont_id (continuations g)" "distinct (keys_of (states g))"
  using assms by (auto simp: graph_inv_def dest: ids_okD)

lemma map_of_relife:
  "map_of (relife cs d) k =
     map_option (\<lambda>x. x\<lparr>st_lifecycle := derived_lifecycle cs (st_origin_continuation_id x)\<rparr>) (map_of d k)"
  by (simp add: relife_def map_of_map_snd)

lemma keys_of_relife [simp]: "keys_of (relife cs d) = keys_of d"
  by (simp add: relife_def)

lemma fresh_lifecycles_relife: "fresh_lifecycles cs (relife cs d)"
  by (auto simp: fresh_lifecycles_def map_of_relife)

lemma is_ancestor_descends:
  assumes "graph_inv g" and "map_of (continuations g) d = Some c"
  shows "is_ancestor g a d = Inr (descends (continuations g) d a)"
  using is_ancestor_correct [OF graph_invD(1) [OF assms(1)] assms(2)] by (simp add: descends_def)

lemma live_below_set:
  assumes "distinct (keys_of cs)" and "keyed cont_id cs"
  shows "live_below cs a life \<longleftrightarrow>
    (\<exists>c\<in>set (values_of cs). descends cs (cont_id c) a \<and> cont_lifecycle c = life)"
  using assms(2) unfolding live_below_def keyed_def Bex_def values_of_iff [OF assms(1)] by metis

lemma lifecycle_rank_eq:
  "lifecycle_rank l = Some r \<longleftrightarrow>
     l = ContinuationLifecycle.ACTIVE \<and> r = StateLifecycle.ACTIVE \<or>
     l = ContinuationLifecycle.WAITING \<and> r = StateLifecycle.WAITING \<or>
     l = ContinuationLifecycle.SPECULATIVE \<and> r = StateLifecycle.SPECULATIVE"
  by (cases l) auto

lemma in_map_filter: "y \<in> set (List.map_filter f xs) \<longleftrightarrow> (\<exists>x\<in>set xs. f x = Some y)"
  by (auto simp: List.map_filter_def image_iff)

lemma state_lifecycle_of_correct:
  assumes "graph_inv g"
  shows "state_lifecycle_of g x =
    Inr (derived_lifecycle (continuations g) (st_origin_continuation_id x))"
proof -
  let ?cs = "continuations g" and ?o = "st_origin_continuation_id x"
  note inv = graph_invD [OF assms]
  have "is_ancestor g ?o (cont_id c) = Inr (descends ?cs (cont_id c) ?o)"
    if "c \<in> set (values_of ?cs)" for c
  proof -
    from that inv(2) obtain k where k: "map_of ?cs k = Some c" by (auto simp: values_of_iff)
    with inv(3) have "cont_id c = k" by (rule keyedD)
    with k is_ancestor_descends [OF assms] show ?thesis by simp
  qed
  then have "filter_res (\<lambda>c. is_ancestor g ?o (cont_id c)) (values_of ?cs) =
      Inr (filter (\<lambda>c. descends ?cs (cont_id c) ?o) (values_of ?cs))"
    by (rule filter_res_Inr)
  then show ?thesis
    by (simp add: state_lifecycle_of_def pick_lifecycle_def derived_lifecycle_def in_map_filter
        lifecycle_rank_eq live_below_set [OF inv(2,3)]) auto
qed

lemma setitem_middle:
  "k \<notin> set (keys_of d1) \<Longrightarrow> setitem k v' (d1 @ (k, v) # d2) = d1 @ (k, v') # d2"
  by (induction d1) (auto simp: keys_of_def)

lemma refresh_loop_correct:
  assumes "graph_inv g" and "states g = d1 @ d2"
  shows "refresh_loop g d2 = (Inr (), g\<lparr>states := d1 @ relife (continuations g) d2\<rparr>)"
  using assms
proof (induction d2 arbitrary: g d1)
  case Nil
  then show ?case by (simp add: relife_def)
next
  case (Cons kx d2)
  obtain k x where kx: "kx = (k, x)" by force
  let ?x = "x\<lparr>st_lifecycle := derived_lifecycle (continuations g) (st_origin_continuation_id x)\<rparr>"
  let ?g = "g\<lparr>states := setitem k ?x (states g)\<rparr>"
  have "distinct (keys_of (states g))" by (rule graph_invD(4) [OF Cons.prems(1)])
  with Cons.prems(2) kx have "k \<notin> set (keys_of d1)" by (auto simp: keys_of_def)
  with Cons.prems(2) kx have st: "states ?g = (d1 @ [(k, ?x)]) @ d2" by (simp add: setitem_middle)
  have mid: "map_of (states g) k = Some x"
    using Cons.prems(2) kx \<open>k \<notin> set (keys_of d1)\<close> by (simp add: map_add_def map_of_None_keys [symmetric])
  then have "all_ids ?g = all_ids g" by (simp add: all_ids_def keys_of_replace)
  moreover have "st_id x = k" using Cons.prems(1) mid by (auto simp: graph_inv_def ids_ok_def keyed_def)
  ultimately have inv: "graph_inv ?g" using Cons.prems(1) by (simp add: graph_inv_def ids_ok_def keyed_setitem)
  have "refresh_loop g (kx # d2) = refresh_loop ?g d2"
    using kx by (simp add: state_lifecycle_of_correct [OF Cons.prems(1)])
  also have "\<dots> = (Inr (), ?g\<lparr>states := (d1 @ [(k, ?x)]) @ relife (continuations ?g) d2\<rparr>)"
    by (rule Cons.IH [OF inv st])
  finally show ?case using kx by (simp add: relife_def)
qed

lemma refresh_correct:
  assumes "graph_inv g"
  shows "refresh_state_lifecycles g = (Inr (), g\<lparr>states := relife (continuations g) (states g)\<rparr>)"
  using refresh_loop_correct [OF assms, of "[]" "states g"] by (simp add: refresh_state_lifecycles_def)

subsection \<open>The operations on continuations\<close>

text \<open>A continuation whose parents and session are unchanged leaves the graph as it is.\<close>

lemma graph_ok_replace:
  assumes "graph_ok ss cs" and "map_of cs k = Some c" and "cont_parent_ids c' = cont_parent_ids c"
    and "cont_session_id c' = cont_session_id c"
  shows "graph_ok ss (setitem k c' cs)" and "parents_rel (setitem k c' cs) = parents_rel cs"
proof -
  show rel: "parents_rel (setitem k c' cs) = parents_rel cs"
    by (rule parents_rel_cong) (use assms(2,3) in auto)
  have same: "\<exists>x. map_of cs j = Some x \<and> cont_session_id y = cont_session_id x \<and>
      cont_parent_ids y = cont_parent_ids x" if "map_of (setitem k c' cs) j = Some y" for j y
    using that assms(2-4) by (auto split: if_splits)
  have here: "\<exists>y. map_of (setitem k c' cs) j = Some y \<and> cont_session_id y = cont_session_id x"
    if "map_of cs j = Some x" for j x
    using that assms(2,4) by (cases "j = k") auto
  show "graph_ok ss (setitem k c' cs)"
    using assms(1) unfolding graph_ok_def rel by (metis same here)
qed

lemma graph_ok_new:
  assumes ok: "graph_ok ss cs" and new: "map_of cs i = None" and s: "map_of ss (cont_session_id c) = Some s"
    and ps: "\<forall>p\<in>set (cont_parent_ids c). \<exists>q. map_of cs p = Some q \<and> cont_session_id q = cont_session_id c"
  shows "graph_ok ss (setitem i c cs)"
    and "parents_rel (setitem i c cs) = parents_rel cs \<union> {i} \<times> set (cont_parent_ids c)"
proof -
  show rel: "parents_rel (setitem i c cs) = parents_rel cs \<union> {i} \<times> set (cont_parent_ids c)"
    using new by (auto simp: parents_rel_iff split: if_splits)
  have "i \<notin> Range (parents_rel cs)" using ok new by (fastforce simp: graph_ok_def parents_rel_iff)
  moreover have "i \<notin> set (cont_parent_ids c)" using ps new by auto
  ultimately have "acyclic (parents_rel (setitem i c cs))"
    unfolding rel using ok by (intro acyclic_new_node) (auto simp: graph_ok_def)
  moreover have "\<exists>q. map_of (setitem i c cs) p = Some q \<and> cont_session_id q = cont_session_id x"
    if "map_of (setitem i c cs) k = Some x" and "p \<in> set (cont_parent_ids x)" for k x p
  proof -
    from that ok ps new obtain q where "map_of cs p = Some q" and "cont_session_id q = cont_session_id x"
      by (auto simp: graph_ok_def split: if_splits) blast
    with new show ?thesis by auto
  qed
  moreover have "\<exists>s. map_of ss (cont_session_id x) = Some s" if "map_of (setitem i c cs) k = Some x" for k x
    using that ok s by (auto simp: graph_ok_def split: if_splits)
  ultimately show "graph_ok ss (setitem i c cs)" by (simp add: graph_ok_def)
qed

lemma create_program_Inr:
  "create_program g i = (Inr p, g') \<Longrightarrow>
     \<not> id_taken g i \<and> p = \<lparr>prog_id = i, prog_status = ProgramStatus.CREATED\<rparr> \<and>
     g' = g\<lparr>programs := setitem i p (programs g)\<rparr>"
  by (auto simp: create_program_def reads_Inr Let_def)

lemma create_program_Inl: "create_program g i = (Inl e, g') \<Longrightarrow> g' = g"
  by (auto simp: create_program_def reads_Inl Let_def)

lemma set_program_status_Inr:
  "set_program_status g i s = (Inr p', g') \<Longrightarrow>
     \<exists>p. map_of (programs g) i = Some p \<and>
       (prog_status p \<in> {ProgramStatus.COMPLETED, ProgramStatus.FAILED, ProgramStatus.CANCELLED} \<longrightarrow>
          s = prog_status p) \<and>
       p' = p\<lparr>prog_status := s\<rparr> \<and> g' = g\<lparr>programs := setitem i p' (programs g)\<rparr>"
  by (auto simp: set_program_status_def reads_Inr Let_def split: if_splits)

lemma set_program_status_Inl: "set_program_status g i s = (Inl e, g') \<Longrightarrow> g' = g"
  by (auto simp: set_program_status_def reads_Inl Let_def split: if_splits)

lemma create_session_Inr:
  "create_session g i pid = (Inr s, g') \<Longrightarrow>
     \<not> id_taken g i \<and> (\<exists>p. map_of (programs g) pid = Some p) \<and>
     s = \<lparr>sess_id = i, sess_program_id = pid\<rparr> \<and> g' = g\<lparr>sessions := setitem i s (sessions g)\<rparr>"
  by (auto simp: create_session_def reads_Inr Let_def)

lemma create_session_Inl: "create_session g i pid = (Inl e, g') \<Longrightarrow> g' = g"
  by (auto simp: create_session_def reads_Inl Let_def)

lemma check_parents_Inr:
  "check_parents g sid ps = Inr u \<Longrightarrow> p \<in> set ps \<Longrightarrow>
     \<exists>q. map_of (continuations g) p = Some q \<and> cont_session_id q = sid"
  by (auto simp: check_parents_def for_each_Inr bind_res_Inr)

lemma ids_ok_relife:
  assumes "ids_ok g"
  shows "ids_ok (g\<lparr>states := relife cs (states g)\<rparr>)"
proof -
  have "all_ids (g\<lparr>states := relife cs (states g)\<rparr>) = all_ids g" by (simp add: all_ids_def)
  with assms show ?thesis by (auto simp: ids_ok_def keyed_def map_of_relife)
qed

lemma graph_inv_relife: "graph_inv g \<Longrightarrow> graph_inv (g\<lparr>states := relife cs (states g)\<rparr>)"
  by (auto simp: graph_inv_def intro: ids_ok_relife)

lemma graph_inv_new:
  assumes inv: "graph_inv g" and new: "\<not> id_taken g i" and "cont_id c = i"
    and "map_of (sessions g) (cont_session_id c) = Some s"
    and "\<forall>p\<in>set (cont_parent_ids c). \<exists>q. map_of (continuations g) p = Some q \<and>
           cont_session_id q = cont_session_id c"
  shows "graph_inv (g\<lparr>continuations := setitem i c (continuations g)\<rparr>)"
  using assms by (auto simp: graph_inv_def ids_ok_simps not_id_taken intro: graph_ok_new)

lemma graph_inv_replace:
  assumes inv: "graph_inv g" and c: "map_of (continuations g) k = Some c"
    and c': "cont_parent_ids c' = cont_parent_ids c" "cont_session_id c' = cont_session_id c"
      "cont_id c' = cont_id c"
  shows "graph_inv (g\<lparr>continuations := setitem k c' (continuations g)\<rparr>)"
proof -
  have "all_ids (g\<lparr>continuations := setitem k c' (continuations g)\<rparr>) = all_ids g"
    using c by (simp add: all_ids_def keys_of_replace)
  moreover have "cont_id c = k" using inv c by (auto dest!: graph_invD(3) keyedD)
  ultimately show ?thesis
    using inv c' graph_ok_replace(1) [OF graph_invD(1) [OF inv] c c'(1,2)]
    by (simp add: graph_inv_def ids_ok_def keyed_setitem)
qed

text \<open>
  A new continuation: the check for a cycle after the insertion never fires, so the roll-back that
  follows it is never taken, and every exception is raised before anything is written.
\<close>

definition add_continuation :: "core \<Rightarrow> Continuation \<Rightarrow> core" where
  "add_continuation g c =
     (let cs = setitem (cont_id c) c (continuations g)
      in g\<lparr>continuations := cs, states := relife cs (states g)\<rparr>)"

lemma create_continuation_cases:
  assumes inv: "graph_inv g"
  shows "create_continuation g i sid ps life =
    (if id_taken g i then (Inl SemanticViolation, g)
     else reads g (getitem (sessions g) sid) (\<lambda>_.
          reads g (check_parents g sid (frozenset ps)) (\<lambda>_.
          let c = \<lparr>cont_id = i, cont_session_id = sid, cont_parent_ids = frozenset ps,
                   cont_lifecycle = life\<rparr>
          in (Inr c, add_continuation g c))))"
proof (cases "id_taken g i")
  case False
  note new = this
  show ?thesis
  proof (cases "getitem (sessions g) sid")
    case (Inr s)
    show ?thesis
    proof (cases "check_parents g sid (frozenset ps)")
      case ps: (Inr u)
      let ?c = "\<lparr>cont_id = i, cont_session_id = sid, cont_parent_ids = frozenset ps, cont_lifecycle = life\<rparr>"
      let ?g = "g\<lparr>continuations := setitem i ?c (continuations g)\<rparr>"
      have inv1: "graph_inv ?g"
        by (rule graph_inv_new [OF inv new]) (use Inr check_parents_Inr [OF ps] in auto)
      have "has_cycle ?g sid = Inr False" by (rule no_cycle [OF graph_invD(1,2) [OF inv1]])
      with new Inr ps refresh_correct [OF inv1] show ?thesis
        by (simp add: create_continuation_def unique_def raise_if_def add_continuation_def getitem_def Let_def)
    qed (use new Inr in \<open>simp add: create_continuation_def unique_def getitem_def\<close>)
  qed (use new in \<open>simp add: create_continuation_def unique_def getitem_def\<close>)
qed (simp add: create_continuation_def unique_def)

lemma create_continuation_Inl:
  "graph_inv g \<Longrightarrow> create_continuation g i sid ps life = (Inl e, g') \<Longrightarrow> g' = g"
  by (auto simp: create_continuation_cases reads_Inl Let_def split: if_splits)

lemma create_continuation_Inr:
  assumes inv: "graph_inv g" and "create_continuation g i sid ps life = (Inr c, g')"
  shows "\<not> id_taken g i" "\<exists>s. map_of (sessions g) sid = Some s"
    "\<And>p. p \<in> set ps \<Longrightarrow> \<exists>q. map_of (continuations g) p = Some q \<and> cont_session_id q = sid"
    "c = \<lparr>cont_id = i, cont_session_id = sid, cont_parent_ids = frozenset ps, cont_lifecycle = life\<rparr>"
    "g' = add_continuation g c"
  using assms(2) check_parents_Inr [of g sid "frozenset ps"]
  by (auto simp: create_continuation_cases [OF inv] reads_Inr Let_def split: if_splits)

lemma add_continuation_inv:
  assumes "graph_inv g" and "create_continuation g i sid ps life = (Inr c, g')"
  shows "graph_inv g'"
proof -
  note new = create_continuation_Inr [OF assms]
  from new have "graph_inv (g\<lparr>continuations := setitem i c (continuations g)\<rparr>)"
    by (auto intro!: graph_inv_new [OF assms(1)])
  from graph_inv_relife [OF this] show ?thesis
    using new(4,5) by (simp add: add_continuation_def Let_def)
qed

text \<open>A change of lifecycle, and the two-step resumption of a waiting continuation.\<close>

definition change_lifecycle :: "core \<Rightarrow> string \<Rightarrow> Continuation \<Rightarrow> core" where
  "change_lifecycle g k c =
     (let cs = setitem k c (continuations g)
      in g\<lparr>continuations := cs, states := relife cs (states g)\<rparr>)"

lemma set_continuation_lifecycle_cases:
  assumes inv: "graph_inv g"
  shows "set_continuation_lifecycle g k life =
    reads g (getitem (continuations g) k) (\<lambda>c.
    if cont_lifecycle c \<in> {ContinuationLifecycle.TERMINAL, ContinuationLifecycle.ABANDONED} \<and>
       life \<noteq> cont_lifecycle c
    then (Inl InvalidTransition, g)
    else (Inr (c\<lparr>cont_lifecycle := life\<rparr>), change_lifecycle g k (c\<lparr>cont_lifecycle := life\<rparr>)))"
proof (cases "getitem (continuations g) k")
  case (Inr c)
  then have "graph_inv (g\<lparr>continuations := setitem k (c\<lparr>cont_lifecycle := life\<rparr>) (continuations g)\<rparr>)"
    by (auto intro!: graph_inv_replace [OF inv])
  from refresh_correct [OF this] Inr show ?thesis
    by (cases "life = cont_lifecycle c")
       (simp_all add: set_continuation_lifecycle_def change_lifecycle_def getitem_def Let_def)
qed (simp add: set_continuation_lifecycle_def getitem_def)

lemma set_continuation_lifecycle_Inl:
  "graph_inv g \<Longrightarrow> set_continuation_lifecycle g k life = (Inl e, g') \<Longrightarrow> g' = g"
  by (auto simp: set_continuation_lifecycle_cases reads_Inl split: if_splits)

lemma set_continuation_lifecycle_Inr:
  "graph_inv g \<Longrightarrow> set_continuation_lifecycle g k life = (Inr c', g') \<Longrightarrow>
     \<exists>c. map_of (continuations g) k = Some c \<and>
       (cont_lifecycle c \<in> {ContinuationLifecycle.TERMINAL, ContinuationLifecycle.ABANDONED} \<longrightarrow>
          life = cont_lifecycle c) \<and>
       c' = c\<lparr>cont_lifecycle := life\<rparr> \<and> g' = change_lifecycle g k c'"
  by (auto simp: set_continuation_lifecycle_cases reads_Inr split: if_splits)

lemma change_lifecycle_inv:
  assumes "graph_inv g" and "map_of (continuations g) k = Some c"
  shows "graph_inv (change_lifecycle g k (c\<lparr>cont_lifecycle := life\<rparr>))"
proof -
  have "graph_inv (g\<lparr>continuations := setitem k (c\<lparr>cont_lifecycle := life\<rparr>) (continuations g)\<rparr>)"
    by (rule graph_inv_replace [OF assms]) simp_all
  from graph_inv_relife [OF this] show ?thesis by (simp add: change_lifecycle_def Let_def)
qed

lemma resume_after_wait_cases:
  assumes inv: "graph_inv g"
  shows "resume_after_wait g w i =
    reads g (getitem (continuations g) w) (\<lambda>c.
    if cont_lifecycle c \<noteq> ContinuationLifecycle.WAITING then (Inl InvalidTransition, g)
    else calls (create_continuation g i (cont_session_id c) [w] ContinuationLifecycle.ACTIVE)
           (\<lambda>child g1. (Inr child,
              change_lifecycle g1 w (c\<lparr>cont_lifecycle := ContinuationLifecycle.TERMINAL\<rparr>))))"
proof (cases "getitem (continuations g) w")
  case (Inr c)
  then have w: "map_of (continuations g) w = Some c" by simp
  show ?thesis
  proof (cases "create_continuation g i (cont_session_id c) [w] ContinuationLifecycle.ACTIVE")
    case (Pair r g1)
    show ?thesis
    proof (cases r)
      case child: (Inr child)
      with Pair have step: "create_continuation g i (cont_session_id c) [w] ContinuationLifecycle.ACTIVE =
          (Inr child, g1)" by simp
      note new = create_continuation_Inr [OF inv step]
      have "i \<noteq> w" using new(1) w by (auto dest: not_id_taken(3))
      with new(4,5) w have "map_of (continuations g1) w = Some c" by (simp add: add_continuation_def Let_def)
      then have "graph_inv (g1\<lparr>continuations :=
          setitem w (c\<lparr>cont_lifecycle := ContinuationLifecycle.TERMINAL\<rparr>) (continuations g1)\<rparr>)"
        by (rule graph_inv_replace [OF add_continuation_inv [OF inv step]]) simp_all
      from refresh_correct [OF this] Inr step show ?thesis
        by (simp add: resume_after_wait_def change_lifecycle_def getitem_def Let_def)
    qed (use Inr Pair in \<open>simp add: resume_after_wait_def getitem_def\<close>)
  qed
qed (simp add: resume_after_wait_def getitem_def)

lemma resume_after_wait_Inl:
  "graph_inv g \<Longrightarrow> resume_after_wait g w i = (Inl e, g') \<Longrightarrow> g' = g"
  by (auto simp: resume_after_wait_cases reads_Inl calls_Inl dest: create_continuation_Inl split: if_splits)

lemma resume_after_wait_Inr:
  "graph_inv g \<Longrightarrow> resume_after_wait g w i = (Inr child, g') \<Longrightarrow>
     \<exists>c g1. map_of (continuations g) w = Some c \<and> cont_lifecycle c = ContinuationLifecycle.WAITING \<and>
       create_continuation g i (cont_session_id c) [w] ContinuationLifecycle.ACTIVE = (Inr child, g1) \<and>
       map_of (continuations g1) w = Some c \<and>
       g' = change_lifecycle g1 w (c\<lparr>cont_lifecycle := ContinuationLifecycle.TERMINAL\<rparr>)"
  by (auto simp: resume_after_wait_cases reads_Inr calls_Inr split: if_splits)
     (frule (1) create_continuation_Inr(5), frule (1) create_continuation_Inr(4),
      frule (1) create_continuation_Inr(1), auto simp: add_continuation_def Let_def dest: not_id_taken)

text \<open>Refreshing lifecycles that are fresh changes nothing.\<close>

lemma relife_fresh:
  assumes "fresh_lifecycles cs d" and "distinct (keys_of d)"
  shows "relife cs d = d"
  unfolding relife_def
proof (rule map_idI)
  fix e assume e: "e \<in> set d"
  obtain k x where kx: "e = (k, x)" by force
  with e assms have "st_lifecycle x = derived_lifecycle cs (st_origin_continuation_id x)"
    by (simp add: fresh_lifecycles_def items_iff)
  with kx show "(\<lambda>(k, x). (k, x\<lparr>st_lifecycle := derived_lifecycle cs (st_origin_continuation_id x)\<rparr>)) e = e"
    by (cases x) simp
qed

lemma relife_new:
  assumes "fresh_lifecycles cs d" and "distinct (keys_of d)" and "map_of d i = None"
  shows "relife cs (setitem i x d) =
    setitem i (x\<lparr>st_lifecycle := derived_lifecycle cs (st_origin_continuation_id x)\<rparr>) d"
  using relife_fresh [OF assms(1,2)] assms(3) by (simp add: setitem_new relife_def)

end
