(* ===== verification/Core_Evidence.thy ===== *)
theory Core_Evidence
  imports Core_State
begin

section \<open>Evidence and reconciliation\<close>

text \<open>
  \<open>require_evidence\<close> and \<open>reconcile\<close> are those of the class \<open>ContinuityCore\<close> of
  \<open>continuity/core.py\<close>, which override the versions of the base class; \<open>record_evidence\<close> is the
  base class's. Evidence gates every authoritative transition: an action may proceed only on
  evidence that is valid, unexpired, of sufficient authority, of the right scope, and, for the
  actions that affect correctness, unambiguous and free of contradiction.
\<close>

definition REQUIRED_AUTHORITY :: "EvidenceAuthority dict" where
  "REQUIRED_AUTHORITY =
     [(''finalize'', EXACT_OBSERVATION),
      (''consume_state'', EXACT_OBSERVATION),
      (''commit_migration'', EXACT_OBSERVATION),
      (''rank_endpoint'', ESTIMATED),
      (''estimate_reuse'', ESTIMATED)]"

definition CORRECTNESS_SENSITIVE_EVIDENCE_ACTIONS :: "string list" where
  "CORRECTNESS_SENSITIVE_EVIDENCE_ACTIONS = [''finalize'', ''consume_state'', ''commit_migration'']"

definition resolve_now :: "rat \<Rightarrow> rat option \<Rightarrow> rat" where
  "resolve_now clock now = (case now of None \<Rightarrow> clock | Some t \<Rightarrow> t)"

definition known_evidence :: "core \<Rightarrow> string list \<Rightarrow> Evidence list" where
  "known_evidence g ids = List.map_filter (map_of (evidence g)) ids"

text \<open>The four \<open>continue\<close> tests that \<open>_has_conflicting_structured_claims\<close> and \<open>require_evidence\<close> share.\<close>

definition usable :: "EvidenceAuthority \<Rightarrow> rat \<Rightarrow> rat option \<Rightarrow> Evidence \<Rightarrow> bool" where
  "usable req now max_age e \<longleftrightarrow>
     ev_status e = EvidenceStatus.VALID \<and> \<not> ev_authority e < req \<and>
     (case ev_valid_until e of None \<Rightarrow> True | Some u \<Rightarrow> \<not> u < now) \<and>
     (case max_age of None \<Rightarrow> True | Some m \<Rightarrow> \<not> m < now - ev_observed_at e)"

fun conflict_loop ::
  "EvidenceAuthority \<Rightarrow> rat \<Rightarrow> rat option \<Rightarrow> string option list dict \<Rightarrow> Evidence list \<Rightarrow> bool" where
  "conflict_loop req now max_age values_by_key [] = False"
| "conflict_loop req now max_age values_by_key (e # es) =
     (case ev_claim_key e of
        None \<Rightarrow> conflict_loop req now max_age values_by_key es
      | Some k \<Rightarrow>
          (if \<not> usable req now max_age e then conflict_loop req now max_age values_by_key es
           else
             (let old = (case map_of values_by_key k of None \<Rightarrow> [] | Some vs \<Rightarrow> vs);
                  vals = List.insert (ev_claim_value e) old
              in if 1 < length vals then True
                 else conflict_loop req now max_age (setitem k vals values_by_key) es)))"

definition has_conflicting_structured_claims ::
  "string \<Rightarrow> Evidence list \<Rightarrow> rat \<Rightarrow> rat option \<Rightarrow> bool res" where
  "has_conflicting_structured_claims action evs now max_age =
     bind_res (getitem REQUIRED_AUTHORITY action) (\<lambda>req. Inr (conflict_loop req now max_age [] evs))"

definition scope_ok :: "(string \<times> string) list option \<Rightarrow> Evidence \<Rightarrow> bool" where
  "scope_ok required_scope e =
     (case required_scope of None \<Rightarrow> True | Some s \<Rightarrow> subset_list s (ev_scope e))"

definition require_evidence ::
  "rat \<Rightarrow> core \<Rightarrow> string \<Rightarrow> string list \<Rightarrow> rat option \<Rightarrow> (string \<times> string) list option \<Rightarrow>
   rat option \<Rightarrow> Evidence list res" where
  "require_evidence clock g action evidence_ids now_arg required_scope max_age =
     (let now = resolve_now clock now_arg in
      bind_res (getitem REQUIRED_AUTHORITY action) (\<lambda>req.
      let evs = known_evidence g evidence_ids in
      bind_res
        (if List.member CORRECTNESS_SENSITIVE_EVIDENCE_ACTIONS action then
           (if list_ex (\<lambda>e. ev_status e = EvidenceStatus.AMBIGUOUS) evs
            then Inl InsufficientEvidence
            else bind_res (has_conflicting_structured_claims action evs now max_age)
                   (\<lambda>c. raise_if c InsufficientEvidence))
         else Inr ())
        (\<lambda>_.
         let good = filter (\<lambda>e. usable req now max_age e \<and> scope_ok required_scope e) evs in
         if good = [] then Inl InsufficientEvidence else Inr good)))"

definition reconcile ::
  "rat \<Rightarrow> core \<Rightarrow> string \<Rightarrow> string list \<Rightarrow> rat option \<Rightarrow> (string \<times> string) list option \<Rightarrow>
   ReconcileOutcome res" where
  "reconcile clock g action evidence_ids now_arg required_scope =
     (let now = resolve_now clock now_arg; evs = known_evidence g evidence_ids in
      if list_ex (\<lambda>e. ev_status e = EvidenceStatus.AMBIGUOUS) evs
      then Inr ReconcileOutcome.AMBIGUOUS
      else bind_res (has_conflicting_structured_claims action evs now None) (\<lambda>c.
        if c then Inr ReconcileOutcome.AMBIGUOUS
        else (case require_evidence clock g action evidence_ids (Some now) required_scope None of
                Inr _ \<Rightarrow> Inr MATCHED
              | Inl InsufficientEvidence \<Rightarrow> Inr WAIT
              | Inl e \<Rightarrow> Inl e)))"

subsection \<open>Recording evidence\<close>

definition has_derivation :: "Evidence \<Rightarrow> bool" where
  "has_derivation e \<longleftrightarrow> ev_derived_from e \<noteq> [] \<or> truthy (ev_derivation_rule e)"

definition check_derivation_fields :: "Evidence \<Rightarrow> unit res" where
  "check_derivation_fields e =
     (if ev_authority e = DERIVED
      then raise_if (ev_derived_from e = [] \<or> \<not> truthy (ev_derivation_rule e)) SemanticViolation
      else raise_if (has_derivation e) SemanticViolation)"

definition lookup_support :: "core \<Rightarrow> string \<Rightarrow> Evidence res" where
  "lookup_support g i =
     (case map_of (evidence g) i of None \<Rightarrow> Inl SemanticViolation | Some s \<Rightarrow> Inr s)"

definition check_supports :: "core \<Rightarrow> Evidence \<Rightarrow> unit res" where
  "check_supports g e =
     (if ev_derived_from e = [] then Inr ()
      else bind_res (map_res (lookup_support g) (ev_derived_from e)) (\<lambda>supports.
        if \<not> subset_list (ev_scope e) (concat (map ev_scope supports)) then Inl SemanticViolation
        else raise_if
               (ev_status e = EvidenceStatus.VALID \<and>
                list_ex (\<lambda>s. ev_status s \<noteq> EvidenceStatus.VALID) supports) SemanticViolation))"

definition record_evidence :: "core \<Rightarrow> Evidence \<Rightarrow> (core, Evidence) outcome" where
  "record_evidence g e =
     (case map_of (evidence g) (ev_id e) of
        Some existing \<Rightarrow>
          (if evidence_eq existing e then (Inr existing, g) else (Inl SemanticViolation, g))
      | None \<Rightarrow>
          reads g (check_derivation_fields e) (\<lambda>_.
          reads g (check_supports g e) (\<lambda>_.
          reads g (unique g (ev_id e)) (\<lambda>_.
          (Inr e, g\<lparr>evidence := setitem (ev_id e) e (evidence g)\<rparr>)))))"

subsection \<open>What the checks decide\<close>

lemma in_known_evidence:
  "e \<in> set (known_evidence g ids) \<longleftrightarrow> (\<exists>i\<in>set ids. map_of (evidence g) i = Some e)"
  by (auto simp: known_evidence_def List.map_filter_def image_iff)

text \<open>
  The values claimed for a key: those in the dictionary and those of the usable evidence still to
  come. The loop finds a conflict exactly if some key has two of them.
\<close>

definition claimed :: "(Evidence \<Rightarrow> bool) \<Rightarrow> string option list dict \<Rightarrow> Evidence list \<Rightarrow> string \<Rightarrow>
    string option set" where
  "claimed u m es k =
     (case map_of m k of None \<Rightarrow> {} | Some vs \<Rightarrow> set vs) \<union>
     {ev_claim_value e |e. e \<in> set es \<and> u e \<and> ev_claim_key e = Some k}"

lemma claimed_skip:
  "ev_claim_key e = None \<or> \<not> u e \<Longrightarrow> claimed u m (e # es) = claimed u m es"
  by (rule ext) (auto simp: claimed_def)

lemma claimed_move:
  assumes "ev_claim_key e = Some k" and "u e"
    and "vals = List.insert (ev_claim_value e) (case map_of m k of None \<Rightarrow> [] | Some vs \<Rightarrow> vs)"
  shows "claimed u (setitem k vals m) es = claimed u m (e # es)"
  by (rule ext) (use assms in \<open>auto simp: claimed_def split: option.split\<close>)

lemma conflict_loop_claimed:
  assumes "\<forall>k vs. map_of m k = Some vs \<longrightarrow> length vs = 1"
  shows "conflict_loop req now ma m es \<longleftrightarrow>
    (\<exists>k. \<exists>v\<in>claimed (usable req now ma) m es k. \<exists>w\<in>claimed (usable req now ma) m es k. v \<noteq> w)"
  using assms
proof (induction es arbitrary: m)
  case Nil
  have "v = w" if "v \<in> claimed (usable req now ma) m [] k" and "w \<in> claimed (usable req now ma) m [] k"
    for k v w
  proof (cases "map_of m k")
    case (Some vs)
    with Nil have "length vs = 1" by blast
    with that Some show ?thesis by (auto simp: claimed_def length_Suc_conv)
  qed (use that in \<open>simp add: claimed_def\<close>)
  then show ?case by auto
next
  case (Cons e es)
  show ?case
  proof (cases "ev_claim_key e = None \<or> \<not> usable req now ma e")
    case True
    then have "conflict_loop req now ma m (e # es) = conflict_loop req now ma m es"
      by (auto split: option.split)
    then show ?thesis
      using claimed_skip [where u = "usable req now ma", OF True] Cons.IH [OF Cons.prems] by simp
  next
    case False
    then obtain k where k: "ev_claim_key e = Some k" and u: "usable req now ma e" by auto
    define vals where
      "vals = List.insert (ev_claim_value e) (case map_of m k of None \<Rightarrow> [] | Some vs \<Rightarrow> vs)"
    have step: "conflict_loop req now ma m (e # es) =
        (1 < length vals \<or> conflict_loop req now ma (setitem k vals m) es)"
      using k u by (auto simp: vals_def Let_def)
    note move = claimed_move [where u = "usable req now ma", OF k u vals_def, of es]
    show ?thesis
    proof (cases "1 < length vals")
      case True
      have "distinct vs" if "map_of m k = Some vs" for vs
        using Cons.prems that by (metis length_Suc_conv length_0_conv distinct_singleton One_nat_def)
      then have d: "distinct vals" by (auto simp: vals_def split: option.split)
      have sub: "set vals \<subseteq> claimed (usable req now ma) m (e # es) k"
        unfolding move [symmetric] by (auto simp: claimed_def)
      from True d have "vals ! 0 \<noteq> vals ! 1" using nth_eq_iff_index_eq [OF d, of 0 1] by force
      with True sub have "\<exists>v\<in>claimed (usable req now ma) m (e # es) k.
          \<exists>w\<in>claimed (usable req now ma) m (e # es) k. v \<noteq> w"
        by (meson nth_mem order_less_trans subsetD zero_less_one)
      with True step show ?thesis by blast
    next
      case False
      have "ev_claim_value e \<in> set vals" by (simp add: vals_def)
      then have "vals \<noteq> []" by auto
      with False have "length vals = 1" by (cases vals) auto
      with Cons.prems have "\<forall>k' vs. map_of (setitem k vals m) k' = Some vs \<longrightarrow> length vs = 1" by simp
      from Cons.IH [OF this] step False move show ?thesis by simp
    qed
  qed
qed

text \<open>Two usable pieces of evidence that claim different values for one key.\<close>

definition contradictory ::
  "EvidenceAuthority \<Rightarrow> rat \<Rightarrow> rat option \<Rightarrow> Evidence set \<Rightarrow> bool" where
  "contradictory req now ma E \<longleftrightarrow>
     (\<exists>e1\<in>E. \<exists>e2\<in>E. \<exists>k. usable req now ma e1 \<and> usable req now ma e2 \<and>
        ev_claim_key e1 = Some k \<and> ev_claim_key e2 = Some k \<and> ev_claim_value e1 \<noteq> ev_claim_value e2)"

lemma conflict_loop_contradictory:
  "conflict_loop req now ma [] es \<longleftrightarrow> contradictory req now ma (set es)"
  by (subst conflict_loop_claimed) (auto simp: claimed_def contradictory_def)

lemma has_conflicting_iff:
  "has_conflicting_structured_claims a evs now ma = Inr c \<longleftrightarrow>
     (\<exists>req. map_of REQUIRED_AUTHORITY a = Some req \<and> c = contradictory req now ma (set evs))"
  by (auto simp: has_conflicting_structured_claims_def bind_res_Inr conflict_loop_contradictory)

lemma has_conflicting_Inl:
  "has_conflicting_structured_claims a evs now ma = Inl e \<longleftrightarrow>
     map_of REQUIRED_AUTHORITY a = None \<and> e = KeyError"
  by (auto simp: has_conflicting_structured_claims_def bind_res_Inl)

lemma sensitive_actions_known:
  "a \<in> set CORRECTNESS_SENSITIVE_EVIDENCE_ACTIONS \<Longrightarrow>
     map_of REQUIRED_AUTHORITY a = Some EXACT_OBSERVATION"
  by (auto simp: CORRECTNESS_SENSITIVE_EVIDENCE_ACTIONS_def REQUIRED_AUTHORITY_def)

text \<open>What a call of \<open>require_evidence\<close> that returns has established.\<close>

definition grants ::
  "core \<Rightarrow> string \<Rightarrow> string list \<Rightarrow> rat \<Rightarrow> (string \<times> string) list option \<Rightarrow> rat option \<Rightarrow> bool" where
  "grants g action ids now sc ma \<longleftrightarrow>
     (\<exists>req. map_of REQUIRED_AUTHORITY action = Some req \<and>
        (\<exists>e\<in>set (known_evidence g ids). usable req now ma e \<and> scope_ok sc e) \<and>
        (action \<in> set CORRECTNESS_SENSITIVE_EVIDENCE_ACTIONS \<longrightarrow>
           (\<forall>e\<in>set (known_evidence g ids). ev_status e \<noteq> EvidenceStatus.AMBIGUOUS) \<and>
           \<not> contradictory req now ma (set (known_evidence g ids))))"

lemma require_evidence_cases:
  "require_evidence clk g a ids nw sc ma =
     (case map_of REQUIRED_AUTHORITY a of
        None \<Rightarrow> Inl KeyError
      | Some req \<Rightarrow>
          if grants g a ids (resolve_now clk nw) sc ma
          then Inr (filter (\<lambda>e. usable req (resolve_now clk nw) ma e \<and> scope_ok sc e)
                      (known_evidence g ids))
          else Inl InsufficientEvidence)"
proof (cases "map_of REQUIRED_AUTHORITY a")
  case None
  then show ?thesis by (simp add: require_evidence_def getitem_def)
next
  case (Some req)
  have conf: "has_conflicting_structured_claims a es now ma = Inr (contradictory req now ma (set es))"
    for es now
    using Some by (simp add: has_conflicting_iff)
  from Some show ?thesis
    by (auto simp: require_evidence_def getitem_def Let_def conf grants_def list_ex_iff raise_if_def
                   filter_empty_conv)
qed

lemma require_evidence_Inr:
  "require_evidence clk g a ids nw sc ma = Inr good \<Longrightarrow> grants g a ids (resolve_now clk nw) sc ma"
  by (auto simp: require_evidence_cases split: option.splits if_splits)

lemma require_evidence_Inl:
  "require_evidence clk g a ids nw sc ma = Inl e \<Longrightarrow>
     e = (if map_of REQUIRED_AUTHORITY a = None then KeyError else InsufficientEvidence)"
  by (auto simp: require_evidence_cases split: option.splits if_splits)

text \<open>
  \<open>reconcile\<close> is total on the actions it knows, and fail-closed: it answers \<open>MATCHED\<close> only if
  \<open>require_evidence\<close> would let the action proceed.
\<close>

lemma reconcile_cases:
  assumes "map_of REQUIRED_AUTHORITY a = Some req"
  shows "reconcile clk g a ids nw sc =
    Inr (if (\<exists>e\<in>set (known_evidence g ids). ev_status e = EvidenceStatus.AMBIGUOUS) \<or>
            contradictory req (resolve_now clk nw) None (set (known_evidence g ids))
         then ReconcileOutcome.AMBIGUOUS
         else if grants g a ids (resolve_now clk nw) sc None then MATCHED else WAIT)"
  using assms
  by (auto simp: reconcile_def Let_def has_conflicting_structured_claims_def getitem_def
                 conflict_loop_contradictory list_ex_iff require_evidence_cases resolve_now_def
                 split: if_splits)

subsection \<open>The invariant of recorded evidence\<close>

definition supported :: "Evidence dict \<Rightarrow> Evidence \<Rightarrow> bool" where
  "supported evd e \<longleftrightarrow>
     (\<forall>s\<in>set (ev_derived_from e). \<exists>sup. map_of evd s = Some sup \<and>
        (ev_status e = EvidenceStatus.VALID \<longrightarrow> ev_status sup = EvidenceStatus.VALID)) \<and>
     (ev_derived_from e \<noteq> [] \<longrightarrow>
        (\<forall>c\<in>set (ev_scope e). \<exists>s\<in>set (ev_derived_from e). \<exists>sup.
           map_of evd s = Some sup \<and> c \<in> set (ev_scope sup)))"

definition evidence_ok :: "Evidence dict \<Rightarrow> bool" where
  "evidence_ok evd \<longleftrightarrow>
     (\<forall>i e. map_of evd i = Some e \<longrightarrow> check_derivation_fields e = Inr () \<and> supported evd e)"

lemma supported_mono:
  assumes "\<And>s x. map_of d s = Some x \<Longrightarrow> map_of d' s = Some x" and "supported d e"
  shows "supported d' e"
  using assms(2) unfolding supported_def by (meson assms(1))

lemma lookup_support_Inr [simp]: "lookup_support g i = Inr s \<longleftrightarrow> map_of (evidence g) i = Some s"
  by (auto simp: lookup_support_def split: option.splits)

lemma map_res_Inr_iff: "map_res f xs = Inr ys \<longleftrightarrow> list_all2 (\<lambda>x y. f x = Inr y) xs ys"
  by (induction xs arbitrary: ys) (auto simp: bind_res_Inr list_all2_Cons1)

lemma list_all2_setD1: "list_all2 P xs ys \<Longrightarrow> x \<in> set xs \<Longrightarrow> \<exists>y\<in>set ys. P x y"
  by (induction rule: list_all2_induct) auto

lemma list_all2_setD2: "list_all2 P xs ys \<Longrightarrow> y \<in> set ys \<Longrightarrow> \<exists>x\<in>set xs. P x y"
  by (induction rule: list_all2_induct) auto

lemma check_supports_Inr:
  assumes "check_supports g e = Inr ()"
  shows "supported (evidence g) e"
proof (cases "ev_derived_from e = []")
  case True
  then show ?thesis by (simp add: supported_def)
next
  case False
  with assms obtain sups where m: "map_res (lookup_support g) (ev_derived_from e) = Inr sups"
    and scope: "subset_list (ev_scope e) (concat (map ev_scope sups))"
    and valid: "ev_status e = EvidenceStatus.VALID \<Longrightarrow> \<forall>s\<in>set sups. ev_status s = EvidenceStatus.VALID"
    by (auto simp: check_supports_def bind_res_Inr list_ex_iff split: if_splits)
  from m have all: "list_all2 (\<lambda>s sup. map_of (evidence g) s = Some sup) (ev_derived_from e) sups"
    by (simp add: map_res_Inr_iff)
  have "\<exists>sup. map_of (evidence g) s = Some sup \<and>
      (ev_status e = EvidenceStatus.VALID \<longrightarrow> ev_status sup = EvidenceStatus.VALID)"
    if "s \<in> set (ev_derived_from e)" for s
    using list_all2_setD1 [OF all that] valid by auto
  moreover have "\<exists>s\<in>set (ev_derived_from e). \<exists>sup. map_of (evidence g) s = Some sup \<and> c \<in> set (ev_scope sup)"
    if c: "c \<in> set (ev_scope e)" for c
  proof -
    from c scope obtain sup where "sup \<in> set sups" and "c \<in> set (ev_scope sup)"
      by (auto simp: subset_list_iff)
    with list_all2_setD2 [OF all] show ?thesis by blast
  qed
  ultimately show ?thesis by (simp add: supported_def)
qed

lemma evidence_ok_new:
  assumes ok: "evidence_ok (evidence g)" and new: "map_of (evidence g) i = None"
    and "check_derivation_fields e = Inr ()" and sup: "check_supports g e = Inr ()"
  shows "evidence_ok (setitem i e (evidence g))"
proof -
  have "check_derivation_fields x = Inr () \<and> supported (evidence g) x"
    if "map_of (setitem i e (evidence g)) k = Some x" for k x
    using that ok assms(3) check_supports_Inr [OF sup] by (auto simp: evidence_ok_def split: if_splits)
  moreover have "map_of (setitem i e (evidence g)) s = Some x" if "map_of (evidence g) s = Some x" for s x
    using that new by auto
  ultimately show ?thesis
    unfolding evidence_ok_def by (meson supported_mono)
qed

lemma record_evidence_Inr:
  assumes "record_evidence g e = (Inr r, g')"
  shows "(g' = g \<and> map_of (evidence g) (ev_id e) = Some r \<and> evidence_eq r e) \<or>
    (r = e \<and> \<not> id_taken g (ev_id e) \<and> check_derivation_fields e = Inr () \<and>
     check_supports g e = Inr () \<and> g' = g\<lparr>evidence := setitem (ev_id e) e (evidence g)\<rparr>)"
  using assms by (auto simp: record_evidence_def reads_Inr split: option.splits if_splits)

lemma record_evidence_Inl: "record_evidence g e = (Inl x, g') \<Longrightarrow> g' = g"
  by (auto simp: record_evidence_def reads_Inl split: option.splits if_splits)

end
