(* ===== verification/Core_Attempt.thy ===== *)
theory Core_Attempt
  imports Core_Evidence
begin

section \<open>Requests, attempts, phases and outputs\<close>

text \<open>
  The "requests / attempts" and "phases" operations of \<open>ContinuityCore\<close>. A logical request is
  executed by a sequence of attempts, of which at most one is current; starting another one
  supersedes it, and only the current attempt may finalize the request, on evidence. The theory
  states the invariant that ties a request's pointers to the authority of its attempts
  (\<open>attempts_ok\<close>), the one that keeps phase ordinals contiguous (\<open>phases_ok\<close>), and proves that
  every operation keeps them.
\<close>

definition create_request :: "core \<Rightarrow> string \<Rightarrow> string \<Rightarrow> (core, LogicalRequest) outcome" where
  "create_request g i continuation_id =
     reads g (unique g i) (\<lambda>_.
     reads g (getitem (continuations g) continuation_id) (\<lambda>_.
     let r = \<lparr>req_id = i, req_continuation_id = continuation_id, req_status = RequestStatus.READY,
              req_current_attempt_id = None, req_committed_attempt_id = None,
              req_authoritative_output_id = None\<rparr>
     in (Inr r, g\<lparr>requests := setitem i r (requests g)\<rparr>)))"

definition attempts_of :: "Attempt dict \<Rightarrow> string \<Rightarrow> Attempt list" where
  "attempts_of d rid = filter (\<lambda>a. att_request_id a = rid) (values_of d)"

definition terminal_request :: "LogicalRequest \<Rightarrow> bool" where
  "terminal_request r \<longleftrightarrow>
     req_status r \<in> {RequestStatus.COMPLETED, RequestStatus.FAILED, RequestStatus.CANCELLED}"

text \<open>
  The three steps of \<open>start_attempt\<close> that write: supersede the current attempt, if there is one;
  store the new one; point the request to it. The test \<open>if r.current_attempt_id\<close> is on the truth
  value of the identifier.
\<close>

definition supersede_current :: "core \<Rightarrow> LogicalRequest \<Rightarrow> (core, unit) outcome" where
  "supersede_current g r =
     (if truthy (req_current_attempt_id r) then
        reads g (getitem (attempts g) (the (req_current_attempt_id r))) (\<lambda>old.
        if att_authority_status old \<noteq> AttemptAuthority.CURRENT then (Inl SemanticViolation, g)
        else (Inr (), g\<lparr>attempts :=
               setitem (att_id old) (old\<lparr>att_authority_status := AttemptAuthority.SUPERSEDED\<rparr>)
                 (attempts g)\<rparr>))
      else (Inr (), g))"

definition start_attempt :: "core \<Rightarrow> string \<Rightarrow> string \<Rightarrow> (core, Attempt) outcome" where
  "start_attempt g i request_id =
     reads g (unique g i) (\<lambda>_.
     reads g (getitem (requests g) request_id) (\<lambda>r.
     if terminal_request r then (Inl InvalidTransition, g)
     else
       let generation = py_max 0 (map att_generation (attempts_of (attempts g) request_id)) + 1
       in calls (supersede_current g r) (\<lambda>_ g1.
          let a = \<lparr>att_id = i, att_request_id = request_id, att_generation = generation,
                   att_execution_status = ExecutionStatus.CREATED,
                   att_authority_status = AttemptAuthority.CURRENT\<rparr>;
              g2 = g1\<lparr>attempts := setitem i a (attempts g1)\<rparr>
          in (Inr a, g2\<lparr>requests :=
                setitem request_id
                  (r\<lparr>req_status := RequestStatus.RUNNING, req_current_attempt_id := Some i\<rparr>)
                  (requests g2)\<rparr>))))"

fun execution_rank :: "ExecutionStatus \<Rightarrow> nat option" where
  "execution_rank ExecutionStatus.CREATED = Some 0"
| "execution_rank ExecutionStatus.DISPATCHED = Some 1"
| "execution_rank ExecutionStatus.RUNNING = Some 2"
| "execution_rank _ = None"

definition terminal_execution :: "ExecutionStatus \<Rightarrow> bool" where
  "terminal_execution s \<longleftrightarrow>
     s \<in> {ExecutionStatus.SUCCEEDED, ExecutionStatus.FAILED, ExecutionStatus.CANCELLED}"

definition moves_backward :: "nat option \<Rightarrow> nat option \<Rightarrow> bool" where
  "moves_backward old new = (case (old, new) of (Some m, Some n) \<Rightarrow> n < m | _ \<Rightarrow> False)"

definition set_attempt_execution :: "core \<Rightarrow> string \<Rightarrow> ExecutionStatus \<Rightarrow> (core, Attempt) outcome" where
  "set_attempt_execution g attempt_id status =
     reads g (getitem (attempts g) attempt_id) (\<lambda>a.
     if terminal_execution (att_execution_status a) \<and> status \<noteq> att_execution_status a
     then (Inl InvalidTransition, g)
     else if moves_backward (execution_rank (att_execution_status a)) (execution_rank status)
     then (Inl InvalidTransition, g)
     else let a' = a\<lparr>att_execution_status := status\<rparr>
          in (Inr a', g\<lparr>attempts := setitem attempt_id a' (attempts g)\<rparr>))"

definition complete_attempt :: "core \<Rightarrow> string \<Rightarrow> bool \<Rightarrow> (core, Attempt) outcome" where
  "complete_attempt g attempt_id succeeded =
     set_attempt_execution g attempt_id
       (if succeeded then ExecutionStatus.SUCCEEDED else ExecutionStatus.FAILED)"

subsection \<open>Phases and outputs\<close>

definition phases_of :: "Phase dict \<Rightarrow> string \<Rightarrow> Phase list" where
  "phases_of d aid = filter (\<lambda>p. ph_attempt_id p = aid) (values_of d)"

definition create_phase ::
  "core \<Rightarrow> string \<Rightarrow> string \<Rightarrow> PhaseType \<Rightarrow> int option \<Rightarrow> (core, Phase) outcome" where
  "create_phase g i attempt_id phase_type ordinal_arg =
     reads g (unique g i) (\<lambda>_.
     reads g (getitem (attempts g) attempt_id) (\<lambda>_.
     let next_ordinal = py_max 0 (map ph_ordinal (phases_of (phases g) attempt_id)) + 1;
         ordinal = (case ordinal_arg of None \<Rightarrow> next_ordinal | Some n \<Rightarrow> n)
     in if ordinal \<noteq> next_ordinal then (Inl SemanticViolation, g)
        else let p = \<lparr>ph_id = i, ph_attempt_id = attempt_id, ph_ordinal = ordinal,
                      ph_type = phase_type, ph_status = PhaseStatus.CREATED\<rparr>
             in (Inr p, g\<lparr>phases := setitem i p (phases g)\<rparr>)))"

fun phase_rank :: "PhaseStatus \<Rightarrow> nat option" where
  "phase_rank PhaseStatus.CREATED = Some 0"
| "phase_rank PhaseStatus.RUNNING = Some 1"
| "phase_rank _ = None"

definition check_phase_completion :: "core \<Rightarrow> Phase \<Rightarrow> PhaseStatus \<Rightarrow> unit res" where
  "check_phase_completion g p status =
     (if status = PhaseStatus.COMPLETED then
        bind_res (getitem (attempts g) (ph_attempt_id p)) (\<lambda>attempt.
        raise_if (att_authority_status attempt = AttemptAuthority.SUPERSEDED) SemanticViolation)
      else Inr ())"

definition set_phase_status :: "core \<Rightarrow> string \<Rightarrow> PhaseStatus \<Rightarrow> (core, Phase) outcome" where
  "set_phase_status g phase_id status =
     reads g (getitem (phases g) phase_id) (\<lambda>p.
     if ph_status p \<in> {PhaseStatus.COMPLETED, PhaseStatus.FAILED, PhaseStatus.CANCELLED} \<and>
        status \<noteq> ph_status p
     then (Inl InvalidTransition, g)
     else
       reads g (check_phase_completion g p status) (\<lambda>_.
       if moves_backward (phase_rank (ph_status p)) (phase_rank status)
       then (Inl InvalidTransition, g)
       else let p' = p\<lparr>ph_status := status\<rparr>
            in (Inr p', g\<lparr>phases := setitem phase_id p' (phases g)\<rparr>)))"

definition complete_phase :: "core \<Rightarrow> string \<Rightarrow> (core, Phase) outcome" where
  "complete_phase g phase_id = set_phase_status g phase_id PhaseStatus.COMPLETED"

definition create_output ::
  "core \<Rightarrow> string \<Rightarrow> string \<Rightarrow> bool \<Rightarrow> string list \<Rightarrow> (core, Output) outcome" where
  "create_output g i attempt_id terminal evidence_ids =
     reads g (unique g i) (\<lambda>_.
     reads g (getitem (attempts g) attempt_id) (\<lambda>_.
     let ev = frozenset evidence_ids;
         missing = filter (\<lambda>eid. \<not> has_key (evidence g) eid) ev
     in if missing \<noteq> [] then (Inl SemanticViolation, g)
        else let out = \<lparr>out_id = i, out_attempt_id = attempt_id, out_terminal = terminal,
                        out_evidence_ids = ev\<rparr>
             in (Inr out, g\<lparr>outputs := setitem i out (outputs g)\<rparr>)))"

subsection \<open>Finalization\<close>

definition finalize_request ::
  "rat \<Rightarrow> core \<Rightarrow> string \<Rightarrow> string \<Rightarrow> rat option \<Rightarrow> (core, LogicalRequest) outcome" where
  "finalize_request clock g request_id output_id now =
     reads g (getitem (requests g) request_id) (\<lambda>r.
     reads g (getitem (outputs g) output_id) (\<lambda>out.
     reads g (getitem (attempts g) (out_attempt_id out)) (\<lambda>a.
     if req_status r = RequestStatus.COMPLETED then
       (if req_authoritative_output_id r = Some output_id then (Inr r, g)
        else (Inl InvalidTransition, g))
     else if req_status r \<in> {RequestStatus.FAILED, RequestStatus.CANCELLED}
     then (Inl InvalidTransition, g)
     else if req_current_attempt_id r \<noteq> Some (out_attempt_id out) \<or>
             att_authority_status a \<noteq> AttemptAuthority.CURRENT
     then (Inl SemanticViolation, g)
     else if att_execution_status a \<noteq> ExecutionStatus.SUCCEEDED \<or> \<not> out_terminal out
     then (Inl SemanticViolation, g)
     else
       reads g (require_evidence clock g ''finalize'' (out_evidence_ids out) now
                  (Some [(''attempt'', att_id a)]) None) (\<lambda>_.
       let a' = a\<lparr>att_authority_status := AttemptAuthority.COMMITTED\<rparr>;
           g1 = g\<lparr>attempts := setitem (att_id a) a' (attempts g)\<rparr>;
           r' = r\<lparr>req_status := RequestStatus.COMPLETED, req_current_attempt_id := None,
                  req_committed_attempt_id := Some (att_id a),
                  req_authoritative_output_id := Some (out_id out)\<rparr>
       in (Inr r', g1\<lparr>requests := setitem request_id r' (requests g1)\<rparr>)))))"

subsection \<open>The invariant of attempts\<close>

definition request_ok ::
  "Continuation dict \<Rightarrow> Attempt dict \<Rightarrow> Output dict \<Rightarrow> string \<Rightarrow> LogicalRequest \<Rightarrow> bool" where
  "request_ok cs ats outs rid r \<longleftrightarrow>
     (\<exists>c. map_of cs (req_continuation_id r) = Some c) \<and>
     (\<forall>a. req_current_attempt_id r = Some a \<longrightarrow>
        (\<exists>x. map_of ats a = Some x \<and> att_request_id x = rid \<and>
             att_authority_status x = AttemptAuthority.CURRENT)) \<and>
     (\<forall>a. req_committed_attempt_id r = Some a \<longrightarrow>
        (\<exists>x. map_of ats a = Some x \<and> att_request_id x = rid \<and>
             att_authority_status x = AttemptAuthority.COMMITTED \<and>
             att_execution_status x = ExecutionStatus.SUCCEEDED)) \<and>
     (if req_status r = RequestStatus.COMPLETED
      then req_current_attempt_id r = None \<and>
           (\<exists>c ou out. req_committed_attempt_id r = Some c \<and> req_authoritative_output_id r = Some ou \<and>
              map_of outs ou = Some out \<and> out_attempt_id out = c \<and> out_terminal out)
      else req_committed_attempt_id r = None \<and> req_authoritative_output_id r = None) \<and>
     (terminal_request r \<longrightarrow> req_current_attempt_id r = None)"

definition attempt_ok :: "LogicalRequest dict \<Rightarrow> string \<Rightarrow> Attempt \<Rightarrow> bool" where
  "attempt_ok rs aid a \<longleftrightarrow>
     (\<exists>r. map_of rs (att_request_id a) = Some r \<and>
        (att_authority_status a = AttemptAuthority.CURRENT \<longrightarrow> req_current_attempt_id r = Some aid) \<and>
        (att_authority_status a = AttemptAuthority.COMMITTED \<longrightarrow> req_committed_attempt_id r = Some aid))"

definition generations_ok :: "Attempt dict \<Rightarrow> bool" where
  "generations_ok ats \<longleftrightarrow> (\<forall>rid. \<exists>n. mset (map att_generation (attempts_of ats rid)) = mset [1..int n])"

definition attempts_ok ::
  "Continuation dict \<Rightarrow> LogicalRequest dict \<Rightarrow> Attempt dict \<Rightarrow> Output dict \<Rightarrow> bool" where
  "attempts_ok cs rs ats outs \<longleftrightarrow>
     (\<forall>rid r. map_of rs rid = Some r \<longrightarrow> request_ok cs ats outs rid r) \<and>
     (\<forall>aid a. map_of ats aid = Some a \<longrightarrow> attempt_ok rs aid a) \<and>
     generations_ok ats \<and> map_of ats '''' = None"

definition phases_ok :: "Attempt dict \<Rightarrow> Phase dict \<Rightarrow> bool" where
  "phases_ok ats phs \<longleftrightarrow>
     (\<forall>pid p. map_of phs pid = Some p \<longrightarrow> (\<exists>a. map_of ats (ph_attempt_id p) = Some a)) \<and>
     (\<forall>aid. \<exists>n. mset (map ph_ordinal (phases_of phs aid)) = mset [1..int n])"

definition outputs_ok :: "Attempt dict \<Rightarrow> Evidence dict \<Rightarrow> Output dict \<Rightarrow> bool" where
  "outputs_ok ats evd outs \<longleftrightarrow>
     (\<forall>oid out. map_of outs oid = Some out \<longrightarrow>
        (\<exists>a. map_of ats (out_attempt_id out) = Some a) \<and>
        (\<forall>e\<in>set (out_evidence_ids out). \<exists>x. map_of evd e = Some x))"

lemma attempts_okD:
  assumes "attempts_ok cs rs ats outs"
  shows "map_of rs rid = Some r \<Longrightarrow> request_ok cs ats outs rid r"
    and "map_of ats aid = Some a \<Longrightarrow> attempt_ok rs aid a"
    and "generations_ok ats" and "map_of ats '''' = None"
  using assms by (auto simp: attempts_ok_def)

text \<open>
  Every grouped numbering (generations within a request, ordinals within an attempt) is a function
  of the list of pairs (group, number), so replacing an entity keeps it when both are kept, and a
  new entity with the next number extends its group.
\<close>

lemma py_max_numbering:
  assumes "mset xs = mset [1..int n]"
  shows "py_max 0 xs = int n"
proof (cases "n = 0")
  case False
  have "set xs = {1..int n}" using assms by (metis set_mset_mset set_upto)
  with False show ?thesis by (intro py_max_eqI) auto
qed (use assms in \<open>simp add: py_max_def\<close>)

lemma numbering_snoc:
  assumes "mset xs = mset [1..int n]"
  shows "\<exists>m. add_mset (int n + 1) (mset xs) = mset [1..int m]"
proof -
  have "mset [1..int (Suc n)] = add_mset (int n + 1) (mset [1..int n])"
    using arg_cong [OF upto_snoc [of n], of mset] by simp
  with assms show ?thesis by metis
qed

lemma filter_map_pairs:
  "map num (filter (\<lambda>v. grp v = k) vs) = map snd (filter (\<lambda>(q, _). q = k) (map (\<lambda>v. (grp v, num v)) vs))"
  by (induction vs) auto

lemma attempts_of_replace:
  assumes "map_of ats aid = Some a" and "att_request_id a' = att_request_id a"
    and "att_generation a' = att_generation a"
  shows "map att_generation (attempts_of (setitem aid a' ats) rid) = map att_generation (attempts_of ats rid)"
  unfolding attempts_of_def filter_map_pairs [of att_generation att_request_id]
  by (subst map_values_replace [OF assms(1)]) (simp_all add: assms)

lemma attempts_of_new:
  "map_of ats i = None \<Longrightarrow>
     attempts_of (setitem i a ats) rid = attempts_of ats rid @ (if att_request_id a = rid then [a] else [])"
  by (simp add: attempts_of_def values_of_new)

lemma phases_of_replace:
  assumes "map_of phs pid = Some p" and "ph_attempt_id p' = ph_attempt_id p"
    and "ph_ordinal p' = ph_ordinal p"
  shows "map ph_ordinal (phases_of (setitem pid p' phs) aid) = map ph_ordinal (phases_of phs aid)"
  unfolding phases_of_def filter_map_pairs [of ph_ordinal ph_attempt_id]
  by (subst map_values_replace [OF assms(1)]) (simp_all add: assms)

lemma phases_of_new:
  "map_of phs i = None \<Longrightarrow>
     phases_of (setitem i p phs) aid = phases_of phs aid @ (if ph_attempt_id p = aid then [p] else [])"
  by (simp add: phases_of_def values_of_new)

lemma generations_replace:
  assumes "generations_ok ats" and "map_of ats aid = Some a"
    and "att_request_id a' = att_request_id a" and "att_generation a' = att_generation a"
  shows "generations_ok (setitem aid a' ats)"
  using assms(1) by (simp add: generations_ok_def attempts_of_replace [OF assms(2-4)] flip: mset_map)

lemma generations_new:
  assumes "generations_ok ats" and "map_of ats i = None"
    and "att_generation a = py_max 0 (map att_generation (attempts_of ats (att_request_id a))) + 1"
  shows "generations_ok (setitem i a ats)"
proof -
  have "\<exists>n. mset (map att_generation (attempts_of (setitem i a ats) rid)) = mset [1..int n]" for rid
  proof -
    obtain n where n: "mset (map att_generation (attempts_of ats rid)) = mset [1..int n]"
      using assms(1) by (auto simp: generations_ok_def)
    show ?thesis
    proof (cases "att_request_id a = rid")
      case True
      with n assms(3) have "att_generation a = int n + 1" by (simp add: py_max_numbering)
      with n True assms(2) numbering_snoc [of _ n] show ?thesis by (simp add: attempts_of_new)
    qed (use n assms(2) in \<open>auto simp: attempts_of_new\<close>)
  qed
  then show ?thesis by (simp add: generations_ok_def)
qed

subsection \<open>What each operation does when it returns, and that it does nothing when it raises\<close>

lemma create_request_Inr:
  "create_request g i cid = (Inr r, g') \<Longrightarrow>
     \<not> id_taken g i \<and> (\<exists>c. map_of (continuations g) cid = Some c) \<and>
     r = \<lparr>req_id = i, req_continuation_id = cid, req_status = RequestStatus.READY,
          req_current_attempt_id = None, req_committed_attempt_id = None,
          req_authoritative_output_id = None\<rparr> \<and>
     g' = g\<lparr>requests := setitem i r (requests g)\<rparr>"
  by (auto simp: create_request_def reads_Inr Let_def)

lemma create_request_Inl: "create_request g i cid = (Inl e, g') \<Longrightarrow> g' = g"
  by (auto simp: create_request_def reads_Inl Let_def)

lemma set_attempt_execution_Inr:
  "set_attempt_execution g aid s = (Inr a', g') \<Longrightarrow>
     \<exists>a. map_of (attempts g) aid = Some a \<and>
         (terminal_execution (att_execution_status a) \<longrightarrow> s = att_execution_status a) \<and>
         \<not> moves_backward (execution_rank (att_execution_status a)) (execution_rank s) \<and>
         a' = a\<lparr>att_execution_status := s\<rparr> \<and>
         g' = g\<lparr>attempts := setitem aid a' (attempts g)\<rparr>"
  by (auto simp: set_attempt_execution_def reads_Inr Let_def split: if_splits)

lemma set_attempt_execution_Inl: "set_attempt_execution g aid s = (Inl e, g') \<Longrightarrow> g' = g"
  by (auto simp: set_attempt_execution_def reads_Inl Let_def split: if_splits)

lemma create_phase_Inr:
  "create_phase g i aid ty ord = (Inr p, g') \<Longrightarrow>
     \<not> id_taken g i \<and> (\<exists>a. map_of (attempts g) aid = Some a) \<and>
     p = \<lparr>ph_id = i, ph_attempt_id = aid,
          ph_ordinal = py_max 0 (map ph_ordinal (phases_of (phases g) aid)) + 1,
          ph_type = ty, ph_status = PhaseStatus.CREATED\<rparr> \<and>
     g' = g\<lparr>phases := setitem i p (phases g)\<rparr>"
  by (auto simp: create_phase_def reads_Inr Let_def split: if_splits)

lemma create_phase_Inl: "create_phase g i aid ty ord = (Inl e, g') \<Longrightarrow> g' = g"
  by (auto simp: create_phase_def reads_Inl Let_def split: if_splits)

lemma set_phase_status_Inr:
  "set_phase_status g pid s = (Inr p', g') \<Longrightarrow>
     \<exists>p. map_of (phases g) pid = Some p \<and>
         (ph_status p \<in> {PhaseStatus.COMPLETED, PhaseStatus.FAILED, PhaseStatus.CANCELLED} \<longrightarrow>
            s = ph_status p) \<and>
         check_phase_completion g p s = Inr () \<and>
         \<not> moves_backward (phase_rank (ph_status p)) (phase_rank s) \<and>
         p' = p\<lparr>ph_status := s\<rparr> \<and> g' = g\<lparr>phases := setitem pid p' (phases g)\<rparr>"
  by (auto simp: set_phase_status_def reads_Inr Let_def split: if_splits)

lemma set_phase_status_Inl: "set_phase_status g pid s = (Inl e, g') \<Longrightarrow> g' = g"
  by (auto simp: set_phase_status_def reads_Inl Let_def split: if_splits)

lemma create_output_Inr:
  "create_output g i aid t es = (Inr out, g') \<Longrightarrow>
     \<not> id_taken g i \<and> (\<exists>a. map_of (attempts g) aid = Some a) \<and>
     (\<forall>e\<in>set es. \<exists>x. map_of (evidence g) e = Some x) \<and>
     out = \<lparr>out_id = i, out_attempt_id = aid, out_terminal = t, out_evidence_ids = frozenset es\<rparr> \<and>
     g' = g\<lparr>outputs := setitem i out (outputs g)\<rparr>"
  by (auto simp: create_output_def reads_Inr Let_def filter_empty_conv has_key_Some split: if_splits)

lemma create_output_Inl: "create_output g i aid t es = (Inl e, g') \<Longrightarrow> g' = g"
  by (auto simp: create_output_def reads_Inl Let_def split: if_splits)

lemma supersede_current_Inr:
  "supersede_current g r = (Inr u, g') \<Longrightarrow>
     (truthy (req_current_attempt_id r) \<longrightarrow>
        (\<exists>cur old. req_current_attempt_id r = Some cur \<and> map_of (attempts g) cur = Some old \<and>
           att_authority_status old = AttemptAuthority.CURRENT \<and>
           g' = g\<lparr>attempts :=
             setitem (att_id old) (old\<lparr>att_authority_status := AttemptAuthority.SUPERSEDED\<rparr>)
               (attempts g)\<rparr>)) \<and>
     (\<not> truthy (req_current_attempt_id r) \<longrightarrow> g' = g)"
  by (auto simp: supersede_current_def reads_Inr truthy_def split: if_splits option.splits)

lemma start_attempt_Inl: "start_attempt g i rid = (Inl e, g') \<Longrightarrow> g' = g"
  by (auto simp: start_attempt_def reads_Inl calls_Inl supersede_current_def Let_def split: if_splits)

lemma start_attempt_Inr:
  "start_attempt g i rid = (Inr a, g') \<Longrightarrow>
     \<exists>r g1. \<not> id_taken g i \<and> map_of (requests g) rid = Some r \<and> \<not> terminal_request r \<and>
       supersede_current g r = (Inr (), g1) \<and>
       a = \<lparr>att_id = i, att_request_id = rid,
            att_generation = py_max 0 (map att_generation (attempts_of (attempts g) rid)) + 1,
            att_execution_status = ExecutionStatus.CREATED,
            att_authority_status = AttemptAuthority.CURRENT\<rparr> \<and>
       g' = g1\<lparr>attempts := setitem i a (attempts g1),
               requests := setitem rid
                 (r\<lparr>req_status := RequestStatus.RUNNING, req_current_attempt_id := Some i\<rparr>)
                 (requests g1)\<rparr>"
  by (auto simp: start_attempt_def reads_Inr calls_Inr Let_def split: if_splits)

lemma finalize_request_Inl: "finalize_request clk g rid oid nw = (Inl e, g') \<Longrightarrow> g' = g"
  by (auto simp: finalize_request_def reads_Inl Let_def split: if_splits)

lemma finalize_request_Inr:
  assumes "finalize_request clk g rid oid nw = (Inr r', g')"
  obtains (again) r out a where "map_of (requests g) rid = Some r" "map_of (outputs g) oid = Some out"
      "map_of (attempts g) (out_attempt_id out) = Some a" "req_status r = RequestStatus.COMPLETED"
      "req_authoritative_output_id r = Some oid" "r' = r" "g' = g"
  | (commit) r out a where "map_of (requests g) rid = Some r" "map_of (outputs g) oid = Some out"
      "map_of (attempts g) (out_attempt_id out) = Some a" "\<not> terminal_request r"
      "req_current_attempt_id r = Some (out_attempt_id out)"
      "att_authority_status a = AttemptAuthority.CURRENT"
      "att_execution_status a = ExecutionStatus.SUCCEEDED" "out_terminal out"
      "grants g ''finalize'' (out_evidence_ids out) (resolve_now clk nw)
         (Some [(''attempt'', att_id a)]) None"
      "r' = r\<lparr>req_status := RequestStatus.COMPLETED, req_current_attempt_id := None,
              req_committed_attempt_id := Some (att_id a),
              req_authoritative_output_id := Some (out_id out)\<rparr>"
      "g' = g\<lparr>attempts := setitem (att_id a)
                (a\<lparr>att_authority_status := AttemptAuthority.COMMITTED\<rparr>) (attempts g),
              requests := setitem rid r' (requests g)\<rparr>"
proof -
  from assms obtain r out a where lookups: "map_of (requests g) rid = Some r"
    "map_of (outputs g) oid = Some out" "map_of (attempts g) (out_attempt_id out) = Some a"
    by (auto simp: finalize_request_def reads_Inr)
  show thesis
  proof (cases "req_status r = RequestStatus.COMPLETED")
    case True
    with assms lookups have "req_authoritative_output_id r = Some oid" "r' = r" "g' = g"
      by (simp_all add: finalize_request_def getitem_def split: if_splits)
    with lookups True show thesis by (rule again)
  next
    case False
    with assms lookups have "\<not> terminal_request r"
      "req_current_attempt_id r = Some (out_attempt_id out)"
      "att_authority_status a = AttemptAuthority.CURRENT"
      "att_execution_status a = ExecutionStatus.SUCCEEDED" "out_terminal out"
      and rest: "reads g (require_evidence clk g ''finalize'' (out_evidence_ids out) nw
          (Some [(''attempt'', att_id a)]) None)
          (\<lambda>_. let a' = a\<lparr>att_authority_status := AttemptAuthority.COMMITTED\<rparr>;
                   g1 = g\<lparr>attempts := setitem (att_id a) a' (attempts g)\<rparr>;
                   r' = r\<lparr>req_status := RequestStatus.COMPLETED, req_current_attempt_id := None,
                          req_committed_attempt_id := Some (att_id a),
                          req_authoritative_output_id := Some (out_id out)\<rparr>
               in (Inr r', g1\<lparr>requests := setitem rid r' (requests g1)\<rparr>)) = (Inr r', g')"
      by (simp_all add: finalize_request_def getitem_def terminal_request_def split: if_splits)
    with lookups show thesis
      by (auto simp: reads_Inr Let_def dest: require_evidence_Inr intro: commit)
  qed
qed

subsection \<open>The operations keep the invariants\<close>

text \<open>
  Replacing an attempt by one with the same identity, authority and, where it is committed, the
  same outcome.
\<close>

lemma request_ok_mono:
  assumes "request_ok cs ats outs rid r"
    and "\<And>k c. map_of cs k = Some c \<Longrightarrow> \<exists>c'. map_of cs' k = Some c'"
    and "\<And>k a. map_of ats k = Some a \<Longrightarrow>
      \<exists>a'. map_of ats' k = Some a' \<and> att_request_id a' = att_request_id a \<and>
        att_authority_status a' = att_authority_status a \<and>
        (att_execution_status a = ExecutionStatus.SUCCEEDED \<longrightarrow>
           att_execution_status a' = ExecutionStatus.SUCCEEDED)"
    and "\<And>k x. map_of outs k = Some x \<Longrightarrow> map_of outs' k = Some x"
  shows "request_ok cs' ats' outs' rid r"
proof -
  have "\<exists>x. map_of ats' a = Some x \<and> att_request_id x = rid \<and> att_authority_status x = AttemptAuthority.CURRENT"
    if "req_current_attempt_id r = Some a" for a
    using assms(1) that assms(3) by (fastforce simp: request_ok_def)
  moreover have "\<exists>x. map_of ats' a = Some x \<and> att_request_id x = rid \<and>
      att_authority_status x = AttemptAuthority.COMMITTED \<and>
      att_execution_status x = ExecutionStatus.SUCCEEDED"
    if "req_committed_attempt_id r = Some a" for a
    using assms(1) that assms(3) by (fastforce simp: request_ok_def)
  moreover have "\<exists>c. map_of cs' (req_continuation_id r) = Some c"
    using assms(1,2) by (auto simp: request_ok_def)
  ultimately show ?thesis
    using assms(1,4) unfolding request_ok_def by (auto split: if_splits)
qed

lemma attempts_ok_new_request:
  assumes ok: "attempts_ok cs rs ats outs" and new: "map_of rs i = None"
    and c: "map_of cs (req_continuation_id r) = Some c"
    and r: "req_status r = RequestStatus.READY" "req_current_attempt_id r = None"
      "req_committed_attempt_id r = None" "req_authoritative_output_id r = None"
  shows "attempts_ok cs (setitem i r rs) ats outs"
proof -
  have "request_ok cs ats outs i r"
    using c r by (simp add: request_ok_def terminal_request_def)
  moreover have "attempt_ok (setitem i r rs) aid a" if "map_of ats aid = Some a" for aid a
    using attempts_okD(2) [OF ok that] new by (auto simp: attempt_ok_def)
  ultimately show ?thesis
    using ok by (auto simp: attempts_ok_def split: if_splits)
qed

lemma attempts_ok_execution:
  assumes ok: "attempts_ok cs rs ats outs" and a: "map_of ats aid = Some a"
    and t: "terminal_execution (att_execution_status a) \<longrightarrow> s = att_execution_status a"
  shows "attempts_ok cs rs (setitem aid (a\<lparr>att_execution_status := s\<rparr>) ats) outs"
proof -
  let ?ats = "setitem aid (a\<lparr>att_execution_status := s\<rparr>) ats"
  have "request_ok cs ?ats outs rid r" if "map_of rs rid = Some r" for rid r
    by (rule request_ok_mono [OF attempts_okD(1) [OF ok that]])
       (use a t in \<open>auto simp: terminal_execution_def\<close>)
  moreover have "attempt_ok rs k x" if "map_of ?ats k = Some x" for k x
    using that attempts_okD(2) [OF ok a] attempts_okD(2) [OF ok, of k x]
    by (auto simp: attempt_ok_def split: if_splits)
  moreover have "generations_ok ?ats"
    by (rule generations_replace [OF attempts_okD(3) [OF ok] a]) simp_all
  moreover have "map_of ?ats '''' = None" using attempts_okD(4) [OF ok] a by auto
  ultimately show ?thesis by (simp add: attempts_ok_def)
qed

lemma attempts_ok_new_output:
  assumes "attempts_ok cs rs ats outs" and "map_of outs i = None"
  shows "attempts_ok cs rs ats (setitem i out outs)"
proof -
  have "request_ok cs ats (setitem i out outs) rid r" if "map_of rs rid = Some r" for rid r
    by (rule request_ok_mono [OF attempts_okD(1) [OF assms(1) that]]) (use assms(2) in auto)
  with assms(1) show ?thesis by (simp add: attempts_ok_def)
qed

lemma attempts_ok_continuations:
  assumes "attempts_ok cs rs ats outs" and "\<And>k c. map_of cs k = Some c \<Longrightarrow> \<exists>c'. map_of cs' k = Some c'"
  shows "attempts_ok cs' rs ats outs"
proof -
  have "request_ok cs' ats outs rid r" if "map_of rs rid = Some r" for rid r
    by (rule request_ok_mono [OF attempts_okD(1) [OF assms(1) that]]) (use assms(2) in auto)
  with assms(1) show ?thesis by (simp add: attempts_ok_def)
qed

text \<open>
  Starting an attempt, in terms of the dictionaries: the old attempt, if any, is superseded, the
  new one is current and the request points to it. This needs the new identifier to be a non-empty
  string: the test \<open>if r.current_attempt_id\<close> does not see a current attempt with an empty one.
\<close>

definition start_effect ::
  "LogicalRequest dict \<Rightarrow> Attempt dict \<Rightarrow> string \<Rightarrow> LogicalRequest \<Rightarrow> Attempt \<Rightarrow>
   LogicalRequest dict \<times> Attempt dict" where
  "start_effect rs ats rid r a =
     (setitem rid (r\<lparr>req_status := RequestStatus.RUNNING, req_current_attempt_id := Some (att_id a)\<rparr>) rs,
      setitem (att_id a) a
        (case req_current_attempt_id r of
           None \<Rightarrow> ats
         | Some cur \<Rightarrow>
             (case map_of ats cur of
                None \<Rightarrow> ats
              | Some old \<Rightarrow>
                  setitem cur (old\<lparr>att_authority_status := AttemptAuthority.SUPERSEDED\<rparr>) ats)))"

lemma start_attempt_effect:
  assumes start: "start_attempt g i rid = (Inr a, g')" and ids: "ids_ok g"
    and ok: "attempts_ok cs (requests g) (attempts g) outs"
  obtains r rs ats where "\<not> id_taken g i" "map_of (requests g) rid = Some r" "\<not> terminal_request r"
    "att_id a = i" "att_request_id a = rid" "att_authority_status a = AttemptAuthority.CURRENT"
    "att_execution_status a = ExecutionStatus.CREATED"
    "att_generation a = py_max 0 (map att_generation (attempts_of (attempts g) rid)) + 1"
    "(rs, ats) = start_effect (requests g) (attempts g) rid r a"
    "g' = g\<lparr>attempts := ats, requests := rs\<rparr>"
proof -
  from start_attempt_Inr [OF start] obtain r g1 where
    new: "\<not> id_taken g i" and r: "map_of (requests g) rid = Some r" and nt: "\<not> terminal_request r"
    and sup: "supersede_current g r = (Inr (), g1)"
    and a: "a = \<lparr>att_id = i, att_request_id = rid,
          att_generation = py_max 0 (map att_generation (attempts_of (attempts g) rid)) + 1,
          att_execution_status = ExecutionStatus.CREATED,
          att_authority_status = AttemptAuthority.CURRENT\<rparr>"
    and g': "g' = g1\<lparr>attempts := setitem i a (attempts g1),
               requests := setitem rid
                 (r\<lparr>req_status := RequestStatus.RUNNING, req_current_attempt_id := Some i\<rparr>)
                 (requests g1)\<rparr>" by blast
  obtain rs ats where eff: "(rs, ats) = start_effect (requests g) (attempts g) rid r a"
    by (metis surj_pair)
  have "g' = g\<lparr>attempts := ats, requests := rs\<rparr>"
  proof (cases "req_current_attempt_id r")
    case None
    with supersede_current_Inr [OF sup] eff a g' show ?thesis by (simp add: start_effect_def)
  next
    case (Some cur)
    with attempts_okD(1) [OF ok r] obtain old where old: "map_of (attempts g) cur = Some old"
      by (auto simp: request_ok_def)
    with attempts_okD(4) [OF ok] have "cur \<noteq> ''''" by auto
    moreover have "att_id old = cur" by (rule keyedD [OF ids_okD(17) [OF ids] old])
    ultimately show ?thesis
      using supersede_current_Inr [OF sup] eff a g' Some old by (simp add: start_effect_def)
  qed
  with that new r nt a eff show thesis by simp
qed

lemma attempts_ok_start:
  assumes ok: "attempts_ok cs rs ats outs" and r: "map_of rs rid = Some r" and nt: "\<not> terminal_request r"
    and new: "map_of ats (att_id a) = None" and rid: "att_request_id a = rid"
    and cur: "att_authority_status a = AttemptAuthority.CURRENT"
    and gen: "att_generation a = py_max 0 (map att_generation (attempts_of ats rid)) + 1"
    and eff: "(rs', ats') = start_effect rs ats rid r a" and ne: "att_id a \<noteq> ''''"
  shows "attempts_ok cs rs' ats' outs"
proof -
  define ats1 where "ats1 = (case req_current_attempt_id r of None \<Rightarrow> ats | Some c \<Rightarrow>
      (case map_of ats c of None \<Rightarrow> ats
       | Some old \<Rightarrow> setitem c (old\<lparr>att_authority_status := AttemptAuthority.SUPERSEDED\<rparr>) ats))"
  let ?r = "r\<lparr>req_status := RequestStatus.RUNNING, req_current_attempt_id := Some (att_id a)\<rparr>"
  from eff have rs': "rs' = setitem rid ?r rs" and ats': "ats' = setitem (att_id a) a ats1"
    by (auto simp: start_effect_def ats1_def)
  note rok = attempts_okD(1) [OF ok r]
  have look: "map_of ats1 k = (if req_current_attempt_id r = Some k
      then map_option (\<lambda>x. x\<lparr>att_authority_status := AttemptAuthority.SUPERSEDED\<rparr>) (map_of ats k)
      else map_of ats k)" for k
    by (auto simp: ats1_def split: option.split)
  have other: "att_request_id x = rid" if "req_current_attempt_id r = Some k" and "map_of ats k = Some x" for k x
    using rok that by (auto simp: request_ok_def)
  have keep: "map_of ats' k = Some x" if "map_of ats k = Some x" and "att_request_id x \<noteq> rid" for k x
    using that new other by (auto simp: ats' look)
  have "request_ok cs ats' outs q s" if q: "map_of rs' q = Some s" for q s
  proof (cases "q = rid")
    case True
    with q rs' have "s = ?r" by simp
    with True rok nt rid cur show ?thesis
      by (auto simp: request_ok_def ats' terminal_request_def split: if_splits)
  next
    case False
    with q rs' have "map_of rs q = Some s" by simp
    from attempts_okD(1) [OF ok this] False show ?thesis
      unfolding request_ok_def by (fastforce intro: keep)
  qed
  moreover have "attempt_ok rs' k x" if k: "map_of ats' k = Some x" for k x
  proof (cases "k = att_id a")
    case True
    with k rid cur show ?thesis by (auto simp: ats' rs' attempt_ok_def)
  next
    case False
    with k have "map_of ats1 k = Some x" by (simp add: ats')
    then consider (cur) y where "req_current_attempt_id r = Some k" "map_of ats k = Some y"
        "x = y\<lparr>att_authority_status := AttemptAuthority.SUPERSEDED\<rparr>"
      | (same) "req_current_attempt_id r \<noteq> Some k" "map_of ats k = Some x"
      by (auto simp: look split: if_splits)
    then show ?thesis
    proof cases
      case cur
      with other [OF cur(1,2)] show ?thesis by (auto simp: attempt_ok_def rs')
    next
      case same
      with attempts_okD(2) [OF ok same(2)] r show ?thesis by (auto simp: attempt_ok_def rs')
    qed
  qed
  moreover have "generations_ok ats'"
    unfolding ats'
  proof (rule generations_new)
    show "generations_ok ats1"
      using attempts_okD(3) [OF ok] by (auto simp: ats1_def intro: generations_replace split: option.split)
    show "map_of ats1 (att_id a) = None" using new by (simp add: look)
    have "map att_generation (attempts_of ats1 rid) = map att_generation (attempts_of ats rid)"
      by (auto simp: ats1_def attempts_of_replace split: option.split)
    with gen rid show "att_generation a = py_max 0 (map att_generation (attempts_of ats1 (att_request_id a))) + 1"
      by simp
  qed
  moreover have "map_of ats' '''' = None"
    using attempts_okD(4) [OF ok] ne by (simp add: ats' look)
  ultimately show ?thesis by (simp add: attempts_ok_def)
qed

lemma attempts_ok_commit:
  assumes ok: "attempts_ok cs rs ats outs" and r: "map_of rs rid = Some r" and nt: "\<not> terminal_request r"
    and cur: "req_current_attempt_id r = Some aid" and a: "map_of ats aid = Some a"
    and s: "att_execution_status a = ExecutionStatus.SUCCEEDED"
    and out: "map_of outs ou = Some out" "out_attempt_id out = aid" "out_terminal out"
  shows "attempts_ok cs
    (setitem rid (r\<lparr>req_status := RequestStatus.COMPLETED, req_current_attempt_id := None,
       req_committed_attempt_id := Some aid, req_authoritative_output_id := Some ou\<rparr>) rs)
    (setitem aid (a\<lparr>att_authority_status := AttemptAuthority.COMMITTED\<rparr>) ats) outs"
    (is "attempts_ok cs ?rs ?ats outs")
proof -
  note rok = attempts_okD(1) [OF ok r]
  from rok cur a have rid: "att_request_id a = rid" by (auto simp: request_ok_def)
  have keep: "map_of ?ats k = Some x" if "map_of ats k = Some x" and "att_request_id x \<noteq> rid" for k x
    using that a rid by auto
  have "request_ok cs ?ats outs q t" if q: "map_of ?rs q = Some t" for q t
  proof (cases "q = rid")
    case True
    with q rok rid s out show ?thesis by (auto simp: request_ok_def)
  next
    case False
    with q have "map_of rs q = Some t" by simp
    from attempts_okD(1) [OF ok this] False show ?thesis
      unfolding request_ok_def by (fastforce intro: keep)
  qed
  moreover have "attempt_ok ?rs k x" if k: "map_of ?ats k = Some x" for k x
  proof (cases "k = aid")
    case True
    with k rid show ?thesis by (auto simp: attempt_ok_def)
  next
    case False
    with k have x: "map_of ats k = Some x" by simp
    from attempts_okD(2) [OF ok x] r cur False rok nt show ?thesis
      by (auto simp: attempt_ok_def request_ok_def terminal_request_def split: if_splits)
  qed
  moreover have "generations_ok ?ats"
    by (rule generations_replace [OF attempts_okD(3) [OF ok] a]) simp_all
  moreover have "map_of ?ats '''' = None" using attempts_okD(4) [OF ok] a by auto
  ultimately show ?thesis by (simp add: attempts_ok_def)
qed

lemma phases_ok_new:
  assumes ok: "phases_ok ats phs" and "map_of phs i = None" and "map_of ats (ph_attempt_id p) = Some a"
    and "ph_ordinal p = py_max 0 (map ph_ordinal (phases_of phs (ph_attempt_id p))) + 1"
  shows "phases_ok ats (setitem i p phs)"
proof -
  have "\<exists>n. mset (map ph_ordinal (phases_of (setitem i p phs) aid)) = mset [1..int n]" for aid
  proof -
    obtain n where n: "mset (map ph_ordinal (phases_of phs aid)) = mset [1..int n]"
      using ok unfolding phases_ok_def by blast
    show ?thesis
    proof (cases "ph_attempt_id p = aid")
      case True
      with n assms(4) have "ph_ordinal p = int n + 1" by (simp add: py_max_numbering)
      with n True assms(2) numbering_snoc [of _ n] show ?thesis by (simp add: phases_of_new)
    qed (use n assms(2) in \<open>auto simp: phases_of_new\<close>)
  qed
  with ok assms(3) show ?thesis by (auto simp: phases_ok_def split: if_splits)
qed

lemma phases_ok_status:
  assumes "phases_ok ats phs" and "map_of phs pid = Some p"
  shows "phases_ok ats (setitem pid (p\<lparr>ph_status := s\<rparr>) phs)"
  using assms by (auto simp: phases_ok_def phases_of_replace [OF assms(2)] simp flip: mset_map split: if_splits)

text \<open>Attempts are never removed, which is all that phases and outputs rely on.\<close>

lemma phases_ok_attempts:
  "phases_ok ats phs \<Longrightarrow> (\<And>k a. map_of ats k = Some a \<Longrightarrow> \<exists>a'. map_of ats' k = Some a') \<Longrightarrow> phases_ok ats' phs"
  unfolding phases_ok_def by meson

lemma outputs_ok_mono:
  "outputs_ok ats evd outs \<Longrightarrow> (\<And>k a. map_of ats k = Some a \<Longrightarrow> \<exists>a'. map_of ats' k = Some a') \<Longrightarrow>
     (\<And>k e. map_of evd k = Some e \<Longrightarrow> \<exists>e'. map_of evd' k = Some e') \<Longrightarrow> outputs_ok ats' evd' outs"
  unfolding outputs_ok_def by meson

lemma outputs_ok_new:
  "outputs_ok ats evd outs \<Longrightarrow> map_of ats (out_attempt_id out) = Some a \<Longrightarrow>
     \<forall>e\<in>set (out_evidence_ids out). \<exists>x. map_of evd e = Some x \<Longrightarrow> outputs_ok ats evd (setitem i out outs)"
  by (auto simp: outputs_ok_def)

text \<open>The pointers of a request, as facts on the attempts they name.\<close>

lemma request_current:
  assumes "attempts_ok cs rs ats outs" and "map_of rs k = Some r" and "req_current_attempt_id r = Some a"
  shows "\<exists>y. map_of ats a = Some y \<and> att_request_id y = k \<and>
    att_authority_status y = AttemptAuthority.CURRENT"
  using attempts_okD(1) [OF assms(1,2)] assms(3) unfolding request_ok_def by blast

lemma request_committed:
  assumes "attempts_ok cs rs ats outs" and "map_of rs k = Some r" and "req_committed_attempt_id r = Some a"
  shows "\<exists>y. map_of ats a = Some y \<and> att_request_id y = k \<and>
    att_authority_status y = AttemptAuthority.COMMITTED \<and>
    att_execution_status y = ExecutionStatus.SUCCEEDED"
  using attempts_okD(1) [OF assms(1,2)] assms(3) unfolding request_ok_def by blast

lemma attempt_request:
  assumes "attempts_ok cs rs ats outs" and "map_of ats k = Some a"
  shows "\<exists>r. map_of rs (att_request_id a) = Some r"
  using attempts_okD(2) [OF assms] unfolding attempt_ok_def by blast

end
