(* ===== verification/Core_Reuse.thy ===== *)
theory Core_Reuse
  imports Core_Graph Core_Attempt
begin

section \<open>Reusable State: provenance, validity, compatibility, replicas\<close>

text \<open>
  The "State" operations of \<open>ContinuityCore\<close>. A reusable State has a declared origin (a
  Continuation, a committed request, an attempt or a completed phase) from which its provenance is
  resolved, and depends on other States. Whether it may be used in an execution context is decided
  by \<open>state_compatible\<close>, a recursive check over the whole graph of dependencies; the theory proves
  it equal to a specification without recursion: the context is consistent, and every State in the
  dependency closure is valid, causally visible, produced with authority and semantically accepted.
\<close>

subsection \<open>Creating States\<close>

type_synonym origin = "string \<times> string option \<times> string option \<times> string option"

definition resolve_origin :: "core \<Rightarrow> string \<Rightarrow> string \<Rightarrow> origin res" where
  "resolve_origin g origin_type origin_id =
     (if origin_type = ''continuation'' then
        bind_res (getitem (continuations g) origin_id) (\<lambda>c. Inr (cont_id c, None, None, None))
      else if origin_type = ''request'' then
        bind_res (getitem (requests g) origin_id) (\<lambda>r.
        if req_status r \<noteq> RequestStatus.COMPLETED \<or> req_committed_attempt_id r = None
        then Inl SemanticViolation
        else Inr (req_continuation_id r, Some (req_id r), req_committed_attempt_id r, None))
      else if origin_type = ''attempt'' then
        bind_res (getitem (attempts g) origin_id) (\<lambda>a.
        if att_authority_status a = AttemptAuthority.SUPERSEDED then Inl SemanticViolation
        else bind_res (getitem (requests g) (att_request_id a)) (\<lambda>r.
             Inr (req_continuation_id r, Some (req_id r), Some (att_id a), None)))
      else if origin_type = ''phase'' then
        bind_res (getitem (phases g) origin_id) (\<lambda>p.
        if ph_status p \<noteq> PhaseStatus.COMPLETED then Inl SemanticViolation
        else bind_res (getitem (attempts g) (ph_attempt_id p)) (\<lambda>a.
             if att_authority_status a = AttemptAuthority.SUPERSEDED then Inl SemanticViolation
             else bind_res (getitem (requests g) (att_request_id a)) (\<lambda>r.
                  Inr (req_continuation_id r, Some (req_id r), Some (att_id a), Some (ph_id p)))))
      else Inl SemanticViolation)"

text \<open>The comparison of the producer phases of a State and its dependency, within one attempt.\<close>

definition check_phase_precedes ::
  "core \<Rightarrow> string option \<Rightarrow> string option \<Rightarrow> ReusableState \<Rightarrow> unit res" where
  "check_phase_precedes g pa pp dependency =
     (if truthy pp \<and> truthy (st_producer_phase_id dependency) \<and> st_producer_attempt_id dependency = pa
      then bind_res (getitem (phases g) (the pp)) (\<lambda>producer_phase.
           bind_res (getitem (phases g) (the (st_producer_phase_id dependency))) (\<lambda>dependency_phase.
           raise_if (ph_ordinal producer_phase \<le> ph_ordinal dependency_phase) SemanticViolation))
      else Inr ())"

definition check_dependency ::
  "core \<Rightarrow> string \<Rightarrow> string option \<Rightarrow> string option \<Rightarrow> string \<Rightarrow> unit res" where
  "check_dependency g oc pa pp sid =
     bind_res (getitem (states g) sid) (\<lambda>dependency.
     bind_res (is_ancestor g (st_origin_continuation_id dependency) oc) (\<lambda>anc.
     if \<not> anc then Inl SemanticViolation else check_phase_precedes g pa pp dependency))"

definition state_graph :: "ReusableState dict \<Rightarrow> string list dict" where
  "state_graph d = map (\<lambda>(k, x). (k, st_derived_from x)) d"

definition state_cycle :: "core \<Rightarrow> bool res" where
  "state_cycle g = finds_cycle (state_graph (states g))"

definition create_state ::
  "core \<Rightarrow> string \<Rightarrow> string \<Rightarrow> string \<Rightarrow> string \<Rightarrow> string \<Rightarrow> string list \<Rightarrow> (core, ReusableState) outcome" where
  "create_state g i origin_type origin_id semantic_type repr derived_from =
     reads g (unique g i) (\<lambda>_.
     reads g (resolve_origin g origin_type origin_id) (\<lambda>(oc, orq, pa, pp).
     let dependencies = frozenset derived_from in
     reads g (for_each dependencies (check_dependency g oc pa pp)) (\<lambda>_.
     let x = \<lparr>st_id = i, st_origin_type = origin_type, st_origin_id = origin_id,
              st_origin_continuation_id = oc, st_origin_request_id = orq,
              st_producer_attempt_id = pa, st_semantic_type = semantic_type,
              st_representation = repr, st_lifecycle = StateLifecycle.TERMINAL,
              st_validity = StateValidity.VALID, st_derived_from = dependencies,
              st_producer_phase_id = pp\<rparr>;
         g1 = g\<lparr>states := setitem i x (states g)\<rparr>
     in reads g1 (state_cycle g1) (\<lambda>cyc.
        if cyc then (Inl SemanticViolation, g1\<lparr>states := delitem i (states g1)\<rparr>)
        else calls (refresh_state_lifecycles g1) (\<lambda>_ g2.
             reads g2 (getitem (states g2) i) (\<lambda>y. (Inr y, g2)))))))"

definition set_state_validity :: "core \<Rightarrow> string \<Rightarrow> StateValidity \<Rightarrow> (core, ReusableState) outcome" where
  "set_state_validity g state_id validity =
     reads g (getitem (states g) state_id) (\<lambda>x.
     if st_validity x = StateValidity.INVALID \<and> validity \<noteq> StateValidity.INVALID
     then (Inl InvalidTransition, g)
     else let x' = x\<lparr>st_validity := validity\<rparr>
          in (Inr x', g\<lparr>states := setitem state_id x' (states g)\<rparr>))"

subsection \<open>Compatibility of a State with an execution context\<close>

definition phase_context_ok :: "core \<Rightarrow> ExecutionContext \<Rightarrow> Attempt \<Rightarrow> bool" where
  "phase_context_ok g ctx a =
     (case ctx_phase_id ctx of
        None \<Rightarrow> True
      | Some pid \<Rightarrow>
          (case map_of (phases g) pid of
             None \<Rightarrow> False
           | Some phase \<Rightarrow>
               ph_attempt_id phase = att_id a \<and>
               ph_status phase \<in> {PhaseStatus.RUNNING, PhaseStatus.COMPLETED}))"

definition context_consistent :: "core \<Rightarrow> ExecutionContext \<Rightarrow> bool" where
  "context_consistent g ctx =
     (case (map_of (programs g) (ctx_program_id ctx), map_of (sessions g) (ctx_session_id ctx),
            map_of (continuations g) (ctx_continuation_id ctx),
            map_of (requests g) (ctx_request_id ctx), map_of (attempts g) (ctx_attempt_id ctx)) of
        (Some p, Some s, Some c, Some r, Some a) \<Rightarrow>
          sess_program_id s = prog_id p \<and> cont_session_id c = sess_id s \<and>
          req_continuation_id r = cont_id c \<and> att_request_id a = req_id r \<and>
          req_current_attempt_id r = Some (att_id a) \<and>
          att_authority_status a = AttemptAuthority.CURRENT \<and> phase_context_ok g ctx a
      | _ \<Rightarrow> False)"

text \<open>The test on the producer of a State: the block under \<open>if x.producer_attempt_id\<close>.\<close>

definition is_context_attempt :: "ExecutionContext \<Rightarrow> Attempt \<Rightarrow> bool" where
  "is_context_attempt ctx pa \<longleftrightarrow>
     att_id pa = ctx_attempt_id ctx \<and> att_authority_status pa = AttemptAuthority.CURRENT"

definition producer_ok :: "core \<Rightarrow> ExecutionContext \<Rightarrow> ReusableState \<Rightarrow> bool res" where
  "producer_ok g ctx x =
     (if truthy (st_producer_attempt_id x) then
        bind_res (getitem (attempts g) (the (st_producer_attempt_id x))) (\<lambda>pa.
        if att_authority_status pa = AttemptAuthority.SUPERSEDED then Inr False
        else if truthy (st_origin_request_id x) then
          bind_res (getitem (requests g) (the (st_origin_request_id x))) (\<lambda>pr.
          if req_status pr = RequestStatus.COMPLETED
          then Inr (req_committed_attempt_id pr = Some (att_id pa))
          else Inr (is_context_attempt ctx pa))
        else Inr (is_context_attempt ctx pa))
      else Inr True)"

definition phase_order_ok :: "core \<Rightarrow> ExecutionContext \<Rightarrow> ReusableState \<Rightarrow> bool res" where
  "phase_order_ok g ctx x =
     (if truthy (st_producer_phase_id x) \<and> st_producer_attempt_id x = Some (ctx_attempt_id ctx) then
        (case ctx_phase_id ctx of
           None \<Rightarrow> Inr False
         | Some pid \<Rightarrow>
             bind_res (getitem (phases g) (the (st_producer_phase_id x))) (\<lambda>producer_phase.
             bind_res (getitem (phases g) pid) (\<lambda>consumer_phase.
             Inr (\<not> ph_ordinal consumer_phase \<le> ph_ordinal producer_phase))))
      else Inr True)"

type_synonym semantic_validity = "ReusableState \<Rightarrow> ExecutionContext \<Rightarrow> bool"

text \<open>
  The set \<open>visiting\<close> is a list; the removal in the \<open>finally\<close> block is that the caller goes on with
  the list it had.
\<close>

function state_compatible_recursive ::
  "semantic_validity \<Rightarrow> core \<Rightarrow> ExecutionContext \<Rightarrow> string list \<Rightarrow> string \<Rightarrow> bool res" where
  "state_compatible_recursive sv g ctx visiting sid =
     (case map_of (states g) sid of
        None \<Rightarrow> Inr False
      | Some x \<Rightarrow>
          if st_validity x \<noteq> StateValidity.VALID then Inr False
          else if sid \<in> set visiting then Inr False
          else
            bind_res (is_ancestor g (st_origin_continuation_id x) (ctx_continuation_id ctx)) (\<lambda>anc.
            if \<not> anc then Inr False else
            bind_res (producer_ok g ctx x) (\<lambda>prod.
            if \<not> prod then Inr False else
            bind_res (phase_order_ok g ctx x) (\<lambda>ord.
            if \<not> ord then Inr False else
            bind_res (all_res (state_compatible_recursive sv g ctx (sid # visiting)) (st_derived_from x))
              (\<lambda>deps. if \<not> deps then Inr False else Inr (sv x ctx))))))"
  by pat_completeness auto
termination
proof (relation "measure (\<lambda>(sv, g, ctx, vis, sid). card (set (keys_of (state_graph (states g))) - set vis))",
    goal_cases)
  case (2 sv g ctx vis sid x)
  then have "map_of (state_graph (states g)) sid = Some (st_derived_from x)"
    by (simp add: state_graph_def map_of_map_snd)
  from card_keys_less [OF this] 2 show ?case by simp
qed simp

declare state_compatible_recursive.simps [simp del]

definition state_compatible :: "semantic_validity \<Rightarrow> core \<Rightarrow> string \<Rightarrow> ExecutionContext \<Rightarrow> bool res" where
  "state_compatible sv g state_id ctx =
     (if \<not> context_consistent g ctx then Inr False
      else state_compatible_recursive sv g ctx [] state_id)"

subsection \<open>Replicas\<close>

definition add_replica ::
  "core \<Rightarrow> string \<Rightarrow> string \<Rightarrow> string \<Rightarrow> ReplicaStatus \<Rightarrow> (core, StateReplica) outcome" where
  "add_replica g i state_id location_id status =
     reads g (unique g i) (\<lambda>_.
     reads g (getitem (states g) state_id) (\<lambda>_.
     let r = \<lparr>rep_id = i, rep_state_id = state_id, rep_location_id = location_id,
              rep_status = status, rep_binding_id = None, rep_binding_epoch = None\<rparr>
     in (Inr r, g\<lparr>replicas := setitem i r (replicas g)\<rparr>)))"

definition set_replica_status :: "core \<Rightarrow> string \<Rightarrow> ReplicaStatus \<Rightarrow> (core, StateReplica) outcome" where
  "set_replica_status g replica_id status =
     reads g (getitem (replicas g) replica_id) (\<lambda>r.
     let r' = r\<lparr>rep_status := status\<rparr>
     in (Inr r', g\<lparr>replicas := setitem replica_id r' (replicas g)\<rparr>))"

definition can_consume_state ::
  "semantic_validity \<Rightarrow> rat \<Rightarrow> core \<Rightarrow> string \<Rightarrow> string \<Rightarrow> ExecutionContext \<Rightarrow> string list \<Rightarrow> rat option \<Rightarrow>
   bool res" where
  "can_consume_state sv clock g state_id replica_id ctx evidence_ids now =
     bind_res (getitem (replicas g) replica_id) (\<lambda>r.
     if rep_state_id r \<noteq> state_id \<or> rep_status r \<noteq> ReplicaStatus.VALID then Inr False
     else bind_res (state_compatible sv g state_id ctx) (\<lambda>ok.
       if \<not> ok then Inr False
       else (case require_evidence clock g ''consume_state'' evidence_ids now
                    (Some [(''state'', state_id), (''replica'', replica_id)]) None of
               Inr _ \<Rightarrow> Inr True
             | Inl InsufficientEvidence \<Rightarrow> Inr False
             | Inl e \<Rightarrow> Inl e)))"

subsection \<open>The invariant of States\<close>

text \<open>
  What the declared origin of a State says about its provenance, in the words of the source's
  case distinction, and the laws its dependencies satisfy.
\<close>

definition origin_ok ::
  "Continuation dict \<Rightarrow> LogicalRequest dict \<Rightarrow> Attempt dict \<Rightarrow> Phase dict \<Rightarrow> ReusableState \<Rightarrow> bool" where
  "origin_ok cs rs ats phs x \<longleftrightarrow>
     (\<exists>c. map_of cs (st_origin_continuation_id x) = Some c) \<and>
     (st_origin_type x = ''continuation'' \<and> st_origin_continuation_id x = st_origin_id x \<and>
        st_origin_request_id x = None \<and> st_producer_attempt_id x = None \<and> st_producer_phase_id x = None \<or>
      st_origin_type x = ''request'' \<and> st_producer_phase_id x = None \<and>
        (\<exists>r. map_of rs (st_origin_id x) = Some r \<and> req_status r = RequestStatus.COMPLETED \<and>
           req_committed_attempt_id r \<noteq> None \<and> st_origin_request_id x = Some (st_origin_id x) \<and>
           st_origin_continuation_id x = req_continuation_id r \<and>
           st_producer_attempt_id x = req_committed_attempt_id r) \<or>
      st_origin_type x = ''attempt'' \<and> st_producer_phase_id x = None \<and>
        (\<exists>a r. map_of ats (st_origin_id x) = Some a \<and> map_of rs (att_request_id a) = Some r \<and>
           st_producer_attempt_id x = Some (st_origin_id x) \<and>
           st_origin_request_id x = Some (att_request_id a) \<and>
           st_origin_continuation_id x = req_continuation_id r) \<or>
      st_origin_type x = ''phase'' \<and> st_producer_phase_id x = Some (st_origin_id x) \<and>
        (\<exists>p a r. map_of phs (st_origin_id x) = Some p \<and> ph_status p = PhaseStatus.COMPLETED \<and>
           map_of ats (ph_attempt_id p) = Some a \<and> map_of rs (att_request_id a) = Some r \<and>
           st_producer_attempt_id x = Some (ph_attempt_id p) \<and>
           st_origin_request_id x = Some (att_request_id a) \<and>
           st_origin_continuation_id x = req_continuation_id r))"

definition phase_precedes :: "Phase dict \<Rightarrow> ReusableState \<Rightarrow> ReusableState \<Rightarrow> bool" where
  "phase_precedes phs y x \<longleftrightarrow>
     (\<forall>p q. st_producer_phase_id x = Some p \<and> st_producer_phase_id y = Some q \<and>
        st_producer_attempt_id y = st_producer_attempt_id x \<longrightarrow>
        (\<exists>pp qq. map_of phs p = Some pp \<and> map_of phs q = Some qq \<and> ph_ordinal qq < ph_ordinal pp))"

definition deps_ok :: "Continuation dict \<Rightarrow> Phase dict \<Rightarrow> ReusableState dict \<Rightarrow> ReusableState \<Rightarrow> bool" where
  "deps_ok cs phs sts x \<longleftrightarrow>
     (\<forall>d\<in>set (st_derived_from x). \<exists>y. map_of sts d = Some y \<and>
        descends cs (st_origin_continuation_id x) (st_origin_continuation_id y) \<and>
        phase_precedes phs y x)"

definition deps_rel :: "ReusableState dict \<Rightarrow> (string \<times> string) set" where
  "deps_rel sts = edges (state_graph sts)"

definition states_ok ::
  "Continuation dict \<Rightarrow> LogicalRequest dict \<Rightarrow> Attempt dict \<Rightarrow> Phase dict \<Rightarrow> ReusableState dict \<Rightarrow> bool" where
  "states_ok cs rs ats phs sts \<longleftrightarrow>
     (\<forall>k x. map_of sts k = Some x \<longrightarrow> origin_ok cs rs ats phs x \<and> deps_ok cs phs sts x) \<and>
     acyclic (deps_rel sts) \<and> fresh_lifecycles cs sts"

definition replicas_ok :: "ReusableState dict \<Rightarrow> StateReplica dict \<Rightarrow> bool" where
  "replicas_ok sts rps \<longleftrightarrow>
     (\<forall>k r. map_of rps k = Some r \<longrightarrow>
        (\<exists>x. map_of sts (rep_state_id r) = Some x) \<and> rep_binding_id r = None)"

lemma states_okD:
  assumes "states_ok cs rs ats phs sts" and "map_of sts k = Some x"
  shows "origin_ok cs rs ats phs x" "deps_ok cs phs sts x"
  using assms by (auto simp: states_ok_def)

lemma deps_rel_iff: "(x, p) \<in> deps_rel sts \<longleftrightarrow> (\<exists>s. map_of sts x = Some s \<and> p \<in> set (st_derived_from s))"
  by (auto simp: deps_rel_def edges_def state_graph_def map_of_map_snd)

lemma deps_rel_cong:
  "(\<And>k. map_option st_derived_from (map_of d k) = map_option st_derived_from (map_of d' k)) \<Longrightarrow>
     deps_rel d = deps_rel d'"
  by (simp add: deps_rel_def edges_def state_graph_def map_of_map_snd)

lemma origin_request_attempt:
  assumes "origin_ok cs rs ats phs x" and "attempts_ok cs rs ats outs"
  shows "st_producer_attempt_id x = Some a \<Longrightarrow>
      \<exists>y r. map_of ats a = Some y \<and> st_origin_request_id x = Some (att_request_id y) \<and>
        map_of rs (att_request_id y) = Some r"
    and "st_producer_phase_id x = Some p \<Longrightarrow> st_producer_attempt_id x = Some a \<Longrightarrow>
      \<exists>y. map_of phs p = Some y \<and> ph_attempt_id y = a \<and> ph_status y = PhaseStatus.COMPLETED"
  using assms(1) request_committed [OF assms(2), of "st_origin_id x" _ a]
  by (auto simp: origin_ok_def)

text \<open>
  Growth of the other dictionaries keeps the States' invariant: continuations and their edges are
  only added, requests keep their continuation and, once completed, their outcome, attempts keep
  their request, phases keep their attempt and ordinal, and stay completed.
\<close>

definition requests_grow :: "LogicalRequest dict \<Rightarrow> LogicalRequest dict \<Rightarrow> bool" where
  "requests_grow rs rs' \<longleftrightarrow>
     (\<forall>k r. map_of rs k = Some r \<longrightarrow>
        (\<exists>r'. map_of rs' k = Some r' \<and> req_continuation_id r' = req_continuation_id r \<and>
           (req_status r = RequestStatus.COMPLETED \<longrightarrow> r' = r)))"

definition attempts_grow :: "Attempt dict \<Rightarrow> Attempt dict \<Rightarrow> bool" where
  "attempts_grow ats ats' \<longleftrightarrow>
     (\<forall>k a. map_of ats k = Some a \<longrightarrow>
        (\<exists>a'. map_of ats' k = Some a' \<and> att_request_id a' = att_request_id a))"

definition phases_grow :: "Phase dict \<Rightarrow> Phase dict \<Rightarrow> bool" where
  "phases_grow phs phs' \<longleftrightarrow>
     (\<forall>k p. map_of phs k = Some p \<longrightarrow>
        (\<exists>p'. map_of phs' k = Some p' \<and> ph_attempt_id p' = ph_attempt_id p \<and>
           ph_ordinal p' = ph_ordinal p \<and>
           (ph_status p = PhaseStatus.COMPLETED \<longrightarrow> ph_status p' = PhaseStatus.COMPLETED)))"

definition continuations_grow :: "Continuation dict \<Rightarrow> Continuation dict \<Rightarrow> bool" where
  "continuations_grow cs cs' \<longleftrightarrow>
     (\<forall>k c. map_of cs k = Some c \<longrightarrow> (\<exists>c'. map_of cs' k = Some c')) \<and> parents_rel cs \<subseteq> parents_rel cs'"

lemma grow_refl [simp]:
  "requests_grow rs rs" "attempts_grow ats ats" "phases_grow phs phs" "continuations_grow cs cs"
  by (simp_all add: requests_grow_def attempts_grow_def phases_grow_def continuations_grow_def)

lemma descends_mono: "continuations_grow cs cs' \<Longrightarrow> descends cs d a \<Longrightarrow> descends cs' d a"
  using rtrancl_mono by (auto simp: continuations_grow_def descends_def)

lemma phase_precedes_mono: "phases_grow phs phs' \<Longrightarrow> phase_precedes phs y x \<Longrightarrow> phase_precedes phs' y x"
  unfolding phase_precedes_def phases_grow_def by metis

lemma deps_ok_mono:
  "continuations_grow cs cs' \<Longrightarrow> phases_grow phs phs' \<Longrightarrow> deps_ok cs phs sts x \<Longrightarrow> deps_ok cs' phs' sts x"
  unfolding deps_ok_def by (meson descends_mono phase_precedes_mono)

lemma origin_ok_mono:
  assumes "origin_ok cs rs ats phs x" and "continuations_grow cs cs'" "requests_grow rs rs'"
    "attempts_grow ats ats'" "phases_grow phs phs'"
  shows "origin_ok cs' rs' ats' phs' x"
proof -
  have c: "\<exists>c. map_of cs' (st_origin_continuation_id x) = Some c"
    using assms(1,2) by (auto simp: origin_ok_def continuations_grow_def)
  have r: "\<exists>r'. map_of rs' k = Some r' \<and> req_continuation_id r' = req_continuation_id r \<and>
      (req_status r = RequestStatus.COMPLETED \<longrightarrow> r' = r)" if "map_of rs k = Some r" for k r
    using that assms(3) by (auto simp: requests_grow_def)
  have a: "\<exists>a'. map_of ats' k = Some a' \<and> att_request_id a' = att_request_id a"
    if "map_of ats k = Some a" for k a
    using that assms(4) by (auto simp: attempts_grow_def)
  have p: "\<exists>p'. map_of phs' k = Some p' \<and> ph_attempt_id p' = ph_attempt_id p \<and>
      (ph_status p = PhaseStatus.COMPLETED \<longrightarrow> ph_status p' = PhaseStatus.COMPLETED)"
    if "map_of phs k = Some p" for k p
    using that assms(5) by (fastforce simp: phases_grow_def)
  from assms(1) consider (cont) "st_origin_type x = ''continuation''"
    | (req) "st_origin_type x = ''request''" | (att) "st_origin_type x = ''attempt''"
    | (ph) "st_origin_type x = ''phase''" by (auto simp: origin_ok_def)
  then show ?thesis
  proof cases
    case cont
    with assms(1) c show ?thesis by (simp add: origin_ok_def)
  next
    case req
    with assms(1) obtain q where q: "map_of rs (st_origin_id x) = Some q"
      "req_status q = RequestStatus.COMPLETED" by (auto simp: origin_ok_def)
    from r [OF q(1)] q(2) have "map_of rs' (st_origin_id x) = Some q" by auto
    with req q assms(1) c show ?thesis by (simp add: origin_ok_def)
  next
    case att
    with assms(1) obtain b q where b: "map_of ats (st_origin_id x) = Some b"
      "map_of rs (att_request_id b) = Some q" by (auto simp: origin_ok_def)
    from a [OF b(1)] r [OF b(2)] att b assms(1) c show ?thesis by (auto simp: origin_ok_def)
  next
    case ph
    with assms(1) obtain y b q where b: "map_of phs (st_origin_id x) = Some y"
      "map_of ats (ph_attempt_id y) = Some b" "map_of rs (att_request_id b) = Some q"
      by (auto simp: origin_ok_def)
    from p [OF b(1)] a [OF b(2)] r [OF b(3)] ph b assms(1) c show ?thesis by (auto simp: origin_ok_def)
  qed
qed

lemma states_ok_mono:
  assumes "states_ok cs rs ats phs sts" and "requests_grow rs rs'" "attempts_grow ats ats'"
    "phases_grow phs phs'"
  shows "states_ok cs rs' ats' phs' sts"
  using assms(1) origin_ok_mono [OF _ _ assms(2-4), of cs] deps_ok_mono [OF _ assms(4), of cs]
  by (auto simp: states_ok_def)

subsection \<open>What the operations on States do\<close>

text \<open>The hypotheses on the rest of the core that the lemmas below need.\<close>

definition reuse_inv :: "core \<Rightarrow> bool" where
  "reuse_inv g \<longleftrightarrow>
     graph_inv g \<and> \<not> id_taken g '''' \<and>
     attempts_ok (continuations g) (requests g) (attempts g) (outputs g) \<and>
     phases_ok (attempts g) (phases g) \<and>
     states_ok (continuations g) (requests g) (attempts g) (phases g) (states g)"

lemma reuse_invD:
  assumes "reuse_inv g"
  shows "graph_inv g" "ids_ok g" "\<not> id_taken g ''''"
    "attempts_ok (continuations g) (requests g) (attempts g) (outputs g)"
    "phases_ok (attempts g) (phases g)"
    "states_ok (continuations g) (requests g) (attempts g) (phases g) (states g)"
  using assms by (auto simp: reuse_inv_def graph_inv_def)

lemma resolve_origin_Inr:
  assumes inv: "reuse_inv g" and res: "resolve_origin g ty oid = Inr (oc, orq, pa, pp)"
    and x: "st_origin_type x = ty" "st_origin_id x = oid" "st_origin_continuation_id x = oc"
      "st_origin_request_id x = orq" "st_producer_attempt_id x = pa" "st_producer_phase_id x = pp"
  shows "origin_ok (continuations g) (requests g) (attempts g) (phases g) x"
    and "pa = Some a \<Longrightarrow> \<exists>y. map_of (attempts g) a = Some y \<and>
      att_authority_status y \<noteq> AttemptAuthority.SUPERSEDED"
proof -
  note ids = ids_okD [OF reuse_invD(2) [OF inv]] and at = reuse_invD(4) [OF inv]
  have k: "map_of (continuations g) k = Some c \<Longrightarrow> cont_id c = k"
    "map_of (requests g) k = Some r \<Longrightarrow> req_id r = k"
    "map_of (attempts g) k = Some b \<Longrightarrow> att_id b = k"
    "map_of (phases g) k = Some p \<Longrightarrow> ph_id p = k" for k c r b p
    using keyedD [OF ids(15)] keyedD [OF ids(16)] keyedD [OF ids(17)] keyedD [OF ids(18)] by auto
  have c: "\<exists>c. map_of (continuations g) (req_continuation_id r) = Some c"
    if "map_of (requests g) k = Some r" for k r
    using attempts_okD(1) [OF at that] by (auto simp: request_ok_def)
  have "ty = ''continuation'' \<or> ty = ''request'' \<or> ty = ''attempt'' \<or> ty = ''phase''"
    using res by (auto simp: resolve_origin_def split: if_splits)
  then consider (cont) "ty = ''continuation''" | (req) "ty = ''request''"
    | (att) "ty = ''attempt''" | (ph) "ty = ''phase''" by blast
  then have "origin_ok (continuations g) (requests g) (attempts g) (phases g) x \<and>
    (\<forall>a. pa = Some a \<longrightarrow> (\<exists>y. map_of (attempts g) a = Some y \<and>
      att_authority_status y \<noteq> AttemptAuthority.SUPERSEDED))"
  proof cases
    case cont
    with res x k(1) show ?thesis by (auto simp: resolve_origin_def bind_res_Inr origin_ok_def)
  next
    case req
    with res obtain r where r: "map_of (requests g) oid = Some r" "req_status r = RequestStatus.COMPLETED"
      "pa = req_committed_attempt_id r" "pa \<noteq> None" "oc = req_continuation_id r"
      "orq = Some (req_id r)" "pp = None"
      by (auto simp: resolve_origin_def bind_res_Inr split: if_splits)
    from request_committed [OF at r(1)] r(3) show ?thesis
      using req r x k(2) [OF r(1)] c [OF r(1)] by (fastforce simp: origin_ok_def)
  next
    case att
    with res obtain b r where b: "map_of (attempts g) oid = Some b"
      "map_of (requests g) (att_request_id b) = Some r"
      "att_authority_status b \<noteq> AttemptAuthority.SUPERSEDED"
      "oc = req_continuation_id r" "orq = Some (req_id r)" "pa = Some (att_id b)" "pp = None"
      by (auto simp: resolve_origin_def bind_res_Inr split: if_splits)
    with att x k(2) [OF b(2)] k(3) [OF b(1)] c [OF b(2)] show ?thesis by (auto simp: origin_ok_def)
  next
    case ph
    with res obtain p b r where b: "map_of (phases g) oid = Some p" "ph_status p = PhaseStatus.COMPLETED"
      "map_of (attempts g) (ph_attempt_id p) = Some b" "map_of (requests g) (att_request_id b) = Some r"
      "att_authority_status b \<noteq> AttemptAuthority.SUPERSEDED"
      "oc = req_continuation_id r" "orq = Some (req_id r)" "pa = Some (att_id b)" "pp = Some (ph_id p)"
      by (auto simp: resolve_origin_def bind_res_Inr split: if_splits)
    with ph x k(2) [OF b(4)] k(3) [OF b(3)] k(4) [OF b(1)] c [OF b(4)] show ?thesis
      by (auto simp: origin_ok_def)
  qed
  then show "origin_ok (continuations g) (requests g) (attempts g) (phases g) x"
    and "pa = Some a \<Longrightarrow> \<exists>y. map_of (attempts g) a = Some y \<and>
      att_authority_status y \<noteq> AttemptAuthority.SUPERSEDED" by blast+
qed

lemma phase_id_truthy:
  assumes "reuse_inv g" and "origin_ok cs rs ats (phases g) x" and "st_producer_phase_id x = Some p"
  shows "truthy (Some p)"
proof -
  from assms(2,3) obtain q where "map_of (phases g) p = Some q" by (auto simp: origin_ok_def)
  moreover have "map_of (phases g) '''' = None"
    by (rule not_id_taken(6) [OF reuse_invD(3) [OF assms(1)]])
  ultimately show ?thesis by auto
qed

lemma check_dependency_Inr:
  assumes inv: "reuse_inv g" and chk: "check_dependency g oc pa pp d = Inr ()"
    and x: "origin_ok (continuations g) (requests g) (attempts g) (phases g) x"
      "st_origin_continuation_id x = oc" "st_producer_attempt_id x = pa" "st_producer_phase_id x = pp"
  shows "\<exists>y. map_of (states g) d = Some y \<and>
      descends (continuations g) oc (st_origin_continuation_id y) \<and> phase_precedes (phases g) y x"
proof -
  from x obtain c where "map_of (continuations g) oc = Some c" by (auto simp: origin_ok_def)
  note anc = is_ancestor_descends [OF reuse_invD(1) [OF inv] this]
  from chk obtain y where y: "map_of (states g) d = Some y"
    and des: "descends (continuations g) oc (st_origin_continuation_id y)"
    and prec: "check_phase_precedes g pa pp y = Inr ()"
    by (auto simp: check_dependency_def bind_res_Inr anc split: if_splits)
  note oy = states_okD(1) [OF reuse_invD(6) [OF inv] y]
  have "phase_precedes (phases g) y x"
    unfolding phase_precedes_def
  proof (intro allI impI, elim conjE)
    fix p q assume p: "st_producer_phase_id x = Some p" and q: "st_producer_phase_id y = Some q"
      and same: "st_producer_attempt_id y = st_producer_attempt_id x"
    have "truthy pp" "truthy (st_producer_phase_id y)"
      using phase_id_truthy [OF inv x(1) p] phase_id_truthy [OF inv oy q] p q x(4) by simp_all
    with prec p q same x(3,4) show "\<exists>a b. map_of (phases g) p = Some a \<and>
        map_of (phases g) q = Some b \<and> ph_ordinal b < ph_ordinal a"
      by (auto simp: check_phase_precedes_def bind_res_Inr)
  qed
  with y des show ?thesis by blast
qed

lemma state_cycle_False:
  assumes "acyclic (deps_rel (states g))" and "\<And>k x d. map_of (states g) k = Some x \<Longrightarrow>
      d \<in> set (st_derived_from x) \<Longrightarrow> \<exists>y. map_of (states g) d = Some y"
  shows "state_cycle g = Inr False"
proof -
  have "closed_graph (state_graph (states g))"
    unfolding closed_graph_def
  proof clarify
    fix k d assume "(k, d) \<in> edges (state_graph (states g))"
    then obtain x where "map_of (states g) k = Some x" and "d \<in> set (st_derived_from x)"
      using deps_rel_iff by (auto simp: deps_rel_def)
    from assms(2) [OF this] show "d \<in> set (keys_of (state_graph (states g)))"
      by (auto simp: state_graph_def dest: map_of_in_keys)
  qed
  from finds_cycle_correct [OF this] assms(1) show ?thesis
    by (simp add: state_cycle_def deps_rel_def)
qed

text \<open>The shape of the State a successful \<open>create_state\<close> adds, apart from its lifecycle.\<close>

definition new_state :: "string \<Rightarrow> string \<Rightarrow> string \<Rightarrow> origin \<Rightarrow> string \<Rightarrow> string \<Rightarrow> string list \<Rightarrow>
    StateLifecycle \<Rightarrow> ReusableState" where
  "new_state i ty oid org sem repr ds life =
     (case org of (oc, orq, pa, pp) \<Rightarrow>
        \<lparr>st_id = i, st_origin_type = ty, st_origin_id = oid, st_origin_continuation_id = oc,
         st_origin_request_id = orq, st_producer_attempt_id = pa, st_semantic_type = sem,
         st_representation = repr, st_lifecycle = life, st_validity = StateValidity.VALID,
         st_derived_from = frozenset ds, st_producer_phase_id = pp\<rparr>)"

lemma states_ok_new:
  assumes inv: "reuse_inv g" and new: "map_of (states g) i = None"
    and x: "origin_ok (continuations g) (requests g) (attempts g) (phases g) x"
      "deps_ok (continuations g) (phases g) (states g) x"
  shows "acyclic (deps_rel (setitem i x (states g)))"
    and "map_of (setitem i x (states g)) k = Some z \<Longrightarrow>
      origin_ok (continuations g) (requests g) (attempts g) (phases g) z \<and>
      deps_ok (continuations g) (phases g) (setitem i x (states g)) z"
proof -
  note ok = reuse_invD(6) [OF inv]
  have grow: "deps_ok (continuations g) (phases g) (setitem i x (states g)) z"
    if "deps_ok (continuations g) (phases g) (states g) z" for z
    using that new unfolding deps_ok_def by fastforce
  show "map_of (setitem i x (states g)) k = Some z \<Longrightarrow>
      origin_ok (continuations g) (requests g) (attempts g) (phases g) z \<and>
      deps_ok (continuations g) (phases g) (setitem i x (states g)) z"
    using x(1) grow [OF x(2)] grow states_okD [OF ok] by (cases "k = i") auto
  have rel: "deps_rel (setitem i x (states g)) = deps_rel (states g) \<union> {i} \<times> set (st_derived_from x)"
    using new by (auto simp: deps_rel_iff split: if_splits)
  have "i \<notin> Range (deps_rel (states g))"
    using states_okD(2) [OF ok] new by (fastforce simp: deps_rel_iff deps_ok_def)
  moreover have "i \<notin> set (st_derived_from x)" using x(2) new by (auto simp: deps_ok_def)
  ultimately show "acyclic (deps_rel (setitem i x (states g)))"
    unfolding rel using ok by (intro acyclic_new_node) (auto simp: states_ok_def)
qed

lemma create_state_step:
  assumes inv: "reuse_inv g" and new: "\<not> id_taken g i" and org: "resolve_origin g ty oid = Inr org"
    and deps: "for_each (frozenset ds) (check_dependency g (fst org) (fst (snd (snd org))) (snd (snd (snd org)))) = Inr ()"
    and y: "y = new_state i ty oid org sem repr ds (derived_lifecycle (continuations g) (fst org))"
    and g': "g' = g\<lparr>states := setitem i y (states g)\<rparr>"
  shows "create_state g i ty oid sem repr ds = (Inr y, g')" and "i \<noteq> '''' \<Longrightarrow> reuse_inv g'"
proof -
  obtain oc orq pa pp where o: "org = (oc, orq, pa, pp)" by (metis prod_cases4)
  define x where "x = new_state i ty oid org sem repr ds StateLifecycle.TERMINAL"
  let ?g = "g\<lparr>states := setitem i x (states g)\<rparr>"
  have new_st: "map_of (states g) i = None" by (rule not_id_taken(7) [OF new])
  have fields: "st_origin_type x = ty" "st_origin_id x = oid" "st_origin_continuation_id x = oc"
    "st_origin_request_id x = orq" "st_producer_attempt_id x = pa" "st_producer_phase_id x = pp"
    "st_derived_from x = frozenset ds" "st_id x = i"
    by (simp_all add: x_def new_state_def o)
  have yx: "y = x\<lparr>st_lifecycle := derived_lifecycle (continuations g) (st_origin_continuation_id x)\<rparr>"
    by (simp add: y x_def new_state_def o)
  have origin: "origin_ok (continuations g) (requests g) (attempts g) (phases g) x"
    by (rule resolve_origin_Inr(1) [OF inv org [unfolded o]]) (simp_all add: fields)
  have dok: "deps_ok (continuations g) (phases g) (states g) x"
    using check_dependency_Inr [OF inv _ origin fields(3,5,6)] deps
    by (auto simp: deps_ok_def for_each_Inr fields o)
  note st = states_ok_new [OF inv new_st origin dok]
  have "state_cycle ?g = Inr False"
  proof (rule state_cycle_False)
    fix k z d assume k: "map_of (states ?g) k = Some z" and d: "d \<in> set (st_derived_from z)"
    then have "deps_ok (continuations g) (phases g) (states ?g) z" using st(2) [of k z] by simp
    with d show "\<exists>w. map_of (states ?g) d = Some w" by (auto simp: deps_ok_def)
  qed (use st(1) in simp)
  moreover have ginv: "graph_inv ?g"
    using reuse_invD(1) [OF inv] new fields(8) by (auto simp: graph_inv_def ids_ok_simps)
  moreover have life: "relife (continuations g) (setitem i x (states g)) = setitem i y (states g)"
    unfolding yx using reuse_invD(1,6) [OF inv] new_st
    by (intro relife_new) (auto simp: states_ok_def dest: graph_invD)
  ultimately show run: "create_state g i ty oid sem repr ds = (Inr y, g')"
    using new org deps refresh_correct [OF ginv] g'
    by (simp add: create_state_def o x_def [unfolded new_state_def o] unique_def raise_if_def getitem_def Let_def)
  have "graph_inv g'" using graph_inv_relife [OF ginv, of "continuations g"] life g' by simp
  moreover have "states_ok (continuations g) (requests g) (attempts g) (phases g) (setitem i y (states g))"
  proof -
    have "origin_ok (continuations g) (requests g) (attempts g) (phases g) y"
      using origin by (simp add: origin_ok_def yx)
    moreover have "deps_ok (continuations g) (phases g) (states g) y"
      using dok by (simp add: deps_ok_def phase_precedes_def yx)
    ultimately show ?thesis
      using states_ok_new [OF inv new_st, of y] reuse_invD(6) [OF inv]
      by (auto simp: states_ok_def fresh_lifecycles_def yx)
  qed
  moreover have "i \<noteq> '''' \<Longrightarrow> \<not> id_taken g' ''''"
    using reuse_invD(3) [OF inv] by (auto simp: g' id_taken_def)
  ultimately show "i \<noteq> '''' \<Longrightarrow> reuse_inv g'" using inv by (simp add: reuse_inv_def g')
qed

lemma create_state_cases:
  assumes "reuse_inv g"
  shows "create_state g i ty oid sem repr ds =
    (if id_taken g i then (Inl SemanticViolation, g)
     else reads g (resolve_origin g ty oid) (\<lambda>org.
          reads g (for_each (frozenset ds)
                     (check_dependency g (fst org) (fst (snd (snd org))) (snd (snd (snd org))))) (\<lambda>_.
          let y = new_state i ty oid org sem repr ds (derived_lifecycle (continuations g) (fst org))
          in (Inr y, g\<lparr>states := setitem i y (states g)\<rparr>))))"
proof (cases "id_taken g i")
  case False
  note new = this
  show ?thesis
  proof (cases "resolve_origin g ty oid")
    case org: (Inr org)
    show ?thesis
    proof (cases "for_each (frozenset ds)
        (check_dependency g (fst org) (fst (snd (snd org))) (snd (snd (snd org))))")
      case deps: (Inr u)
      with create_state_step(1) [OF assms new org _ refl refl, of ds sem repr] new org show ?thesis
        by (simp add: Let_def)
    next
      case deps: (Inl e)
      obtain oc orq pa pp where "org = (oc, orq, pa, pp)" by (metis prod_cases4)
      with new org deps show ?thesis by (simp add: create_state_def unique_def)
    qed
  qed (use new in \<open>simp add: create_state_def unique_def\<close>)
qed (simp add: create_state_def unique_def)

lemma create_state_Inl:
  "reuse_inv g \<Longrightarrow> create_state g i ty oid sem repr ds = (Inl e, g') \<Longrightarrow> g' = g"
  by (auto simp: create_state_cases reads_Inl Let_def split: if_splits)

lemma create_state_Inr:
  assumes inv: "reuse_inv g" and run: "create_state g i ty oid sem repr ds = (Inr y, g')"
  obtains org where "\<not> id_taken g i" "resolve_origin g ty oid = Inr org"
    "y = new_state i ty oid org sem repr ds (derived_lifecycle (continuations g) (fst org))"
    "g' = g\<lparr>states := setitem i y (states g)\<rparr>" "i \<noteq> '''' \<Longrightarrow> reuse_inv g'"
proof -
  from run obtain org u where new: "\<not> id_taken g i" and org: "resolve_origin g ty oid = Inr org"
    and deps: "for_each (frozenset ds)
      (check_dependency g (fst org) (fst (snd (snd org))) (snd (snd (snd org)))) = Inr u"
    and y: "y = new_state i ty oid org sem repr ds (derived_lifecycle (continuations g) (fst org))"
    and g': "g' = g\<lparr>states := setitem i y (states g)\<rparr>"
    by (auto simp: create_state_cases [OF inv] reads_Inr Let_def split: if_splits)
  from create_state_step(2) [OF inv new org _ y g'] deps have "i \<noteq> '''' \<Longrightarrow> reuse_inv g'" by simp
  with new org y g' show thesis by (rule that)
qed

lemma set_state_validity_Inr:
  "set_state_validity g k v = (Inr x', g') \<Longrightarrow>
     \<exists>x. map_of (states g) k = Some x \<and>
       (st_validity x = StateValidity.INVALID \<longrightarrow> v = StateValidity.INVALID) \<and>
       x' = x\<lparr>st_validity := v\<rparr> \<and> g' = g\<lparr>states := setitem k x' (states g)\<rparr>"
  by (auto simp: set_state_validity_def reads_Inr Let_def split: if_splits)

lemma set_state_validity_Inl: "set_state_validity g k v = (Inl e, g') \<Longrightarrow> g' = g"
  by (auto simp: set_state_validity_def reads_Inl Let_def split: if_splits)

lemma states_ok_validity:
  assumes ok: "states_ok cs rs ats phs sts" and x: "map_of sts k = Some x"
  shows "states_ok cs rs ats phs (setitem k (x\<lparr>st_validity := v\<rparr>) sts)"
proof -
  let ?sts = "setitem k (x\<lparr>st_validity := v\<rparr>) sts"
  have rel: "deps_rel ?sts = deps_rel sts" by (rule deps_rel_cong) (use x in auto)
  have deps: "deps_ok cs phs ?sts z" if "deps_ok cs phs sts z" for z
    unfolding deps_ok_def
  proof
    fix d assume "d \<in> set (st_derived_from z)"
    with that obtain y where y: "map_of sts d = Some y"
      "descends cs (st_origin_continuation_id z) (st_origin_continuation_id y)" "phase_precedes phs y z"
      by (auto simp: deps_ok_def)
    show "\<exists>y. map_of ?sts d = Some y \<and>
        descends cs (st_origin_continuation_id z) (st_origin_continuation_id y) \<and> phase_precedes phs y z"
      using x y by (cases "d = k") (auto simp: phase_precedes_def)
  qed
  have "deps_ok cs phs ?sts (x\<lparr>st_validity := v\<rparr>)"
    using deps [OF states_okD(2) [OF ok x]] by (simp add: deps_ok_def phase_precedes_def)
  moreover have "origin_ok cs rs ats phs (x\<lparr>st_validity := v\<rparr>)"
    using states_okD(1) [OF ok x] by (simp add: origin_ok_def)
  moreover have "fresh_lifecycles cs ?sts"
    using ok x by (auto simp: states_ok_def fresh_lifecycles_def)
  moreover have "acyclic (deps_rel ?sts)" using ok rel by (simp add: states_ok_def)
  moreover have "origin_ok cs rs ats phs z \<and> deps_ok cs phs ?sts z" if "map_of sts j = Some z" for j z
    using states_okD [OF ok that] deps by blast
  ultimately show ?thesis by (auto simp: states_ok_def)
qed

lemma add_replica_Inr:
  "add_replica g i sid loc s = (Inr r, g') \<Longrightarrow>
     \<not> id_taken g i \<and> (\<exists>x. map_of (states g) sid = Some x) \<and>
     r = \<lparr>rep_id = i, rep_state_id = sid, rep_location_id = loc, rep_status = s,
          rep_binding_id = None, rep_binding_epoch = None\<rparr> \<and>
     g' = g\<lparr>replicas := setitem i r (replicas g)\<rparr>"
  by (auto simp: add_replica_def reads_Inr Let_def)

lemma add_replica_Inl: "add_replica g i sid loc s = (Inl e, g') \<Longrightarrow> g' = g"
  by (auto simp: add_replica_def reads_Inl Let_def)

lemma set_replica_status_Inr:
  "set_replica_status g k s = (Inr r', g') \<Longrightarrow>
     \<exists>r. map_of (replicas g) k = Some r \<and> r' = r\<lparr>rep_status := s\<rparr> \<and>
       g' = g\<lparr>replicas := setitem k r' (replicas g)\<rparr>"
  by (auto simp: set_replica_status_def reads_Inr Let_def)

lemma set_replica_status_Inl: "set_replica_status g k s = (Inl e, g') \<Longrightarrow> g' = g"
  by (auto simp: set_replica_status_def reads_Inl Let_def)

subsection \<open>What compatibility means\<close>

text \<open>
  The specification. A State is admissible in a context if it is valid, its origin is an ancestor of
  the context's continuation, its producing attempt has authority for the context (it is the
  committed attempt of its completed request, or the context's own current attempt), within one
  attempt its producer phase comes before the consuming one, and the user's predicate accepts it.
\<close>

definition producer_authorised :: "core \<Rightarrow> ExecutionContext \<Rightarrow> ReusableState \<Rightarrow> bool" where
  "producer_authorised g ctx x \<longleftrightarrow>
     (\<forall>a. st_producer_attempt_id x = Some a \<longrightarrow>
        (\<exists>pa pr. map_of (attempts g) a = Some pa \<and> map_of (requests g) (att_request_id pa) = Some pr \<and>
           att_authority_status pa \<noteq> AttemptAuthority.SUPERSEDED \<and>
           (if req_status pr = RequestStatus.COMPLETED then req_committed_attempt_id pr = Some a
            else a = ctx_attempt_id ctx \<and> att_authority_status pa = AttemptAuthority.CURRENT)))"

definition produced_before :: "core \<Rightarrow> ExecutionContext \<Rightarrow> ReusableState \<Rightarrow> bool" where
  "produced_before g ctx x \<longleftrightarrow>
     (\<forall>p. st_producer_phase_id x = Some p \<and> st_producer_attempt_id x = Some (ctx_attempt_id ctx) \<longrightarrow>
        (\<exists>c pp cp. ctx_phase_id ctx = Some c \<and> map_of (phases g) p = Some pp \<and>
           map_of (phases g) c = Some cp \<and> ph_ordinal pp < ph_ordinal cp))"

definition admissible :: "semantic_validity \<Rightarrow> core \<Rightarrow> ExecutionContext \<Rightarrow> ReusableState \<Rightarrow> bool" where
  "admissible sv g ctx x \<longleftrightarrow>
     st_validity x = StateValidity.VALID \<and>
     descends (continuations g) (ctx_continuation_id ctx) (st_origin_continuation_id x) \<and>
     producer_authorised g ctx x \<and> produced_before g ctx x \<and> sv x ctx"

definition closure_admissible :: "semantic_validity \<Rightarrow> core \<Rightarrow> string \<Rightarrow> ExecutionContext \<Rightarrow> bool" where
  "closure_admissible sv g sid ctx \<longleftrightarrow>
     (\<forall>d. (sid, d) \<in> (deps_rel (states g))\<^sup>* \<longrightarrow>
        (\<exists>x. map_of (states g) d = Some x \<and> admissible sv g ctx x))"

lemma context_consistentD:
  assumes "context_consistent g ctx"
  obtains c r a where "map_of (continuations g) (ctx_continuation_id ctx) = Some c"
    "map_of (requests g) (ctx_request_id ctx) = Some r" "map_of (attempts g) (ctx_attempt_id ctx) = Some a"
    "att_authority_status a = AttemptAuthority.CURRENT" "att_request_id a = req_id r"
    "req_current_attempt_id r = Some (att_id a)" "req_continuation_id r = cont_id c"
    "\<And>p. ctx_phase_id ctx = Some p \<Longrightarrow> \<exists>q. map_of (phases g) p = Some q \<and> ph_attempt_id q = att_id a"
proof -
  from assms obtain c r a where "map_of (continuations g) (ctx_continuation_id ctx) = Some c"
    "map_of (requests g) (ctx_request_id ctx) = Some r" "map_of (attempts g) (ctx_attempt_id ctx) = Some a"
    "att_authority_status a = AttemptAuthority.CURRENT" "att_request_id a = req_id r"
    "req_current_attempt_id r = Some (att_id a)" "req_continuation_id r = cont_id c"
    "phase_context_ok g ctx a"
    by (auto simp: context_consistent_def split: option.splits)
  then show thesis by (intro that [of c r a]) (auto simp: phase_context_ok_def split: option.splits)
qed

lemma producer_ok_correct:
  assumes inv: "reuse_inv g" and x: "map_of (states g) k = Some x"
  shows "producer_ok g ctx x = Inr (producer_authorised g ctx x)"
proof (cases "st_producer_attempt_id x")
  case None
  then show ?thesis by (simp add: producer_ok_def producer_authorised_def)
next
  case (Some a)
  note org = states_okD(1) [OF reuse_invD(6) [OF inv] x] and at = reuse_invD(4) [OF inv]
  from origin_request_attempt(1) [OF org at Some] obtain pa pr where
    pa: "map_of (attempts g) a = Some pa" and oreq: "st_origin_request_id x = Some (att_request_id pa)"
    and pr: "map_of (requests g) (att_request_id pa) = Some pr" by blast
  have "a \<noteq> ''''" using pa not_id_taken(5) [OF reuse_invD(3) [OF inv]] by auto
  moreover have "att_request_id pa \<noteq> ''''" using pr not_id_taken(4) [OF reuse_invD(3) [OF inv]] by auto
  moreover have "att_id pa = a" by (rule keyedD [OF ids_okD(17) [OF reuse_invD(2) [OF inv]] pa])
  ultimately show ?thesis
    using Some pa oreq pr
    by (simp add: producer_ok_def producer_authorised_def getitem_def is_context_attempt_def)
qed

lemma phase_order_ok_correct:
  assumes inv: "reuse_inv g" and x: "map_of (states g) k = Some x" and ctx: "context_consistent g ctx"
  shows "phase_order_ok g ctx x = Inr (produced_before g ctx x)"
proof (cases "\<exists>p. st_producer_phase_id x = Some p \<and> st_producer_attempt_id x = Some (ctx_attempt_id ctx)")
  case False
  then show ?thesis by (auto simp: phase_order_ok_def produced_before_def truthy_def split: option.split)
next
  case True
  then obtain p where p: "st_producer_phase_id x = Some p"
    and a: "st_producer_attempt_id x = Some (ctx_attempt_id ctx)" by blast
  note org = states_okD(1) [OF reuse_invD(6) [OF inv] x]
  from origin_request_attempt(2) [OF org reuse_invD(4) [OF inv] p a] obtain pp where
    pp: "map_of (phases g) p = Some pp" by blast
  have "truthy (Some p)" by (rule phase_id_truthy [OF inv org p])
  with p a have "truthy (st_producer_phase_id x) \<and> st_producer_attempt_id x = Some (ctx_attempt_id ctx)"
    by simp
  then show ?thesis
  proof (cases "ctx_phase_id ctx")
    case None
    with p a \<open>truthy (Some p)\<close> show ?thesis by (simp add: phase_order_ok_def produced_before_def)
  next
    case (Some c)
    with ctx obtain cp where "map_of (phases g) c = Some cp" by (elim context_consistentD) blast
    with Some p a pp \<open>truthy (Some p)\<close> show ?thesis
      by (auto simp: phase_order_ok_def produced_before_def getitem_def)
  qed
qed

lemma closure_admissible_step:
  assumes "map_of (states g) sid = Some x"
  shows "closure_admissible sv g sid ctx \<longleftrightarrow>
    admissible sv g ctx x \<and> (\<forall>d\<in>set (st_derived_from x). closure_admissible sv g d ctx)"
proof
  assume all: "closure_admissible sv g sid ctx"
  then have "admissible sv g ctx x" using assms by (fastforce simp: closure_admissible_def)
  moreover have "closure_admissible sv g d ctx" if "d \<in> set (st_derived_from x)" for d
  proof -
    have "(sid, d) \<in> deps_rel (states g)" using that assms by (auto simp: deps_rel_iff)
    with all show ?thesis
      unfolding closure_admissible_def by (meson converse_rtrancl_into_rtrancl)
  qed
  ultimately show "admissible sv g ctx x \<and> (\<forall>d\<in>set (st_derived_from x). closure_admissible sv g d ctx)"
    by blast
next
  assume all: "admissible sv g ctx x \<and> (\<forall>d\<in>set (st_derived_from x). closure_admissible sv g d ctx)"
  show "closure_admissible sv g sid ctx"
    unfolding closure_admissible_def
  proof (intro allI impI)
    fix d assume "(sid, d) \<in> (deps_rel (states g))\<^sup>*"
    then show "\<exists>z. map_of (states g) d = Some z \<and> admissible sv g ctx z"
    proof (cases rule: converse_rtranclE)
      case base
      with all assms show ?thesis by auto
    next
      case (step e)
      with all assms show ?thesis by (auto simp: deps_rel_iff closure_admissible_def)
    qed
  qed
qed

text \<open>
  The recursion computes the specification. The set of States being visited never matters: in an
  acyclic graph no State is met below itself.
\<close>

lemma state_compatible_recursive_correct:
  assumes inv: "reuse_inv g" and ctx: "context_consistent g ctx"
    and "\<forall>v\<in>set visiting. (v, sid) \<in> (deps_rel (states g))\<^sup>+"
  shows "state_compatible_recursive sv g ctx visiting sid = Inr (closure_admissible sv g sid ctx)"
  using assms
proof (induction sv g ctx visiting sid rule: state_compatible_recursive.induct)
  case (1 sv g ctx visiting sid)
  show ?case
  proof (cases "map_of (states g) sid")
    case None
    then show ?thesis
      by (subst state_compatible_recursive.simps) (fastforce simp: closure_admissible_def)
  next
    case (Some x)
    note step = closure_admissible_step [OF Some, of sv ctx]
    have fresh: "sid \<notin> set visiting"
      using "1.prems"(3) reuse_invD(6) [OF "1.prems"(1)] by (auto simp: states_ok_def acyclic_def)
    from "1.prems"(2) obtain c where c: "map_of (continuations g) (ctx_continuation_id ctx) = Some c"
      by (rule context_consistentD)
    note eqs = is_ancestor_descends [OF reuse_invD(1) [OF "1.prems"(1)] c]
      producer_ok_correct [OF "1.prems"(1) Some] phase_order_ok_correct [OF "1.prems"(1) Some "1.prems"(2)]
    have rec: "state_compatible_recursive sv g ctx (sid # visiting) d = Inr (closure_admissible sv g d ctx)"
      if d: "d \<in> set (st_derived_from x)"
        and checks: "st_validity x = StateValidity.VALID"
          "descends (continuations g) (ctx_continuation_id ctx) (st_origin_continuation_id x)"
          "producer_authorised g ctx x" "produced_before g ctx x" for d
    proof (rule "1.IH" [OF Some])
      have "(sid, d) \<in> deps_rel (states g)" using d Some by (auto simp: deps_rel_iff)
      then show "\<forall>v\<in>set (sid # visiting). (v, d) \<in> (deps_rel (states g))\<^sup>+"
        using "1.prems"(3) by (auto intro: trancl_into_trancl)
    qed (use d checks fresh eqs "1.prems" in auto)
    show ?thesis
    proof (cases "st_validity x = StateValidity.VALID \<and>
        descends (continuations g) (ctx_continuation_id ctx) (st_origin_continuation_id x) \<and>
        producer_authorised g ctx x \<and> produced_before g ctx x")
      case True
      with rec have "all_res (state_compatible_recursive sv g ctx (sid # visiting)) (st_derived_from x) =
          Inr (\<forall>d\<in>set (st_derived_from x). closure_admissible sv g d ctx)"
        by (intro all_res_Inr) simp
      with True Some fresh show ?thesis
        by (subst state_compatible_recursive.simps) (auto simp: eqs step admissible_def)
    next
      case False
      with Some fresh show ?thesis
        by (subst state_compatible_recursive.simps) (auto simp: eqs step admissible_def)
    qed
  qed
qed

lemma state_compatible_correct:
  assumes "reuse_inv g"
  shows "state_compatible sv g sid ctx =
    Inr (context_consistent g ctx \<and> closure_admissible sv g sid ctx)"
  using state_compatible_recursive_correct [OF assms] by (auto simp: state_compatible_def)

lemma can_consume_state_correct:
  assumes "reuse_inv g" and "map_of (replicas g) rid = Some r"
  shows "can_consume_state sv clk g sid rid ctx ids nw =
    Inr (rep_state_id r = sid \<and> rep_status r = ReplicaStatus.VALID \<and> context_consistent g ctx \<and>
         closure_admissible sv g sid ctx \<and>
         grants g ''consume_state'' ids (resolve_now clk nw)
           (Some [(''state'', sid), (''replica'', rid)]) None)"
proof -
  have "map_of REQUIRED_AUTHORITY ''consume_state'' = Some EXACT_OBSERVATION"
    by (rule sensitive_actions_known) (simp add: CORRECTNESS_SENSITIVE_EVIDENCE_ACTIONS_def)
  with assms(2) show ?thesis
    by (auto simp: can_consume_state_def getitem_def state_compatible_correct [OF assms(1)]
        require_evidence_cases)
qed

end
