(* ===== verification/Core_Binding.thy ===== *)
theory Core_Binding
  imports Core_Evidence
begin

section \<open>Bindings and migration; semantic events\<close>

text \<open>
  The "binding / migration" and "events" operations of \<open>ContinuityCore\<close>. A subject is bound to one
  location at a time, under an epoch that is never reused. A migration proposes a candidate
  based on the current epoch and commits it, on evidence that names the candidate and its epoch,
  only if the current epoch has not moved since (a compare-and-swap).
\<close>

subsection \<open>Operations\<close>

definition dict_get :: "'v dict \<Rightarrow> string \<Rightarrow> 'v \<Rightarrow> 'v" where
  "dict_get d k v = (case map_of d k of None \<Rightarrow> v | Some w \<Rightarrow> w)"

definition propose_binding :: "core \<Rightarrow> string \<Rightarrow> string \<Rightarrow> string \<Rightarrow> (core, Binding) outcome" where
  "propose_binding g i subject_id location_id =
     reads g (unique g i) (\<lambda>_.
     let base = dict_get (current_epoch_by_subject g) subject_id 0;
         last = dict_get (last_allocated_epoch_by_subject g) subject_id base;
         epoch = last + 1;
         g1 = g\<lparr>last_allocated_epoch_by_subject :=
                  setitem subject_id epoch (last_allocated_epoch_by_subject g)\<rparr>;
         b = \<lparr>bnd_id = i, bnd_subject_id = subject_id, bnd_location_id = location_id,
              bnd_base_epoch = base, bnd_epoch = epoch, bnd_status = BindingStatus.PROPOSED\<rparr>
     in (Inr b, g1\<lparr>bindings := setitem i b (bindings g1)\<rparr>))"

definition activate_initial_binding ::
  "core \<Rightarrow> string \<Rightarrow> string \<Rightarrow> string \<Rightarrow> (core, Binding) outcome" where
  "activate_initial_binding g i subject_id location_id =
     (if has_key (current_binding_by_subject g) subject_id then (Inl InvalidTransition, g)
      else calls (propose_binding g i subject_id location_id) (\<lambda>b0 g1.
           let b = b0\<lparr>bnd_status := BindingStatus.ACTIVE\<rparr>
           in (Inr b, g1\<lparr>bindings := setitem i b (bindings g1),
                current_binding_by_subject := setitem subject_id i (current_binding_by_subject g1),
                current_epoch_by_subject :=
                  setitem subject_id (bnd_epoch b) (current_epoch_by_subject g1)\<rparr>)))"

definition begin_migration :: "core \<Rightarrow> string \<Rightarrow> (core, Binding) outcome" where
  "begin_migration g binding_id =
     reads g (getitem (bindings g) binding_id) (\<lambda>b.
     if bnd_status b \<noteq> BindingStatus.PROPOSED then (Inl InvalidTransition, g)
     else let b' = b\<lparr>bnd_status := BindingStatus.MIGRATING\<rparr>
          in (Inr b', g\<lparr>bindings := setitem (bnd_id b) b' (bindings g)\<rparr>))"

definition supersede_binding :: "core \<Rightarrow> string option \<Rightarrow> (core, unit) outcome" where
  "supersede_binding g old_id =
     (if truthy old_id then
        reads g (getitem (bindings g) (the old_id)) (\<lambda>old.
        (Inr (), g\<lparr>bindings := setitem (the old_id) (old\<lparr>bnd_status := BindingStatus.SUPERSEDED\<rparr>)
                     (bindings g)\<rparr>))
      else (Inr (), g))"

definition migration_scope :: "Binding \<Rightarrow> (string \<times> string) list" where
  "migration_scope b = [(''binding'', bnd_id b), (''epoch'', int_str (bnd_epoch b))]"

definition commit_migration ::
  "rat \<Rightarrow> core \<Rightarrow> string \<Rightarrow> string list \<Rightarrow> rat option \<Rightarrow> (core, Binding) outcome" where
  "commit_migration clock g binding_id evidence_ids now =
     reads g (getitem (bindings g) binding_id) (\<lambda>b.
     if bnd_base_epoch b \<noteq> dict_get (current_epoch_by_subject g) (bnd_subject_id b) 0
     then (Inl SemanticViolation, g)
     else if bnd_status b \<notin> {BindingStatus.PROPOSED, BindingStatus.MIGRATING}
     then (Inl InvalidTransition, g)
     else
       reads g (require_evidence clock g ''commit_migration'' evidence_ids now
                  (Some (migration_scope b)) None) (\<lambda>_.
       calls (supersede_binding g (map_of (current_binding_by_subject g) (bnd_subject_id b)))
         (\<lambda>_ g1.
          let b' = b\<lparr>bnd_status := BindingStatus.ACTIVE\<rparr>
          in (Inr b', g1\<lparr>bindings := setitem (bnd_id b) b' (bindings g1),
               current_binding_by_subject :=
                 setitem (bnd_subject_id b) (bnd_id b) (current_binding_by_subject g1),
               current_epoch_by_subject :=
                 setitem (bnd_subject_id b) (bnd_epoch b) (current_epoch_by_subject g1)\<rparr>))))"

definition record_event :: "core \<Rightarrow> SemanticEvent \<Rightarrow> (core, SemanticEvent) outcome" where
  "record_event g event =
     (case map_of (events g) (sev_id event) of
        Some existing \<Rightarrow>
          (if event_eq existing event then (Inr existing, g) else (Inl SemanticViolation, g))
      | None \<Rightarrow>
          reads g (unique g (sev_id event)) (\<lambda>_.
          (Inr event, g\<lparr>events := setitem (sev_id event) event (events g),
                        event_order := event_order g @ [sev_id event]\<rparr>)))"

subsection \<open>The invariant of bindings\<close>

text \<open>
  For every subject: the epochs of its bindings are different and lie between 1 and the last one
  allocated; a subject's current binding is active, it is the only active one, and the
  current epoch is its epoch. A candidate's base epoch is at most the subject's current epoch, and
  below its own.
\<close>

definition binding_ok :: "string dict \<Rightarrow> int dict \<Rightarrow> int dict \<Rightarrow> Binding \<Rightarrow> bool" where
  "binding_ok cb ce la b \<longleftrightarrow>
     0 \<le> bnd_base_epoch b \<and> bnd_base_epoch b < bnd_epoch b \<and>
     bnd_base_epoch b \<le> dict_get ce (bnd_subject_id b) 0 \<and>
     (\<exists>m. map_of la (bnd_subject_id b) = Some m \<and> bnd_epoch b \<le> m) \<and>
     (bnd_status b = BindingStatus.ACTIVE \<longrightarrow> map_of cb (bnd_subject_id b) = Some (bnd_id b))"

definition subject_ok :: "Binding dict \<Rightarrow> string dict \<Rightarrow> int dict \<Rightarrow> int dict \<Rightarrow> string \<Rightarrow> bool" where
  "subject_ok bs cb ce la s \<longleftrightarrow>
     (\<forall>i. map_of cb s = Some i \<longrightarrow>
        (\<exists>b. map_of bs i = Some b \<and> bnd_subject_id b = s \<and> bnd_status b = BindingStatus.ACTIVE \<and>
             map_of ce s = Some (bnd_epoch b))) \<and>
     (map_of cb s = None \<longrightarrow> map_of ce s = None) \<and>
     (\<forall>m. map_of la s = Some m \<longrightarrow>
        (\<exists>k b. map_of bs k = Some b \<and> bnd_subject_id b = s \<and> bnd_epoch b = m) \<and> 0 < m)"

definition epochs_distinct :: "Binding dict \<Rightarrow> bool" where
  "epochs_distinct bs \<longleftrightarrow>
     (\<forall>k k' b b'. map_of bs k = Some b \<and> map_of bs k' = Some b' \<and>
        bnd_subject_id b = bnd_subject_id b' \<and> bnd_epoch b = bnd_epoch b' \<longrightarrow> k = k')"

definition bindings_ok :: "Binding dict \<Rightarrow> string dict \<Rightarrow> int dict \<Rightarrow> int dict \<Rightarrow> bool" where
  "bindings_ok bs cb ce la \<longleftrightarrow>
     (\<forall>k b. map_of bs k = Some b \<longrightarrow> binding_ok cb ce la b) \<and>
     (\<forall>s. subject_ok bs cb ce la s) \<and> epochs_distinct bs \<and>
     distinct (keys_of cb) \<and> distinct (keys_of ce) \<and> distinct (keys_of la)"

definition events_ok :: "SemanticEvent dict \<Rightarrow> string list \<Rightarrow> bool" where
  "events_ok evs ord \<longleftrightarrow> mset ord = mset (keys_of evs)"

lemma propose_binding_Inr:
  "propose_binding g i s loc = (Inr b, g') \<Longrightarrow>
     \<not> id_taken g i \<and>
     b = \<lparr>bnd_id = i, bnd_subject_id = s, bnd_location_id = loc,
          bnd_base_epoch = dict_get (current_epoch_by_subject g) s 0,
          bnd_epoch = dict_get (last_allocated_epoch_by_subject g) s
            (dict_get (current_epoch_by_subject g) s 0) + 1,
          bnd_status = BindingStatus.PROPOSED\<rparr> \<and>
     g' = g\<lparr>last_allocated_epoch_by_subject := setitem s (bnd_epoch b) (last_allocated_epoch_by_subject g),
            bindings := setitem i b (bindings g)\<rparr>"
  by (auto simp: propose_binding_def reads_Inr Let_def)

lemma propose_binding_Inl: "propose_binding g i s loc = (Inl e, g') \<Longrightarrow> g' = g"
  by (auto simp: propose_binding_def reads_Inl Let_def)

lemma activate_initial_binding_Inl: "activate_initial_binding g i s loc = (Inl e, g') \<Longrightarrow> g' = g"
  by (auto simp: activate_initial_binding_def calls_Inl Let_def dest: propose_binding_Inl split: if_splits)

lemma activate_initial_binding_Inr:
  "activate_initial_binding g i s loc = (Inr b, g') \<Longrightarrow>
     \<exists>b0 g1. map_of (current_binding_by_subject g) s = None \<and>
       propose_binding g i s loc = (Inr b0, g1) \<and> b = b0\<lparr>bnd_status := BindingStatus.ACTIVE\<rparr> \<and>
       g' = g1\<lparr>bindings := setitem i b (bindings g1),
               current_binding_by_subject := setitem s i (current_binding_by_subject g1),
               current_epoch_by_subject := setitem s (bnd_epoch b) (current_epoch_by_subject g1)\<rparr>"
  by (auto simp: activate_initial_binding_def calls_Inr Let_def split: if_splits)

lemma begin_migration_Inr:
  "begin_migration g i = (Inr b', g') \<Longrightarrow>
     \<exists>b. map_of (bindings g) i = Some b \<and> bnd_status b = BindingStatus.PROPOSED \<and>
       b' = b\<lparr>bnd_status := BindingStatus.MIGRATING\<rparr> \<and>
       g' = g\<lparr>bindings := setitem (bnd_id b) b' (bindings g)\<rparr>"
  by (auto simp: begin_migration_def reads_Inr Let_def split: if_splits)

lemma begin_migration_Inl: "begin_migration g i = (Inl e, g') \<Longrightarrow> g' = g"
  by (auto simp: begin_migration_def reads_Inl Let_def split: if_splits)

lemma supersede_binding_Inl: "supersede_binding g old = (Inl e, g') \<Longrightarrow> g' = g"
  by (auto simp: supersede_binding_def reads_Inl split: if_splits)

lemma commit_migration_Inl: "commit_migration clk g i ids nw = (Inl e, g') \<Longrightarrow> g' = g"
  by (auto simp: commit_migration_def reads_Inl calls_Inl Let_def dest: supersede_binding_Inl split: if_splits)

text \<open>The truth value of a current binding's identifier: a binding is never stored under \<open>''''\<close>.\<close>

lemma supersede_binding_eq:
  assumes "bindings_ok (bindings g) cb ce la" and "map_of (bindings g) '''' = None"
  shows "supersede_binding g (map_of cb s) =
    (Inr (), case map_of cb s of None \<Rightarrow> g
       | Some old \<Rightarrow> g\<lparr>bindings := setitem old
           ((the (map_of (bindings g) old))\<lparr>bnd_status := BindingStatus.SUPERSEDED\<rparr>) (bindings g)\<rparr>)"
proof (cases "map_of cb s")
  case (Some old)
  from assms(1) have "subject_ok (bindings g) cb ce la s" by (simp add: bindings_ok_def)
  with Some obtain b where "map_of (bindings g) old = Some b" unfolding subject_ok_def by blast
  with assms(2) Some show ?thesis by (auto simp: supersede_binding_def getitem_def)
qed (simp add: supersede_binding_def)

lemma commit_migration_Inr:
  assumes run: "commit_migration clk g i ids nw = (Inr b', g')" and ids: "keyed bnd_id (bindings g)"
    and ok: "bindings_ok (bindings g) (current_binding_by_subject g) (current_epoch_by_subject g) la"
    and ne: "map_of (bindings g) '''' = None"
  obtains b where "map_of (bindings g) i = Some b" "bnd_id b = i"
    "bnd_base_epoch b = dict_get (current_epoch_by_subject g) (bnd_subject_id b) 0"
    "bnd_status b \<in> {BindingStatus.PROPOSED, BindingStatus.MIGRATING}"
    "grants g ''commit_migration'' ids (resolve_now clk nw) (Some (migration_scope b)) None"
    "b' = b\<lparr>bnd_status := BindingStatus.ACTIVE\<rparr>"
    "g' = g\<lparr>bindings := setitem i b'
              (case map_of (current_binding_by_subject g) (bnd_subject_id b) of
                 None \<Rightarrow> bindings g
               | Some old \<Rightarrow> setitem old
                   ((the (map_of (bindings g) old))\<lparr>bnd_status := BindingStatus.SUPERSEDED\<rparr>) (bindings g)),
            current_binding_by_subject := setitem (bnd_subject_id b) i (current_binding_by_subject g),
            current_epoch_by_subject :=
              setitem (bnd_subject_id b) (bnd_epoch b) (current_epoch_by_subject g)\<rparr>"
proof -
  from run obtain b where b: "map_of (bindings g) i = Some b" by (auto simp: commit_migration_def reads_Inr)
  from keyedD [OF ids b] have i: "bnd_id b = i" .
  from run b i have c: "bnd_base_epoch b = dict_get (current_epoch_by_subject g) (bnd_subject_id b) 0"
    "bnd_status b \<in> {BindingStatus.PROPOSED, BindingStatus.MIGRATING}"
    by (auto simp: commit_migration_def getitem_def split: if_splits)
  from run b c obtain good where
    good: "require_evidence clk g ''commit_migration'' ids nw (Some (migration_scope b)) None = Inr good"
    by (auto simp: commit_migration_def getitem_def reads_Inr)
  have "calls (Inr (), case map_of (current_binding_by_subject g) (bnd_subject_id b) of None \<Rightarrow> g
       | Some old \<Rightarrow> g\<lparr>bindings := setitem old
           ((the (map_of (bindings g) old))\<lparr>bnd_status := BindingStatus.SUPERSEDED\<rparr>) (bindings g)\<rparr>)
      (\<lambda>_ g1. let b' = b\<lparr>bnd_status := BindingStatus.ACTIVE\<rparr>
          in (Inr b', g1\<lparr>bindings := setitem (bnd_id b) b' (bindings g1),
               current_binding_by_subject :=
                 setitem (bnd_subject_id b) (bnd_id b) (current_binding_by_subject g1),
               current_epoch_by_subject :=
                 setitem (bnd_subject_id b) (bnd_epoch b) (current_epoch_by_subject g1)\<rparr>)) =
      (Inr b', g')"
    using run b c good unfolding supersede_binding_eq [OF ok ne, symmetric]
    by (auto simp: commit_migration_def getitem_def split: if_splits)
  then show thesis
    using i by (intro that [OF b i c require_evidence_Inr [OF good]]) (auto simp: Let_def split: option.splits)
qed

lemma record_event_Inr:
  "record_event g e = (Inr r, g') \<Longrightarrow>
     (g' = g \<and> map_of (events g) (sev_id e) = Some r \<and> event_eq r e) \<or>
     (r = e \<and> \<not> id_taken g (sev_id e) \<and>
      g' = g\<lparr>events := setitem (sev_id e) e (events g), event_order := event_order g @ [sev_id e]\<rparr>)"
  by (auto simp: record_event_def reads_Inr split: option.splits if_splits)

lemma record_event_Inl: "record_event g e = (Inl x, g') \<Longrightarrow> g' = g"
  by (auto simp: record_event_def reads_Inl split: option.splits if_splits)

subsection \<open>The operations keep the invariant\<close>

lemma bindings_okD:
  assumes "bindings_ok bs cb ce la"
  shows "map_of bs k = Some b \<Longrightarrow> binding_ok cb ce la b" and "subject_ok bs cb ce la s"
    and "epochs_distinct bs"
  using assms by (simp_all add: bindings_ok_def)

lemma current_binding:
  assumes "bindings_ok bs cb ce la" and "map_of cb s = Some i"
  obtains b where "map_of bs i = Some b" "bnd_subject_id b = s" "bnd_status b = BindingStatus.ACTIVE"
    "map_of ce s = Some (bnd_epoch b)"
  using bindings_okD(2) [OF assms(1), of s] assms(2) unfolding subject_ok_def by blast

lemma current_epoch_eq:
  assumes "bindings_ok bs cb ce la" and "map_of cb s = Some i" and "map_of bs i = Some b"
  shows "dict_get ce s 0 = bnd_epoch b"
  using assms by (auto simp: dict_get_def elim: current_binding)

lemma subject_ok_keep:
  assumes ok: "subject_ok bs cb ce la s" and same: "map_of cb' s = map_of cb s" "map_of ce' s = map_of ce s"
    and keep: "\<And>k b. map_of bs k = Some b \<Longrightarrow> \<exists>x. map_of bs' k = Some x \<and>
      bnd_subject_id x = bnd_subject_id b \<and> bnd_epoch x = bnd_epoch b \<and>
      (map_of cb s = Some k \<longrightarrow> bnd_status x = bnd_status b)"
    and la: "\<And>m. map_of la' s = Some m \<Longrightarrow> map_of la s = Some m \<or>
      0 < m \<and> (\<exists>k x. map_of bs' k = Some x \<and> bnd_subject_id x = s \<and> bnd_epoch x = m)"
  shows "subject_ok bs' cb' ce' la' s"
proof -
  have "\<exists>b. map_of bs' i = Some b \<and> bnd_subject_id b = s \<and> bnd_status b = BindingStatus.ACTIVE \<and>
      map_of ce' s = Some (bnd_epoch b)" if i: "map_of cb' s = Some i" for i
  proof -
    from ok i same obtain b where b: "map_of bs i = Some b" "bnd_subject_id b = s"
      "bnd_status b = BindingStatus.ACTIVE" "map_of ce s = Some (bnd_epoch b)"
      by (auto simp: subject_ok_def)
    from keep [OF b(1)] b i same show ?thesis by auto
  qed
  moreover have "(\<exists>k b. map_of bs' k = Some b \<and> bnd_subject_id b = s \<and> bnd_epoch b = m) \<and> 0 < m"
    if "map_of la' s = Some m" for m
    using la [OF that]
  proof
    assume "map_of la s = Some m"
    with ok obtain k b where "map_of bs k = Some b" "bnd_subject_id b = s" "bnd_epoch b = m" "0 < m"
      unfolding subject_ok_def by blast
    with keep show ?thesis by metis
  qed blast
  ultimately show ?thesis using ok same by (simp add: subject_ok_def)
qed

text \<open>The epoch a proposal is given: above the current one, and above every epoch of the subject.\<close>

lemma next_epoch:
  assumes ok: "bindings_ok bs cb ce la" and e: "e = dict_get la s (dict_get ce s 0) + 1"
  shows "0 \<le> dict_get ce s 0" "dict_get ce s 0 < e"
    "map_of bs k = Some b \<Longrightarrow> bnd_subject_id b = s \<Longrightarrow> bnd_epoch b < e"
    "map_of la s = Some m \<Longrightarrow> m < e"
proof -
  have top: "\<exists>m. map_of la s = Some m \<and> bnd_epoch b \<le> m \<and> 0 < bnd_epoch b"
    if "map_of bs k = Some b" and "bnd_subject_id b = s" for k b
    using bindings_okD(1) [OF ok that(1)] that(2) by (auto simp: binding_ok_def)
  have cur: "dict_get ce s 0 = 0 \<or> (\<exists>k b. map_of bs k = Some b \<and> bnd_subject_id b = s \<and>
      dict_get ce s 0 = bnd_epoch b)"
  proof (cases "map_of cb s")
    case None
    then have "map_of ce s = None" using bindings_okD(2) [OF ok, of s] by (simp add: subject_ok_def)
    then show ?thesis by (simp add: dict_get_def)
  next
    case (Some i)
    then show ?thesis using current_epoch_eq [OF ok Some] by (elim current_binding [OF ok]) blast
  qed
  with top show "0 \<le> dict_get ce s 0" by fastforce
  show "dict_get ce s 0 < e"
  proof (cases "map_of la s")
    case None
    then show ?thesis by (simp add: e dict_get_def)
  next
    case (Some m)
    then have "e = m + 1" by (simp add: e dict_get_def)
    moreover have "0 < m" using bindings_okD(2) [OF ok, of s] Some by (simp add: subject_ok_def)
    ultimately show ?thesis using cur top Some by fastforce
  qed
  show "map_of bs k = Some b \<Longrightarrow> bnd_subject_id b = s \<Longrightarrow> bnd_epoch b < e"
    using top unfolding e by (fastforce simp: dict_get_def)
  show "map_of la s = Some m \<Longrightarrow> m < e" unfolding e by (simp add: dict_get_def)
qed

lemma bindings_ok_propose:
  assumes ok: "bindings_ok bs cb ce la" and new: "map_of bs i = None"
    and b: "bnd_subject_id b = s" "bnd_base_epoch b = dict_get ce s 0"
      "bnd_epoch b = dict_get la s (dict_get ce s 0) + 1" "bnd_status b = BindingStatus.PROPOSED"
  shows "bindings_ok (setitem i b bs) cb ce (setitem s (bnd_epoch b) la)" (is "bindings_ok ?bs cb ce ?la")
proof -
  note nx = next_epoch [OF ok b(3)]
  have "binding_ok cb ce ?la x" if "map_of ?bs k = Some x" for k x
  proof (cases "k = i")
    case True
    with that b nx(1,2) show ?thesis by (auto simp: binding_ok_def)
  next
    case False
    with that have x: "map_of bs k = Some x" by simp
    with bindings_okD(1) [OF ok x] nx(3) [OF x] show ?thesis by (fastforce simp: binding_ok_def)
  qed
  moreover have "subject_ok ?bs cb ce ?la t" for t
    by (rule subject_ok_keep [OF bindings_okD(2) [OF ok, of t]])
       (use new nx(1,2) b(1) in \<open>auto split: if_splits\<close>)
  moreover have "epochs_distinct ?bs"
    using bindings_okD(3) [OF ok] nx(3) b(1) unfolding epochs_distinct_def
    by (auto split: if_splits) (metis less_irrefl)+
  ultimately show ?thesis using ok by (simp add: bindings_ok_def distinct_update keys_of_def)
qed

text \<open>
  Making a candidate of a subject its active binding, in place of the current one, if any. Both the
  first activation and the commit of a migration are of this form.
\<close>

definition promote :: "Binding dict \<Rightarrow> string dict \<Rightarrow> Binding \<Rightarrow> Binding dict" where
  "promote bs cb b =
     setitem (bnd_id b) (b\<lparr>bnd_status := BindingStatus.ACTIVE\<rparr>)
       (case map_of cb (bnd_subject_id b) of
          None \<Rightarrow> bs
        | Some old \<Rightarrow> setitem old ((the (map_of bs old))\<lparr>bnd_status := BindingStatus.SUPERSEDED\<rparr>) bs)"

lemma map_of_promote:
  assumes ok: "bindings_ok bs cb ce la" and b: "map_of bs (bnd_id b) = Some b"
    and st: "bnd_status b \<noteq> BindingStatus.ACTIVE"
  shows "map_of (promote bs cb b) k =
    (if k = bnd_id b then Some (b\<lparr>bnd_status := BindingStatus.ACTIVE\<rparr>)
     else if map_of cb (bnd_subject_id b) = Some k
     then map_option (\<lambda>x. x\<lparr>bnd_status := BindingStatus.SUPERSEDED\<rparr>) (map_of bs k)
     else map_of bs k)"
proof (cases "map_of cb (bnd_subject_id b)")
  case (Some old)
  then obtain x where "map_of bs old = Some x" by (elim current_binding [OF ok])
  with Some show ?thesis by (auto simp: promote_def)
qed (auto simp: promote_def)

lemma bindings_ok_promote:
  assumes ok: "bindings_ok bs cb ce la" and b: "map_of bs (bnd_id b) = Some b"
    and st: "bnd_status b \<noteq> BindingStatus.ACTIVE" and ids: "keyed bnd_id bs"
    and base: "bnd_base_epoch b = dict_get ce (bnd_subject_id b) 0"
  shows "bindings_ok (promote bs cb b) (setitem (bnd_subject_id b) (bnd_id b) cb)
    (setitem (bnd_subject_id b) (bnd_epoch b) ce) la" (is "bindings_ok ?bs ?cb ?ce la")
proof -
  let ?s = "bnd_subject_id b"
  note look = map_of_promote [OF ok b st]
  have bok: "binding_ok cb ce la b" by (rule bindings_okD(1) [OF ok b])
  have same: "\<exists>y. map_of bs k = Some y \<and> bnd_subject_id x = bnd_subject_id y \<and> bnd_id x = bnd_id y \<and>
      bnd_epoch x = bnd_epoch y \<and> bnd_base_epoch x = bnd_base_epoch y" if "map_of ?bs k = Some x" for k x
    using that b by (auto simp: look split: if_splits)
  have keep: "\<exists>x. map_of ?bs k = Some x \<and> bnd_subject_id x = bnd_subject_id y \<and> bnd_epoch x = bnd_epoch y"
    if "map_of bs k = Some y" for k y
    using that b by (auto simp: look)
  have "binding_ok ?cb ?ce la x" if x: "map_of ?bs k = Some x" for k x
  proof -
    from same [OF x] obtain y where y: "map_of bs k = Some y"
      "bnd_subject_id x = bnd_subject_id y" "bnd_id x = bnd_id y" "bnd_epoch x = bnd_epoch y"
      "bnd_base_epoch x = bnd_base_epoch y" by blast
    note yok = bindings_okD(1) [OF ok y(1)]
    have "bnd_base_epoch x \<le> dict_get ?ce (bnd_subject_id x) 0"
    proof (cases "bnd_subject_id x = ?s")
      case True
      then have "dict_get ?ce (bnd_subject_id x) 0 = bnd_epoch b" by (simp add: dict_get_def)
      with True yok y bok base show ?thesis by (simp add: binding_ok_def)
    next
      case False
      then have "dict_get ?ce (bnd_subject_id x) 0 = dict_get ce (bnd_subject_id x) 0"
        by (simp add: dict_get_def)
      with yok y show ?thesis by (simp add: binding_ok_def)
    qed
    moreover have "map_of ?cb (bnd_subject_id x) = Some (bnd_id x)" if a: "bnd_status x = BindingStatus.ACTIVE"
    proof (cases "k = bnd_id b")
      case True
      with x b show ?thesis by (auto simp: look)
    next
      case False
      with x a y(1) have xy: "x = y" "map_of cb ?s \<noteq> Some k" by (auto simp: look split: if_splits)
      with yok a have "map_of cb (bnd_subject_id x) = Some (bnd_id x)" by (simp add: binding_ok_def)
      moreover have "bnd_id x = k" using keyedD [OF ids y(1)] xy by simp
      ultimately show ?thesis using xy by auto
    qed
    ultimately show ?thesis using yok y by (simp add: binding_ok_def)
  qed
  moreover have "subject_ok ?bs ?cb ?ce la t" for t
  proof (cases "t = ?s")
    case True
    have "(\<exists>k x. map_of ?bs k = Some x \<and> bnd_subject_id x = ?s \<and> bnd_epoch x = m) \<and> 0 < m"
      if m: "map_of la ?s = Some m" for m
    proof -
      from bindings_okD(2) [OF ok, of ?s] m obtain k y where "map_of bs k = Some y"
        "bnd_subject_id y = ?s" "bnd_epoch y = m" "0 < m" unfolding subject_ok_def by blast
      with keep show ?thesis by metis
    qed
    with True show ?thesis by (simp add: subject_ok_def look)
  next
    case False
    have other: "map_of cb ?s \<noteq> Some i \<and> bnd_id b \<noteq> i" if i: "map_of cb t = Some i" for i
    proof -
      from i obtain x where "map_of bs i = Some x" "bnd_subject_id x = t" by (elim current_binding [OF ok])
      with False b show ?thesis by (auto elim: current_binding [OF ok])
    qed
    show ?thesis
      by (rule subject_ok_keep [OF bindings_okD(2) [OF ok, of t]])
         (use False b other in \<open>auto simp: look\<close>)
  qed
  moreover have "epochs_distinct ?bs"
    using bindings_okD(3) [OF ok] unfolding epochs_distinct_def by (metis same)
  ultimately show ?thesis
    using ok by (simp add: bindings_ok_def distinct_update keys_of_def)
qed

lemma bindings_ok_migrating:
  assumes ok: "bindings_ok bs cb ce la" and b: "map_of bs i = Some b"
    and st: "bnd_status b = BindingStatus.PROPOSED"
  shows "bindings_ok (setitem i (b\<lparr>bnd_status := BindingStatus.MIGRATING\<rparr>) bs) cb ce la"
    (is "bindings_ok ?bs cb ce la")
proof -
  have same: "\<exists>y. map_of bs k = Some y \<and> (x = y \<or> x = y\<lparr>bnd_status := BindingStatus.MIGRATING\<rparr>)"
    if "map_of ?bs k = Some x" for k x
    using that b by (auto split: if_splits)
  have "binding_ok cb ce la x" if "map_of ?bs k = Some x" for k x
    using same [OF that] bindings_okD(1) [OF ok] by (fastforce simp: binding_ok_def)
  moreover have "subject_ok ?bs cb ce la s" for s
  proof -
    have "map_of cb s \<noteq> Some i" using b st by (auto elim: current_binding [OF ok])
    then show ?thesis
      by (intro subject_ok_keep [OF bindings_okD(2) [OF ok, of s]]) (use b in auto)
  qed
  moreover have "epochs_distinct ?bs"
    using bindings_okD(3) [OF ok] b unfolding epochs_distinct_def by (auto split: if_splits)
  ultimately show ?thesis using ok by (simp add: bindings_ok_def)
qed

lemma events_ok_new:
  "events_ok evs ord \<Longrightarrow> map_of evs i = None \<Longrightarrow> events_ok (setitem i e evs) (ord @ [i])"
  by (auto simp: events_ok_def keys_of_setitem map_of_None_keys)

end
