(* ===== verification/Core_Exec.thy ===== *)
theory Core_Exec
  imports Core_Reuse Core_Binding
begin

section \<open>The core as a machine: every operation, one invariant\<close>

text \<open>
  The 25 state-changing methods of \<open>ContinuityCore\<close> that \<open>replay.py\<close> admits, as one type of
  operations with one execution function. The invariant of the whole core collects those of the
  components; every operation keeps it, and an operation that raises leaves the core as it was.
  The only condition is that the caller never introduces an entity under the empty identifier.
\<close>

datatype operation =
    create_program_op string
  | set_program_status_op string ProgramStatus
  | create_session_op string string
  | create_continuation_op string string "string list" ContinuationLifecycle
  | set_continuation_lifecycle_op string ContinuationLifecycle
  | resume_after_wait_op string string
  | create_request_op string string
  | start_attempt_op string string
  | set_attempt_execution_op string ExecutionStatus
  | complete_attempt_op string bool
  | create_phase_op string string PhaseType "int option"
  | set_phase_status_op string PhaseStatus
  | complete_phase_op string
  | create_output_op string string bool "string list"
  | finalize_request_op string string "rat option"
  | create_state_op string string string string string "string list"
  | set_state_validity_op string StateValidity
  | add_replica_op string string string ReplicaStatus
  | set_replica_status_op string ReplicaStatus
  | propose_binding_op string string string
  | activate_initial_binding_op string string string
  | begin_migration_op string
  | commit_migration_op string "string list" "rat option"
  | record_evidence_op Evidence
  | record_event_op SemanticEvent

definition discard :: "(core, 'a) outcome \<Rightarrow> (core, unit) outcome" where
  "discard r = calls r (\<lambda>_ g. (Inr (), g))"

fun exec :: "rat \<Rightarrow> core \<Rightarrow> operation \<Rightarrow> (core, unit) outcome" where
  "exec clk g (create_program_op i) = discard (create_program g i)"
| "exec clk g (set_program_status_op i s) = discard (set_program_status g i s)"
| "exec clk g (create_session_op i p) = discard (create_session g i p)"
| "exec clk g (create_continuation_op i s ps l) = discard (create_continuation g i s ps l)"
| "exec clk g (set_continuation_lifecycle_op i l) = discard (set_continuation_lifecycle g i l)"
| "exec clk g (resume_after_wait_op w i) = discard (resume_after_wait g w i)"
| "exec clk g (create_request_op i c) = discard (create_request g i c)"
| "exec clk g (start_attempt_op i r) = discard (start_attempt g i r)"
| "exec clk g (set_attempt_execution_op i s) = discard (set_attempt_execution g i s)"
| "exec clk g (complete_attempt_op i b) = discard (complete_attempt g i b)"
| "exec clk g (create_phase_op i a t n) = discard (create_phase g i a t n)"
| "exec clk g (set_phase_status_op i s) = discard (set_phase_status g i s)"
| "exec clk g (complete_phase_op i) = discard (complete_phase g i)"
| "exec clk g (create_output_op i a t es) = discard (create_output g i a t es)"
| "exec clk g (finalize_request_op r out now) = discard (finalize_request clk g r out now)"
| "exec clk g (create_state_op i ty oid sem repr ds) = discard (create_state g i ty oid sem repr ds)"
| "exec clk g (set_state_validity_op i v) = discard (set_state_validity g i v)"
| "exec clk g (add_replica_op i st l s) = discard (add_replica g i st l s)"
| "exec clk g (set_replica_status_op i s) = discard (set_replica_status g i s)"
| "exec clk g (propose_binding_op i s l) = discard (propose_binding g i s l)"
| "exec clk g (activate_initial_binding_op i s l) = discard (activate_initial_binding g i s l)"
| "exec clk g (begin_migration_op i) = discard (begin_migration g i)"
| "exec clk g (commit_migration_op i es now) = discard (commit_migration clk g i es now)"
| "exec clk g (record_evidence_op e) = discard (record_evidence g e)"
| "exec clk g (record_event_op e) = discard (record_event g e)"

fun new_id :: "operation \<Rightarrow> string option" where
  "new_id (create_program_op i) = Some i"
| "new_id (create_session_op i p) = Some i"
| "new_id (create_continuation_op i s ps l) = Some i"
| "new_id (resume_after_wait_op w i) = Some i"
| "new_id (create_request_op i c) = Some i"
| "new_id (start_attempt_op i r) = Some i"
| "new_id (create_phase_op i a t n) = Some i"
| "new_id (create_output_op i a t es) = Some i"
| "new_id (create_state_op i ty oid sem repr ds) = Some i"
| "new_id (add_replica_op i st l s) = Some i"
| "new_id (propose_binding_op i s l) = Some i"
| "new_id (activate_initial_binding_op i s l) = Some i"
| "new_id (record_evidence_op e) = Some (ev_id e)"
| "new_id (record_event_op e) = Some (sev_id e)"
| "new_id _ = None"

definition names_ok :: "operation \<Rightarrow> bool" where
  "names_ok op \<longleftrightarrow> new_id op \<noteq> Some ''''"

lemma discard_iff [simp]:
  "discard r = (Inr u, g') \<longleftrightarrow> (\<exists>x. r = (Inr x, g'))"
  "discard r = (Inl e, g') \<longleftrightarrow> r = (Inl e, g')"
  by (auto simp: discard_def calls_Inr calls_Inl)

subsection \<open>The invariant\<close>

definition sessions_ok :: "Program dict \<Rightarrow> Session dict \<Rightarrow> bool" where
  "sessions_ok ps ss \<longleftrightarrow> (\<forall>k s. map_of ss k = Some s \<longrightarrow> (\<exists>p. map_of ps (sess_program_id s) = Some p))"

definition inv :: "core \<Rightarrow> bool" where
  "inv g \<longleftrightarrow>
     reuse_inv g \<and> sessions_ok (programs g) (sessions g) \<and>
     outputs_ok (attempts g) (evidence g) (outputs g) \<and> evidence_ok (evidence g) \<and>
     replicas_ok (states g) (replicas g) \<and>
     bindings_ok (bindings g) (current_binding_by_subject g) (current_epoch_by_subject g)
       (last_allocated_epoch_by_subject g) \<and>
     events_ok (events g) (event_order g)"

lemma invD:
  assumes "inv g"
  shows "reuse_inv g" "sessions_ok (programs g) (sessions g)"
    "outputs_ok (attempts g) (evidence g) (outputs g)" "evidence_ok (evidence g)"
    "replicas_ok (states g) (replicas g)"
    "bindings_ok (bindings g) (current_binding_by_subject g) (current_epoch_by_subject g)
       (last_allocated_epoch_by_subject g)"
    "events_ok (events g) (event_order g)"
  using assms by (simp_all add: inv_def)

lemmas inv_parts = inv_def reuse_inv_def graph_inv_def

lemma inv_ids: "inv g \<Longrightarrow> ids_ok g" "inv g \<Longrightarrow> \<not> id_taken g ''''"
  by (simp_all add: inv_parts)

lemma inv_empty: "inv empty_core"
  by (simp add: inv_parts ids_ok_empty)
     (auto simp: empty_core_def id_taken_def has_key_def graph_ok_def parents_rel_def parent_graph_def
        edges_def attempts_ok_def generations_ok_def attempts_of_def values_of_def phases_ok_def
        phases_of_def states_ok_def deps_rel_def state_graph_def fresh_lifecycles_def sessions_ok_def
        outputs_ok_def evidence_ok_def replicas_ok_def bindings_ok_def subject_ok_def
        epochs_distinct_def events_ok_def keys_of_def acyclic_def intro: exI [of _ 0])

text \<open>Replacing an entity under its own key keeps the identities.\<close>

lemma ids_ok_replace:
  assumes "ids_ok g"
  shows "map_of (programs g) k = Some p \<Longrightarrow> prog_id p' = k \<Longrightarrow>
      ids_ok (g\<lparr>programs := setitem k p' (programs g)\<rparr>)"
    "map_of (requests g) k = Some r \<Longrightarrow> req_id r' = k \<Longrightarrow>
      ids_ok (g\<lparr>requests := setitem k r' (requests g)\<rparr>)"
    "map_of (attempts g) k = Some a \<Longrightarrow> att_id a' = k \<Longrightarrow>
      ids_ok (g\<lparr>attempts := setitem k a' (attempts g)\<rparr>)"
    "map_of (phases g) k = Some ph \<Longrightarrow> ph_id ph' = k \<Longrightarrow>
      ids_ok (g\<lparr>phases := setitem k ph' (phases g)\<rparr>)"
    "map_of (states g) k = Some x \<Longrightarrow> st_id x' = k \<Longrightarrow>
      ids_ok (g\<lparr>states := setitem k x' (states g)\<rparr>)"
    "map_of (replicas g) k = Some rp \<Longrightarrow> rep_id rp' = k \<Longrightarrow>
      ids_ok (g\<lparr>replicas := setitem k rp' (replicas g)\<rparr>)"
    "map_of (bindings g) k = Some b \<Longrightarrow> bnd_id b' = k \<Longrightarrow>
      ids_ok (g\<lparr>bindings := setitem k b' (bindings g)\<rparr>)"
  using assms by (simp_all add: ids_ok_def all_ids_def keys_of_replace keyed_setitem)

text \<open>Identity is a matter of the twelve entity dictionaries only.\<close>

lemma ids_ok_frame [simp]:
  "ids_ok (g\<lparr>event_order := a\<rparr>) = ids_ok g"
  "ids_ok (g\<lparr>current_binding_by_subject := b\<rparr>) = ids_ok g"
  "ids_ok (g\<lparr>current_epoch_by_subject := c\<rparr>) = ids_ok g"
  "ids_ok (g\<lparr>last_allocated_epoch_by_subject := c\<rparr>) = ids_ok g"
  by (simp_all add: ids_ok_def all_ids_def)

lemma id_taken_simps [simp]:
  "id_taken (g\<lparr>programs := setitem k p (programs g)\<rparr>) i \<longleftrightarrow> i = k \<or> id_taken g i"
  "id_taken (g\<lparr>sessions := setitem k s (sessions g)\<rparr>) i \<longleftrightarrow> i = k \<or> id_taken g i"
  "id_taken (g\<lparr>requests := setitem k r (requests g)\<rparr>) i \<longleftrightarrow> i = k \<or> id_taken g i"
  "id_taken (g\<lparr>attempts := setitem k a (attempts g)\<rparr>) i \<longleftrightarrow> i = k \<or> id_taken g i"
  "id_taken (g\<lparr>phases := setitem k ph (phases g)\<rparr>) i \<longleftrightarrow> i = k \<or> id_taken g i"
  "id_taken (g\<lparr>states := setitem k x (states g)\<rparr>) i \<longleftrightarrow> i = k \<or> id_taken g i"
  "id_taken (g\<lparr>replicas := setitem k rp (replicas g)\<rparr>) i \<longleftrightarrow> i = k \<or> id_taken g i"
  "id_taken (g\<lparr>bindings := setitem k b (bindings g)\<rparr>) i \<longleftrightarrow> i = k \<or> id_taken g i"
  "id_taken (g\<lparr>evidence := setitem k e (evidence g)\<rparr>) i \<longleftrightarrow> i = k \<or> id_taken g i"
  "id_taken (g\<lparr>outputs := setitem k out (outputs g)\<rparr>) i \<longleftrightarrow> i = k \<or> id_taken g i"
  "id_taken (g\<lparr>events := setitem k ev (events g)\<rparr>) i \<longleftrightarrow> i = k \<or> id_taken g i"
  "id_taken (g\<lparr>event_order := u\<rparr>) i = id_taken g i"
  "id_taken (g\<lparr>current_binding_by_subject := v\<rparr>) i = id_taken g i"
  "id_taken (g\<lparr>current_epoch_by_subject := w\<rparr>) i = id_taken g i"
  "id_taken (g\<lparr>last_allocated_epoch_by_subject := w\<rparr>) i = id_taken g i"
  by (auto simp: id_taken_def)

lemma taken:
  "map_of (programs g) k = Some p \<Longrightarrow> id_taken g k" "map_of (sessions g) k = Some s \<Longrightarrow> id_taken g k"
  "map_of (continuations g) k = Some c \<Longrightarrow> id_taken g k" "map_of (requests g) k = Some r \<Longrightarrow> id_taken g k"
  "map_of (attempts g) k = Some a \<Longrightarrow> id_taken g k" "map_of (phases g) k = Some ph \<Longrightarrow> id_taken g k"
  "map_of (states g) k = Some x \<Longrightarrow> id_taken g k" "map_of (replicas g) k = Some rp \<Longrightarrow> id_taken g k"
  "map_of (bindings g) k = Some b \<Longrightarrow> id_taken g k"
  by (simp_all add: id_taken_def has_key_Some)

subsection \<open>Every operation keeps it: programs, sessions, continuations\<close>

lemma inv_create_program:
  assumes inv: "inv g" and run: "create_program g i = (Inr p, g')" and "i \<noteq> ''''"
  shows "inv g'"
proof -
  from create_program_Inr [OF run] have new: "\<not> id_taken g i"
    and g': "g' = g\<lparr>programs := setitem i p (programs g)\<rparr>" "prog_id p = i" by auto
  have "ids_ok g'" using inv_ids(1) [OF inv] new g' by (simp add: ids_ok_simps)
  with inv new assms(3) show ?thesis by (auto simp: inv_parts g' sessions_ok_def)
qed

lemma inv_set_program_status:
  assumes inv: "inv g" and run: "set_program_status g i s = (Inr p', g')"
  shows "inv g'"
proof -
  from set_program_status_Inr [OF run] obtain p where p: "map_of (programs g) i = Some p"
    "p' = p\<lparr>prog_status := s\<rparr>" and g': "g' = g\<lparr>programs := setitem i p' (programs g)\<rparr>" by blast
  have "prog_id p = i" by (rule keyedD [OF ids_okD(13) [OF inv_ids(1) [OF inv]] p(1)])
  then have "ids_ok g'" using ids_ok_replace(1) [OF inv_ids(1) [OF inv] p(1)] p g' by simp
  with inv p taken(1) [OF p(1)] show ?thesis by (auto simp: inv_parts g' sessions_ok_def)
qed

lemma inv_create_session:
  assumes inv: "inv g" and run: "create_session g i pid = (Inr s, g')" and "i \<noteq> ''''"
  shows "inv g'"
proof -
  from create_session_Inr [OF run] obtain p where new: "\<not> id_taken g i"
    and p: "map_of (programs g) pid = Some p" and s: "s = \<lparr>sess_id = i, sess_program_id = pid\<rparr>"
    and g': "g' = g\<lparr>sessions := setitem i s (sessions g)\<rparr>" by blast
  have "ids_ok g'" using inv_ids(1) [OF inv] new g' s by (simp add: ids_ok_simps)
  moreover have "graph_ok (sessions g') (continuations g')"
    using inv not_id_taken(2) [OF new] unfolding g' by (fastforce simp: inv_parts graph_ok_def)
  ultimately show ?thesis
    using inv new assms(3) p s by (auto simp: inv_parts g' sessions_ok_def)
qed

text \<open>A change of the continuation graph that only adds to it.\<close>

lemma states_ok_relife:
  assumes ok: "states_ok cs rs ats phs sts" and grow: "continuations_grow cs cs'"
  shows "states_ok cs' rs ats phs (relife cs' sts)"
proof -
  let ?sts = "relife cs' sts"
  have rel: "deps_rel ?sts = deps_rel sts"
    by (rule deps_rel_cong) (simp add: map_of_relife option.map_comp comp_def)
  have "origin_ok cs' rs ats phs z \<and> deps_ok cs' phs ?sts z" if k: "map_of ?sts k = Some z" for k z
  proof -
    from k obtain x where x: "map_of sts k = Some x"
      and z: "z = x\<lparr>st_lifecycle := derived_lifecycle cs' (st_origin_continuation_id x)\<rparr>"
      by (auto simp: map_of_relife)
    have "origin_ok cs' rs ats phs x" using origin_ok_mono [OF states_okD(1) [OF ok x] grow] by simp
    have "deps_ok cs' phs sts x" using deps_ok_mono [OF grow _ states_okD(2) [OF ok x]] by simp
    have "deps_ok cs' phs ?sts z"
      unfolding deps_ok_def
    proof
      fix d assume "d \<in> set (st_derived_from z)"
      with \<open>deps_ok cs' phs sts x\<close> obtain y where "map_of sts d = Some y"
        "descends cs' (st_origin_continuation_id x) (st_origin_continuation_id y)" "phase_precedes phs y x"
        by (auto simp: deps_ok_def z)
      then show "\<exists>y. map_of ?sts d = Some y \<and>
          descends cs' (st_origin_continuation_id z) (st_origin_continuation_id y) \<and> phase_precedes phs y z"
        by (simp add: map_of_relife z phase_precedes_def)
    qed
    moreover have "origin_ok cs' rs ats phs z"
      using \<open>origin_ok cs' rs ats phs x\<close> by (simp add: z origin_ok_def)
    ultimately show ?thesis by blast
  qed
  moreover have "acyclic (deps_rel ?sts)" using ok rel by (simp add: states_ok_def)
  ultimately show ?thesis by (simp add: states_ok_def fresh_lifecycles_relife)
qed

lemma inv_graph_change:
  assumes inv: "inv g" and grow: "continuations_grow (continuations g) cs"
    and g': "g' = g\<lparr>continuations := cs, states := relife cs (states g)\<rparr>" and "graph_inv g'"
    and "\<not> id_taken g' ''''"
  shows "inv g'"
proof -
  have "states_ok cs (requests g) (attempts g) (phases g) (relife cs (states g))"
    by (rule states_ok_relife [OF reuse_invD(6) [OF invD(1) [OF inv]] grow])
  moreover have "attempts_ok cs (requests g) (attempts g) (outputs g)"
    by (rule attempts_ok_continuations [OF reuse_invD(4) [OF invD(1) [OF inv]]])
       (use grow in \<open>simp add: continuations_grow_def\<close>)
  moreover have "replicas_ok (relife cs (states g)) (replicas g)"
    using invD(5) [OF inv] by (auto simp: replicas_ok_def map_of_relife)
  ultimately show ?thesis using inv assms(4,5) by (simp add: inv_def reuse_inv_def g')
qed

lemma inv_create_continuation:
  assumes inv: "inv g" and run: "create_continuation g i s ps life = (Inr c, g')" and ne: "i \<noteq> ''''"
  shows "inv g'"
proof -
  have ginv: "graph_inv g" using inv by (simp add: inv_def reuse_inv_def)
  note new = create_continuation_Inr [OF ginv run]
  show ?thesis
  proof (rule inv_graph_change [OF inv])
    show "g' = g\<lparr>continuations := setitem i c (continuations g),
        states := relife (setitem i c (continuations g)) (states g)\<rparr>"
      using new(4,5) by (simp add: add_continuation_def Let_def)
    show "continuations_grow (continuations g) (setitem i c (continuations g))"
      using not_id_taken(3) [OF new(1)] by (auto simp: continuations_grow_def parents_rel_iff)
    show "graph_inv g'" by (rule add_continuation_inv [OF ginv run])
    show "\<not> id_taken g' ''''"
      using inv_ids(2) [OF inv] ne new(4,5)
      by (simp add: add_continuation_def Let_def id_taken_def has_key_iff keys_of_setitem)
  qed
qed

lemma inv_change_lifecycle:
  assumes inv: "inv g" and c: "map_of (continuations g) k = Some c"
  shows "inv (change_lifecycle g k (c\<lparr>cont_lifecycle := life\<rparr>))"
proof -
  have ginv: "graph_inv g" using inv by (simp add: inv_def reuse_inv_def)
  let ?c = "c\<lparr>cont_lifecycle := life\<rparr>"
  show ?thesis
  proof (rule inv_graph_change [OF inv])
    show "change_lifecycle g k ?c = g\<lparr>continuations := setitem k ?c (continuations g),
        states := relife (setitem k ?c (continuations g)) (states g)\<rparr>"
      by (simp add: change_lifecycle_def Let_def)
    show "continuations_grow (continuations g) (setitem k ?c (continuations g))"
      using c by (auto simp: continuations_grow_def parents_rel_iff)
    show "graph_inv (change_lifecycle g k ?c)" by (rule change_lifecycle_inv [OF ginv c])
    show "\<not> id_taken (change_lifecycle g k ?c) ''''"
      using inv_ids(2) [OF inv] c
      by (auto simp: change_lifecycle_def Let_def id_taken_def has_key_iff keys_of_setitem dest: map_of_in_keys)
  qed
qed

lemma inv_set_continuation_lifecycle:
  assumes inv: "inv g" and run: "set_continuation_lifecycle g k life = (Inr c', g')"
  shows "inv g'"
proof -
  have "graph_inv g" using inv by (simp add: inv_def reuse_inv_def)
  from set_continuation_lifecycle_Inr [OF this run] inv_change_lifecycle [OF inv] show ?thesis by auto
qed

lemma inv_resume_after_wait:
  assumes inv: "inv g" and run: "resume_after_wait g w i = (Inr c', g')" and ne: "i \<noteq> ''''"
  shows "inv g'"
proof -
  have "graph_inv g" using inv by (simp add: inv_def reuse_inv_def)
  from resume_after_wait_Inr [OF this run] inv_create_continuation [OF inv _ ne] inv_change_lifecycle
  show ?thesis by blast
qed

subsection \<open>Requests, attempts, phases, outputs\<close>

text \<open>
  An operation on requests, attempts, phases and outputs keeps the invariant if it keeps that of
  attempts, phases and outputs, and lets the dictionaries grow in the sense the States rely on.
\<close>

lemma inv_execution_change:
  assumes inv: "inv g"
    and g': "g' = g\<lparr>requests := rs, attempts := ats, phases := phs, outputs := outs\<rparr>"
    and ids: "ids_ok g'" "\<not> id_taken g' ''''"
    and ok: "attempts_ok (continuations g) rs ats outs" "phases_ok ats phs"
      "outputs_ok ats (evidence g) outs"
    and grow: "requests_grow (requests g) rs" "attempts_grow (attempts g) ats" "phases_grow (phases g) phs"
  shows "inv g'"
proof -
  have "states_ok (continuations g) rs ats phs (states g)"
    by (rule states_ok_mono [OF reuse_invD(6) [OF invD(1) [OF inv]] grow])
  with inv ids ok show ?thesis by (simp add: inv_parts g')
qed

lemma attempts_grow_ex: "attempts_grow ats ats' \<Longrightarrow> map_of ats k = Some a \<Longrightarrow> \<exists>a'. map_of ats' k = Some a'"
  by (auto simp: attempts_grow_def)

lemma inv_create_request:
  assumes inv: "inv g" and run: "create_request g i cid = (Inr r, g')" and ne: "i \<noteq> ''''"
  shows "inv g'"
proof -
  from create_request_Inr [OF run] obtain c where new: "\<not> id_taken g i"
    and c: "map_of (continuations g) cid = Some c"
    and r: "r = \<lparr>req_id = i, req_continuation_id = cid, req_status = RequestStatus.READY,
          req_current_attempt_id = None, req_committed_attempt_id = None,
          req_authoritative_output_id = None\<rparr>"
    and g': "g' = g\<lparr>requests := setitem i r (requests g)\<rparr>" by blast
  note ri = reuse_invD [OF invD(1) [OF inv]]
  note fresh = not_id_taken(4) [OF new]
  show ?thesis
  proof (rule inv_execution_change [OF inv])
    show "g' = g\<lparr>requests := setitem i r (requests g), attempts := attempts g, phases := phases g,
        outputs := outputs g\<rparr>" by (simp add: g')
    show "ids_ok g'" using ri(2) new by (simp add: g' r ids_ok_simps)
    show "\<not> id_taken g' ''''" using ri(3) ne by (simp add: g')
    show "attempts_ok (continuations g) (setitem i r (requests g)) (attempts g) (outputs g)"
      by (rule attempts_ok_new_request [OF ri(4) fresh]) (simp_all add: r c)
    show "requests_grow (requests g) (setitem i r (requests g))"
      using fresh by (auto simp: requests_grow_def)
  qed (use ri(5) invD(3) [OF inv] in simp_all)
qed

lemma inv_start_attempt:
  assumes inv: "inv g" and run: "start_attempt g i rid = (Inr a, g')" and ne: "i \<noteq> ''''"
  shows "inv g'"
proof -
  note ri = reuse_invD [OF invD(1) [OF inv]]
  from start_attempt_effect [OF run ri(2) ri(4)] obtain r rs ats where
    new: "\<not> id_taken g i" and r: "map_of (requests g) rid = Some r" and nt: "\<not> terminal_request r"
    and a: "att_id a = i" "att_request_id a = rid" "att_authority_status a = AttemptAuthority.CURRENT"
      "att_generation a = py_max 0 (map att_generation (attempts_of (attempts g) rid)) + 1"
    and eff: "(rs, ats) = start_effect (requests g) (attempts g) rid r a"
    and g': "g' = g\<lparr>attempts := ats, requests := rs\<rparr>" by blast
  note fresh = not_id_taken(5) [OF new]
  define ats1 where "ats1 = (case req_current_attempt_id r of None \<Rightarrow> attempts g
      | Some cur \<Rightarrow> (case map_of (attempts g) cur of None \<Rightarrow> attempts g
          | Some old \<Rightarrow> setitem cur (old\<lparr>att_authority_status := AttemptAuthority.SUPERSEDED\<rparr>) (attempts g)))"
  let ?r = "r\<lparr>req_status := RequestStatus.RUNNING, req_current_attempt_id := Some i\<rparr>"
  from eff a(1) have rs: "rs = setitem rid ?r (requests g)" and ats: "ats = setitem i a ats1"
    by (auto simp: start_effect_def ats1_def)
  have ids1: "ids_ok (g\<lparr>attempts := ats1\<rparr>)"
    using ri(2) keyedD [OF ids_okD(17) [OF ri(2)]]
    by (auto simp: ats1_def intro: ids_ok_replace(3) split: option.split)
  have keys: "id_taken (g\<lparr>attempts := ats1\<rparr>) k = id_taken g k" for k
    by (auto simp: ats1_def id_taken_def has_key_def split: option.splits)
  have "ids_ok (g\<lparr>attempts := ats\<rparr>)"
    using all_ids_new_aux(5) [of "g\<lparr>attempts := ats1\<rparr>" i a] ids1 new a(1) unfolding ids_ok_def keys
    by (simp add: ats keyed_setitem)
  from ids_ok_replace(2) [OF this, of rid r ?r] r keyedD [OF ids_okD(16) [OF ri(2)] r]
  have ids: "ids_ok g'" by (simp add: g' rs)
  have "rid \<noteq> ''''" using ri(3) taken(4) [OF r] by auto
  then have "\<not> id_taken g' ''''"
    using keys [of "''''"] ri(3) ne by (simp add: g' rs ats id_taken_def)
  moreover have ag: "attempts_grow (attempts g) ats"
    using fresh by (auto simp: attempts_grow_def ats ats1_def split: option.split)
  moreover have "requests_grow (requests g) rs"
    using r nt by (auto simp: requests_grow_def rs terminal_request_def)
  moreover have "attempts_ok (continuations g) rs ats (outputs g)"
    by (rule attempts_ok_start [OF ri(4) r nt _ a(2,3) a(4) eff]) (use a(1) fresh ne in auto)
  moreover have "phases_ok ats (phases g)" using phases_ok_attempts [OF ri(5)] attempts_grow_ex [OF ag] by blast
  moreover have "outputs_ok ats (evidence g) (outputs g)"
    using outputs_ok_mono [OF invD(3) [OF inv]] attempts_grow_ex [OF ag] by blast
  ultimately show ?thesis
    by (intro inv_execution_change [OF inv, where rs = rs and ats = ats and phs = "phases g" and outs = "outputs g"])
       (simp_all add: ids, simp add: g')
qed

lemma inv_set_attempt_execution:
  assumes inv: "inv g" and run: "set_attempt_execution g aid s = (Inr a', g')"
  shows "inv g'"
proof -
  note ri = reuse_invD [OF invD(1) [OF inv]]
  from set_attempt_execution_Inr [OF run] obtain a where a: "map_of (attempts g) aid = Some a"
    "terminal_execution (att_execution_status a) \<longrightarrow> s = att_execution_status a"
    "a' = a\<lparr>att_execution_status := s\<rparr>" "g' = g\<lparr>attempts := setitem aid a' (attempts g)\<rparr>" by blast
  have key: "att_id a = aid" by (rule keyedD [OF ids_okD(17) [OF ri(2)] a(1)])
  have ag: "attempts_grow (attempts g) (setitem aid a' (attempts g))"
    using a(1,3) by (auto simp: attempts_grow_def)
  show ?thesis
  proof (rule inv_execution_change [OF inv])
    show "g' = g\<lparr>requests := requests g, attempts := setitem aid a' (attempts g), phases := phases g,
        outputs := outputs g\<rparr>" by (simp add: a(4))
    show "ids_ok g'" unfolding a(4) by (rule ids_ok_replace(3) [OF ri(2) a(1)]) (simp add: a(3) key)
    show "\<not> id_taken g' ''''" using ri(3) taken(5) [OF a(1)] by (auto simp: a(4))
    show "attempts_ok (continuations g) (requests g) (setitem aid a' (attempts g)) (outputs g)"
      unfolding a(3) by (rule attempts_ok_execution [OF ri(4) a(1,2)])
    show "phases_ok (setitem aid a' (attempts g)) (phases g)"
      using phases_ok_attempts [OF ri(5)] attempts_grow_ex [OF ag] by blast
    show "outputs_ok (setitem aid a' (attempts g)) (evidence g) (outputs g)"
      using outputs_ok_mono [OF invD(3) [OF inv]] attempts_grow_ex [OF ag] by blast
  qed (use ag in simp_all)
qed

lemma inv_create_phase:
  assumes inv: "inv g" and run: "create_phase g i aid ty ord = (Inr p, g')" and ne: "i \<noteq> ''''"
  shows "inv g'"
proof -
  note ri = reuse_invD [OF invD(1) [OF inv]]
  from create_phase_Inr [OF run] obtain a where new: "\<not> id_taken g i"
    and a: "map_of (attempts g) aid = Some a"
    and p: "ph_id p = i" "ph_attempt_id p = aid"
      "ph_ordinal p = py_max 0 (map ph_ordinal (phases_of (phases g) aid)) + 1"
    and g': "g' = g\<lparr>phases := setitem i p (phases g)\<rparr>" by auto
  note fresh = not_id_taken(6) [OF new]
  show ?thesis
  proof (rule inv_execution_change [OF inv])
    show "g' = g\<lparr>requests := requests g, attempts := attempts g, phases := setitem i p (phases g),
        outputs := outputs g\<rparr>" by (simp add: g')
    show "ids_ok g'" using ri(2) new p by (simp add: g' ids_ok_simps)
    show "\<not> id_taken g' ''''" using ri(3) ne by (simp add: g')
    show "phases_ok (attempts g) (setitem i p (phases g))"
      by (rule phases_ok_new [OF ri(5) fresh]) (use a p in simp_all)
    show "phases_grow (phases g) (setitem i p (phases g))" using fresh by (auto simp: phases_grow_def)
  qed (use ri(4) invD(3) [OF inv] in simp_all)
qed

lemma inv_set_phase_status:
  assumes inv: "inv g" and run: "set_phase_status g pid s = (Inr p', g')"
  shows "inv g'"
proof -
  note ri = reuse_invD [OF invD(1) [OF inv]]
  from set_phase_status_Inr [OF run] obtain p where p: "map_of (phases g) pid = Some p"
    "ph_status p \<in> {PhaseStatus.COMPLETED, PhaseStatus.FAILED, PhaseStatus.CANCELLED} \<longrightarrow> s = ph_status p"
    "p' = p\<lparr>ph_status := s\<rparr>" "g' = g\<lparr>phases := setitem pid p' (phases g)\<rparr>" by blast
  have key: "ph_id p = pid" by (rule keyedD [OF ids_okD(18) [OF ri(2)] p(1)])
  show ?thesis
  proof (rule inv_execution_change [OF inv])
    show "g' = g\<lparr>requests := requests g, attempts := attempts g, phases := setitem pid p' (phases g),
        outputs := outputs g\<rparr>" by (simp add: p(4))
    show "ids_ok g'" unfolding p(4) by (rule ids_ok_replace(4) [OF ri(2) p(1)]) (simp add: p(3) key)
    show "\<not> id_taken g' ''''" using ri(3) taken(6) [OF p(1)] by (auto simp: p(4))
    show "phases_ok (attempts g) (setitem pid p' (phases g))"
      unfolding p(3) by (rule phases_ok_status [OF ri(5) p(1)])
    show "phases_grow (phases g) (setitem pid p' (phases g))"
      using p(1-3) by (auto simp: phases_grow_def)
  qed (use ri(4) invD(3) [OF inv] in simp_all)
qed

lemma inv_create_output:
  assumes inv: "inv g" and run: "create_output g i aid t es = (Inr out, g')" and ne: "i \<noteq> ''''"
  shows "inv g'"
proof -
  note ri = reuse_invD [OF invD(1) [OF inv]]
  from create_output_Inr [OF run] obtain a where new: "\<not> id_taken g i"
    and a: "map_of (attempts g) aid = Some a" and es: "\<forall>e\<in>set es. \<exists>x. map_of (evidence g) e = Some x"
    and out: "out = \<lparr>out_id = i, out_attempt_id = aid, out_terminal = t, out_evidence_ids = frozenset es\<rparr>"
    and g': "g' = g\<lparr>outputs := setitem i out (outputs g)\<rparr>" by blast
  show ?thesis
  proof (rule inv_execution_change [OF inv])
    show "g' = g\<lparr>requests := requests g, attempts := attempts g, phases := phases g,
        outputs := setitem i out (outputs g)\<rparr>" by (simp add: g')
    show "ids_ok g'" using ri(2) new out by (simp add: g' ids_ok_simps)
    show "\<not> id_taken g' ''''" using ri(3) ne by (simp add: g')
    show "attempts_ok (continuations g) (requests g) (attempts g) (setitem i out (outputs g))"
      by (rule attempts_ok_new_output [OF ri(4) not_id_taken(11) [OF new]])
    show "outputs_ok (attempts g) (evidence g) (setitem i out (outputs g))"
      by (rule outputs_ok_new [OF invD(3) [OF inv]]) (use a es out in simp_all)
  qed (use ri(5) in simp_all)
qed

lemma inv_finalize_request:
  assumes inv: "inv g" and run: "finalize_request clk g rid oid nw = (Inr r', g')"
  shows "inv g'"
  using run
proof (cases rule: finalize_request_Inr)
  case again
  with inv show ?thesis by simp
next
  case (commit r out a)
  note ri = reuse_invD [OF invD(1) [OF inv]]
  define aid where "aid = out_attempt_id out"
  have key: "att_id a = aid"
    using keyedD [OF ids_okD(17) [OF ri(2)]] commit(3) by (simp add: aid_def)
  have okey: "out_id out = oid" by (rule keyedD [OF ids_okD(23) [OF ri(2)] commit(2)])
  have rkey: "req_id r = rid" by (rule keyedD [OF ids_okD(16) [OF ri(2)] commit(1)])
  have a: "map_of (attempts g) aid = Some a" using commit(3) by (simp add: aid_def)
  have cur: "req_current_attempt_id r = Some aid" by (simp add: aid_def commit(5))
  have r': "r' = r\<lparr>req_status := RequestStatus.COMPLETED, req_current_attempt_id := None,
      req_committed_attempt_id := Some aid, req_authoritative_output_id := Some oid\<rparr>"
    using commit(10) key okey by simp
  let ?a = "a\<lparr>att_authority_status := AttemptAuthority.COMMITTED\<rparr>"
  let ?ats = "setitem aid ?a (attempts g)"
  have g': "g' = g\<lparr>attempts := ?ats, requests := setitem rid r' (requests g)\<rparr>"
    using commit(11) key by simp
  have ag: "attempts_grow (attempts g) ?ats" using a by (auto simp: attempts_grow_def)
  have ids1: "ids_ok (g\<lparr>attempts := ?ats\<rparr>)" by (rule ids_ok_replace(3) [OF ri(2) a]) (simp add: key)
  show ?thesis
  proof (rule inv_execution_change [OF inv])
    show "g' = g\<lparr>requests := setitem rid r' (requests g), attempts := ?ats, phases := phases g,
        outputs := outputs g\<rparr>" by (simp add: g')
    show "ids_ok g'"
      using ids_ok_replace(2) [OF ids1, of rid r r'] commit(1,10) rkey by (simp add: g')
    have "rid \<noteq> ''''" "aid \<noteq> ''''" using ri(3) taken(4) [OF commit(1)] taken(5) [OF a] by auto
    then show "\<not> id_taken g' ''''" using ri(3) by (simp add: g' id_taken_def)
    show "attempts_ok (continuations g) (setitem rid r' (requests g)) ?ats (outputs g)"
      unfolding r' by (rule attempts_ok_commit [OF ri(4) commit(1,4) cur a commit(7) commit(2) _ commit(8)])
        (simp add: aid_def)
    show "requests_grow (requests g) (setitem rid r' (requests g))"
      using commit(1,4,10) by (auto simp: requests_grow_def terminal_request_def)
    show "phases_ok ?ats (phases g)" using phases_ok_attempts [OF ri(5)] attempts_grow_ex [OF ag] by blast
    show "outputs_ok ?ats (evidence g) (outputs g)"
      using outputs_ok_mono [OF invD(3) [OF inv]] attempts_grow_ex [OF ag] by blast
  qed (use ag in simp_all)
qed

subsection \<open>States, replicas, bindings, evidence, events\<close>

lemma replicas_ok_mono:
  "replicas_ok sts rps \<Longrightarrow> (\<And>k x. map_of sts k = Some x \<Longrightarrow> \<exists>x'. map_of sts' k = Some x') \<Longrightarrow> replicas_ok sts' rps"
  unfolding replicas_ok_def by meson

lemma inv_states_change:
  assumes inv: "inv g" and g': "g' = g\<lparr>states := sts\<rparr>" and ri: "reuse_inv g'"
    and keep: "\<And>k x. map_of (states g) k = Some x \<Longrightarrow> \<exists>x'. map_of sts k = Some x'"
  shows "inv g'"
  using inv ri replicas_ok_mono [OF invD(5) [OF inv] keep] by (simp add: inv_def g')

lemma inv_create_state:
  assumes inv: "inv g" and run: "create_state g i ty oid sem repr ds = (Inr x, g')" and ne: "i \<noteq> ''''"
  shows "inv g'"
  using create_state_Inr [OF invD(1) [OF inv] run]
proof cases
  case (1 org)
  show ?thesis
    by (rule inv_states_change [OF inv 1(4) 1(5) [OF ne]]) (auto simp: not_id_taken(7) [OF 1(1)])
qed

lemma inv_set_state_validity:
  assumes inv: "inv g" and run: "set_state_validity g k v = (Inr x', g')"
  shows "inv g'"
proof -
  note ri = reuse_invD [OF invD(1) [OF inv]]
  from set_state_validity_Inr [OF run] obtain x where x: "map_of (states g) k = Some x"
    "x' = x\<lparr>st_validity := v\<rparr>" and g': "g' = g\<lparr>states := setitem k x' (states g)\<rparr>" by blast
  have key: "st_id x = k" by (rule keyedD [OF ids_okD(19) [OF ri(2)] x(1)])
  have "ids_ok g'" unfolding g' by (rule ids_ok_replace(5) [OF ri(2) x(1)]) (simp add: x(2) key)
  moreover have "states_ok (continuations g) (requests g) (attempts g) (phases g) (setitem k x' (states g))"
    unfolding x(2) by (rule states_ok_validity [OF ri(6) x(1)])
  moreover have "k \<noteq> ''''" using ri(3) taken(7) [OF x(1)] by auto
  ultimately have "reuse_inv g'"
    using invD(1) [OF inv] by (simp add: reuse_inv_def graph_inv_def g')
  then show ?thesis by (rule inv_states_change [OF inv g']) auto
qed

lemma inv_add_replica:
  assumes inv: "inv g" and run: "add_replica g i sid loc s = (Inr r, g')" and ne: "i \<noteq> ''''"
  shows "inv g'"
proof -
  from add_replica_Inr [OF run] obtain x where new: "\<not> id_taken g i"
    and x: "map_of (states g) sid = Some x"
    and r: "r = \<lparr>rep_id = i, rep_state_id = sid, rep_location_id = loc, rep_status = s,
          rep_binding_id = None, rep_binding_epoch = None\<rparr>"
    and g': "g' = g\<lparr>replicas := setitem i r (replicas g)\<rparr>" by blast
  have "ids_ok g'" using inv_ids(1) [OF inv] new r by (simp add: g' ids_ok_simps)
  moreover have "replicas_ok (states g) (setitem i r (replicas g))"
    using invD(5) [OF inv] x r by (simp add: replicas_ok_def)
  ultimately show ?thesis using inv ne by (simp add: inv_parts g')
qed

lemma inv_set_replica_status:
  assumes inv: "inv g" and run: "set_replica_status g k s = (Inr r', g')"
  shows "inv g'"
proof -
  from set_replica_status_Inr [OF run] obtain r where r: "map_of (replicas g) k = Some r"
    "r' = r\<lparr>rep_status := s\<rparr>" and g': "g' = g\<lparr>replicas := setitem k r' (replicas g)\<rparr>" by blast
  have "rep_id r = k" by (rule keyedD [OF ids_okD(20) [OF inv_ids(1) [OF inv]] r(1)])
  then have "ids_ok g'" unfolding g' by (intro ids_ok_replace(6) [OF inv_ids(1) [OF inv] r(1)]) (simp add: r(2))
  moreover have "replicas_ok (states g) (setitem k r' (replicas g))"
    using invD(5) [OF inv] r by (simp add: replicas_ok_def)
  moreover have "k \<noteq> ''''" using inv_ids(2) [OF inv] taken(8) [OF r(1)] by auto
  ultimately show ?thesis using inv by (simp add: inv_parts g')
qed

lemma inv_propose_binding:
  assumes inv: "inv g" and run: "propose_binding g i s loc = (Inr b, g')" and ne: "i \<noteq> ''''"
  shows "inv g'"
proof -
  from propose_binding_Inr [OF run] have new: "\<not> id_taken g i"
    and b: "b = \<lparr>bnd_id = i, bnd_subject_id = s, bnd_location_id = loc,
          bnd_base_epoch = dict_get (current_epoch_by_subject g) s 0,
          bnd_epoch = dict_get (last_allocated_epoch_by_subject g) s
            (dict_get (current_epoch_by_subject g) s 0) + 1,
          bnd_status = BindingStatus.PROPOSED\<rparr>"
    and g': "g' = g\<lparr>last_allocated_epoch_by_subject :=
               setitem s (bnd_epoch b) (last_allocated_epoch_by_subject g),
             bindings := setitem i b (bindings g)\<rparr>" by blast+
  have "ids_ok (g\<lparr>bindings := setitem i b (bindings g)\<rparr>)"
    using inv_ids(1) [OF inv] new b by (simp add: ids_ok_simps)
  then have "ids_ok g'" by (simp add: g' ids_ok_def all_ids_def)
  moreover have "bindings_ok (setitem i b (bindings g)) (current_binding_by_subject g)
      (current_epoch_by_subject g) (setitem s (bnd_epoch b) (last_allocated_epoch_by_subject g))"
    by (rule bindings_ok_propose [OF invD(6) [OF inv] not_id_taken(9) [OF new]]) (simp_all add: b)
  moreover have "\<not> id_taken g' ''''" using inv_ids(2) [OF inv] ne by (simp add: g' id_taken_def)
  ultimately show ?thesis using inv by (simp add: inv_parts g')
qed

lemma promote_None:
  "map_of cb (bnd_subject_id b) = None \<Longrightarrow>
     promote bs cb b = setitem (bnd_id b) (b\<lparr>bnd_status := BindingStatus.ACTIVE\<rparr>) bs"
  by (simp add: promote_def)

text \<open>Promoting a candidate to be the current binding of its subject.\<close>

lemma inv_promote:
  assumes inv: "inv g" and b: "map_of (bindings g) (bnd_id b) = Some b"
    and st: "bnd_status b \<noteq> BindingStatus.ACTIVE"
    and base: "bnd_base_epoch b = dict_get (current_epoch_by_subject g) (bnd_subject_id b) 0"
    and g': "g' = g\<lparr>bindings := promote (bindings g) (current_binding_by_subject g) b,
       current_binding_by_subject := setitem (bnd_subject_id b) (bnd_id b) (current_binding_by_subject g),
       current_epoch_by_subject := setitem (bnd_subject_id b) (bnd_epoch b) (current_epoch_by_subject g)\<rparr>"
  shows "inv g'"
proof -
  note ids = inv_ids(1) [OF inv] and ok = invD(6) [OF inv]
  note key = ids_okD(21) [OF ids]
  define bs1 where "bs1 = (case map_of (current_binding_by_subject g) (bnd_subject_id b) of
      None \<Rightarrow> bindings g
    | Some old \<Rightarrow> setitem old ((the (map_of (bindings g) old))\<lparr>bnd_status := BindingStatus.SUPERSEDED\<rparr>) (bindings g))"
  have pr: "promote (bindings g) (current_binding_by_subject g) b =
      setitem (bnd_id b) (b\<lparr>bnd_status := BindingStatus.ACTIVE\<rparr>) bs1"
    by (simp add: promote_def bs1_def)
  have keys: "keys_of bs1 = keys_of (bindings g)"
    by (auto simp: bs1_def keys_of_replace split: option.split elim: current_binding [OF ok])
  have ids1: "ids_ok (g\<lparr>bindings := bs1\<rparr>)"
    using ids keyedD [OF key]
    by (auto simp: bs1_def intro!: ids_ok_replace(7) [OF ids] elim!: current_binding [OF ok] split: option.split)
  have "map_of bs1 (bnd_id b) \<noteq> None"
    using keys b map_of_None_keys [of bs1 "bnd_id b"] map_of_in_keys [OF b] by auto
  then obtain b1 where "map_of bs1 (bnd_id b) = Some b1" by auto
  with ids_ok_replace(7) [OF ids1, of "bnd_id b" b1]
  have "ids_ok (g\<lparr>bindings := promote (bindings g) (current_binding_by_subject g) b\<rparr>)"
    by (simp add: pr)
  then have "ids_ok g'" by (simp add: g' ids_ok_def all_ids_def)
  moreover have "\<not> id_taken g' ''''"
  proof -
    have "bnd_id b \<noteq> ''''" using inv_ids(2) [OF inv] taken(9) [OF b] by auto
    then show ?thesis
      using inv_ids(2) [OF inv] by (simp add: g' id_taken_def pr has_key_iff keys_of_setitem keys map_of_None_keys)
  qed
  moreover have "bindings_ok (promote (bindings g) (current_binding_by_subject g) b)
      (setitem (bnd_subject_id b) (bnd_id b) (current_binding_by_subject g))
      (setitem (bnd_subject_id b) (bnd_epoch b) (current_epoch_by_subject g)) (last_allocated_epoch_by_subject g)"
    by (rule bindings_ok_promote [OF ok b st key base])
  ultimately show ?thesis using inv by (simp add: inv_parts g')
qed

lemma inv_activate_initial_binding:
  assumes inv: "inv g" and run: "activate_initial_binding g i s loc = (Inr b, g')" and ne: "i \<noteq> ''''"
  shows "inv g'"
proof -
  from activate_initial_binding_Inr [OF run] obtain b0 g1 where
    none: "map_of (current_binding_by_subject g) s = None"
    and pro: "propose_binding g i s loc = (Inr b0, g1)" and b: "b = b0\<lparr>bnd_status := BindingStatus.ACTIVE\<rparr>"
    and g': "g' = g1\<lparr>bindings := setitem i b (bindings g1),
               current_binding_by_subject := setitem s i (current_binding_by_subject g1),
               current_epoch_by_subject := setitem s (bnd_epoch b) (current_epoch_by_subject g1)\<rparr>" by blast
  note p = propose_binding_Inr [OF pro]
  from p have b0: "bnd_id b0 = i" "bnd_subject_id b0 = s" "bnd_status b0 = BindingStatus.PROPOSED"
    "bnd_base_epoch b0 = dict_get (current_epoch_by_subject g1) s 0" by auto
  have g1: "map_of (bindings g1) i = Some b0" "map_of (current_binding_by_subject g1) s = None"
    using p none by auto
  show ?thesis
  proof (rule inv_promote [OF inv_propose_binding [OF inv pro ne], of b0])
    show "g' = g1\<lparr>bindings := promote (bindings g1) (current_binding_by_subject g1) b0,
       current_binding_by_subject := setitem (bnd_subject_id b0) (bnd_id b0) (current_binding_by_subject g1),
       current_epoch_by_subject := setitem (bnd_subject_id b0) (bnd_epoch b0) (current_epoch_by_subject g1)\<rparr>"
      using g1 b0 by (simp add: g' b promote_None)
  qed (use g1 b0 in simp_all)
qed

lemma inv_begin_migration:
  assumes inv: "inv g" and run: "begin_migration g i = (Inr b', g')"
  shows "inv g'"
proof -
  from begin_migration_Inr [OF run] obtain b where b: "map_of (bindings g) i = Some b"
    "bnd_status b = BindingStatus.PROPOSED" "b' = b\<lparr>bnd_status := BindingStatus.MIGRATING\<rparr>"
    "g' = g\<lparr>bindings := setitem (bnd_id b) b' (bindings g)\<rparr>" by blast
  have key: "bnd_id b = i" by (rule keyedD [OF ids_okD(21) [OF inv_ids(1) [OF inv]] b(1)])
  have "ids_ok g'" unfolding b(4) key
    by (rule ids_ok_replace(7) [OF inv_ids(1) [OF inv] b(1)]) (simp add: b(3) key)
  moreover have "i \<noteq> ''''" using inv_ids(2) [OF inv] taken(9) [OF b(1)] by auto
  moreover have "bindings_ok (setitem i b' (bindings g)) (current_binding_by_subject g)
      (current_epoch_by_subject g) (last_allocated_epoch_by_subject g)"
    unfolding b(3) by (rule bindings_ok_migrating [OF invD(6) [OF inv] b(1,2)])
  ultimately show ?thesis using inv by (simp add: inv_parts b(4) key)
qed

lemma inv_commit_migration:
  assumes inv: "inv g" and run: "commit_migration clk g i ids nw = (Inr b', g')"
  shows "inv g'"
  using commit_migration_Inr [OF run ids_okD(21) [OF inv_ids(1) [OF inv]] invD(6) [OF inv]
      not_id_taken(9) [OF inv_ids(2) [OF inv]]]
proof cases
  case (1 b)
  show ?thesis
    by (rule inv_promote [OF inv, of b]) (use 1 in \<open>auto simp: promote_def\<close>)
qed

lemma inv_record_evidence:
  assumes inv: "inv g" and run: "record_evidence g e = (Inr r, g')" and ne: "ev_id e \<noteq> ''''"
  shows "inv g'"
  using record_evidence_Inr [OF run]
proof (elim disjE conjE)
  assume new: "\<not> id_taken g (ev_id e)" and chk: "check_derivation_fields e = Inr ()" "check_supports g e = Inr ()"
    and g': "g' = g\<lparr>evidence := setitem (ev_id e) e (evidence g)\<rparr>"
  note fresh = not_id_taken(10) [OF new]
  have "ids_ok g'" using inv_ids(1) [OF inv] new by (simp add: g' ids_ok_simps)
  moreover have "evidence_ok (setitem (ev_id e) e (evidence g))"
    by (rule evidence_ok_new [OF invD(4) [OF inv] fresh chk])
  moreover have "outputs_ok (attempts g) (setitem (ev_id e) e (evidence g)) (outputs g)"
    by (rule outputs_ok_mono [OF invD(3) [OF inv]]) auto
  ultimately show ?thesis using inv ne by (simp add: inv_parts g')
qed (use inv in simp)

lemma inv_record_event:
  assumes inv: "inv g" and run: "record_event g e = (Inr r, g')" and ne: "sev_id e \<noteq> ''''"
  shows "inv g'"
  using record_event_Inr [OF run]
proof (elim disjE conjE)
  assume new: "\<not> id_taken g (sev_id e)"
    and g': "g' = g\<lparr>events := setitem (sev_id e) e (events g), event_order := event_order g @ [sev_id e]\<rparr>"
  have "ids_ok (g\<lparr>events := setitem (sev_id e) e (events g)\<rparr>)"
    using inv_ids(1) [OF inv] new by (simp add: ids_ok_simps)
  then have "ids_ok g'" by (simp add: g' ids_ok_def all_ids_def)
  moreover have "events_ok (setitem (sev_id e) e (events g)) (event_order g @ [sev_id e])"
    by (rule events_ok_new [OF invD(7) [OF inv] not_id_taken(12) [OF new]])
  moreover have "\<not> id_taken g' ''''" using inv_ids(2) [OF inv] ne by (simp add: g' id_taken_def)
  ultimately show ?thesis using inv by (simp add: inv_parts g')
qed (use inv in simp)

end
