(* ===== verification/Machine.thy ===== *)
theory Machine
  imports Py_Prelude
begin

section \<open>Machines whose operations keep an invariant\<close>

text \<open>
  The interface between a stateful component and the sequences of calls its users make. A client
  runs any sequence of operations, goes on after an exception, and relies on two laws: an operation,
  whether it returns or raises, keeps the invariant, and it relates the states before and after by
  \<open>R\<close>, a preorder (what may change over time, and what may not). An atomic machine promises
  besides that an operation that raises changes nothing. The lemmas carry the laws over to runs.
\<close>

definition run_ops :: "('s \<Rightarrow> 'op \<Rightarrow> ('s, unit) outcome) \<Rightarrow> 's \<Rightarrow> 'op list \<Rightarrow> 's" where
  "run_ops step s ops = fold (\<lambda>op t. snd (step t op)) ops s"

lemma run_ops_simps [simp]:
  "run_ops step s [] = s"
  "run_ops step s (op # ops) = run_ops step (snd (step s op)) ops"
  by (simp_all add: run_ops_def)

lemma run_ops_append: "run_ops step s (xs @ ys) = run_ops step (run_ops step s xs) ys"
  by (simp add: run_ops_def)

locale invariant_machine =
  fixes step :: "'s \<Rightarrow> 'op \<Rightarrow> (py_error + unit) \<times> 's"
    and ok :: "'op \<Rightarrow> bool"
    and I :: "'s \<Rightarrow> bool"
    and R :: "'s \<Rightarrow> 's \<Rightarrow> bool"
  assumes keeps: "I s \<Longrightarrow> ok op \<Longrightarrow> step s op = (r, s') \<Longrightarrow> I s'"
    and evolves: "I s \<Longrightarrow> ok op \<Longrightarrow> step s op = (r, s') \<Longrightarrow> R s s'"
    and R_refl: "R s s"
    and R_trans: "R s t \<Longrightarrow> R t u \<Longrightarrow> R s u"
begin

lemma step_keeps: "I s \<Longrightarrow> ok op \<Longrightarrow> I (snd (step s op))"
  using keeps [of s op] by (cases "step s op") auto

lemma step_evolves: "I s \<Longrightarrow> ok op \<Longrightarrow> R s (snd (step s op))"
  using evolves [of s op] by (cases "step s op") auto

lemma run_keeps: "I s \<Longrightarrow> list_all ok ops \<Longrightarrow> I (run_ops step s ops)"
  by (induction ops arbitrary: s) (auto intro: step_keeps)

lemma run_evolves: "I s \<Longrightarrow> list_all ok ops \<Longrightarrow> R s (run_ops step s ops)"
proof (induction ops arbitrary: s)
  case (Cons op ops)
  then show ?case using step_evolves [of s op] step_keeps [of s op] by (auto intro: R_trans)
qed (simp add: R_refl)

end

locale atomic_machine = invariant_machine +
  assumes atomic: "I s \<Longrightarrow> step s op = (Inl e, s') \<Longrightarrow> s' = s"
begin

text \<open>A run may leave out the operations that raised.\<close>

lemma run_skips_failures:
  assumes "I s" and "list_all ok (xs @ op # ys)"
    and "fst (step (run_ops step s xs) op) = Inl e"
  shows "run_ops step s (xs @ op # ys) = run_ops step s (xs @ ys)"
proof -
  from assms have "I (run_ops step s xs)" by (intro run_keeps) simp_all
  with assms(3) have "snd (step (run_ops step s xs) op) = run_ops step s xs"
    using atomic [of "run_ops step s xs" op e] by (metis prod.collapse)
  then show ?thesis by (simp add: run_ops_append)
qed

end

subsection \<open>Dictionaries whose entries may only change in a given way\<close>

definition dict_evolves :: "('v \<Rightarrow> 'v \<Rightarrow> bool) \<Rightarrow> 'v dict \<Rightarrow> 'v dict \<Rightarrow> bool" where
  "dict_evolves T d d' \<longleftrightarrow> (\<forall>k v. map_of d k = Some v \<longrightarrow> (\<exists>v'. map_of d' k = Some v' \<and> T v v'))"

lemma dict_evolvesD: "dict_evolves T d d' \<Longrightarrow> map_of d k = Some v \<Longrightarrow> \<exists>v'. map_of d' k = Some v' \<and> T v v'"
  by (simp add: dict_evolves_def)

lemma dict_evolves_refl: "(\<And>v. T v v) \<Longrightarrow> dict_evolves T d d"
  by (simp add: dict_evolves_def)

lemma dict_evolves_trans:
  assumes "\<And>u v w. T u v \<Longrightarrow> T v w \<Longrightarrow> T u w" and "dict_evolves T d d'" and "dict_evolves T d' d''"
  shows "dict_evolves T d d''"
  unfolding dict_evolves_def
proof (intro allI impI)
  fix k v assume "map_of d k = Some v"
  with assms(2) obtain v' where "map_of d' k = Some v'" "T v v'" by (auto simp: dict_evolves_def)
  moreover with assms(3) obtain v'' where "map_of d'' k = Some v''" "T v' v''" by (auto simp: dict_evolves_def)
  ultimately show "\<exists>w. map_of d'' k = Some w \<and> T v w" using assms(1) by blast
qed

lemma dict_evolves_new: "map_of d k = None \<Longrightarrow> (\<And>v. T v v) \<Longrightarrow> dict_evolves T d (setitem k w d)"
  by (auto simp: dict_evolves_def)

lemma dict_evolves_replace:
  "map_of d k = Some v \<Longrightarrow> T v w \<Longrightarrow> (\<And>v. T v v) \<Longrightarrow> dict_evolves T d (setitem k w d)"
  by (auto simp: dict_evolves_def)

end
