(* ===== verification/Core_History.thy ===== *)
theory Core_History
  imports Core_Exec Machine
begin

section \<open>What may change over time\<close>

text \<open>
  The relation between a core and the same core later: entities are never removed, the identity and
  the structure of an entity never change, and the mutable parts only move forward (a terminal
  status is final, authority once lost is never regained, an invalid State stays invalid, evidence,
  outputs and events are immutable, epochs only grow). Every operation is in the relation.
\<close>

definition program_step :: "Program \<Rightarrow> Program \<Rightarrow> bool" where
  "program_step p p' \<longleftrightarrow> prog_id p' = prog_id p \<and>
     (prog_status p \<in> {ProgramStatus.COMPLETED, ProgramStatus.FAILED, ProgramStatus.CANCELLED} \<longrightarrow> p' = p)"

definition continuation_step :: "Continuation \<Rightarrow> Continuation \<Rightarrow> bool" where
  "continuation_step c c' \<longleftrightarrow>
     cont_id c' = cont_id c \<and> cont_session_id c' = cont_session_id c \<and>
     cont_parent_ids c' = cont_parent_ids c \<and>
     (cont_lifecycle c \<in> {ContinuationLifecycle.TERMINAL, ContinuationLifecycle.ABANDONED} \<longrightarrow> c' = c)"

definition request_step :: "LogicalRequest \<Rightarrow> LogicalRequest \<Rightarrow> bool" where
  "request_step r r' \<longleftrightarrow>
     req_id r' = req_id r \<and> req_continuation_id r' = req_continuation_id r \<and>
     (terminal_request r \<longrightarrow> r' = r)"

fun execution_progress :: "ExecutionStatus \<Rightarrow> nat" where
  "execution_progress ExecutionStatus.CREATED = 0"
| "execution_progress ExecutionStatus.DISPATCHED = 1"
| "execution_progress ExecutionStatus.RUNNING = 2"
| "execution_progress _ = 3"

definition attempt_step :: "Attempt \<Rightarrow> Attempt \<Rightarrow> bool" where
  "attempt_step a a' \<longleftrightarrow>
     att_id a' = att_id a \<and> att_request_id a' = att_request_id a \<and> att_generation a' = att_generation a \<and>
     (att_authority_status a' = att_authority_status a \<or>
      att_authority_status a = AttemptAuthority.CURRENT \<and>
      att_authority_status a' \<in> {AttemptAuthority.SUPERSEDED, AttemptAuthority.COMMITTED}) \<and>
     execution_progress (att_execution_status a) \<le> execution_progress (att_execution_status a') \<and>
     (terminal_execution (att_execution_status a) \<longrightarrow> att_execution_status a' = att_execution_status a)"

fun phase_progress :: "PhaseStatus \<Rightarrow> nat" where
  "phase_progress PhaseStatus.CREATED = 0"
| "phase_progress PhaseStatus.RUNNING = 1"
| "phase_progress _ = 2"

definition phase_step :: "Phase \<Rightarrow> Phase \<Rightarrow> bool" where
  "phase_step p p' \<longleftrightarrow>
     ph_id p' = ph_id p \<and> ph_attempt_id p' = ph_attempt_id p \<and> ph_ordinal p' = ph_ordinal p \<and>
     ph_type p' = ph_type p \<and> phase_progress (ph_status p) \<le> phase_progress (ph_status p') \<and>
     (phase_progress (ph_status p) = 2 \<longrightarrow> ph_status p' = ph_status p)"

definition state_step :: "ReusableState \<Rightarrow> ReusableState \<Rightarrow> bool" where
  "state_step x x' \<longleftrightarrow>
     (\<exists>l v. x' = x\<lparr>st_lifecycle := l, st_validity := v\<rparr>) \<and>
     (st_validity x = StateValidity.INVALID \<longrightarrow> st_validity x' = StateValidity.INVALID)"

definition replica_step :: "StateReplica \<Rightarrow> StateReplica \<Rightarrow> bool" where
  "replica_step r r' \<longleftrightarrow> (\<exists>s. r' = r\<lparr>rep_status := s\<rparr>)"

fun binding_progress :: "BindingStatus \<Rightarrow> nat" where
  "binding_progress BindingStatus.PROPOSED = 0"
| "binding_progress BindingStatus.MIGRATING = 1"
| "binding_progress BindingStatus.ACTIVE = 2"
| "binding_progress BindingStatus.SUPERSEDED = 3"
| "binding_progress BindingStatus.RELEASED = 4"
| "binding_progress BindingStatus.INVALID = 5"

definition binding_step :: "Binding \<Rightarrow> Binding \<Rightarrow> bool" where
  "binding_step b b' \<longleftrightarrow>
     (\<exists>s. b' = b\<lparr>bnd_status := s\<rparr>) \<and> binding_progress (bnd_status b) \<le> binding_progress (bnd_status b')"

definition epochs_grow :: "int dict \<Rightarrow> int dict \<Rightarrow> bool" where
  "epochs_grow d d' \<longleftrightarrow> (\<forall>s. dict_get d s 0 \<le> dict_get d' s 0)"

definition core_evolves :: "core \<Rightarrow> core \<Rightarrow> bool" where
  "core_evolves g g' \<longleftrightarrow>
     dict_evolves program_step (programs g) (programs g') \<and>
     dict_evolves (=) (sessions g) (sessions g') \<and>
     dict_evolves continuation_step (continuations g) (continuations g') \<and>
     dict_evolves request_step (requests g) (requests g') \<and>
     dict_evolves attempt_step (attempts g) (attempts g') \<and>
     dict_evolves phase_step (phases g) (phases g') \<and>
     dict_evolves state_step (states g) (states g') \<and>
     dict_evolves replica_step (replicas g) (replicas g') \<and>
     dict_evolves binding_step (bindings g) (bindings g') \<and>
     dict_evolves (=) (evidence g) (evidence g') \<and>
     dict_evolves (=) (outputs g) (outputs g') \<and>
     dict_evolves (=) (events g) (events g') \<and>
     (\<exists>more. event_order g' = event_order g @ more) \<and>
     epochs_grow (current_epoch_by_subject g) (current_epoch_by_subject g') \<and>
     epochs_grow (last_allocated_epoch_by_subject g) (last_allocated_epoch_by_subject g')"

subsection \<open>It is a preorder\<close>

lemma step_refl [simp, intro]:
  "program_step p p" "continuation_step c c" "request_step r r" "attempt_step a a" "phase_step ph ph"
  "state_step x x" "replica_step rp rp" "binding_step b b" "epochs_grow d d"
  by (simp_all add: program_step_def continuation_step_def request_step_def attempt_step_def
      phase_step_def epochs_grow_def)
     (cases x; cases rp; cases b; auto simp: state_step_def replica_step_def binding_step_def)+

lemma state_step_trans: "state_step x x1 \<Longrightarrow> state_step x1 x2 \<Longrightarrow> state_step x x2"
  unfolding state_step_def by (elim conjE exE, intro conjI exI) auto

lemma step_trans:
  "program_step p q \<Longrightarrow> program_step q s \<Longrightarrow> program_step p s"
  "continuation_step c c1 \<Longrightarrow> continuation_step c1 c2 \<Longrightarrow> continuation_step c c2"
  "request_step r r1 \<Longrightarrow> request_step r1 r2 \<Longrightarrow> request_step r r2"
  "attempt_step a a1 \<Longrightarrow> attempt_step a1 a2 \<Longrightarrow> attempt_step a a2"
  "phase_step ph ph1 \<Longrightarrow> phase_step ph1 ph2 \<Longrightarrow> phase_step ph ph2"
  "state_step x x1 \<Longrightarrow> state_step x1 x2 \<Longrightarrow> state_step x x2"
  "replica_step rp rp1 \<Longrightarrow> replica_step rp1 rp2 \<Longrightarrow> replica_step rp rp2"
  "binding_step b b1 \<Longrightarrow> binding_step b1 b2 \<Longrightarrow> binding_step b b2"
  "epochs_grow d d1 \<Longrightarrow> epochs_grow d1 d2 \<Longrightarrow> epochs_grow d d2"
  by (auto simp: program_step_def continuation_step_def request_step_def attempt_step_def phase_step_def
        replica_step_def binding_step_def epochs_grow_def intro: order_trans state_step_trans)

lemmas evolves_refl [simp] = dict_evolves_refl [of program_step] dict_evolves_refl [of "(=)"]
  dict_evolves_refl [of continuation_step] dict_evolves_refl [of request_step]
  dict_evolves_refl [of attempt_step] dict_evolves_refl [of phase_step] dict_evolves_refl [of state_step]
  dict_evolves_refl [of replica_step] dict_evolves_refl [of binding_step]

lemma core_evolves_refl [simp]: "core_evolves g g"
  by (simp add: core_evolves_def)

lemma core_evolves_trans:
  assumes "core_evolves g1 g2" and "core_evolves g2 g3"
  shows "core_evolves g1 g3"
proof -
  note dict_evolves_trans [trans]
  have "dict_evolves program_step (programs g1) (programs g3)"
    "dict_evolves (=) (sessions g1) (sessions g3)"
    "dict_evolves continuation_step (continuations g1) (continuations g3)"
    "dict_evolves request_step (requests g1) (requests g3)"
    "dict_evolves attempt_step (attempts g1) (attempts g3)"
    "dict_evolves phase_step (phases g1) (phases g3)"
    "dict_evolves state_step (states g1) (states g3)"
    "dict_evolves replica_step (replicas g1) (replicas g3)"
    "dict_evolves binding_step (bindings g1) (bindings g3)"
    "dict_evolves (=) (evidence g1) (evidence g3)"
    "dict_evolves (=) (outputs g1) (outputs g3)"
    "dict_evolves (=) (events g1) (events g3)"
    using assms unfolding core_evolves_def
    by (blast intro: dict_evolves_trans step_trans)+
  then show ?thesis
    using assms step_trans(9) unfolding core_evolves_def by (metis append.assoc)
qed

subsection \<open>Every operation is a step forward\<close>

lemma evolves_replace:
  "map_of (programs g) k = Some p \<Longrightarrow> program_step p p' \<Longrightarrow>
     dict_evolves program_step (programs g) (setitem k p' (programs g))"
  "map_of (continuations g) k = Some c \<Longrightarrow> continuation_step c c' \<Longrightarrow>
     dict_evolves continuation_step (continuations g) (setitem k c' (continuations g))"
  "map_of (requests g) k = Some r \<Longrightarrow> request_step r r' \<Longrightarrow>
     dict_evolves request_step (requests g) (setitem k r' (requests g))"
  "map_of (attempts g) k = Some a \<Longrightarrow> attempt_step a a' \<Longrightarrow>
     dict_evolves attempt_step (attempts g) (setitem k a' (attempts g))"
  "map_of (phases g) k = Some ph \<Longrightarrow> phase_step ph ph' \<Longrightarrow>
     dict_evolves phase_step (phases g) (setitem k ph' (phases g))"
  "map_of (states g) k = Some x \<Longrightarrow> state_step x x' \<Longrightarrow>
     dict_evolves state_step (states g) (setitem k x' (states g))"
  "map_of (replicas g) k = Some rp \<Longrightarrow> replica_step rp rp' \<Longrightarrow>
     dict_evolves replica_step (replicas g) (setitem k rp' (replicas g))"
  "map_of (bindings g) k = Some b \<Longrightarrow> binding_step b b' \<Longrightarrow>
     dict_evolves binding_step (bindings g) (setitem k b' (bindings g))"
  by (auto intro: dict_evolves_replace)

lemma evolves_new [simp]:
  assumes "\<not> id_taken g i"
  shows "dict_evolves program_step (programs g) (setitem i p (programs g))"
    "dict_evolves (=) (sessions g) (setitem i s (sessions g))"
    "dict_evolves continuation_step (continuations g) (setitem i c (continuations g))"
    "dict_evolves request_step (requests g) (setitem i r (requests g))"
    "dict_evolves attempt_step (attempts g) (setitem i a (attempts g))"
    "dict_evolves phase_step (phases g) (setitem i ph (phases g))"
    "dict_evolves state_step (states g) (setitem i x (states g))"
    "dict_evolves replica_step (replicas g) (setitem i rp (replicas g))"
    "dict_evolves binding_step (bindings g) (setitem i b (bindings g))"
    "dict_evolves (=) (evidence g) (setitem i e (evidence g))"
    "dict_evolves (=) (outputs g) (setitem i out (outputs g))"
    "dict_evolves (=) (events g) (setitem i ev (events g))"
  using not_id_taken [OF assms] by (auto intro: dict_evolves_new)

lemma evolves_relife: "dict_evolves state_step sts (relife cs sts)"
proof -
  have "state_step x (x\<lparr>st_lifecycle := l\<rparr>)" for x l
    unfolding state_step_def by (cases x) auto
  then show ?thesis by (simp add: dict_evolves_def map_of_relife)
qed

lemma evolves_graph:
  "dict_evolves continuation_step (continuations g) cs \<Longrightarrow>
     core_evolves g (g\<lparr>continuations := cs, states := relife cs (states g)\<rparr>)"
  by (simp add: core_evolves_def evolves_relife)

lemma create_continuation_evolves:
  assumes "graph_inv g" and "create_continuation g i sid ps life = (Inr c, g')"
  shows "core_evolves g g'"
  using create_continuation_Inr [OF assms] by (simp add: add_continuation_def Let_def evolves_graph)

lemma change_lifecycle_evolves:
  assumes "map_of (continuations g) k = Some c"
    and "cont_lifecycle c \<in> {ContinuationLifecycle.TERMINAL, ContinuationLifecycle.ABANDONED} \<longrightarrow>
      life = cont_lifecycle c"
  shows "core_evolves g (change_lifecycle g k (c\<lparr>cont_lifecycle := life\<rparr>))"
proof -
  have "continuation_step c (c\<lparr>cont_lifecycle := life\<rparr>)" using assms(2) by (auto simp: continuation_step_def)
  then show ?thesis
    by (simp add: change_lifecycle_def Let_def evolves_graph evolves_replace(2) [OF assms(1)])
qed

lemma resume_after_wait_evolves:
  assumes inv: "graph_inv g" and run: "resume_after_wait g w i = (Inr child, g')"
  shows "core_evolves g g'"
proof -
  from resume_after_wait_Inr [OF inv run] obtain c g1 where
    c: "cont_lifecycle c = ContinuationLifecycle.WAITING"
    and new: "create_continuation g i (cont_session_id c) [w] ContinuationLifecycle.ACTIVE = (Inr child, g1)"
    and w: "map_of (continuations g1) w = Some c"
    and g': "g' = change_lifecycle g1 w (c\<lparr>cont_lifecycle := ContinuationLifecycle.TERMINAL\<rparr>)" by blast
  have "core_evolves g1 g'" unfolding g' by (rule change_lifecycle_evolves [OF w]) (simp add: c)
  with create_continuation_evolves [OF inv new] show ?thesis by (rule core_evolves_trans)
qed

lemma start_attempt_evolves:
  assumes ri: "reuse_inv g" and run: "start_attempt g i rid = (Inr a, g')"
  shows "core_evolves g g'"
proof -
  note at = reuse_invD(4) [OF ri]
  from start_attempt_effect [OF run reuse_invD(2) [OF ri] at] obtain r rs ats where
    new: "\<not> id_taken g i" and r: "map_of (requests g) rid = Some r" and nt: "\<not> terminal_request r"
    and a: "att_id a = i" and eff: "(rs, ats) = start_effect (requests g) (attempts g) rid r a"
    and g': "g' = g\<lparr>attempts := ats, requests := rs\<rparr>" by blast
  from eff have rs: "rs = setitem rid (r\<lparr>req_status := RequestStatus.RUNNING, req_current_attempt_id := Some i\<rparr>) (requests g)"
    by (simp add: start_effect_def a)
  have "dict_evolves attempt_step (attempts g) ats"
  proof (cases "req_current_attempt_id r")
    case None
    with eff new a show ?thesis by (simp add: start_effect_def)
  next
    case (Some cur)
    from request_current [OF at r Some] obtain y where y: "map_of (attempts g) cur = Some y"
      "att_authority_status y = AttemptAuthority.CURRENT" by blast
    have ats: "ats = setitem i a (setitem cur (y\<lparr>att_authority_status := AttemptAuthority.SUPERSEDED\<rparr>) (attempts g))"
      using eff Some y(1) a by (simp add: start_effect_def)
    have "cur \<noteq> i" using y(1) not_id_taken(5) [OF new] by auto
    then show ?thesis
      unfolding ats using y not_id_taken(5) [OF new]
      by (auto simp: dict_evolves_def attempt_step_def)
  qed
  moreover have "request_step r (r\<lparr>req_status := RequestStatus.RUNNING, req_current_attempt_id := Some i\<rparr>)"
    using nt by (simp add: request_step_def)
  ultimately show ?thesis by (simp add: core_evolves_def g' rs evolves_replace(3) [OF r])
qed

lemma execution_forward:
  "terminal_execution s \<longrightarrow> t = s \<Longrightarrow> \<not> moves_backward (execution_rank s) (execution_rank t) \<Longrightarrow>
     execution_progress s \<le> execution_progress t"
  by (cases s; cases t) (simp_all add: terminal_execution_def moves_backward_def)

lemma phase_forward:
  "s \<in> {PhaseStatus.COMPLETED, PhaseStatus.FAILED, PhaseStatus.CANCELLED} \<longrightarrow> t = s \<Longrightarrow>
     \<not> moves_backward (phase_rank s) (phase_rank t) \<Longrightarrow>
     phase_progress s \<le> phase_progress t \<and> (phase_progress s = 2 \<longrightarrow> t = s)"
  by (cases s; cases t) (simp_all add: moves_backward_def)

lemma set_attempt_execution_evolves:
  assumes run: "set_attempt_execution g aid s = (Inr a', g')"
  shows "core_evolves g g'"
proof -
  from set_attempt_execution_Inr [OF run] obtain a where a: "map_of (attempts g) aid = Some a"
    "terminal_execution (att_execution_status a) \<longrightarrow> s = att_execution_status a"
    "\<not> moves_backward (execution_rank (att_execution_status a)) (execution_rank s)"
    "a' = a\<lparr>att_execution_status := s\<rparr>" "g' = g\<lparr>attempts := setitem aid a' (attempts g)\<rparr>" by blast
  have "attempt_step a a'" using execution_forward [OF a(2,3)] a(2,4) by (auto simp: attempt_step_def)
  then show ?thesis by (simp add: core_evolves_def a(5) evolves_replace(4) [OF a(1)])
qed

lemma set_phase_status_evolves:
  assumes run: "set_phase_status g pid s = (Inr p', g')"
  shows "core_evolves g g'"
proof -
  from set_phase_status_Inr [OF run] obtain p where p: "map_of (phases g) pid = Some p"
    "ph_status p \<in> {PhaseStatus.COMPLETED, PhaseStatus.FAILED, PhaseStatus.CANCELLED} \<longrightarrow> s = ph_status p"
    "\<not> moves_backward (phase_rank (ph_status p)) (phase_rank s)"
    "p' = p\<lparr>ph_status := s\<rparr>" "g' = g\<lparr>phases := setitem pid p' (phases g)\<rparr>" by blast
  have "phase_step p p'" using phase_forward [OF p(2,3)] p(4) by (simp add: phase_step_def)
  then show ?thesis by (simp add: core_evolves_def p(5) evolves_replace(5) [OF p(1)])
qed

lemma finalize_request_evolves:
  assumes ids: "ids_ok g" and run: "finalize_request clk g rid oid nw = (Inr r', g')"
  shows "core_evolves g g'"
  using run
proof (cases rule: finalize_request_Inr)
  case (commit r out a)
  have "att_id a = out_attempt_id out" by (rule keyedD [OF ids_okD(17) [OF ids] commit(3)])
  with commit(3) have a: "map_of (attempts g) (att_id a) = Some a" by simp
  have "attempt_step a (a\<lparr>att_authority_status := AttemptAuthority.COMMITTED\<rparr>)"
    using commit(6) by (simp add: attempt_step_def)
  moreover have "request_step r r'" using commit(4,10) by (simp add: request_step_def)
  ultimately show ?thesis
    unfolding commit(11) by (simp add: core_evolves_def evolves_replace(3) [OF commit(1)] evolves_replace(4) [OF a])
qed simp

lemma set_state_validity_evolves:
  assumes run: "set_state_validity g k v = (Inr x', g')"
  shows "core_evolves g g'"
proof -
  from set_state_validity_Inr [OF run] obtain x where x: "map_of (states g) k = Some x"
    "st_validity x = StateValidity.INVALID \<longrightarrow> v = StateValidity.INVALID" "x' = x\<lparr>st_validity := v\<rparr>"
    "g' = g\<lparr>states := setitem k x' (states g)\<rparr>" by blast
  have "state_step x x'" using x(2,3) by (cases x) (auto simp: state_step_def)
  then show ?thesis by (simp add: core_evolves_def x(4) evolves_replace(6) [OF x(1)])
qed

lemma propose_binding_evolves:
  assumes ok: "bindings_ok (bindings g) (current_binding_by_subject g) (current_epoch_by_subject g)
      (last_allocated_epoch_by_subject g)" and run: "propose_binding g i s loc = (Inr b, g')"
  shows "core_evolves g g'"
proof -
  note p = propose_binding_Inr [OF run]
  have b: "bnd_epoch b = dict_get (last_allocated_epoch_by_subject g) s
      (dict_get (current_epoch_by_subject g) s 0) + 1" using p by simp
  have "dict_get (last_allocated_epoch_by_subject g) s 0 \<le> bnd_epoch b"
    using next_epoch(1,2,4) [OF ok b] by (cases "map_of (last_allocated_epoch_by_subject g) s")
      (fastforce simp: dict_get_def)+
  then have "epochs_grow (last_allocated_epoch_by_subject g)
      (setitem s (bnd_epoch b) (last_allocated_epoch_by_subject g))"
    by (auto simp: epochs_grow_def dict_get_def)
  with p show ?thesis by (simp add: core_evolves_def)
qed

lemma promote_evolves:
  assumes ok: "bindings_ok (bindings g) (current_binding_by_subject g) (current_epoch_by_subject g)
      (last_allocated_epoch_by_subject g)"
    and b: "map_of (bindings g) (bnd_id b) = Some b"
    and st: "bnd_status b \<in> {BindingStatus.PROPOSED, BindingStatus.MIGRATING}"
    and base: "bnd_base_epoch b = dict_get (current_epoch_by_subject g) (bnd_subject_id b) 0"
    and g': "g' = g\<lparr>bindings := promote (bindings g) (current_binding_by_subject g) b,
       current_binding_by_subject := setitem (bnd_subject_id b) (bnd_id b) (current_binding_by_subject g),
       current_epoch_by_subject := setitem (bnd_subject_id b) (bnd_epoch b) (current_epoch_by_subject g)\<rparr>"
  shows "core_evolves g g'"
proof -
  have "bnd_status b \<noteq> BindingStatus.ACTIVE" using st by auto
  note look = map_of_promote [OF ok b this]
  have "binding_step x (x\<lparr>bnd_status := BindingStatus.SUPERSEDED\<rparr>)"
    if "map_of (current_binding_by_subject g) (bnd_subject_id b) = Some k" "map_of (bindings g) k = Some x" for k x
    using that by (auto simp: binding_step_def elim: current_binding [OF ok])
  moreover have "binding_step b (b\<lparr>bnd_status := BindingStatus.ACTIVE\<rparr>)"
    using st by (auto simp: binding_step_def)
  ultimately have "dict_evolves binding_step (bindings g) (promote (bindings g) (current_binding_by_subject g) b)"
    using b by (auto simp: dict_evolves_def look)
  moreover have "epochs_grow (current_epoch_by_subject g)
      (setitem (bnd_subject_id b) (bnd_epoch b) (current_epoch_by_subject g))"
    using bindings_okD(1) [OF ok b] base by (auto simp: epochs_grow_def dict_get_def binding_ok_def)
  ultimately show ?thesis by (simp add: core_evolves_def g')
qed

lemma activate_initial_binding_evolves:
  assumes inv: "inv g" and run: "activate_initial_binding g i s loc = (Inr b, g')" and ne: "i \<noteq> ''''"
  shows "core_evolves g g'"
proof -
  from activate_initial_binding_Inr [OF run] obtain b0 g1 where
    none: "map_of (current_binding_by_subject g) s = None"
    and pro: "propose_binding g i s loc = (Inr b0, g1)" and b: "b = b0\<lparr>bnd_status := BindingStatus.ACTIVE\<rparr>"
    and g': "g' = g1\<lparr>bindings := setitem i b (bindings g1),
               current_binding_by_subject := setitem s i (current_binding_by_subject g1),
               current_epoch_by_subject := setitem s (bnd_epoch b) (current_epoch_by_subject g1)\<rparr>" by blast
  note p = propose_binding_Inr [OF pro]
  have "core_evolves g1 g'"
    by (rule promote_evolves [OF invD(6) [OF inv_propose_binding [OF inv pro ne]], of b0])
       (use p none in \<open>auto simp: g' b promote_None\<close>)
  with propose_binding_evolves [OF invD(6) [OF inv] pro] show ?thesis by (rule core_evolves_trans)
qed

lemma begin_migration_evolves:
  assumes ids: "ids_ok g" and run: "begin_migration g i = (Inr b', g')"
  shows "core_evolves g g'"
proof -
  from begin_migration_Inr [OF run] obtain b where b: "map_of (bindings g) i = Some b"
    "bnd_status b = BindingStatus.PROPOSED" "b' = b\<lparr>bnd_status := BindingStatus.MIGRATING\<rparr>"
    "g' = g\<lparr>bindings := setitem (bnd_id b) b' (bindings g)\<rparr>" by blast
  have "bnd_id b = i" by (rule keyedD [OF ids_okD(21) [OF ids] b(1)])
  moreover have "binding_step b b'" using b(2,3) by (auto simp: binding_step_def)
  ultimately show ?thesis by (simp add: core_evolves_def b(4) evolves_replace(8) [OF b(1)])
qed

lemma commit_migration_evolves:
  assumes inv: "inv g" and run: "commit_migration clk g i ids nw = (Inr b', g')"
  shows "core_evolves g g'"
  using commit_migration_Inr [OF run ids_okD(21) [OF inv_ids(1) [OF inv]] invD(6) [OF inv]
      not_id_taken(9) [OF inv_ids(2) [OF inv]]]
proof cases
  case (1 b)
  show ?thesis
    by (rule promote_evolves [OF invD(6) [OF inv], of b]) (use 1 in \<open>simp_all add: promote_def\<close>)
qed

lemma record_evidence_evolves: "record_evidence g e = (Inr r, g') \<Longrightarrow> core_evolves g g'"
  using record_evidence_Inr [of g e r g'] by (auto simp: core_evolves_def)

lemma record_event_evolves: "record_event g e = (Inr r, g') \<Longrightarrow> core_evolves g g'"
  using record_event_Inr [of g e r g'] by (auto simp: core_evolves_def)

lemma set_program_status_evolves:
  "set_program_status g i s = (Inr p', g') \<Longrightarrow> core_evolves g g'"
  using set_program_status_Inr [of g i s p' g']
  by (auto simp: core_evolves_def program_step_def dict_evolves_def)

lemma replica_step_status: "replica_step r (r\<lparr>rep_status := s\<rparr>)"
  unfolding replica_step_def by (intro exI) (rule refl)

lemma set_replica_status_evolves:
  "set_replica_status g i s = (Inr r', g') \<Longrightarrow> core_evolves g g'"
  using set_replica_status_Inr [of g i s r' g']
  by (auto simp: core_evolves_def dict_evolves_def replica_step_status)

subsection \<open>The machine\<close>

text \<open>An operation together with the reading of the wall clock at the time of the call.\<close>

definition core_step :: "core \<Rightarrow> rat \<times> operation \<Rightarrow> (core, unit) outcome" where
  "core_step g c = exec (fst c) g (snd c)"

lemmas inv_operations = inv_create_program inv_set_program_status inv_create_session
  inv_create_continuation inv_set_continuation_lifecycle inv_resume_after_wait inv_create_request
  inv_start_attempt inv_set_attempt_execution inv_create_phase inv_set_phase_status inv_create_output
  inv_finalize_request inv_create_state inv_set_state_validity inv_add_replica inv_set_replica_status
  inv_propose_binding inv_activate_initial_binding inv_begin_migration inv_commit_migration
  inv_record_evidence inv_record_event

lemma exec_keeps:
  assumes "inv g" and "names_ok op" and "exec clk g op = (Inr (), g')"
  shows "inv g'"
  using assms(2,3)
  by (cases op) (auto simp: names_ok_def complete_attempt_def complete_phase_def
      intro: inv_operations [OF assms(1)])

lemmas Inl_operations = create_program_Inl set_program_status_Inl create_session_Inl
  create_request_Inl start_attempt_Inl set_attempt_execution_Inl create_phase_Inl
  set_phase_status_Inl create_output_Inl finalize_request_Inl set_state_validity_Inl add_replica_Inl
  set_replica_status_Inl propose_binding_Inl activate_initial_binding_Inl begin_migration_Inl
  commit_migration_Inl record_evidence_Inl record_event_Inl

lemma exec_atomic:
  assumes inv: "inv g" and "exec clk g op = (Inl e, g')"
  shows "g' = g"
proof -
  have "reuse_inv g" "graph_inv g" using inv by (simp_all add: inv_def reuse_inv_def)
  note graph = create_continuation_Inl [OF this(2)] set_continuation_lifecycle_Inl [OF this(2)]
    resume_after_wait_Inl [OF this(2)] create_state_Inl [OF this(1)]
  from assms(2) show ?thesis
    by (cases op) (auto simp: complete_attempt_def complete_phase_def dest: graph Inl_operations)
qed

lemma exec_evolves:
  assumes inv: "inv g" and names: "names_ok op" and run: "exec clk g op = (Inr (), g')"
  shows "core_evolves g g'"
proof -
  have ri: "reuse_inv g" "graph_inv g" "ids_ok g" using inv by (simp_all add: inv_def reuse_inv_def graph_inv_def)
  note ok = invD(6) [OF inv]
  have adds: "core_evolves g g'" if "create_program g i = (Inr p, g')" for i p
    using create_program_Inr [OF that] by (auto simp: core_evolves_def)
  have adds2: "core_evolves g g'" if "create_session g i k = (Inr s, g')" for i k s
    using create_session_Inr [OF that] by (auto simp: core_evolves_def)
  have adds3: "core_evolves g g'" if "create_request g i k = (Inr r, g')" for i k r
    using create_request_Inr [OF that] by (auto simp: core_evolves_def)
  have adds4: "core_evolves g g'" if "create_phase g i k ty ord = (Inr p, g')" for i k ty ord p
    using create_phase_Inr [OF that] by (auto simp: core_evolves_def)
  have adds5: "core_evolves g g'" if "create_output g i k t es = (Inr out, g')" for i k t es out
    using create_output_Inr [OF that] by (auto simp: core_evolves_def)
  have adds6: "core_evolves g g'" if "create_state g i ty oid sem repr ds = (Inr x, g')" for i ty oid sem repr ds x
    using create_state_Inr [OF ri(1) that] by cases (simp add: core_evolves_def)
  have adds7: "core_evolves g g'" if "add_replica g i k l s = (Inr r, g')" for i k l s r
    using add_replica_Inr [OF that] by (auto simp: core_evolves_def)
  note all = adds adds2 adds3 adds4 adds5 adds6 adds7 set_program_status_evolves
    create_continuation_evolves [OF ri(2)] resume_after_wait_evolves [OF ri(2)] start_attempt_evolves [OF ri(1)]
    set_attempt_execution_evolves set_phase_status_evolves finalize_request_evolves [OF ri(3)]
    set_state_validity_evolves set_replica_status_evolves propose_binding_evolves [OF ok]
    activate_initial_binding_evolves [OF inv] begin_migration_evolves [OF ri(3)]
    commit_migration_evolves [OF inv] record_evidence_evolves record_event_evolves
  have life: "core_evolves g g'" if "set_continuation_lifecycle g k l = (Inr c', g')" for k l c'
    using set_continuation_lifecycle_Inr [OF ri(2) that] change_lifecycle_evolves by blast
  from names run show ?thesis
    by (cases op) (auto simp: names_ok_def complete_attempt_def complete_phase_def intro: all life)
qed

lemma exec_any:
  assumes "inv g" and "names_ok op" and "exec clk g op = (r, g')"
  shows "inv g' \<and> core_evolves g g'"
proof (cases r)
  case (Inl e)
  with assms exec_atomic [of g clk op e g'] show ?thesis by simp
next
  case (Inr u)
  with assms exec_keeps [of g op clk g'] exec_evolves [of g op clk g'] show ?thesis by simp
qed

interpretation core: atomic_machine core_step "\<lambda>c. names_ok (snd c)" inv core_evolves
proof
  show "inv s \<Longrightarrow> names_ok (snd op) \<Longrightarrow> core_step s op = (r, s') \<Longrightarrow> inv s'" for s op r s'
    by (auto simp: core_step_def dest: exec_any)
  show "inv s \<Longrightarrow> names_ok (snd op) \<Longrightarrow> core_step s op = (r, s') \<Longrightarrow> core_evolves s s'" for s op r s'
    by (auto simp: core_step_def dest: exec_any)
  show "inv s \<Longrightarrow> core_step s op = (Inl e, s') \<Longrightarrow> s' = s" for s op e s'
    by (auto simp: core_step_def dest: exec_atomic)
  show "core_evolves s t \<Longrightarrow> core_evolves t u \<Longrightarrow> core_evolves s u" for s t u
    by (rule core_evolves_trans)
qed simp

text \<open>The cores that a program can reach from the empty one.\<close>

inductive reachable :: "core \<Rightarrow> bool" where
  reachable_start: "reachable empty_core"
| reachable_step: "reachable g \<Longrightarrow> names_ok op \<Longrightarrow> exec clk g op = (r, g') \<Longrightarrow> reachable g'"

lemma reachable_inv: "reachable g \<Longrightarrow> inv g"
proof (induction rule: reachable.induct)
  case (reachable_step g op clk r g')
  then show ?case using core.step_keeps [of g "(clk, op)"] by (simp add: core_step_def)
qed (rule inv_empty)

lemma reachable_run: "list_all (\<lambda>c. names_ok (snd c)) cs \<Longrightarrow> reachable (run_ops core_step empty_core cs)"
proof (induction cs rule: rev_induct)
  case (snoc c cs)
  then show ?case
    by (auto simp: run_ops_append core_step_def intro: reachable_step [of _ "snd c" "fst c"] prod.collapse [symmetric])
qed (simp add: reachable_start)

subsection \<open>The order of numbering\<close>

text \<open>
  The invariant leaves open in which order a dictionary holds its entries. As long as a program only
  performs operations, entities are held in the order of their creation, so their numbers ascend.
\<close>

definition in_order :: "core \<Rightarrow> bool" where
  "in_order g \<longleftrightarrow>
     (\<forall>rid. sorted (map att_generation (attempts_of (attempts g) rid))) \<and>
     (\<forall>aid. sorted (map ph_ordinal (phases_of (phases g) aid)))"

lemma in_order_frame [simp]:
  "in_order (g\<lparr>programs := x0\<rparr>) = in_order g"
  "in_order (g\<lparr>sessions := x1\<rparr>) = in_order g"
  "in_order (g\<lparr>continuations := x2\<rparr>) = in_order g"
  "in_order (g\<lparr>requests := x3\<rparr>) = in_order g"
  "in_order (g\<lparr>states := x4\<rparr>) = in_order g"
  "in_order (g\<lparr>replicas := x5\<rparr>) = in_order g"
  "in_order (g\<lparr>bindings := x6\<rparr>) = in_order g"
  "in_order (g\<lparr>evidence := x7\<rparr>) = in_order g"
  "in_order (g\<lparr>outputs := x8\<rparr>) = in_order g"
  "in_order (g\<lparr>events := x9\<rparr>) = in_order g"
  "in_order (g\<lparr>event_order := x10\<rparr>) = in_order g"
  "in_order (g\<lparr>current_binding_by_subject := x11\<rparr>) = in_order g"
  "in_order (g\<lparr>current_epoch_by_subject := x12\<rparr>) = in_order g"
  "in_order (g\<lparr>last_allocated_epoch_by_subject := x13\<rparr>) = in_order g"
  by (simp_all add: in_order_def)

lemma sorted_next: "sorted xs \<Longrightarrow> sorted (xs @ [py_max 0 xs + 1])" for xs :: "int list"
  using fold_max_le [of "hd xs" "tl xs"]
  by (cases xs) (auto simp: py_max_def sorted_append intro: order_trans)

lemma in_order_new_attempt:
  assumes "in_order g" and "map_of (attempts g) i = None"
    and "att_generation a = py_max 0 (map att_generation (attempts_of (attempts g) (att_request_id a))) + 1"
    and "attempts g' = setitem i a (attempts g)" and "phases g' = phases g"
  shows "in_order g'"
  using assms sorted_next by (auto simp: in_order_def attempts_of_new)

lemma in_order_attempt:
  assumes "in_order g" and "map_of (attempts g) k = Some a" and "att_request_id a' = att_request_id a"
    and "att_generation a' = att_generation a"
    and "attempts g' = setitem k a' (attempts g)" and "phases g' = phases g"
  shows "in_order g'"
  using assms by (auto simp: in_order_def attempts_of_replace [OF assms(2-4)])

lemma start_attempt_order:
  assumes inv: "inv g" and ord: "in_order g" and run: "start_attempt g i rid = (Inr a, g')"
  shows "in_order g'"
proof -
  from start_attempt_Inr [OF run] obtain r g1 where new: "\<not> id_taken g i"
    and sup: "supersede_current g r = (Inr (), g1)"
    and a: "att_request_id a = rid"
      "att_generation a = py_max 0 (map att_generation (attempts_of (attempts g) rid)) + 1"
    and g': "attempts g' = setitem i a (attempts g1)" "phases g' = phases g1" by auto
  have old: "att_id x = k" if "map_of (attempts g) k = Some x" for k x
    by (rule keyedD [OF ids_okD(17) [OF inv_ids(1) [OF inv]] that])
  have g1: "in_order g1 \<and> map_of (attempts g1) i = None \<and>
      map att_generation (attempts_of (attempts g1) rid) = map att_generation (attempts_of (attempts g) rid)"
  proof (cases "truthy (req_current_attempt_id r)")
    case True
    then obtain cur x where x: "map_of (attempts g) cur = Some x" and g1: "g1 = g\<lparr>attempts :=
        setitem (att_id x) (x\<lparr>att_authority_status := AttemptAuthority.SUPERSEDED\<rparr>) (attempts g)\<rparr>"
      using supersede_current_Inr [OF sup] by blast
    note x' = x [folded old [OF x]]
    have "in_order g1" by (rule in_order_attempt [OF ord x']) (simp_all add: g1)
    moreover have "att_id x \<noteq> i" using not_id_taken(5) [OF new] x' by auto
    ultimately show ?thesis
      using not_id_taken(5) [OF new] by (simp add: g1 attempts_of_replace [OF x'])
  next
    case False
    then show ?thesis using supersede_current_Inr [OF sup] ord not_id_taken(5) [OF new] by simp
  qed
  show ?thesis by (rule in_order_new_attempt [of g1 i a]) (use g1 in \<open>simp_all add: a g'\<close>)
qed

lemma exec_in_order:
  assumes inv: "inv g" and ord: "in_order g" and run: "exec clk g op = (Inr (), g')"
  shows "in_order g'"
proof -
  have ri: "reuse_inv g" "graph_inv g" "ids_ok g" using inv by (simp_all add: inv_def reuse_inv_def graph_inv_def)
  have a: "in_order g'" if "set_attempt_execution g k s = (Inr a, g')" for k s a
  proof -
    from set_attempt_execution_Inr [OF that] obtain x where "map_of (attempts g) k = Some x"
      "a = x\<lparr>att_execution_status := s\<rparr>" "g' = g\<lparr>attempts := setitem k a (attempts g)\<rparr>" by blast
    then show ?thesis by (intro in_order_attempt [OF ord, of k x a]) simp_all
  qed
  have b: "in_order g'" if "create_phase g i k ty n = (Inr p, g')" for i k ty n p
  proof -
    from create_phase_Inr [OF that] have "\<not> id_taken g i" and g': "g' = g\<lparr>phases := setitem i p (phases g)\<rparr>"
      and p: "ph_ordinal p = py_max 0 (map ph_ordinal (phases_of (phases g) k)) + 1" "ph_attempt_id p = k" by auto
    from not_id_taken(6) [OF this(1)] ord sorted_next p show ?thesis
      by (auto simp: g' in_order_def phases_of_new)
  qed
  have c: "in_order g'" if "set_phase_status g k s = (Inr p, g')" for k s p
    using set_phase_status_Inr [OF that] ord by (auto simp: in_order_def phases_of_replace)
  have d: "in_order g'" if run: "finalize_request clk g rid oid nw = (Inr r, g')" for rid oid nw r
    using run
  proof (cases rule: finalize_request_Inr)
    case (commit r out x)
    have "att_id x = out_attempt_id out" by (rule keyedD [OF ids_okD(17) [OF ri(3)] commit(3)])
    with commit show ?thesis by (intro in_order_attempt [OF ord commit(3)]) simp_all
  qed (use ord in simp)
  have e: "in_order g'" if "create_state g i ty oid sem repr ds = (Inr x, g')" for i ty oid sem repr ds x
    using create_state_Inr [OF ri(1) that] by cases (simp add: ord)
  have f: "in_order g'" if "commit_migration clk g i ids nw = (Inr b, g')" for i ids nw b
    using commit_migration_Inr [OF that ids_okD(21) [OF ri(3)] invD(6) [OF inv]
        not_id_taken(9) [OF inv_ids(2) [OF inv]]] by cases (simp add: ord)
  note graph = create_continuation_Inr(5) [OF ri(2)] set_continuation_lifecycle_Inr [OF ri(2)]
    resume_after_wait_Inr [OF ri(2)]
  from run show ?thesis
  proof (cases op)
    case (create_continuation_op i s ps l)
    then show ?thesis using run by (auto dest!: graph(1) simp: ord add_continuation_def Let_def)
  next
    case (set_continuation_lifecycle_op i l)
    then show ?thesis using run by (auto dest!: graph(2) simp: ord change_lifecycle_def Let_def)
  next
    case (resume_after_wait_op w i)
    then show ?thesis using run
      by (auto dest!: graph(3) graph(1) simp: ord add_continuation_def change_lifecycle_def Let_def)
  qed (auto simp: ord complete_attempt_def complete_phase_def
        dest!: create_program_Inr set_program_status_Inr create_session_Inr create_request_Inr
          create_output_Inr set_state_validity_Inr add_replica_Inr set_replica_status_Inr propose_binding_Inr
          activate_initial_binding_Inr begin_migration_Inr record_evidence_Inr record_event_Inr
        dest: start_attempt_order [OF inv ord] a b c d e f)
qed

lemma reachable_in_order: "reachable g \<Longrightarrow> in_order g"
proof (induction rule: reachable.induct)
  case reachable_start
  show ?case by (simp add: in_order_def empty_core_def attempts_of_def phases_of_def values_of_def)
next
  case (reachable_step g op clk r g')
  then show ?case using exec_in_order [OF reachable_inv, of g clk op g'] exec_atomic [OF reachable_inv, of g clk op]
    by (cases r) auto
qed

lemma numbering_sorted:
  assumes "mset xs = mset [1..int n]" and "sorted xs"
  shows "xs = [1..int (length xs)]"
proof -
  have "length xs = n" using arg_cong [OF assms(1), of size] by simp
  then show ?thesis using assms by (metis properties_for_sort sorted_sort_id sorted_upto)
qed

end
