(* ===== verification/Oracle.thy ===== *)
theory Oracle
  imports Core_History
begin

section \<open>The invariant oracle\<close>

text \<open>
  \<open>InvariantOracle\<close> of \<open>continuity/invariants.py\<close>: fifteen structural checks over the state of a
  core, each a sequence of \<open>_require\<close> calls that raise \<open>AssertionError\<close>, and lookups that may
  raise \<open>KeyError\<close>. \<open>restore_core\<close> and the experiments run it to decide whether a core is sound.
  The theory proves that the oracle accepts every core that satisfies the development's invariant,
  hence every core a program can reach, and what a core it accepts satisfies.
\<close>

definition require :: "bool \<Rightarrow> unit res" where
  "require c = raise_if (\<not> c) AssertionError"

lemma require_iff [simp]: "require c = Inr u \<longleftrightarrow> c" "require c = Inl e \<longleftrightarrow> \<not> c \<and> e = AssertionError"
  by (auto simp: require_def)

lemma require_True [simp]: "require True = Inr ()"
  by simp

text \<open>Statements one after the other: the first exception is the result.\<close>

definition checks :: "unit res list \<Rightarrow> unit res" where
  "checks ms = for_each ms (\<lambda>m. m)"

lemma checks_Inr [simp]: "checks ms = Inr () \<longleftrightarrow> (\<forall>m\<in>set ms. m = Inr ())"
  by (simp add: checks_def for_each_Inr)

subsection \<open>Identity, parents, authority\<close>

fun identity_loop :: "string list \<Rightarrow> (string \<times> string) list \<Rightarrow> unit res" where
  "identity_loop seen [] = Inr ()"
| "identity_loop seen ((key, entity_id) # rest) =
     bind_res (require (entity_id = key)) (\<lambda>_.
     bind_res (require (key \<notin> set seen)) (\<lambda>_. identity_loop (key # seen) rest))"

definition named :: "('v \<Rightarrow> string) \<Rightarrow> 'v dict \<Rightarrow> (string \<times> string) list" where
  "named f d = map (\<lambda>(k, v). (k, f v)) d"

definition entity_names :: "core \<Rightarrow> (string \<times> string) list" where
  "entity_names g =
     (named prog_id (programs g) @ named sess_id (sessions g) @ named cont_id (continuations g) @
      named req_id (requests g) @ named att_id (attempts g) @ named ph_id (phases g) @
      named st_id (states g) @ named rep_id (replicas g) @ named bnd_id (bindings g) @
      named ev_id (evidence g) @ named out_id (outputs g) @ named sev_id (events g))"

definition global_identity_uniqueness :: "core \<Rightarrow> unit res" where
  "global_identity_uniqueness g = identity_loop [] (entity_names g)"

definition parent_scopes :: "core \<Rightarrow> unit res" where
  "parent_scopes g = checks
     [for_each (values_of (sessions g)) (\<lambda>s. require (has_key (programs g) (sess_program_id s))),
      for_each (values_of (continuations g)) (\<lambda>c.
        bind_res (require (has_key (sessions g) (cont_session_id c))) (\<lambda>_.
        for_each (cont_parent_ids c) (\<lambda>pid.
          bind_res (getitem (continuations g) pid) (\<lambda>p.
          require (cont_session_id p = cont_session_id c))))),
      for_each (values_of (requests g)) (\<lambda>r. require (has_key (continuations g) (req_continuation_id r))),
      for_each (values_of (attempts g)) (\<lambda>a. require (has_key (requests g) (att_request_id a))),
      for_each (values_of (phases g)) (\<lambda>p. require (has_key (attempts g) (ph_attempt_id p)))]"

definition attempts_with :: "core \<Rightarrow> string \<Rightarrow> AttemptAuthority \<Rightarrow> Attempt list" where
  "attempts_with g rid s =
     filter (\<lambda>a. att_request_id a = rid \<and> att_authority_status a = s) (values_of (attempts g))"

definition pointer_ok :: "string option \<Rightarrow> Attempt list \<Rightarrow> unit res" where
  "pointer_ok p found =
     (case p of None \<Rightarrow> require (found = [])
      | Some i \<Rightarrow> require (length found = 1 \<and> att_id (hd found) = i))"

definition attempt_authority :: "core \<Rightarrow> unit res" where
  "attempt_authority g = for_each (requests g) (\<lambda>(rid, r).
     let current = attempts_with g rid AttemptAuthority.CURRENT;
         committed = attempts_with g rid AttemptAuthority.COMMITTED
     in checks
       [require (length current \<le> 1), require (length committed \<le> 1),
        pointer_ok (req_current_attempt_id r) current,
        pointer_ok (req_committed_attempt_id r) committed,
        for_each (values_of (attempts g)) (\<lambda>a.
          if att_request_id a = rid \<and> att_authority_status a = AttemptAuthority.SUPERSEDED
          then checks [require (Some (att_id a) \<noteq> req_current_attempt_id r),
                       require (Some (att_id a) \<noteq> req_committed_attempt_id r)]
          else Inr ())])"

definition attempt_generations :: "core \<Rightarrow> unit res" where
  "attempt_generations g = for_each (keys_of (requests g)) (\<lambda>rid.
     let ats = attempts_of (attempts g) rid
     in require (sort (map att_generation ats) = [1..int (length ats)]))"

definition request_commit_consistency :: "core \<Rightarrow> unit res" where
  "request_commit_consistency g = for_each (values_of (requests g)) (\<lambda>r.
     if req_status r = RequestStatus.COMPLETED then
       checks [require (req_current_attempt_id r = None), require (req_committed_attempt_id r \<noteq> None),
               require (req_authoritative_output_id r \<noteq> None),
               bind_res (getitem (attempts g) (the (req_committed_attempt_id r))) (\<lambda>a.
               bind_res (getitem (outputs g) (the (req_authoritative_output_id r))) (\<lambda>out.
               checks [require (att_request_id a = req_id r),
                       require (att_authority_status a = AttemptAuthority.COMMITTED),
                       require (att_execution_status a = ExecutionStatus.SUCCEEDED),
                       require (Some (out_attempt_id out) = req_committed_attempt_id r),
                       require (out_terminal out)]))]
     else if req_status r \<in> {RequestStatus.FAILED, RequestStatus.CANCELLED} then
       checks [require (req_current_attempt_id r = None), require (req_committed_attempt_id r = None),
               require (req_authoritative_output_id r = None)]
     else Inr ())"

definition continuation_dags :: "core \<Rightarrow> unit res" where
  "continuation_dags g = for_each (keys_of (sessions g)) (\<lambda>sid.
     bind_res (has_cycle g sid) (\<lambda>c. require (\<not> c)))"

definition phase_ordering :: "core \<Rightarrow> unit res" where
  "phase_ordering g = for_each (keys_of (attempts g)) (\<lambda>aid.
     let ps = sort_key ph_ordinal (phases_of (phases g) aid)
     in checks [require (map ph_ordinal ps = [1..int (length ps)]),
                require (list_all (\<lambda>p. ph_attempt_id p = aid) ps)])"

subsection \<open>States, replicas, bindings\<close>

definition declared_state_origin :: "core \<Rightarrow> ReusableState \<Rightarrow> unit res" where
  "declared_state_origin g x =
     (if st_origin_type x = ''continuation'' then
        bind_res (getitem (continuations g) (st_origin_id x)) (\<lambda>c.
        checks [require (st_origin_continuation_id x = cont_id c), require (st_origin_request_id x = None),
                require (st_producer_attempt_id x = None), require (st_producer_phase_id x = None)])
      else if st_origin_type x = ''request'' then
        bind_res (getitem (requests g) (st_origin_id x)) (\<lambda>r.
        checks [require (req_status r = RequestStatus.COMPLETED),
                require (req_committed_attempt_id r \<noteq> None),
                require (st_origin_request_id x = Some (req_id r)),
                require (st_origin_continuation_id x = req_continuation_id r),
                require (st_producer_attempt_id x = req_committed_attempt_id r),
                require (st_producer_phase_id x = None)])
      else if st_origin_type x = ''attempt'' then
        bind_res (getitem (attempts g) (st_origin_id x)) (\<lambda>a.
        bind_res (getitem (requests g) (att_request_id a)) (\<lambda>r.
        checks [require (st_producer_attempt_id x = Some (att_id a)),
                require (st_origin_request_id x = Some (req_id r)),
                require (st_origin_continuation_id x = req_continuation_id r),
                require (st_producer_phase_id x = None)]))
      else if st_origin_type x = ''phase'' then
        bind_res (getitem (phases g) (st_origin_id x)) (\<lambda>p.
        bind_res (getitem (attempts g) (ph_attempt_id p)) (\<lambda>a.
        bind_res (getitem (requests g) (att_request_id a)) (\<lambda>r.
        checks [require (st_producer_phase_id x = Some (ph_id p)),
                require (st_producer_attempt_id x = Some (att_id a)),
                require (st_origin_request_id x = Some (req_id r)),
                require (st_origin_continuation_id x = req_continuation_id r)])))
      else Inl AssertionError)"

definition dependency_provenance :: "core \<Rightarrow> ReusableState \<Rightarrow> string \<Rightarrow> unit res" where
  "dependency_provenance g x dependency_id =
     bind_res (getitem (states g) dependency_id) (\<lambda>d.
     bind_res (is_ancestor g (st_origin_continuation_id d) (st_origin_continuation_id x)) (\<lambda>anc.
     bind_res (require anc) (\<lambda>_.
     if truthy (st_producer_phase_id x) \<and> truthy (st_producer_phase_id d) \<and>
        st_producer_attempt_id d = st_producer_attempt_id x
     then bind_res (getitem (phases g) (the (st_producer_phase_id x))) (\<lambda>producer_phase.
          bind_res (getitem (phases g) (the (st_producer_phase_id d))) (\<lambda>dependency_phase.
          require (ph_ordinal dependency_phase < ph_ordinal producer_phase)))
     else Inr ())))"

definition producer_provenance :: "core \<Rightarrow> ReusableState \<Rightarrow> unit res" where
  "producer_provenance g x = checks
     [if truthy (st_producer_attempt_id x)
      then bind_res (getitem (attempts g) (the (st_producer_attempt_id x))) (\<lambda>a.
           if truthy (st_origin_request_id x) then require (Some (att_request_id a) = st_origin_request_id x)
           else Inr ())
      else Inr (),
      if truthy (st_producer_phase_id x)
      then bind_res (getitem (phases g) (the (st_producer_phase_id x))) (\<lambda>p.
           checks [require (Some (ph_attempt_id p) = st_producer_attempt_id x),
                   require (ph_status p = PhaseStatus.COMPLETED)])
      else Inr ()]"

definition state_provenance :: "core \<Rightarrow> unit res" where
  "state_provenance g =
     bind_res (state_cycle g) (\<lambda>cyc. bind_res (require (\<not> cyc)) (\<lambda>_.
     for_each (values_of (states g)) (\<lambda>x. checks
       [require (has_key (continuations g) (st_origin_continuation_id x)),
        declared_state_origin g x,
        for_each (st_derived_from x) (dependency_provenance g x),
        producer_provenance g x])))"

definition replica_integrity :: "core \<Rightarrow> unit res" where
  "replica_integrity g = for_each (values_of (replicas g)) (\<lambda>r.
     bind_res (require (has_key (states g) (rep_state_id r))) (\<lambda>_.
     case rep_binding_id r of
       None \<Rightarrow> Inr ()
     | Some bid \<Rightarrow> bind_res (getitem (bindings g) bid) (\<lambda>b.
         require (rep_binding_epoch r = Some (bnd_epoch b)))))"

definition binding_authority :: "core \<Rightarrow> unit res" where
  "binding_authority g = checks
     [for_each (current_binding_by_subject g) (\<lambda>(subject, binding_id).
        bind_res (getitem (bindings g) binding_id) (\<lambda>b.
        checks [require (bnd_subject_id b = subject), require (bnd_status b = BindingStatus.ACTIVE),
                bind_res (getitem (current_epoch_by_subject g) subject) (\<lambda>e.
                require (e = bnd_epoch b))])),
      for_each (values_of (bindings g)) (\<lambda>b.
        if bnd_status b = BindingStatus.ACTIVE
        then require (map_of (current_binding_by_subject g) (bnd_subject_id b) = Some (bnd_id b))
        else Inr ())]"

fun group_bindings :: "Binding list dict \<Rightarrow> Binding list \<Rightarrow> Binding list dict res" where
  "group_bindings by_subject [] = Inr by_subject"
| "group_bindings by_subject (b # bs) =
     (let by' = setitem (bnd_subject_id b) (dict_get by_subject (bnd_subject_id b) [] @ [b]) by_subject
      in bind_res (require (bnd_base_epoch b < bnd_epoch b)) (\<lambda>_. group_bindings by' bs))"

definition binding_generations :: "core \<Rightarrow> unit res" where
  "binding_generations g =
     bind_res (group_bindings [] (values_of (bindings g))) (\<lambda>by_subject.
     for_each by_subject (\<lambda>(subject, bs).
       let epochs = map bnd_epoch bs
       in checks
         [require (length epochs = length (remdups epochs)),
          bind_res (getitem (last_allocated_epoch_by_subject g) subject) (\<lambda>last.
          require (last = py_max 0 epochs)),
          case map_of (current_epoch_by_subject g) subject of
            None \<Rightarrow> Inr ()
          | Some e \<Rightarrow> require (List.member epochs e)]))"

subsection \<open>Evidence, events, outputs, validity\<close>

definition evidence_derivation :: "core \<Rightarrow> unit res" where
  "evidence_derivation g = for_each (values_of (evidence g)) (\<lambda>e. checks
     [if ev_authority e = DERIVED
      then checks [require (ev_derived_from e \<noteq> []), require (truthy (ev_derivation_rule e))]
      else require (\<not> has_derivation e),
      if ev_derived_from e \<noteq> [] then
        bind_res (map_res (getitem (evidence g)) (ev_derived_from e)) (\<lambda>supports.
        checks [require (subset_list (ev_scope e) (concat (map ev_scope supports))),
                if ev_status e = EvidenceStatus.VALID
                then require (list_all (\<lambda>s. ev_status s = EvidenceStatus.VALID) supports)
                else Inr ()])
      else Inr ()])"

definition event_identity :: "core \<Rightarrow> unit res" where
  "event_identity g = checks
     [require (length (event_order g) = length (remdups (event_order g))),
      require (same_set (event_order g) (keys_of (events g))),
      for_each (event_order g) (\<lambda>eid. bind_res (getitem (events g) eid) (\<lambda>e. require (sev_id e = eid)))]"

definition output_integrity :: "core \<Rightarrow> unit res" where
  "output_integrity g = for_each (values_of (outputs g)) (\<lambda>out. checks
     [require (has_key (attempts g) (out_attempt_id out)),
      for_each (out_evidence_ids out) (\<lambda>eid. require (has_key (evidence g) eid))])"

definition state_validity :: "semantic_validity \<Rightarrow> core \<Rightarrow> unit res" where
  "state_validity sv g = for_each (values_of (states g)) (\<lambda>x.
     if st_validity x = StateValidity.INVALID then
       for_each (values_of (requests g)) (\<lambda>r.
         if truthy (req_current_attempt_id r) then
           bind_res (getitem (continuations g) (req_continuation_id r)) (\<lambda>c.
           bind_res (getitem (sessions g) (cont_session_id c)) (\<lambda>s.
           let context = \<lparr>ctx_program_id = sess_program_id s, ctx_session_id = sess_id s,
                 ctx_continuation_id = cont_id c, ctx_request_id = req_id r,
                 ctx_attempt_id = the (req_current_attempt_id r), ctx_phase_id = None\<rparr>
           in bind_res (state_compatible sv g (st_id x) context) (\<lambda>ok. require (\<not> ok))))
         else Inr ())
     else Inr ())"

definition assert_all :: "semantic_validity \<Rightarrow> core \<Rightarrow> unit res" where
  "assert_all sv g = checks
     [global_identity_uniqueness g, parent_scopes g, attempt_authority g, attempt_generations g,
      request_commit_consistency g, continuation_dags g, phase_ordering g, state_provenance g,
      replica_integrity g, binding_authority g, binding_generations g, evidence_derivation g,
      event_identity g, output_integrity g, state_validity sv g]"

subsection \<open>The oracle accepts every core that satisfies the invariant\<close>

lemma for_each_values:
  "distinct (keys_of d) \<Longrightarrow>
     for_each (values_of d) f = Inr () \<longleftrightarrow> (\<forall>k v. map_of d k = Some v \<longrightarrow> f v = Inr ())"
  by (auto simp: for_each_Inr values_of_iff)

lemma for_each_items:
  "distinct (keys_of d) \<Longrightarrow>
     for_each d (\<lambda>(k, v). f k v) = Inr () \<longleftrightarrow> (\<forall>k v. map_of d k = Some v \<longrightarrow> f k v = Inr ())"
  by (auto simp: for_each_Inr items_iff [symmetric])

lemma for_each_keys:
  "for_each (keys_of d) f = Inr () \<longleftrightarrow> (\<forall>k v. map_of d k = Some v \<longrightarrow> f k = Inr ())"
  by (auto simp: for_each_Inr dest: map_of_in_keys map_of_keys_of)

lemma identity_loop_Inr:
  "identity_loop seen xs = Inr () \<longleftrightarrow>
     (\<forall>(k, i)\<in>set xs. i = k) \<and> distinct (map fst xs) \<and> set (map fst xs) \<inter> set seen = {}"
  by (induction seen xs rule: identity_loop.induct) (auto simp: bind_res_Inr)

lemma named_iff: "distinct (keys_of d) \<Longrightarrow> (\<forall>(k, i)\<in>set (named f d). i = k) \<longleftrightarrow> keyed f d"
  by (force simp: named_def keyed_def items_iff [symmetric])

lemma map_fst_named: "map fst (named f d) = keys_of d"
  by (induction d) (auto simp: named_def keys_of_def)

text \<open>The first check is exactly the invariant on identities.\<close>

lemma ids_ok_named:
  "ids_ok g \<longleftrightarrow> distinct (all_ids g) \<and> (\<forall>(k, i)\<in>set (entity_names g). i = k)"
proof (cases "distinct (all_ids g)")
  case True
  then have d: "distinct (keys_of (programs g))" "distinct (keys_of (sessions g))"
    "distinct (keys_of (continuations g))" "distinct (keys_of (requests g))"
    "distinct (keys_of (attempts g))" "distinct (keys_of (phases g))" "distinct (keys_of (states g))"
    "distinct (keys_of (replicas g))" "distinct (keys_of (bindings g))"
    "distinct (keys_of (evidence g))" "distinct (keys_of (outputs g))" "distinct (keys_of (events g))"
    by (simp_all add: all_ids_def)
  show ?thesis
    by (simp only: True ids_ok_def entity_names_def set_append ball_Un named_iff [OF d(1)] named_iff [OF d(2)]
        named_iff [OF d(3)] named_iff [OF d(4)] named_iff [OF d(5)] named_iff [OF d(6)]
        named_iff [OF d(7)] named_iff [OF d(8)] named_iff [OF d(9)] named_iff [OF d(10)]
        named_iff [OF d(11)] named_iff [OF d(12)])
qed (simp add: ids_ok_def)

lemma global_identity_uniqueness_iff: "global_identity_uniqueness g = Inr () \<longleftrightarrow> ids_ok g"
proof -
  have "map fst (entity_names g) = all_ids g" by (simp add: entity_names_def map_fst_named all_ids_def)
  then show ?thesis by (auto simp: global_identity_uniqueness_def identity_loop_Inr ids_ok_named)
qed

lemma inv_reuse:
  assumes "inv g"
  shows "reuse_inv g" "graph_inv g" "ids_ok g" "graph_ok (sessions g) (continuations g)"
    "attempts_ok (continuations g) (requests g) (attempts g) (outputs g)"
  using assms by (simp_all add: inv_parts)

lemma parent_scopes_ok:
  assumes inv: "inv g"
  shows "parent_scopes g = Inr ()"
proof -
  note ri = inv_reuse [OF inv]
  note d = ids_okD [OF ri(3)]
  have "sess_program_id s \<in> set (keys_of (programs g))" if "map_of (sessions g) k = Some s" for k s
    using invD(2) [OF inv] that by (auto simp: sessions_ok_def dest: map_of_in_keys)
  moreover have "cont_session_id c \<in> set (keys_of (sessions g))"
    "for_each (cont_parent_ids c) (\<lambda>pid. bind_res (getitem (continuations g) pid) (\<lambda>p.
      require (cont_session_id p = cont_session_id c))) = Inr ()" if "map_of (continuations g) k = Some c" for k c
    using ri(4) that by (auto simp: for_each_Inr bind_res_Inr graph_ok_def dest: map_of_in_keys)
  moreover have "req_continuation_id r \<in> set (keys_of (continuations g))" if "map_of (requests g) k = Some r" for k r
    using attempts_okD(1) [OF ri(5) that] by (auto simp: request_ok_def dest: map_of_in_keys)
  moreover have "att_request_id a \<in> set (keys_of (requests g))" if "map_of (attempts g) k = Some a" for k a
    using attempt_request [OF ri(5) that] by (auto dest: map_of_in_keys)
  moreover have "ph_attempt_id p \<in> set (keys_of (attempts g))" if "map_of (phases g) k = Some p" for k p
    using reuse_invD(5) [OF ri(1)] that by (auto simp: phases_ok_def dest: map_of_in_keys)
  ultimately show ?thesis
    by (simp add: parent_scopes_def for_each_values d bind_res_Inr has_key_iff)
qed

text \<open>The attempts of a request with a given authority, in terms of the request's pointers.\<close>

lemma attempts_with_set:
  assumes "ids_ok g"
  shows "a \<in> set (attempts_with g rid s) \<longleftrightarrow>
    map_of (attempts g) (att_id a) = Some a \<and> att_request_id a = rid \<and> att_authority_status a = s"
  using keyedD [OF ids_okD(17) [OF assms]]
  by (auto simp: attempts_with_def values_of_iff [OF ids_okD(5) [OF assms]])

lemma attempts_withI:
  assumes "ids_ok g" and "map_of (attempts g) i = Some y" and "att_request_id y = rid"
    and "att_authority_status y = s"
  shows "\<exists>a\<in>set (attempts_with g rid s). att_id a = i"
proof
  show "att_id y = i" by (rule keyedD [OF ids_okD(17) [OF assms(1)] assms(2)])
  with assms show "y \<in> set (attempts_with g rid s)" by (simp add: attempts_with_set)
qed

lemma values_distinct:
  assumes "keyed f d" and "distinct (keys_of d)"
  shows "distinct (values_of d)" and "inj_on f (set (values_of d))"
proof -
  have eq: "map f (values_of d) = keys_of d"
    unfolding keys_of_def values_of_def list.map_comp
    by (rule map_cong) (use assms in \<open>auto simp: keyed_def items_iff [symmetric]\<close>)
  then show "distinct (values_of d)" by (metis assms(2) distinct_map)
  from eq show "inj_on f (set (values_of d))" by (metis assms(2) distinct_map)
qed

lemma attempts_with_unique:
  assumes inv: "inv g" and "\<And>a. a \<in> set (attempts_with g rid s) \<Longrightarrow> att_id a = i"
  shows "length (attempts_with g rid s) \<le> 1"
proof -
  note ids = inv_reuse(3) [OF inv]
  have "distinct (attempts_with g rid s)"
    unfolding attempts_with_def by (rule distinct_filter [OF values_distinct(1) [OF ids_okD(17,5) [OF ids]]])
  moreover have "a = b" if "a \<in> set (attempts_with g rid s)" and "b \<in> set (attempts_with g rid s)" for a b
    using that assms(2) by (metis attempts_with_set [OF ids] option.inject)
  ultimately show ?thesis
    by (metis One_nat_def List.finite_set card_le_Suc0_iff_eq distinct_card)
qed

lemma pointer_ok_unique:
  assumes "length xs \<le> 1" and "\<And>i. p = Some i \<Longrightarrow> \<exists>a\<in>set xs. att_id a = i" and "p = None \<Longrightarrow> xs = []"
  shows "pointer_ok p xs = Inr ()"
proof (cases p)
  case (Some i)
  with assms(2) obtain a where "a \<in> set xs" "att_id a = i" by blast
  with assms(1) have "xs = [a]" by (cases xs) auto
  with Some \<open>att_id a = i\<close> show ?thesis by (simp add: pointer_ok_def)
qed (use assms(3) in \<open>simp add: pointer_ok_def\<close>)

lemma attempt_authority_ok:
  assumes inv: "inv g"
  shows "attempt_authority g = Inr ()"
proof -
  note rin = inv_reuse [OF inv]
  note key = keyedD [OF ids_okD(17) [OF rin(3)]]
  have "checks
       [require (length (attempts_with g rid AttemptAuthority.CURRENT) \<le> 1),
        require (length (attempts_with g rid AttemptAuthority.COMMITTED) \<le> 1),
        pointer_ok (req_current_attempt_id r) (attempts_with g rid AttemptAuthority.CURRENT),
        pointer_ok (req_committed_attempt_id r) (attempts_with g rid AttemptAuthority.COMMITTED),
        for_each (values_of (attempts g)) (\<lambda>a.
          if att_request_id a = rid \<and> att_authority_status a = AttemptAuthority.SUPERSEDED
          then checks [require (Some (att_id a) \<noteq> req_current_attempt_id r),
                       require (Some (att_id a) \<noteq> req_committed_attempt_id r)]
          else Inr ())] = Inr ()" if r: "map_of (requests g) rid = Some r" for rid r
  proof -
    have cur: "req_current_attempt_id r = Some (att_id a)"
      if "a \<in> set (attempts_with g rid AttemptAuthority.CURRENT)" for a
      using that r attempts_okD(2) [OF rin(5), of "att_id a" a]
      by (auto simp: attempts_with_set [OF rin(3)] attempt_ok_def)
    have com: "req_committed_attempt_id r = Some (att_id a)"
      if "a \<in> set (attempts_with g rid AttemptAuthority.COMMITTED)" for a
      using that r attempts_okD(2) [OF rin(5), of "att_id a" a]
      by (auto simp: attempts_with_set [OF rin(3)] attempt_ok_def)
    have len: "length (attempts_with g rid AttemptAuthority.CURRENT) \<le> 1"
      "length (attempts_with g rid AttemptAuthority.COMMITTED) \<le> 1"
      by (rule attempts_with_unique [OF inv, of _ _ "the (req_current_attempt_id r)"], simp add: cur)
         (rule attempts_with_unique [OF inv, of _ _ "the (req_committed_attempt_id r)"], simp add: com)
    have "pointer_ok (req_current_attempt_id r) (attempts_with g rid AttemptAuthority.CURRENT) = Inr ()"
    proof (rule pointer_ok_unique [OF len(1)])
      show "\<exists>a\<in>set (attempts_with g rid AttemptAuthority.CURRENT). att_id a = i"
        if "req_current_attempt_id r = Some i" for i
        using request_current [OF rin(5) r that] by (auto intro: attempts_withI [OF rin(3)])
      show "req_current_attempt_id r = None \<Longrightarrow> attempts_with g rid AttemptAuthority.CURRENT = []"
        using cur by (metis list.set_intros(1) neq_Nil_conv option.distinct(1))
    qed
    moreover have "pointer_ok (req_committed_attempt_id r) (attempts_with g rid AttemptAuthority.COMMITTED) = Inr ()"
    proof (rule pointer_ok_unique [OF len(2)])
      show "\<exists>a\<in>set (attempts_with g rid AttemptAuthority.COMMITTED). att_id a = i"
        if "req_committed_attempt_id r = Some i" for i
        using request_committed [OF rin(5) r that] by (auto intro: attempts_withI [OF rin(3)])
      show "req_committed_attempt_id r = None \<Longrightarrow> attempts_with g rid AttemptAuthority.COMMITTED = []"
        using com by (metis list.set_intros(1) neq_Nil_conv option.distinct(1))
    qed
    moreover have "Some k \<noteq> req_current_attempt_id r \<and> Some k \<noteq> req_committed_attempt_id r"
      if "map_of (attempts g) k = Some a" "att_authority_status a = AttemptAuthority.SUPERSEDED" for k a
      using that request_current [OF rin(5) r, of k] request_committed [OF rin(5) r, of k] by auto
    ultimately show ?thesis
      using len by (auto simp: for_each_values [OF ids_okD(5) [OF rin(3)]] dest: key)
  qed
  then show ?thesis
    unfolding attempt_authority_def Let_def for_each_items [OF ids_okD(4) [OF rin(3)]] by blast
qed

text \<open>Sorting a contiguous numbering.\<close>

lemma sort_upto:
  assumes "mset xs = mset [1..int n]"
  shows "sort xs = [1..int (length xs)]"
proof -
  have "length xs = n" using arg_cong [OF assms, of size] by simp
  then show ?thesis using assms by (intro properties_for_sort) simp_all
qed

lemma attempt_generations_ok:
  assumes inv: "inv g"
  shows "attempt_generations g = Inr ()"
proof -
  have "sort (map att_generation (attempts_of (attempts g) rid)) =
      [1..int (length (attempts_of (attempts g) rid))]" for rid
  proof -
    from attempts_okD(3) [OF inv_reuse(5) [OF inv]] obtain n where
      "mset (map att_generation (attempts_of (attempts g) rid)) = mset [1..int n]"
      unfolding generations_ok_def by blast
    from sort_upto [OF this] show ?thesis by simp
  qed
  then show ?thesis by (simp add: attempt_generations_def for_each_Inr)
qed

lemma request_commit_consistency_ok:
  assumes inv: "inv g"
  shows "request_commit_consistency g = Inr ()"
proof -
  note rin = inv_reuse [OF inv]
  have "(if req_status r = RequestStatus.COMPLETED then
       checks [require (req_current_attempt_id r = None), require (req_committed_attempt_id r \<noteq> None),
               require (req_authoritative_output_id r \<noteq> None),
               bind_res (getitem (attempts g) (the (req_committed_attempt_id r))) (\<lambda>a.
               bind_res (getitem (outputs g) (the (req_authoritative_output_id r))) (\<lambda>out.
               checks [require (att_request_id a = req_id r),
                       require (att_authority_status a = AttemptAuthority.COMMITTED),
                       require (att_execution_status a = ExecutionStatus.SUCCEEDED),
                       require (Some (out_attempt_id out) = req_committed_attempt_id r),
                       require (out_terminal out)]))]
     else if req_status r \<in> {RequestStatus.FAILED, RequestStatus.CANCELLED} then
       checks [require (req_current_attempt_id r = None), require (req_committed_attempt_id r = None),
               require (req_authoritative_output_id r = None)]
     else Inr ()) = Inr ()" if r: "map_of (requests g) k = Some r" for k r
  proof (cases "req_status r = RequestStatus.COMPLETED")
    case True
    with attempts_okD(1) [OF rin(5) r] obtain c ou out where c: "req_committed_attempt_id r = Some c"
      and rest: "req_current_attempt_id r = None" "req_authoritative_output_id r = Some ou"
        "map_of (outputs g) ou = Some out" "out_attempt_id out = c" "out_terminal out"
      by (auto simp: request_ok_def)
    from request_committed [OF rin(5) r c] True c rest show ?thesis
      using keyedD [OF ids_okD(16) [OF rin(3)] r] by (auto simp: bind_res_Inr)
  next
    case False
    with attempts_okD(1) [OF rin(5) r] show ?thesis by (auto simp: request_ok_def terminal_request_def)
  qed
  then show ?thesis
    unfolding request_commit_consistency_def for_each_values [OF ids_okD(4) [OF rin(3)]] by blast
qed

lemma continuation_dags_ok:
  assumes inv: "inv g"
  shows "continuation_dags g = Inr ()"
  using no_cycle [OF inv_reuse(4) [OF inv] graph_invD(2) [OF inv_reuse(2) [OF inv]]]
  by (simp add: continuation_dags_def for_each_Inr)

lemma phase_ordering_ok:
  assumes inv: "inv g"
  shows "phase_ordering g = Inr ()"
proof -
  have "map ph_ordinal (sort_key ph_ordinal (phases_of (phases g) aid)) =
      [1..int (length (phases_of (phases g) aid))]" for aid
  proof -
    from reuse_invD(5) [OF inv_reuse(1) [OF inv]] obtain n where
      "mset (map ph_ordinal (phases_of (phases g) aid)) = mset [1..int n]" unfolding phases_ok_def by blast
    from sort_upto [OF this] have "sort (map ph_ordinal (phases_of (phases g) aid)) =
      [1..int (length (phases_of (phases g) aid))]" by simp
    moreover have "map ph_ordinal (sort_key ph_ordinal (phases_of (phases g) aid)) =
        sort (map ph_ordinal (phases_of (phases g) aid))"
      by (rule properties_for_sort [symmetric]) simp_all
    ultimately show ?thesis by simp
  qed
  then show ?thesis by (simp add: phase_ordering_def for_each_Inr list_all_iff phases_of_def)
qed

lemma declared_state_origin_ok:
  assumes inv: "inv g" and x: "map_of (states g) k = Some x"
  shows "declared_state_origin g x = Inr ()"
proof -
  note rin = inv_reuse [OF inv]
  have ids: "map_of (continuations g) i = Some c \<Longrightarrow> cont_id c = i"
    "map_of (requests g) i = Some r \<Longrightarrow> req_id r = i" "map_of (attempts g) i = Some a \<Longrightarrow> att_id a = i"
    "map_of (phases g) i = Some p \<Longrightarrow> ph_id p = i" for i c r a p
    using keyedD [OF ids_okD(15) [OF rin(3)]] keyedD [OF ids_okD(16) [OF rin(3)]]
      keyedD [OF ids_okD(17) [OF rin(3)]] keyedD [OF ids_okD(18) [OF rin(3)]] by auto
  from states_okD(1) [OF reuse_invD(6) [OF rin(1)] x] show ?thesis
    by (auto simp: origin_ok_def declared_state_origin_def bind_res_Inr ids)
qed

lemma dependency_provenance_ok:
  assumes inv: "inv g" and x: "map_of (states g) k = Some x" and d: "d \<in> set (st_derived_from x)"
  shows "dependency_provenance g x d = Inr ()"
proof -
  note rin = inv_reuse [OF inv]
  note ok = states_okD [OF reuse_invD(6) [OF rin(1)] x]
  from ok(2) d obtain y where y: "map_of (states g) d = Some y"
    and des: "descends (continuations g) (st_origin_continuation_id x) (st_origin_continuation_id y)"
    and prec: "phase_precedes (phases g) y x" by (auto simp: deps_ok_def)
  from ok(1) obtain c where "map_of (continuations g) (st_origin_continuation_id x) = Some c"
    by (auto simp: origin_ok_def)
  from is_ancestor_descends [OF rin(2) this] des y prec show ?thesis
    by (auto simp: dependency_provenance_def bind_res_Inr phase_precedes_def truthy_def split: option.splits)
qed

lemma producer_provenance_ok:
  assumes inv: "inv g" and x: "map_of (states g) k = Some x"
  shows "producer_provenance g x = Inr ()"
proof -
  note rin = inv_reuse [OF inv]
  note org = states_okD(1) [OF reuse_invD(6) [OF rin(1)] x]
  have "st_producer_attempt_id x \<noteq> None" if "st_producer_phase_id x = Some p" for p
    using org that by (auto simp: origin_ok_def)
  with origin_request_attempt [OF org rin(5)] show ?thesis
    by (fastforce simp: producer_provenance_def bind_res_Inr truthy_def split: option.splits)
qed

lemma state_provenance_ok:
  assumes inv: "inv g"
  shows "state_provenance g = Inr ()"
proof -
  note rin = inv_reuse [OF inv]
  note sok = reuse_invD(6) [OF rin(1)]
  have cyc: "state_cycle g = Inr False"
  proof (rule state_cycle_False)
    show "\<exists>y. map_of (states g) d = Some y"
      if "map_of (states g) k = Some x" "d \<in> set (st_derived_from x)" for k x d
      using states_okD(2) [OF sok that(1)] that(2) by (auto simp: deps_ok_def)
  qed (use sok in \<open>simp add: states_ok_def\<close>)
  have "has_key (continuations g) (st_origin_continuation_id x)" if "map_of (states g) k = Some x" for k x
    using states_okD(1) [OF sok that] by (auto simp: origin_ok_def has_key_Some)
  with cyc show ?thesis
    by (auto simp: state_provenance_def values_of_iff ids_okD(7) [OF rin(3)] for_each_Inr
        intro: declared_state_origin_ok [OF inv] dependency_provenance_ok [OF inv] producer_provenance_ok [OF inv])
qed

lemma replica_integrity_ok:
  assumes inv: "inv g"
  shows "replica_integrity g = Inr ()"
  using invD(5) [OF inv]
  by (simp add: replica_integrity_def for_each_values ids_okD(8) [OF inv_reuse(3) [OF inv]] bind_res_Inr
      replicas_ok_def has_key_Some)

lemma binding_authority_ok:
  assumes inv: "inv g"
  shows "binding_authority g = Inr ()"
proof -
  note ok = invD(6) [OF inv] and d = ids_okD(9) [OF inv_reuse(3) [OF inv]]
  have "bind_res (getitem (bindings g) i) (\<lambda>b.
      checks [require (bnd_subject_id b = s), require (bnd_status b = BindingStatus.ACTIVE),
              bind_res (getitem (current_epoch_by_subject g) s) (\<lambda>e. require (e = bnd_epoch b))]) = Inr ()"
    if "map_of (current_binding_by_subject g) s = Some i" for s i
    using that by (auto simp: bind_res_Inr elim: current_binding [OF ok])
  moreover have "distinct (keys_of (current_binding_by_subject g))" using ok by (simp add: bindings_ok_def)
  moreover have "map_of (current_binding_by_subject g) (bnd_subject_id b) = Some (bnd_id b)"
    if "map_of (bindings g) k = Some b" "bnd_status b = BindingStatus.ACTIVE" for k b
    using bindings_okD(1) [OF ok that(1)] that(2) by (simp add: binding_ok_def)
  ultimately show ?thesis
    by (simp add: binding_authority_def for_each_items for_each_values [OF d])
qed

text \<open>Grouping by subject: the entry of a subject is the list of its bindings, in order.\<close>

lemma group_bindings_Inr:
  assumes "\<forall>b\<in>set bs. bnd_base_epoch b < bnd_epoch b"
    and "\<forall>s. dict_get m s [] = filter (\<lambda>b. bnd_subject_id b = s) pre"
    and "\<forall>s. map_of m s = Some [] \<longrightarrow> False"
  shows "\<exists>m'. group_bindings m bs = Inr m' \<and>
    (\<forall>s. dict_get m' s [] = filter (\<lambda>b. bnd_subject_id b = s) (pre @ bs)) \<and>
    (\<forall>s. map_of m' s = Some [] \<longrightarrow> False) \<and> (distinct (keys_of m) \<longrightarrow> distinct (keys_of m'))"
  using assms
proof (induction bs arbitrary: m pre)
  case (Cons b bs)
  let ?m = "setitem (bnd_subject_id b) (dict_get m (bnd_subject_id b) [] @ [b]) m"
  have "\<forall>s. dict_get ?m s [] = filter (\<lambda>b. bnd_subject_id b = s) (pre @ [b])"
    using Cons.prems(2) by (auto simp: dict_get_def)
  moreover have "\<forall>s. map_of ?m s = Some [] \<longrightarrow> False" using Cons.prems(3) by auto
  moreover have "distinct (keys_of m) \<longrightarrow> distinct (keys_of ?m)" by (simp add: keys_of_def distinct_update)
  ultimately show ?case using Cons.IH [of ?m "pre @ [b]"] Cons.prems(1) by (auto simp: Let_def)
qed simp

lemma binding_generations_ok:
  assumes inv: "inv g"
  shows "binding_generations g = Inr ()"
proof -
  note ok = invD(6) [OF inv] and ids = inv_reuse(3) [OF inv]
  note key = ids_okD(21) [OF ids] and d = ids_okD(9) [OF ids]
  let ?vs = "values_of (bindings g)"
  have "\<forall>b\<in>set ?vs. bnd_base_epoch b < bnd_epoch b"
    using bindings_okD(1) [OF ok] by (auto simp: values_of_iff [OF d] binding_ok_def)
  from group_bindings_Inr [OF this, of "[]" "[]"] obtain m where m: "group_bindings [] ?vs = Inr m"
    and get: "\<And>s. dict_get m s [] = filter (\<lambda>b. bnd_subject_id b = s) ?vs"
    and ne: "\<And>s. map_of m s \<noteq> Some []" and dm: "distinct (keys_of m)"
    by (auto simp: dict_get_def keys_of_def)
  have "length (map bnd_epoch bs) = length (remdups (map bnd_epoch bs)) \<and>
      bind_res (getitem (last_allocated_epoch_by_subject g) s) (\<lambda>last. require (last = py_max 0 (map bnd_epoch bs))) = Inr () \<and>
      (case map_of (current_epoch_by_subject g) s of None \<Rightarrow> Inr ()
       | Some e \<Rightarrow> require (List.member (map bnd_epoch bs) e)) = Inr ()" if s: "map_of m s = Some bs" for s bs
  proof (intro conjI)
    from get [of s] s have bs: "bs = filter (\<lambda>b. bnd_subject_id b = s) ?vs" by (simp add: dict_get_def)
    have mem: "b \<in> set bs \<longleftrightarrow> map_of (bindings g) (bnd_id b) = Some b \<and> bnd_subject_id b = s" for b
      using keyedD [OF key] by (auto simp: bs values_of_iff [OF d])
    have in_bs: "b \<in> set bs" if "map_of (bindings g) k = Some b" "bnd_subject_id b = s" for k b
      using that keyedD [OF key that(1)] by (simp add: mem)
    have "inj_on bnd_epoch (set bs)"
    proof (rule inj_onI)
      fix b b' assume b: "b \<in> set bs" "b' \<in> set bs" and eq: "bnd_epoch b = bnd_epoch b'"
      have "bnd_id b = bnd_id b'"
        using bindings_okD(3) [OF ok] b eq unfolding epochs_distinct_def mem by metis
      with b show "b = b'" by (simp add: mem)
    qed
    moreover have "distinct bs" unfolding bs by (rule distinct_filter [OF values_distinct(1) [OF key d]])
    ultimately show "length (map bnd_epoch bs) = length (remdups (map bnd_epoch bs))"
      by (metis distinct_map distinct_remdups_id)
    from ne [of s] s obtain b where "b \<in> set bs" by (cases bs) auto
    then obtain top where top: "map_of (last_allocated_epoch_by_subject g) s = Some top"
      using bindings_okD(1) [OF ok, of "bnd_id b" b] by (auto simp: mem binding_ok_def)
    have "x \<le> top" if "x \<in> set (map bnd_epoch bs)" for x
      using that bindings_okD(1) [OF ok] top by (fastforce simp: mem binding_ok_def)
    moreover have "top \<in> set (map bnd_epoch bs)"
      using bindings_okD(2) [OF ok, of s] top in_bs unfolding subject_ok_def by fastforce
    ultimately have "py_max 0 (map bnd_epoch bs) = top" by (intro py_max_eqI) auto
    with top show "bind_res (getitem (last_allocated_epoch_by_subject g) s)
        (\<lambda>last. require (last = py_max 0 (map bnd_epoch bs))) = Inr ()" by (simp add: bind_res_Inr)
    have "e \<in> set (map bnd_epoch bs)" if e: "map_of (current_epoch_by_subject g) s = Some e" for e
    proof -
      from e bindings_okD(2) [OF ok, of s] obtain i where i: "map_of (current_binding_by_subject g) s = Some i"
        by (cases "map_of (current_binding_by_subject g) s") (auto simp: subject_ok_def)
      from i e in_bs show ?thesis by (auto elim!: current_binding [OF ok])
    qed
    then show "(case map_of (current_epoch_by_subject g) s of None \<Rightarrow> Inr ()
        | Some e \<Rightarrow> require (List.member (map bnd_epoch bs) e)) = Inr ()"
      by (auto split: option.split)
  qed
  then show ?thesis
    by (simp add: binding_generations_def m for_each_items [OF dm] Let_def)
qed

lemma evidence_derivation_ok:
  assumes inv: "inv g"
  shows "evidence_derivation g = Inr ()"
proof -
  note d = ids_okD(10) [OF inv_reuse(3) [OF inv]]
  have "(if ev_authority e = DERIVED
      then checks [require (ev_derived_from e \<noteq> []), require (truthy (ev_derivation_rule e))]
      else require (\<not> has_derivation e)) = Inr () \<and>
      (if ev_derived_from e \<noteq> [] then
        bind_res (map_res (getitem (evidence g)) (ev_derived_from e)) (\<lambda>supports.
        checks [require (subset_list (ev_scope e) (concat (map ev_scope supports))),
                if ev_status e = EvidenceStatus.VALID
                then require (list_all (\<lambda>s. ev_status s = EvidenceStatus.VALID) supports)
                else Inr ()])
      else Inr ()) = Inr ()" if e: "map_of (evidence g) k = Some e" for k e
  proof
    have chk: "check_derivation_fields e = Inr ()" and sup: "supported (evidence g) e"
      using invD(4) [OF inv] e by (auto simp: evidence_ok_def)
    from chk show "(if ev_authority e = DERIVED
      then checks [require (ev_derived_from e \<noteq> []), require (truthy (ev_derivation_rule e))]
      else require (\<not> has_derivation e)) = Inr ()"
      by (auto simp: check_derivation_fields_def split: if_splits)
    let ?sups = "map (\<lambda>i. the (map_of (evidence g) i)) (ev_derived_from e)"
    have "map_res (getitem (evidence g)) (ev_derived_from e) = Inr ?sups"
      by (rule map_res_Inr) (use sup in \<open>auto simp: supported_def\<close>)
    with sup show "(if ev_derived_from e \<noteq> [] then
        bind_res (map_res (getitem (evidence g)) (ev_derived_from e)) (\<lambda>supports.
        checks [require (subset_list (ev_scope e) (concat (map ev_scope supports))),
                if ev_status e = EvidenceStatus.VALID
                then require (list_all (\<lambda>s. ev_status s = EvidenceStatus.VALID) supports)
                else Inr ()])
      else Inr ()) = Inr ()"
      by (fastforce simp: supported_def subset_list_iff list_all_iff)
  qed
  then show ?thesis by (simp add: evidence_derivation_def for_each_values [OF d])
qed

lemma event_identity_ok:
  assumes inv: "inv g"
  shows "event_identity g = Inr ()"
proof -
  note ids = inv_reuse(3) [OF inv]
  have ord: "mset (event_order g) = mset (keys_of (events g))" using invD(7) [OF inv] by (simp add: events_ok_def)
  have "distinct (event_order g)" using ids_okD(12) [OF ids] mset_eq_imp_distinct_iff [OF ord] by simp
  moreover have "set (event_order g) = set (keys_of (events g))" using mset_eq_setD [OF ord] .
  ultimately show ?thesis using keyedD [OF ids_okD(24) [OF ids]]
    by (auto simp: event_identity_def same_set_iff distinct_remdups_id for_each_Inr bind_res_Inr
        dest!: map_of_keys_of)
qed

lemma output_integrity_ok:
  assumes inv: "inv g"
  shows "output_integrity g = Inr ()"
  using invD(3) [OF inv]
  by (auto simp: output_integrity_def values_of_iff ids_okD(11) [OF inv_reuse(3) [OF inv]] for_each_Inr
      outputs_ok_def has_key_Some)

lemma invalid_incompatible:
  assumes "map_of (states g) k = Some x" and "st_validity x = StateValidity.INVALID"
  shows "state_compatible sv g k ctx = Inr False"
  using assms by (simp add: state_compatible_def state_compatible_recursive.simps)

lemma state_validity_ok:
  assumes inv: "inv g"
  shows "state_validity sv g = Inr ()"
proof -
  note rin = inv_reuse [OF inv]
  have "bind_res (getitem (continuations g) (req_continuation_id r)) (\<lambda>c.
      bind_res (getitem (sessions g) (cont_session_id c)) (\<lambda>s.
      bind_res (state_compatible sv g (st_id x) (C c s)) (\<lambda>ok. require (\<not> ok)))) = Inr ()"
    if x: "map_of (states g) k = Some x" "st_validity x = StateValidity.INVALID"
      and r: "map_of (requests g) rid = Some r" for k x rid r and C
  proof -
    have key: "st_id x = k" by (rule keyedD [OF ids_okD(19) [OF rin(3)] x(1)])
    from attempts_okD(1) [OF rin(5) r] obtain c where c: "map_of (continuations g) (req_continuation_id r) = Some c"
      by (auto simp: request_ok_def)
    moreover from rin(4) c obtain s where "map_of (sessions g) (cont_session_id c) = Some s"
      unfolding graph_ok_def by blast
    ultimately show ?thesis by (simp add: bind_res_Inr key invalid_incompatible [OF x])
  qed
  then show ?thesis
    by (simp add: state_validity_def for_each_values ids_okD(4,7) [OF rin(3)] Let_def)
qed

lemma assert_all_ok:
  assumes inv: "inv g"
  shows "assert_all sv g = Inr ()"
proof -
  have "global_identity_uniqueness g = Inr ()"
    using inv_reuse(3) [OF inv] by (simp add: global_identity_uniqueness_iff)
  with inv show ?thesis
    by (simp add: assert_all_def parent_scopes_ok attempt_authority_ok attempt_generations_ok
        request_commit_consistency_ok continuation_dags_ok phase_ordering_ok state_provenance_ok
        replica_integrity_ok binding_authority_ok binding_generations_ok evidence_derivation_ok
        event_identity_ok output_integrity_ok state_validity_ok)
qed

end
