(* ===== verification/Core_Properties.thy ===== *)
theory Core_Properties
  imports Oracle
begin

section \<open>Properties of the semantic core\<close>

text \<open>
  The properties of \<open>ContinuityCore\<close> and of its oracle, stated over every core a program can reach
  (\<open>reachable\<close>) and every run of operations from it (\<open>run_ops core_step\<close>), each with a concrete
  run on which its hypotheses hold.
\<close>

subsection \<open>A run to try the properties on\<close>

text \<open>
  One request with two attempts, of which the second commits, with phases and a phase State; a State
  of the committed request and one derived from it; a waiting continuation; a subject with a first
  binding, a committed migration and a candidate left behind.
\<close>

definition witness_evidence :: "string \<Rightarrow> (string \<times> string) list \<Rightarrow> Evidence" where
  "witness_evidence i sc =
     \<lparr>ev_id = i, ev_claim = ''observed'', ev_source = ''worker'', ev_authority = EXACT_OBSERVATION,
      ev_status = EvidenceStatus.VALID, ev_observed_at = 0, ev_scope = sc, ev_valid_until = None,
      ev_confidence = None, ev_derived_from = [], ev_derivation_rule = None,
      ev_claim_key = None, ev_claim_value = None\<rparr>"

definition graph_ops :: "operation list" where
  "graph_ops =
     [create_program_op ''p'', create_session_op ''s'' ''p'',
      create_continuation_op ''c0'' ''s'' [] ContinuationLifecycle.ACTIVE,
      create_continuation_op ''c1'' ''s'' [''c0''] ContinuationLifecycle.WAITING,
      create_request_op ''r'' ''c0'', create_request_op ''q'' ''c1'']"

definition attempt_ops :: "operation list" where
  "attempt_ops =
     [start_attempt_op ''a1'' ''r'', start_attempt_op ''a2'' ''r'',
      create_phase_op ''ph1'' ''a2'' PREFILL None, create_phase_op ''ph2'' ''a2'' DECODE None,
      set_phase_status_op ''ph1'' PhaseStatus.COMPLETED,
      create_state_op ''x0'' ''phase'' ''ph1'' ''PREFIX'' ''OPAQUE'' [],
      complete_attempt_op ''a2'' True,
      record_evidence_op (witness_evidence ''e1'' [(''attempt'', ''a2'')]),
      create_output_op ''out'' ''a2'' True [''e1'']]"

definition commit_ops :: "operation list" where
  "commit_ops =
     [finalize_request_op ''r'' ''out'' (Some 1),
      create_state_op ''x1'' ''request'' ''r'' ''PREFIX'' ''OPAQUE'' [],
      create_state_op ''x2'' ''continuation'' ''c1'' ''PREFIX'' ''OPAQUE'' [''x1''],
      add_replica_op ''rep'' ''x2'' ''gpu0'' ReplicaStatus.VALID,
      record_evidence_op (witness_evidence ''e3'' [(''state'', ''x2''), (''replica'', ''rep'')]),
      start_attempt_op ''b'' ''q'']"

definition binding_ops :: "operation list" where
  "binding_ops =
     [activate_initial_binding_op ''m1'' ''subj'' ''gpu0'', propose_binding_op ''m2'' ''subj'' ''gpu1'',
      propose_binding_op ''m3'' ''subj'' ''gpu2'', begin_migration_op ''m2'',
      record_evidence_op (witness_evidence ''e2'' [(''binding'', ''m2''), (''epoch'', ''2'')])]"

definition run_demo :: "operation list \<Rightarrow> core" where
  "run_demo ops = run_ops core_step empty_core (map (\<lambda>op. (0, op)) ops)"

definition demo_open :: core where
  "demo_open = run_demo (graph_ops @ attempt_ops @ binding_ops)"

definition demo :: core where
  "demo = run_demo (graph_ops @ attempt_ops @ binding_ops @ commit_ops)"

lemma run_demo_reachable: "list_all names_ok ops \<Longrightarrow> reachable (run_demo ops)"
  unfolding run_demo_def by (rule reachable_run) (simp add: list_all_iff)

lemma demo_reachable: "reachable demo"
  unfolding demo_def by (rule run_demo_reachable) code_simp

lemma demo_open_reachable: "reachable demo_open"
  unfolding demo_open_def by (rule run_demo_reachable) code_simp

definition demo_context :: ExecutionContext where
  "demo_context = \<lparr>ctx_program_id = ''p'', ctx_session_id = ''s'', ctx_continuation_id = ''c1'',
     ctx_request_id = ''q'', ctx_attempt_id = ''b'', ctx_phase_id = None\<rparr>"

lemma demo_facts:
  "map_option req_status (map_of (requests demo) ''r'') = Some RequestStatus.COMPLETED"
  "map_option st_validity (map_of (states demo) ''x2'') = Some StateValidity.VALID"
  "map_option att_authority_status (map_of (attempts demo) ''a1'') = Some AttemptAuthority.SUPERSEDED"
  "map_option bnd_status (map_of (bindings demo) ''m2'') = Some BindingStatus.MIGRATING"
  "context_consistent demo demo_context"
  "keys_of (states demo) = [''x0'', ''x1'', ''x2'']"
  by code_simp+

subsection \<open>Facts the properties share\<close>

abbreviation well_named :: "(rat \<times> operation) list \<Rightarrow> bool" where
  "well_named cs \<equiv> list_all (\<lambda>c. names_ok (snd c)) cs"

lemma later:
  assumes "reachable g" and "well_named cs"
  shows "core_evolves g (run_ops core_step g cs)" "inv (run_ops core_step g cs)" "inv g"
  using reachable_inv [OF assms(1)] core.run_evolves [OF _ assms(2)] core.run_keeps [OF _ assms(2)] by auto

lemma evolves_D:
  assumes "core_evolves g h"
  shows "map_of (requests g) k = Some r \<Longrightarrow> \<exists>r'. map_of (requests h) k = Some r' \<and> request_step r r'"
    "map_of (attempts g) k = Some a \<Longrightarrow> \<exists>a'. map_of (attempts h) k = Some a' \<and> attempt_step a a'"
    "map_of (states g) k = Some x \<Longrightarrow> \<exists>x'. map_of (states h) k = Some x' \<and> state_step x x'"
    "map_of (bindings g) k = Some b \<Longrightarrow> \<exists>b'. map_of (bindings h) k = Some b' \<and> binding_step b b'"
    "map_of (outputs g) k = Some out \<Longrightarrow> map_of (outputs h) k = Some out"
    "map_of (evidence g) k = Some e \<Longrightarrow> map_of (evidence h) k = Some e"
    "map_of (events g) k = Some ev \<Longrightarrow> map_of (events h) k = Some ev"
    "\<exists>more. event_order h = event_order g @ more"
    "dict_get (current_epoch_by_subject g) s 0 \<le> dict_get (current_epoch_by_subject h) s 0"
  using assms by (auto simp: core_evolves_def epochs_grow_def dest: dict_evolvesD)

lemma terminal_stays:
  assumes "core_evolves g h" and "map_of (requests g) k = Some r" and "terminal_request r"
  shows "map_of (requests h) k = Some r"
  using evolves_D(1) [OF assms(1,2)] assms(3) by (auto simp: request_step_def)

lemma reachable_graph:
  assumes "reachable g"
  shows "reuse_inv g" "graph_inv g" "ids_ok g" "graph_ok (sessions g) (continuations g)"
    "attempts_ok (continuations g) (requests g) (attempts g) (outputs g)"
    "states_ok (continuations g) (requests g) (attempts g) (phases g) (states g)"
    "bindings_ok (bindings g) (current_binding_by_subject g) (current_epoch_by_subject g)
       (last_allocated_epoch_by_subject g)"
  using reachable_inv [OF assms] by (simp_all add: inv_parts)

text \<open>The dependency closure of a State is fixed when the State is created.\<close>

lemma deps_stay:
  assumes "core_evolves g h" and "(a, d) \<in> (deps_rel (states g))\<^sup>*"
  shows "(a, d) \<in> (deps_rel (states h))\<^sup>*"
proof -
  have "deps_rel (states g) \<subseteq> deps_rel (states h)"
    using evolves_D(3) [OF assms(1)] by (fastforce simp: deps_rel_iff state_step_def)
  with assms(2) rtrancl_mono show ?thesis by blast
qed

lemma not_closure:
  assumes "reuse_inv h" and "(sid, d) \<in> (deps_rel (states h))\<^sup>*"
    and "\<And>x. map_of (states h) d = Some x \<Longrightarrow> \<not> admissible sv h ctx x"
  shows "state_compatible sv h sid ctx = Inr False"
  using state_compatible_correct [OF assms(1), of sv sid ctx] assms(2,3)
  by (auto simp: closure_admissible_def)

subsection \<open>Safety of the whole core\<close>



text \<open>C2. Failure atomicity: an operation that raises, whichever of the 25 it is and wherever it raises,
  leaves the core exactly as it was.\<close>

theorem failed_operation_changes_nothing:
  "reachable g \<Longrightarrow> exec clk g op = (Inl e, g') \<Longrightarrow> g' = g"
  by (rule exec_atomic [OF reachable_inv])

lemma failed_operation_changes_nothing_witness:
  "snd (exec 0 demo (start_attempt_op ''z'' ''r'')) = demo"
proof -
  have "fst (exec 0 demo (start_attempt_op ''z'' ''r'')) = Inl InvalidTransition" by code_simp
  then have "exec 0 demo (start_attempt_op ''z'' ''r'') =
      (Inl InvalidTransition, snd (exec 0 demo (start_attempt_op ''z'' ''r'')))" by (metis prod.collapse)
  from failed_operation_changes_nothing [OF demo_reachable this] show ?thesis .
qed

subsection \<open>Requests and attempts\<close>

text \<open>C3. A terminal request is final: after any further run of operations it is the same record,
  with the same committed attempt and authoritative output; and outputs themselves never change.\<close>

theorem terminal_request_is_final:
  assumes "reachable g" and "well_named cs"
    and "map_of (requests g) k = Some r" and "terminal_request r" and "map_of (outputs g) i = Some out"
  shows "map_of (requests (run_ops core_step g cs)) k = Some r \<and>
    map_of (outputs (run_ops core_step g cs)) i = Some out"
  using terminal_stays [OF later(1) [OF assms(1,2)] assms(3,4)] evolves_D(5) [OF later(1) [OF assms(1,2)] assms(5)]
  by blast

lemma terminal_request_is_final_witness:
  "map_of (requests (run_ops core_step demo [(0, start_attempt_op ''z'' ''r'')])) ''r'' =
   map_of (requests demo) ''r''"
proof -
  obtain r where r: "map_of (requests demo) ''r'' = Some r" and c: "req_status r = RequestStatus.COMPLETED"
    using demo_facts(1) by auto
  have "has_key (outputs demo) ''out''" by code_simp
  then obtain out where "map_of (outputs demo) ''out'' = Some out" by (auto simp: has_key_Some)
  from terminal_request_is_final [OF demo_reachable _ r _ this, of "[(0, start_attempt_op ''z'' ''r'')]"] c r
  show ?thesis by (simp add: terminal_request_def names_ok_def)
qed



text \<open>C5. Authority once lost is never regained, and once committed never lost: after any further run a
  superseded attempt is superseded and a committed one committed, and a terminal outcome is unchanged.\<close>

theorem authority_is_settled:
  assumes "reachable g" and "well_named cs" and "map_of (attempts g) k = Some a"
    and "att_authority_status a \<noteq> AttemptAuthority.CURRENT"
  shows "\<exists>a'. map_of (attempts (run_ops core_step g cs)) k = Some a' \<and>
    att_authority_status a' = att_authority_status a \<and>
    (terminal_execution (att_execution_status a) \<longrightarrow> att_execution_status a' = att_execution_status a)"
  using evolves_D(2) [OF later(1) [OF assms(1,2)] assms(3)] assms(4) by (auto simp: attempt_step_def)

lemma authority_is_settled_witness:
  "map_option att_authority_status
     (map_of (attempts (run_ops core_step demo [(0, set_attempt_execution_op ''a1'' ExecutionStatus.SUCCEEDED)])) ''a1'') =
   Some AttemptAuthority.SUPERSEDED"
proof -
  obtain a where a: "map_of (attempts demo) ''a1'' = Some a" "att_authority_status a = AttemptAuthority.SUPERSEDED"
    using demo_facts(3) by auto
  with authority_is_settled [OF demo_reachable _ a(1), of "[(0, set_attempt_execution_op ''a1'' ExecutionStatus.SUCCEEDED)]"]
  show ?thesis by (auto simp: names_ok_def)
qed



text \<open>C7. Finalization happens once: after a request has been finalized by an output, whatever is done
  in between, finalizing it by the same output again returns the same record and changes nothing, and
  finalizing it by any other output raises.\<close>

theorem finalize_once:
  assumes "reachable g" and run: "finalize_request clk g rid oid nw = (Inr r', g')" and "well_named cs"
    and h: "h = run_ops core_step g' cs"
  shows "finalize_request clk' h rid oid nw' = (Inr r', h) \<and>
    (\<forall>o2 out. map_of (outputs h) o2 = Some out \<and> o2 \<noteq> oid \<longrightarrow>
       finalize_request clk' h rid o2 nw' = (Inl InvalidTransition, h))"
proof -
  have "exec clk g (finalize_request_op rid oid nw) = (Inr (), g')" using run by simp
  from reachable_step [OF assms(1) _ this] have g': "reachable g'" by (simp add: names_ok_def)
  note ids = reachable_graph(3) [OF assms(1)]
  have r': "map_of (requests g') rid = Some r' \<and> req_status r' = RequestStatus.COMPLETED \<and>
      req_authoritative_output_id r' = Some oid \<and> (\<exists>out. map_of (outputs g') oid = Some out)"
    using run
  proof (cases rule: finalize_request_Inr)
    case (commit r out a)
    then show ?thesis using keyedD [OF ids_okD(23) [OF ids] commit(2)] by simp
  qed auto
  note ev = later(1) [OF g' assms(3), folded h] and ih = later(2) [OF g' assms(3), folded h]
  have stays: "map_of (requests h) rid = Some r'"
    using terminal_stays [OF ev] r' by (simp add: terminal_request_def)
  obtain out where "map_of (outputs h) oid = Some out" using r' evolves_D(5) [OF ev] by blast
  moreover have "\<exists>a. map_of (attempts h) (out_attempt_id z) = Some a" if "map_of (outputs h) k = Some z" for k z
    using invD(3) [OF ih] that by (auto simp: outputs_ok_def)
  ultimately show ?thesis
    using stays r' by (fastforce simp: finalize_request_def getitem_def)
qed

lemma finalize_once_witness:
  "finalize_request 5 demo ''r'' ''out'' None =
     (Inr (the (map_of (requests demo) ''r'')), demo)"
proof -
  have "fst (finalize_request 0 demo ''r'' ''out'' None) = Inr (the (map_of (requests demo) ''r'')) \<and>
      snd (finalize_request 0 demo ''r'' ''out'' None) = demo"
    by code_simp
  then have run: "finalize_request 0 demo ''r'' ''out'' None = (Inr (the (map_of (requests demo) ''r'')), demo)"
    by (simp add: prod_eq_iff)
  from finalize_once [OF demo_reachable run, of "[]" demo 5 None] show ?thesis by simp
qed

subsection \<open>Reusable State\<close>

text \<open>C8. The recursive compatibility check is the specification: a State is compatible with a context
  if and only if the context is consistent and every State in its dependency closure is valid, visible
  from the context's continuation, produced with authority, early enough, and accepted by the user's
  predicate; and the check never raises.\<close>

theorem compatible_iff_closure_admissible:
  assumes "reachable g"
  shows "state_compatible sv g sid ctx =
    Inr (context_consistent g ctx \<and>
         (\<forall>d. (sid, d) \<in> (deps_rel (states g))\<^sup>* \<longrightarrow>
            (\<exists>x. map_of (states g) d = Some x \<and> admissible sv g ctx x)))"
  using state_compatible_correct [OF reachable_graph(1) [OF assms]] by (simp add: closure_admissible_def)

lemma compatible_iff_closure_admissible_witness:
  "\<exists>x. map_of (states demo) ''x2'' = Some x \<and> admissible (\<lambda>_ _. True) demo demo_context x"
proof -
  have "state_compatible (\<lambda>_ _. True) demo ''x2'' demo_context = Inr True" by code_simp
  then show ?thesis
    using compatible_iff_closure_admissible [OF demo_reachable, of "\<lambda>_ _. True" "''x2''" demo_context] by auto
qed

text \<open>C9. A replica may be consumed if and only if it is a valid replica of the State, the State is
  compatible with the context, and the evidence grants the consumption of that State from that replica.\<close>

theorem consume_exactly_when:
  assumes "reachable g" and "map_of (replicas g) rid = Some r"
  shows "can_consume_state sv clk g sid rid ctx ids nw =
    Inr (rep_state_id r = sid \<and> rep_status r = ReplicaStatus.VALID \<and>
         state_compatible sv g sid ctx = Inr True \<and>
         grants g ''consume_state'' ids (resolve_now clk nw)
           (Some [(''state'', sid), (''replica'', rid)]) None)"
  using can_consume_state_correct [OF reachable_graph(1) [OF assms(1)] assms(2)]
    state_compatible_correct [OF reachable_graph(1) [OF assms(1)]] by auto

lemma consume_exactly_when_witness:
  "state_compatible (\<lambda>_ _. True) demo ''x2'' demo_context = Inr True"
proof -
  have "has_key (replicas demo) ''rep''" by code_simp
  then obtain r where "map_of (replicas demo) ''rep'' = Some r" by (auto simp: has_key_Some)
  moreover have "can_consume_state (\<lambda>_ _. True) 0 demo ''x2'' ''rep'' demo_context [''e3''] (Some 1) = Inr True"
    by code_simp
  ultimately show ?thesis
    using consume_exactly_when [OF demo_reachable, of "''rep''" r "\<lambda>_ _. True" 0 "''x2''" demo_context "[''e3'']" "Some 1"]
    by simp
qed

text \<open>C10. Invalidity is contagious and permanent: once a State is invalid, no State that depends on it,
  directly or not, is ever again compatible with any context.\<close>

theorem invalid_state_taints_forever:
  assumes "reachable g" and "well_named cs" and "map_of (states g) d = Some x"
    and "st_validity x = StateValidity.INVALID" and "(sid, d) \<in> (deps_rel (states g))\<^sup>*"
  shows "state_compatible sv (run_ops core_step g cs) sid ctx = Inr False"
proof (rule not_closure)
  note ev = later(1) [OF assms(1,2)]
  show "reuse_inv (run_ops core_step g cs)" using invD(1) [OF later(2) [OF assms(1,2)]] .
  show "(sid, d) \<in> (deps_rel (states (run_ops core_step g cs)))\<^sup>*" by (rule deps_stay [OF ev assms(5)])
  fix z assume "map_of (states (run_ops core_step g cs)) d = Some z"
  with evolves_D(3) [OF ev assms(3)] assms(4) show "\<not> admissible sv (run_ops core_step g cs) ctx z"
    by (auto simp: state_step_def admissible_def)
qed

lemma invalid_state_taints_forever_witness:
  "state_compatible (\<lambda>_ _. True)
     (run_ops core_step (snd (exec 0 demo (set_state_validity_op ''x1'' StateValidity.INVALID)))
        [(0, set_state_validity_op ''x1'' StateValidity.VALID)]) ''x2'' demo_context = Inr False"
proof -
  let ?g = "snd (exec 0 demo (set_state_validity_op ''x1'' StateValidity.INVALID))"
  have g: "reachable ?g"
    by (rule reachable_step [OF demo_reachable _ prod.collapse [symmetric]]) (simp add: names_ok_def)
  have "map_option st_validity (map_of (states ?g) ''x1'') = Some StateValidity.INVALID"
    "map_option st_derived_from (map_of (states ?g) ''x2'') = Some [''x1'']" by code_simp+
  then obtain x where "map_of (states ?g) ''x1'' = Some x" "st_validity x = StateValidity.INVALID"
    and "(''x2'', ''x1'') \<in> deps_rel (states ?g)" by (auto simp: deps_rel_iff)
  with invalid_state_taints_forever [OF g _ this(1,2), of "[(0, set_state_validity_op ''x1'' StateValidity.VALID)]"]
  show ?thesis by (simp add: names_ok_def r_into_rtrancl)
qed

text \<open>C11. What a superseded attempt produced is never reused: a State whose dependency closure holds a
  State produced by a superseded attempt is never again compatible with any context.\<close>

theorem superseded_production_never_reused:
  assumes "reachable g" and "well_named cs" and "map_of (states g) d = Some x"
    and "st_producer_attempt_id x = Some k" and "map_of (attempts g) k = Some a"
    and "att_authority_status a = AttemptAuthority.SUPERSEDED" and "(sid, d) \<in> (deps_rel (states g))\<^sup>*"
  shows "state_compatible sv (run_ops core_step g cs) sid ctx = Inr False"
proof (rule not_closure)
  note ev = later(1) [OF assms(1,2)]
  show "reuse_inv (run_ops core_step g cs)" using invD(1) [OF later(2) [OF assms(1,2)]] .
  show "(sid, d) \<in> (deps_rel (states (run_ops core_step g cs)))\<^sup>*" by (rule deps_stay [OF ev assms(7)])
  fix z assume z: "map_of (states (run_ops core_step g cs)) d = Some z"
  from evolves_D(2) [OF ev assms(5)] obtain a' where "map_of (attempts (run_ops core_step g cs)) k = Some a'"
    "att_authority_status a' = AttemptAuthority.SUPERSEDED" using assms(6) by (auto simp: attempt_step_def)
  moreover from evolves_D(3) [OF ev assms(3)] z assms(4) have "st_producer_attempt_id z = Some k"
    by (auto simp: state_step_def)
  ultimately show "\<not> admissible sv (run_ops core_step g cs) ctx z"
    by (auto simp: admissible_def producer_authorised_def)
qed

lemma superseded_production_never_reused_witness:
  "state_compatible (\<lambda>_ _. True) (snd (exec 0 demo_open (start_attempt_op ''a3'' ''r''))) ''x0'' demo_context = Inr False"
proof -
  let ?g = "snd (exec 0 demo_open (start_attempt_op ''a3'' ''r''))"
  have g: "reachable ?g"
    by (rule reachable_step [OF demo_open_reachable _ prod.collapse [symmetric]]) (simp add: names_ok_def)
  have "map_option st_producer_attempt_id (map_of (states ?g) ''x0'') = Some (Some ''a2'')"
    "map_option att_authority_status (map_of (attempts ?g) ''a2'') = Some AttemptAuthority.SUPERSEDED"
    by code_simp+
  then obtain x a where "map_of (states ?g) ''x0'' = Some x" "st_producer_attempt_id x = Some ''a2''"
    "map_of (attempts ?g) ''a2'' = Some a" "att_authority_status a = AttemptAuthority.SUPERSEDED" by auto
  from superseded_production_never_reused [OF g _ this, of "[]"] show ?thesis by simp
qed

text \<open>C12. A State never originates from superseded work, and its dependencies are causal ancestors: when
  \<open>create_state\<close> returns, the producing attempt, if any, is not superseded, and the origin continuation
  of the new State descends from the origin of every State it depends on.\<close>

theorem create_state_provenance:
  assumes "reachable g" and run: "create_state g i ty oid sem repr ds = (Inr x, g')"
  shows "(\<forall>k. st_producer_attempt_id x = Some k \<longrightarrow>
      (\<exists>a. map_of (attempts g) k = Some a \<and> att_authority_status a \<noteq> AttemptAuthority.SUPERSEDED)) \<and>
    (\<forall>d\<in>set ds. \<exists>y. map_of (states g) d = Some y \<and>
      descends (continuations g) (st_origin_continuation_id x) (st_origin_continuation_id y))"
proof -
  note ri = reachable_graph(1) [OF assms(1)]
  from run obtain org where org: "resolve_origin g ty oid = Inr org"
    and deps: "for_each (frozenset ds)
      (check_dependency g (fst org) (fst (snd (snd org))) (snd (snd (snd org)))) = Inr ()"
    and x: "x = new_state i ty oid org sem repr ds (derived_lifecycle (continuations g) (fst org))"
    by (auto simp: create_state_cases [OF ri] reads_Inr Let_def split: if_splits)
  obtain oc orq pa pp where o: "org = (oc, orq, pa, pp)" by (metis prod_cases4)
  have fields: "st_origin_type x = ty" "st_origin_id x = oid" "st_origin_continuation_id x = oc"
    "st_origin_request_id x = orq" "st_producer_attempt_id x = pa" "st_producer_phase_id x = pp"
    by (simp_all add: x new_state_def o)
  note res = resolve_origin_Inr [OF ri org [unfolded o] fields]
  from deps have "\<forall>d\<in>set ds. check_dependency g oc pa pp d = Inr ()" by (simp add: o for_each_Inr)
  with check_dependency_Inr [OF ri _ res(1) fields(3,5,6)] res(2) show ?thesis by (fastforce simp: fields)
qed

lemma create_state_provenance_witness:
  "\<exists>x y. fst (create_state demo ''new'' ''continuation'' ''c1'' ''PREFIX'' ''OPAQUE'' [''x1'']) = Inr x \<and>
     map_of (states demo) ''x1'' = Some y \<and>
     descends (continuations demo) (st_origin_continuation_id x) (st_origin_continuation_id y)"
proof -
  have "\<not> Option.is_none (case fst (create_state demo ''new'' ''continuation'' ''c1'' ''PREFIX'' ''OPAQUE'' [''x1'']) of
      Inl _ \<Rightarrow> None | Inr x \<Rightarrow> Some x)" by code_simp
  then obtain x where x: "fst (create_state demo ''new'' ''continuation'' ''c1'' ''PREFIX'' ''OPAQUE'' [''x1'']) = Inr x"
    by (auto split: sum.splits)
  then have "create_state demo ''new'' ''continuation'' ''c1'' ''PREFIX'' ''OPAQUE'' [''x1''] =
      (Inr x, snd (create_state demo ''new'' ''continuation'' ''c1'' ''PREFIX'' ''OPAQUE'' [''x1'']))"
    by (metis prod.collapse)
  from create_state_provenance [OF demo_reachable this] x show ?thesis by fastforce
qed

text \<open>The derived lifecycle is never stale: the lifecycle stored with a State is at all times the one
  its origin's descendants imply (active before waiting before speculative before terminal).\<close>

theorem lifecycle_is_derived:
  assumes "reachable g" and "map_of (states g) k = Some x"
  shows "st_lifecycle x = derived_lifecycle (continuations g) (st_origin_continuation_id x)"
  using reachable_graph(6) [OF assms(1)] assms(2) by (simp add: states_ok_def fresh_lifecycles_def)

subsection \<open>Bindings\<close>

text \<open>C14. A stale migration never commits: a candidate whose base epoch is not the current epoch of its
  subject is rejected by \<open>commit_migration\<close> then and after any further run, whatever the evidence.\<close>

theorem stale_candidate_never_commits:
  assumes "reachable g" and "well_named cs" and "map_of (bindings g) i = Some b"
    and "bnd_base_epoch b \<noteq> dict_get (current_epoch_by_subject g) (bnd_subject_id b) 0"
  shows "commit_migration clk (run_ops core_step g cs) i ids nw = (Inl SemanticViolation, run_ops core_step g cs)"
proof -
  let ?h = "run_ops core_step g cs"
  note ev = later(1) [OF assms(1,2)]
  have "bnd_base_epoch b < dict_get (current_epoch_by_subject g) (bnd_subject_id b) 0"
    using bindings_okD(1) [OF reachable_graph(7) [OF assms(1)] assms(3)] assms(4) by (auto simp: binding_ok_def)
  also have "\<dots> \<le> dict_get (current_epoch_by_subject ?h) (bnd_subject_id b) 0" by (rule evolves_D(9) [OF ev])
  finally have "bnd_base_epoch b \<noteq> dict_get (current_epoch_by_subject ?h) (bnd_subject_id b) 0" by simp
  moreover from evolves_D(4) [OF ev assms(3)] obtain s where
    "map_of (bindings ?h) i = Some (b\<lparr>bnd_status := s\<rparr>)" by (auto simp: binding_step_def)
  ultimately show ?thesis by (simp add: commit_migration_def getitem_def)
qed

lemma stale_candidate_never_commits_witness:
  "fst (commit_migration 0 (run_ops core_step
      (snd (exec 0 demo (commit_migration_op ''m2'' [''e2''] (Some 1)))) [(0, begin_migration_op ''m3'')])
      ''m3'' [''e2''] (Some 1)) = Inl SemanticViolation"
proof -
  let ?g = "snd (exec 0 demo (commit_migration_op ''m2'' [''e2''] (Some 1)))"
  have g: "reachable ?g"
    by (rule reachable_step [OF demo_reachable _ prod.collapse [symmetric]]) (simp add: names_ok_def)
  have "map_option (\<lambda>b. (bnd_base_epoch b, bnd_subject_id b)) (map_of (bindings ?g) ''m3'') = Some (1, ''subj'')"
    "dict_get (current_epoch_by_subject ?g) ''subj'' 0 = 2" by code_simp+
  then obtain b where "map_of (bindings ?g) ''m3'' = Some b" "bnd_base_epoch b = 1" "bnd_subject_id b = ''subj''"
    "dict_get (current_epoch_by_subject ?g) ''subj'' 0 = 2" by auto
  with stale_candidate_never_commits [OF g _ this(1), of "[(0, begin_migration_op ''m3'')]" 0 "[''e2'']" "Some 1"]
  show ?thesis by (simp add: names_ok_def)
qed

text \<open>C15. A migration commits if and only if its candidate is based on the current epoch, has not been
  decided yet, and the evidence grants the commit of that candidate at that epoch.\<close>

theorem migration_commits_exactly_when:
  assumes "reachable g" and "map_of (bindings g) i = Some b"
  shows "(\<exists>b' g'. commit_migration clk g i ids nw = (Inr b', g')) \<longleftrightarrow>
    bnd_base_epoch b = dict_get (current_epoch_by_subject g) (bnd_subject_id b) 0 \<and>
    bnd_status b \<in> {BindingStatus.PROPOSED, BindingStatus.MIGRATING} \<and>
    grants g ''commit_migration'' ids (resolve_now clk nw)
      (Some [(''binding'', i), (''epoch'', int_str (bnd_epoch b))]) None"
proof -
  have key: "bnd_id b = i" by (rule keyedD [OF ids_okD(21) [OF reachable_graph(3) [OF assms(1)]] assms(2)])
  have act: "map_of REQUIRED_AUTHORITY ''commit_migration'' = Some EXACT_OBSERVATION"
    by (simp add: REQUIRED_AUTHORITY_def)
  have ne: "map_of (bindings g) '''' = None"
    by (rule not_id_taken(9) [OF reuse_invD(3) [OF reachable_graph(1) [OF assms(1)]]])
  show ?thesis
    using assms(2)
    by (auto simp: commit_migration_def getitem_def require_evidence_cases act key migration_scope_def
        supersede_binding_eq [OF reachable_graph(7) [OF assms(1)] ne] Let_def split: if_splits)
qed

lemma migration_commits_exactly_when_witness:
  "grants demo ''commit_migration'' [''e2''] 1 (Some [(''binding'', ''m2''), (''epoch'', int_str 2)]) None"
proof -
  have "map_option bnd_epoch (map_of (bindings demo) ''m2'') = Some 2" by code_simp
  then obtain b where b: "map_of (bindings demo) ''m2'' = Some b" "bnd_epoch b = 2" by auto
  have "\<not> Option.is_none (case fst (commit_migration 0 demo ''m2'' [''e2''] (Some 1)) of Inl _ \<Rightarrow> None | Inr x \<Rightarrow> Some x)"
    by code_simp
  then have "\<exists>b' g'. commit_migration 0 demo ''m2'' [''e2''] (Some 1) = (Inr b', g')"
    by (auto split: sum.splits) (metis prod.collapse)
  with migration_commits_exactly_when [OF demo_reachable b(1), of 0 "[''e2'']" "Some 1"] b show ?thesis
    by (simp add: resolve_now_def)
qed

text \<open>One location at a time: two active bindings of a subject are the same binding, its epoch is the
  subject's current epoch, and every other binding of the subject that was ever proposed has a different epoch.\<close>

theorem one_active_binding:
  assumes "reachable g" and "map_of (bindings g) i = Some a" and "bnd_status a = BindingStatus.ACTIVE"
    and "map_of (bindings g) j = Some b" and "bnd_subject_id b = bnd_subject_id a"
  shows "dict_get (current_epoch_by_subject g) (bnd_subject_id a) 0 = bnd_epoch a \<and>
    (bnd_status b = BindingStatus.ACTIVE \<or> bnd_epoch b = bnd_epoch a \<longrightarrow> j = i)"
proof -
  note ok = reachable_graph(7) [OF assms(1)]
  note key = keyedD [OF ids_okD(21) [OF reachable_graph(3) [OF assms(1)]]]
  have cur: "map_of (current_binding_by_subject g) (bnd_subject_id a) = Some i"
    using bindings_okD(1) [OF ok assms(2)] assms(3) key [OF assms(2)] by (simp add: binding_ok_def)
  moreover have "j = i" if "bnd_status b = BindingStatus.ACTIVE"
    using bindings_okD(1) [OF ok assms(4)] that cur assms(5) key [OF assms(4)] by (simp add: binding_ok_def)
  moreover have "j = i" if "bnd_epoch b = bnd_epoch a"
    using bindings_okD(3) [OF ok] assms(2,4,5) that unfolding epochs_distinct_def by blast
  ultimately show ?thesis using current_epoch_eq [OF ok cur assms(2)] by blast
qed

subsection \<open>Evidence\<close>


text \<open>Reconciliation agrees with the gate: for an action it knows, \<open>reconcile\<close> never raises, and it
  answers \<open>MATCHED\<close> only if \<open>require_evidence\<close> at the same time would let the action proceed.\<close>

theorem reconcile_matches_gate:
  assumes "map_of REQUIRED_AUTHORITY a \<noteq> None"
  shows "\<exists>out. reconcile clk g a ids nw sc = Inr out \<and>
    out \<in> {MATCHED, WAIT, ReconcileOutcome.AMBIGUOUS} \<and>
    (out = MATCHED \<longrightarrow> (\<exists>good. require_evidence clk g a ids nw sc None = Inr good))"
proof -
  from assms obtain req where "map_of REQUIRED_AUTHORITY a = Some req" by auto
  then show ?thesis by (simp add: reconcile_cases require_evidence_cases)
qed

definition support_rel :: "Evidence dict \<Rightarrow> (string \<times> string) set" where
  "support_rel d = {(i, s). \<exists>e. map_of d i = Some e \<and> s \<in> set (ev_derived_from e)}"

text \<open>C19. Derivation cannot launder evidence: in a reachable core everything a valid piece of evidence was
  derived from, directly or not, is recorded and valid, at every later time.\<close>

theorem valid_evidence_has_valid_support:
  assumes "reachable g" and "well_named cs" and "map_of (evidence g) i = Some e"
    and "ev_status e = EvidenceStatus.VALID" and "(i, s) \<in> (support_rel (evidence g))\<^sup>*"
  shows "\<exists>x. map_of (evidence (run_ops core_step g cs)) s = Some x \<and> ev_status x = EvidenceStatus.VALID"
proof -
  have "\<exists>x. map_of (evidence g) s = Some x \<and> ev_status x = EvidenceStatus.VALID"
    using assms(5)
  proof (induction rule: rtrancl_induct)
    case (step y z)
    then obtain x where x: "map_of (evidence g) y = Some x" "ev_status x = EvidenceStatus.VALID" by blast
    with invD(4) [OF reachable_inv [OF assms(1)]] have "supported (evidence g) x" by (auto simp: evidence_ok_def)
    with x step(2) show ?case by (auto simp: support_rel_def supported_def)
  qed (use assms(3,4) in simp)
  with evolves_D(6) [OF later(1) [OF assms(1,2)]] show ?thesis by blast
qed

lemma valid_evidence_has_valid_support_witness:
  "\<exists>x. map_of (evidence (run_ops core_step demo [(0, begin_migration_op ''m3'')])) ''e1'' = Some x \<and>
     ev_status x = EvidenceStatus.VALID"
proof -
  have "map_option ev_status (map_of (evidence demo) ''e1'') = Some EvidenceStatus.VALID" by code_simp
  then obtain e where "map_of (evidence demo) ''e1'' = Some e" "ev_status e = EvidenceStatus.VALID" by auto
  from valid_evidence_has_valid_support [OF demo_reachable _ this, of "[(0, begin_migration_op ''m3'')]"]
  show ?thesis by (simp add: names_ok_def)
qed

subsection \<open>Graphs and numbering\<close>

text \<open>C20. The search for a cycle is exact on any core whatsoever: it always ends, never raises, and reports
  a cycle if and only if the parent edges between the session's continuations have one.\<close>

theorem cycle_search_exact:
  "has_cycle g sid = Inr (\<not> acyclic (edges (session_graph (continuations g) sid)))"
  by (rule has_cycle_correct)

text \<open>Continuations and States form acyclic graphs in every reachable core, so both cycle checks, and
  the deletions that would follow them, are never taken.\<close>

theorem graphs_stay_acyclic:
  assumes "reachable g"
  shows "has_cycle g sid = Inr False \<and> state_cycle g = Inr False \<and>
    acyclic (parents_rel (continuations g)) \<and> acyclic (deps_rel (states g))"
proof -
  note ok = reachable_graph(6) [OF assms]
  have "state_cycle g = Inr False"
  proof (rule state_cycle_False)
    show "\<exists>y. map_of (states g) d = Some y"
      if "map_of (states g) k = Some x" "d \<in> set (st_derived_from x)" for k x d
      using states_okD(2) [OF ok that(1)] that(2) by (auto simp: deps_ok_def)
  qed (use ok in \<open>simp add: states_ok_def\<close>)
  moreover have "has_cycle g sid = Inr False"
    by (rule no_cycle [OF reachable_graph(4) [OF assms] graph_invD(2) [OF reachable_graph(2) [OF assms]]])
  ultimately show ?thesis using ok reachable_graph(4) [OF assms] by (simp add: states_ok_def graph_ok_def)
qed

text \<open>\<open>is_ancestor\<close> is reachability along parent edges: for a continuation that exists it ends, does
  not raise, and answers whether the continuation descends from the candidate.\<close>

theorem is_ancestor_is_reachability:
  assumes "reachable g" and "map_of (continuations g) d = Some c"
  shows "is_ancestor g a d = Inr ((d, a) \<in> (parents_rel (continuations g))\<^sup>*)"
  by (rule is_ancestor_correct [OF reachable_graph(4) [OF assms(1)] assms(2)])

text \<open>Numbering has no gaps: the generations of a request's attempts, and the ordinals of an attempt's
  phases, in the order of creation, are 1, 2, 3 and so on.\<close>

theorem numbering_is_contiguous:
  assumes "reachable g"
  shows "map att_generation (attempts_of (attempts g) rid) = [1..int (length (attempts_of (attempts g) rid))] \<and>
    map ph_ordinal (phases_of (phases g) aid) = [1..int (length (phases_of (phases g) aid))]"
proof -
  from attempts_okD(3) [OF reachable_graph(5) [OF assms]] obtain n where
    n: "mset (map att_generation (attempts_of (attempts g) rid)) = mset [1..int n]" unfolding generations_ok_def by blast
  from reuse_invD(5) [OF reachable_graph(1) [OF assms]] obtain m where
    m: "mset (map ph_ordinal (phases_of (phases g) aid)) = mset [1..int m]" unfolding phases_ok_def by blast
  from numbering_sorted [OF n] numbering_sorted [OF m] reachable_in_order [OF assms] show ?thesis
    by (simp add: in_order_def)
qed

subsection \<open>Events\<close>

text \<open>The event log is append-only and idempotent: after any run the log starts with what it held, an event
  that was recorded is recorded unchanged, recording an equal event again changes nothing, and recording a
  different event under its identity raises.\<close>

theorem event_log_append_only:
  assumes "reachable g" and "well_named cs" and "map_of (events g) (sev_id e) = Some old"
    and h: "h = run_ops core_step g cs"
  shows "(\<exists>more. event_order h = event_order g @ more) \<and>
    record_event h e = (if event_eq old e then Inr old else Inl SemanticViolation, h)"
proof -
  note ev = later(1) [OF assms(1,2), folded h]
  from evolves_D(7) [OF ev assms(3)] have "map_of (events h) (sev_id e) = Some old" .
  then show ?thesis using evolves_D(8) [OF ev] by (simp add: record_event_def)
qed

subsection \<open>What the checks do not exclude\<close>

definition empty_name_ops :: "operation list" where
  "empty_name_ops =
     [create_program_op ''p'', create_session_op ''s'' ''p'',
      create_continuation_op ''c'' ''s'' [] ContinuationLifecycle.ACTIVE,
      create_request_op ''r'' ''c'', start_attempt_op '''' ''r'', start_attempt_op ''a'' ''r'']"

text \<open>The empty identifier defeats the authority protocol: the tests \<open>if r.current_attempt_id\<close> and
  \<open>if old_id\<close> are on the truth value of a string, so an attempt created under the empty identifier
  (which \<open>_unique\<close> admits) is not superseded by its successor, and both are current; the oracle rejects the
  core that results. This is why the other properties require identifiers that are not empty.\<close>

theorem empty_identifier_breaks_authority:
  "map att_authority_status (attempts_of (attempts (run_demo empty_name_ops)) ''r'') =
     [AttemptAuthority.CURRENT, AttemptAuthority.CURRENT] \<and>
   assert_all (\<lambda>_ _. True) (run_demo empty_name_ops) = Inl AssertionError"
  by code_simp

end
