(* ===== verification/Sim_Events.thy ===== *)
theory Sim_Events
  imports Py_Prelude "HOL-Library.List_Lexorder" "HOL-Library.Char_ord" "HOL-Library.Product_Lexorder"
    "HOL-Library.Multiset"
begin

section \<open>Simulator events\<close>

text \<open>
  \<open>simulator/events.py\<close>: the kinds of events, the freezing of payloads and the validated event.

  A value whose Python type the code inspects is a \<open>pyval\<close>. A \<open>float\<close> is an exact rational or one
  of the three non-finite values, because \<open>math.isfinite\<close> is what the code asks for; a dictionary
  is the list of its items, and \<open>PObject\<close> stands for a value of any type the code does not name.
\<close>

subsection \<open>Values\<close>

datatype pyfloat = Fin rat | PosInf | NegInf | NaN

datatype pyval =
    PNone
  | PBool bool
  | PInt int
  | PFloat pyfloat
  | PStr string
  | PTuple "pyval list"
  | PList "pyval list"
  | PDict "(pyval \<times> pyval) list"
  | PObject

type_synonym payload = "(string \<times> pyval) list"

definition is_str :: "pyval \<Rightarrow> string option" where
  "is_str v = (case v of PStr s \<Rightarrow> Some s | _ \<Rightarrow> None)"

text \<open>\<open>float(value)\<close> of a number that is not a boolean, if it is finite.\<close>

definition finite_number :: "pyval \<Rightarrow> rat res" where
  "finite_number v =
     (case v of PInt i \<Rightarrow> Inr (of_int i)
      | PFloat (Fin r) \<Rightarrow> Inr r
      | PFloat _ \<Rightarrow> Inl ValueError
      | _ \<Rightarrow> Inl TypeError)"

lemma finite_number_simps [simp]:
  "finite_number (PInt i) = Inr (of_int i)"
  "finite_number (PFloat (Fin r)) = Inr r"
  by (simp_all add: finite_number_def)

subsection \<open>Event kinds\<close>

datatype EventKind =
    REQUEST_CREATED | ATTEMPT_STARTED | ATTEMPT_TIMEOUT | ATTEMPT_COMPLETED | ATTEMPT_FAILED
  | RETRY_STARTED | LATE_RESULT
  | STATE_CREATED | STATE_MATERIALIZATION_STARTED | STATE_MATERIALIZED | STATE_TRANSFER_STARTED
  | STATE_TRANSFER_COMPLETED | STATE_TRANSFER_FAILED | STATE_MOVED | STATE_EVICTED | STATE_LOST
  | MIGRATION_STARTED | MIGRATION_COMMITTED | MIGRATION_FAILED
  | WORKER_FAILED | WORKER_RECOVERED | WORKER_TASK_ENQUEUED | WORKER_TASK_COMPLETED
  | WORKER_TASK_FAILED
  | OBSERVATION_CREATED | OBSERVATION_DELAYED | OBSERVATION_DROPPED | OBSERVATION_DUPLICATED
  | TOOL_WAIT_STARTED | TOOL_RETURNED | CONTINUATION_FORKED | CONTINUATION_JOINED
  | CONTINUATION_ABANDONED | CONTINUATION_TERMINATED

subsection \<open>Freezing a payload\<close>

text \<open>
  The keys of a Python dictionary are distinct, so sorting its items compares keys only.
\<close>

definition sorted_items :: "(string \<times> 'a) list \<Rightarrow> (string \<times> 'a) list" where
  "sorted_items items = sort_key fst items"

definition str_key :: "pyval \<Rightarrow> string res" where
  "str_key k = (case k of PStr s \<Rightarrow> Inr s | _ \<Rightarrow> Inl TypeError)"

lemma str_key_Inr [simp]: "str_key k = Inr s \<longleftrightarrow> k = PStr s"
  by (cases k) (auto simp: str_key_def)

definition pair_value :: "string \<times> pyval \<Rightarrow> pyval" where
  "pair_value p = PTuple [PStr (fst p), snd p]"

fun freeze_value :: "pyval \<Rightarrow> pyval res"
  and freeze_values :: "pyval list \<Rightarrow> pyval list res"
  and freeze_items :: "(pyval \<times> pyval) list \<Rightarrow> (string \<times> pyval) list res" where
  "freeze_value PNone = Inr PNone"
| "freeze_value (PBool b) = Inr (PBool b)"
| "freeze_value (PInt i) = Inr (PInt i)"
| "freeze_value (PStr s) = Inr (PStr s)"
| "freeze_value (PFloat (Fin r)) = Inr (PFloat (Fin r))"
| "freeze_value (PFloat PosInf) = Inl ValueError"
| "freeze_value (PFloat NegInf) = Inl ValueError"
| "freeze_value (PFloat NaN) = Inl ValueError"
| "freeze_value (PTuple xs) = bind_res (freeze_values xs) (\<lambda>ys. Inr (PTuple ys))"
| "freeze_value (PList xs) = bind_res (freeze_values xs) (\<lambda>ys. Inr (PTuple ys))"
| "freeze_value (PDict items) =
     bind_res (freeze_items items) (\<lambda>ps. Inr (PTuple (map pair_value (sorted_items ps))))"
| "freeze_value PObject = Inl TypeError"
| "freeze_values [] = Inr []"
| "freeze_values (x # xs) =
     bind_res (freeze_value x) (\<lambda>y. bind_res (freeze_values xs) (\<lambda>ys. Inr (y # ys)))"
| "freeze_items [] = Inr []"
| "freeze_items ((k, v) # items) =
     bind_res (str_key k) (\<lambda>s.
     bind_res (freeze_value v) (\<lambda>y. bind_res (freeze_items items) (\<lambda>ps. Inr ((s, y) # ps))))"

definition freeze_payload :: "pyval \<Rightarrow> payload res" where
  "freeze_payload v =
     (case v of PNone \<Rightarrow> Inr []
      | PDict items \<Rightarrow> bind_res (freeze_items items) (\<lambda>ps. Inr (sorted_items ps))
      | _ \<Rightarrow> Inl TypeError)"

text \<open>A frozen value is immutable: it holds no list, no dictionary and no non-finite float.\<close>

fun frozen_value :: "pyval \<Rightarrow> bool"
  and frozen_values :: "pyval list \<Rightarrow> bool" where
  "frozen_value PNone = True"
| "frozen_value (PBool b) = True"
| "frozen_value (PInt i) = True"
| "frozen_value (PStr s) = True"
| "frozen_value (PFloat x) = (case x of Fin r \<Rightarrow> True | _ \<Rightarrow> False)"
| "frozen_value (PTuple xs) = frozen_values xs"
| "frozen_value (PList xs) = False"
| "frozen_value (PDict items) = False"
| "frozen_value PObject = False"
| "frozen_values [] = True"
| "frozen_values (x # xs) = (frozen_value x \<and> frozen_values xs)"

lemma frozen_values_iff: "frozen_values xs = list_all frozen_value xs"
  by (induction xs) simp_all

lemma set_sorted_items [simp]: "set (sorted_items ps) = set ps"
  by (simp add: sorted_items_def)

lemma frozen_pair_values:
  "list_all frozen_value (map pair_value ps) \<longleftrightarrow> list_all (\<lambda>p. frozen_value (snd p)) ps"
  by (simp add: list_all_iff pair_value_def frozen_values_iff)

lemma freeze_frozen:
  "freeze_value v = Inr y \<Longrightarrow> frozen_value y"
  "freeze_values xs = Inr ys \<Longrightarrow> list_all frozen_value ys"
  "freeze_items items = Inr ps \<Longrightarrow> list_all (\<lambda>p. frozen_value (snd p)) ps"
proof (induction v and xs and items arbitrary: y and ys and ps
    rule: freeze_value_freeze_values_freeze_items.induct)
  case (11 items)
  then obtain ps where "freeze_items items = Inr ps" "y = PTuple (map pair_value (sorted_items ps))"
    by (auto simp: bind_res_Inr)
  with "11.IH" have "list_all frozen_value (map pair_value (sorted_items ps))"
    unfolding frozen_pair_values by (simp add: list_all_iff)
  then show ?case by (simp add: \<open>y = _\<close> frozen_values_iff)
qed (auto simp: bind_res_Inr frozen_values_iff)

lemma freeze_of_frozen:
  "frozen_value v \<Longrightarrow> freeze_value v = Inr v"
  "frozen_values xs \<Longrightarrow> freeze_values xs = Inr xs"
proof (induction v and xs rule: frozen_value_frozen_values.induct)
  case (5 x)
  then show ?case by (cases x) auto
qed auto

lemma freeze_payload_frozen:
  assumes "freeze_payload v = Inr p"
  shows "list_all (\<lambda>kv. frozen_value (snd kv)) p \<and> sorted (map fst p)"
proof (cases "\<exists>items. v = PDict items")
  case True
  then obtain items ps where "v = PDict items" and f: "freeze_items items = Inr ps"
    and p: "p = sorted_items ps"
    using assms by (auto simp: freeze_payload_def bind_res_Inr)
  have "list_all (\<lambda>kv. frozen_value (snd kv)) ps" by (rule freeze_frozen(3) [OF f])
  then show ?thesis by (simp add: p list_all_iff sorted_items_def)
next
  case False
  with assms have "p = []" by (cases v) (auto simp: freeze_payload_def)
  then show ?thesis by simp
qed

lemma freeze_items_keys: "freeze_items items = Inr ps \<Longrightarrow> map (PStr \<circ> fst) ps = map fst items"
  by (induction items arbitrary: ps rule: freeze_value_freeze_values_freeze_items.induct(3)
        [where P = "\<lambda>_. True" and Q = "\<lambda>_. True"])
     (auto simp: bind_res_Inr)

text \<open>The order in which a dictionary was filled does not show in its frozen form.\<close>

lemma freeze_items_Inr:
  "freeze_items items = Inr ps \<longleftrightarrow>
     list_all2 (\<lambda>i p. str_key (fst i) = Inr (fst p) \<and> freeze_value (snd i) = Inr (snd p)) items ps"
  by (induction items arbitrary: ps) (auto simp: bind_res_Inr list_all2_Cons1)

lemma freeze_payload_order:
  assumes f: "freeze_payload (PDict items) = Inr p" and d: "distinct (map fst items)"
    and m: "mset items' = mset items"
  shows "freeze_payload (PDict items') = Inr p"
proof -
  from f obtain ps where ps: "freeze_items items = Inr ps" and p: "p = sorted_items ps"
    by (auto simp: freeze_payload_def bind_res_Inr)
  obtain ps' where ps': "freeze_items items' = Inr ps'" and m': "mset ps' = mset ps"
    using list_all2_reorder_left_invariance [OF ps [unfolded freeze_items_Inr] m] by (auto simp: freeze_items_Inr)
  have "distinct (map (PStr \<circ> fst) ps)" using freeze_items_keys [OF ps] d by simp
  then have "distinct (map fst ps)" by (auto simp: distinct_map inj_on_def)
  with m' have "inj_on fst (set ps')" by (metis distinct_map set_mset_mset)
  then have "sort_key fst ps' = sort_key fst ps"
    using m' by (intro sort_key_inj_key_eq) simp_all
  with ps' show ?thesis by (simp add: freeze_payload_def p sorted_items_def)
qed

subsection \<open>Events\<close>

record SimEvent =
  ev_time :: rat
  ev_sequence :: nat
  ev_id :: string
  ev_kind :: EventKind
  ev_payload :: payload

text \<open>
  \<open>SimEvent(...)\<close> with \<open>__post_init__\<close>: the type and range of the time, the sequence number and
  the identifier are checked. That the kind is an \<open>EventKind\<close> and the payload a tuple holds by
  typing here.
\<close>

definition new_SimEvent :: "pyval \<Rightarrow> pyval \<Rightarrow> pyval \<Rightarrow> EventKind \<Rightarrow> payload \<Rightarrow> SimEvent res" where
  "new_SimEvent time seq i kind payload =
     bind_res (finite_number time) (\<lambda>t.
     bind_res (raise_if (t < 0) ValueError) (\<lambda>_.
     bind_res (case seq of PInt n \<Rightarrow> if n < 0 then Inl ValueError else Inr (nat n) | _ \<Rightarrow> Inl ValueError) (\<lambda>n.
     bind_res (case i of PStr s \<Rightarrow> if s = '''' then Inl ValueError else Inr s | _ \<Rightarrow> Inl ValueError) (\<lambda>s.
     Inr \<lparr>ev_time = t, ev_sequence = n, ev_id = s, ev_kind = kind, ev_payload = payload\<rparr>))))"

lemma new_SimEvent_Inr [simp]:
  "0 \<le> t \<Longrightarrow> s \<noteq> '''' \<Longrightarrow> new_SimEvent (PFloat (Fin t)) (PInt (int n)) (PStr s) k p =
     Inr \<lparr>ev_time = t, ev_sequence = n, ev_id = s, ev_kind = k, ev_payload = p\<rparr>"
  by (simp add: new_SimEvent_def)

lemma new_SimEvent_valid:
  assumes "new_SimEvent time seq i kind payload = Inr ev"
  shows "0 \<le> ev_time ev \<and> ev_id ev \<noteq> ''''"
  using assms by (auto simp: new_SimEvent_def bind_res_Inr split: pyval.splits if_splits)

text \<open>Events are ordered by their time, then by their sequence number, and by nothing else.\<close>

definition ev_key :: "SimEvent \<Rightarrow> rat \<times> nat" where
  "ev_key ev = (ev_time ev, ev_sequence ev)"

text \<open>\<open>dict(event.payload)[key]\<close> and the use of the result as a key of a string-keyed dictionary.\<close>

definition payload_item :: "SimEvent \<Rightarrow> string \<Rightarrow> pyval res" where
  "payload_item ev k = getitem (ev_payload ev) k"

definition vlookup :: "'v dict \<Rightarrow> pyval \<Rightarrow> 'v option" where
  "vlookup d v = (case v of PStr s \<Rightarrow> map_of d s | _ \<Rightarrow> None)"

lemma vlookup_Some: "vlookup d v = Some x \<longleftrightarrow> (\<exists>s. v = PStr s \<and> map_of d s = Some x)"
  by (auto simp: vlookup_def split: pyval.splits)

end
