(* ===== verification/Sim_Engine.thy ===== *)
theory Sim_Engine
  imports Machine Sim_Events
begin

section \<open>The discrete-event engine\<close>

text \<open>
  \<open>simulator/engine.py\<close>. The heap is a list in the order of the events' keys: \<open>heapq\<close> promises that
  \<open>queue[0]\<close> and \<open>heappop\<close> are the least element, and nothing else of its layout is observed.
  Handlers are registered under names of a type \<open>'h\<close>; what a name does is a function \<open>call\<close> on the
  engine's state and the state \<open>'w\<close> of the objects the handlers belong to. A draw of the random
  generator is an argument of the operations that use it.

  The loop of \<open>run\<close> may go on forever (a handler may always schedule the next event), so it is a
  partial function: the value \<open>None\<close> stands for not returning.
\<close>

record 'h sim =
  sim_seed :: int
  sim_now :: rat
  sim_queue :: "SimEvent list"
  sim_handlers :: "(EventKind \<times> 'h list) list"
  sim_cancelled :: "string set"
  sim_pending_ids :: "string set"
  sim_known_ids :: "string set"
  sim_trace :: "SimEvent list"
  sim_next_sequence :: nat

definition new_simulator :: "pyval \<Rightarrow> 'h sim res" where
  "new_simulator seed =
     (case seed of
        PInt n \<Rightarrow> Inr \<lparr>sim_seed = n, sim_now = 0, sim_queue = [], sim_handlers = [],
          sim_cancelled = {}, sim_pending_ids = {}, sim_known_ids = {}, sim_trace = [],
          sim_next_sequence = 0\<rparr>
      | _ \<Rightarrow> Inl TypeError)"

definition handlers_for :: "'h sim \<Rightarrow> EventKind \<Rightarrow> 'h list" where
  "handlers_for s kind = (case map_of (sim_handlers s) kind of None \<Rightarrow> [] | Some hs \<Rightarrow> hs)"

definition register_handler :: "'h sim \<Rightarrow> EventKind \<Rightarrow> 'h \<Rightarrow> 'h sim" where
  "register_handler s kind h =
     s\<lparr>sim_handlers := AList.update kind (handlers_for s kind @ [h]) (sim_handlers s)\<rparr>"

definition pending_events :: "'h sim \<Rightarrow> SimEvent list" where
  "pending_events s = filter (\<lambda>ev. ev_id ev \<notin> sim_cancelled s) (sim_queue s)"

subsection \<open>Scheduling and cancelling\<close>

definition finite_nonnegative :: "pyval \<Rightarrow> rat res" where
  "finite_nonnegative v =
     bind_res (finite_number v) (\<lambda>r. if r < 0 then Inl ValueError else Inr r)"

definition event_time_of :: "'h sim \<Rightarrow> pyval \<Rightarrow> pyval \<Rightarrow> rat res" where
  "event_time_of s at_time delay =
     (if at_time = PNone
      then bind_res (if delay = PNone then Inr 0 else finite_nonnegative delay)
             (\<lambda>d. Inr (sim_now s + d))
      else bind_res (finite_nonnegative at_time)
             (\<lambda>t. if t < sim_now s then Inl ValueError else Inr t))"

text \<open>\<open>f"event-{sequence:08d}"\<close>.\<close>

definition default_event_id :: "nat \<Rightarrow> string" where
  "default_event_id n =
     ''event-'' @ replicate (8 - length (nat_str n)) (CHR ''0'') @ nat_str n"

definition event_id_of :: "'h sim \<Rightarrow> pyval \<Rightarrow> string res" where
  "event_id_of s i =
     bind_res (case i of PNone \<Rightarrow> Inr (default_event_id (sim_next_sequence s))
               | PStr t \<Rightarrow> if t = '''' then Inl ValueError else Inr t
               | _ \<Rightarrow> Inl ValueError) (\<lambda>t.
     if t \<in> sim_known_ids s then Inl ValueError else Inr t)"

definition schedule ::
    "'h sim \<Rightarrow> EventKind \<Rightarrow> pyval \<Rightarrow> pyval \<Rightarrow> pyval \<Rightarrow> pyval \<Rightarrow> ('h sim, SimEvent) outcome" where
  "schedule s kind at_time delay event_id payload =
     reads s (raise_if (at_time \<noteq> PNone \<and> delay \<noteq> PNone) ValueError) (\<lambda>_.
     reads s (event_time_of s at_time delay) (\<lambda>t.
     reads s (event_id_of s event_id) (\<lambda>i.
     reads s (freeze_payload payload) (\<lambda>p.
     reads s (new_SimEvent (PFloat (Fin t)) (PInt (int (sim_next_sequence s))) (PStr i) kind p) (\<lambda>ev.
     (Inr ev,
      s\<lparr>sim_next_sequence := sim_next_sequence s + 1,
        sim_known_ids := insert i (sim_known_ids s),
        sim_pending_ids := insert i (sim_pending_ids s),
        sim_queue := insort_key ev_key ev (sim_queue s)\<rparr>))))))"

definition cancel :: "'h sim \<Rightarrow> string \<Rightarrow> bool \<times> 'h sim" where
  "cancel s i =
     (if i \<notin> sim_pending_ids s \<or> i \<in> sim_cancelled s then (False, s)
      else (True, s\<lparr>sim_cancelled := insert i (sim_cancelled s)\<rparr>))"

subsection \<open>Running\<close>

fun call_all ::
    "('h \<Rightarrow> SimEvent \<Rightarrow> 's \<Rightarrow> ('s, unit) outcome) \<Rightarrow> 'h list \<Rightarrow> SimEvent \<Rightarrow> 's \<Rightarrow> ('s, unit) outcome" where
  "call_all call [] ev st = (Inr (), st)"
| "call_all call (h # hs) ev st = calls (call h ev st) (\<lambda>_ st'. call_all call hs ev st')"

text \<open>
  One pass through the body of the \<open>while\<close> loop: the loop either stops, with an exception or with
  the value of \<open>hit_limit\<close>, or goes on with the new count of processed events.
\<close>

datatype 's pass = Stop "py_error + bool" 's | Continue nat 's

definition run_body ::
    "('h \<Rightarrow> SimEvent \<Rightarrow> 'h sim \<times> 'w \<Rightarrow> ('h sim \<times> 'w, unit) outcome) \<Rightarrow> rat option \<Rightarrow> nat option \<Rightarrow>
     nat \<Rightarrow> 'h sim \<times> 'w \<Rightarrow> ('h sim \<times> 'w) pass" where
  "run_body call horizon max_events processed st =
     (case sim_queue (fst st) of
        [] \<Rightarrow> Stop (Inr False) st
      | ev # rest \<Rightarrow>
          if (case horizon of None \<Rightarrow> False | Some h \<Rightarrow> ev_time ev > h) then Stop (Inr False) st
          else
            let s = (fst st)\<lparr>sim_queue := rest, sim_pending_ids := sim_pending_ids (fst st) - {ev_id ev}\<rparr> in
            if ev_id ev \<in> sim_cancelled s
            then Continue processed (s\<lparr>sim_cancelled := sim_cancelled s - {ev_id ev}\<rparr>, snd st)
            else if ev_time ev < sim_now s then Stop (Inl RuntimeError) (s, snd st)
            else
              let s = s\<lparr>sim_now := ev_time ev, sim_trace := sim_trace s @ [ev]\<rparr> in
              (case call_all call (handlers_for s (ev_kind ev)) ev (s, snd st) of
                 (Inl e, st') \<Rightarrow> Stop (Inl e) st'
               | (Inr _, st') \<Rightarrow>
                   (case max_events of
                      None \<Rightarrow> Continue (processed + 1) st'
                    | Some m \<Rightarrow> if processed + 1 \<ge> m then Stop (Inr True) st'
                                else Continue (processed + 1) st')))"

partial_function (option) run_loop ::
    "('h \<Rightarrow> SimEvent \<Rightarrow> 'h sim \<times> 'w \<Rightarrow> ('h sim \<times> 'w, unit) outcome) \<Rightarrow> rat option \<Rightarrow> nat option \<Rightarrow>
     nat \<Rightarrow> 'h sim \<times> 'w \<Rightarrow> ('h sim \<times> 'w, bool) outcome option" where
  "run_loop call horizon max_events processed st =
     (case run_body call horizon max_events processed st of
        Stop r st' \<Rightarrow> Some (r, st')
      | Continue n st' \<Rightarrow> run_loop call horizon max_events n st')"

declare run_loop.simps [code]

definition run_horizon :: "'h sim \<Rightarrow> pyval \<Rightarrow> rat option res" where
  "run_horizon s until =
     (if until = PNone then Inr None
      else bind_res (finite_nonnegative until) (\<lambda>h. if h < sim_now s then Inl ValueError else Inr (Some h)))"

definition run_limit :: "pyval \<Rightarrow> nat option res" where
  "run_limit max_events =
     (case max_events of
        PNone \<Rightarrow> Inr None
      | PInt n \<Rightarrow> if n \<le> 0 then Inl ValueError else Inr (Some (nat n))
      | _ \<Rightarrow> Inl ValueError)"

definition finish_run :: "rat option \<Rightarrow> bool \<Rightarrow> 'h sim \<Rightarrow> 'h sim" where
  "finish_run horizon hit_limit s =
     (case horizon of
        None \<Rightarrow> s
      | Some h \<Rightarrow> if \<not> hit_limit \<and> sim_now s < h then s\<lparr>sim_now := h\<rparr> else s)"

definition run_sim ::
    "('h \<Rightarrow> SimEvent \<Rightarrow> 'h sim \<times> 'w \<Rightarrow> ('h sim \<times> 'w, unit) outcome) \<Rightarrow> 'h sim \<times> 'w \<Rightarrow> pyval \<Rightarrow> pyval \<Rightarrow>
     ('h sim \<times> 'w, SimEvent list) outcome option" where
  "run_sim call st until max_events =
     (case bind_res (run_horizon (fst st) until) (\<lambda>h. bind_res (run_limit max_events) (\<lambda>l. Inr (h, l))) of
        Inl e \<Rightarrow> Some (Inl e, st)
      | Inr (horizon, limit) \<Rightarrow>
          map_option
            (\<lambda>(q, st'). case q of
                Inl e \<Rightarrow> (Inl e, st')
              | Inr hit_limit \<Rightarrow>
                  (Inr (drop (length (sim_trace (fst st))) (sim_trace (fst st'))),
                   (finish_run horizon hit_limit (fst st'), snd st')))
            (run_loop call horizon limit 0 st))"

definition run_next ::
    "('h \<Rightarrow> SimEvent \<Rightarrow> 'h sim \<times> 'w \<Rightarrow> ('h sim \<times> 'w, unit) outcome) \<Rightarrow> 'h sim \<times> 'w \<Rightarrow>
     ('h sim \<times> 'w, SimEvent option) outcome option" where
  "run_next call st =
     map_option (\<lambda>(r, st'). (map_sum id (\<lambda>evs. case evs of [] \<Rightarrow> None | ev # _ \<Rightarrow> Some ev) r, st'))
       (run_sim call st PNone (PInt 1))"

subsection \<open>Calls from other objects\<close>

text \<open>
  \<open>self.simulator.schedule(kind, delay=..., event_id=..., payload=...)\<close> and
  \<open>self.simulator.cancel(...)\<close> of an optional identifier, called from an object whose own state is
  not touched by it.
\<close>

definition sched :: "'h sim \<times> 'w \<Rightarrow> EventKind \<Rightarrow> pyval \<Rightarrow> pyval \<Rightarrow> pyval \<Rightarrow> ('h sim \<times> 'w, SimEvent) outcome" where
  "sched st kind delay event_id payload =
     (case schedule (fst st) kind PNone delay event_id payload of (r, s) \<Rightarrow> (r, (s, snd st)))"

definition cancel_truthy :: "string option \<Rightarrow> 'h sim \<times> 'w \<Rightarrow> 'h sim \<times> 'w" where
  "cancel_truthy i st =
     (case i of None \<Rightarrow> st | Some e \<Rightarrow> if e = '''' then st else (snd (cancel (fst st) e), snd st))"

text \<open>A \<open>for\<close> loop over a snapshot, whose body changes the state and may raise.\<close>

fun for_loop :: "'a list \<Rightarrow> ('a \<Rightarrow> 's \<Rightarrow> ('s, unit) outcome) \<Rightarrow> 's \<Rightarrow> ('s, unit) outcome" where
  "for_loop [] body st = (Inr (), st)"
| "for_loop (x # xs) body st = calls (body x st) (\<lambda>_ st'. for_loop xs body st')"

subsection \<open>Random draws\<close>

text \<open>
  \<open>random_uniform\<close> and \<open>random_choice\<close> on a draw: a number \<open>0 \<le> u < 1\<close> of \<open>random()\<close>, from which
  \<open>uniform(a, b)\<close> is \<open>a + (b - a) * u\<close>, and an index of \<open>randrange(len(values))\<close>.
\<close>

definition random_uniform :: "rat \<Rightarrow> pyval \<Rightarrow> pyval \<Rightarrow> rat res" where
  "random_uniform u low high =
     bind_res (finite_number low) (\<lambda>l.
     bind_res (finite_number high) (\<lambda>h.
     if h < l then Inl ValueError else Inr (l + (h - l) * u)))"

definition random_choice :: "nat \<Rightarrow> 'a list \<Rightarrow> 'a res" where
  "random_choice i values = (if values = [] then Inl ValueError else Inr (values ! i))"

subsection \<open>The invariant of the engine\<close>

text \<open>
  What was executed and what is pending are, in this order, strictly increasing in the order of
  events; the clock lies between the two; identifiers are used once.
\<close>

definition sim_ok :: "'h sim \<Rightarrow> bool" where
  "sim_ok s \<longleftrightarrow>
     sorted_wrt (\<lambda>a b. ev_key a < ev_key b) (sim_trace s @ sim_queue s) \<and>
     0 \<le> sim_now s \<and>
     (\<forall>ev\<in>set (sim_trace s). ev_time ev \<le> sim_now s) \<and>
     (\<forall>ev\<in>set (sim_queue s). sim_now s \<le> ev_time ev) \<and>
     (\<forall>ev\<in>set (sim_trace s @ sim_queue s). ev_sequence ev < sim_next_sequence s \<and> ev_id ev \<in> sim_known_ids s) \<and>
     distinct (map ev_id (sim_trace s @ sim_queue s)) \<and>
     sim_pending_ids s = ev_id ` set (sim_queue s) \<and>
     sim_cancelled s \<subseteq> ev_id ` set (sim_queue s)"

text \<open>How an engine may change over time: the clock moves forward, history is only appended to, and the
  handlers stay registered.\<close>

definition sim_evolves :: "'h sim \<Rightarrow> 'h sim \<Rightarrow> bool" where
  "sim_evolves s s' \<longleftrightarrow>
     sim_now s \<le> sim_now s' \<and> (\<exists>evs. sim_trace s' = sim_trace s @ evs) \<and>
     sim_known_ids s \<subseteq> sim_known_ids s' \<and> sim_next_sequence s \<le> sim_next_sequence s' \<and>
     sim_handlers s' = sim_handlers s"

lemma sim_evolves_refl: "sim_evolves s s"
  by (simp add: sim_evolves_def)

lemma sim_evolves_trans: "sim_evolves s t \<Longrightarrow> sim_evolves t u \<Longrightarrow> sim_evolves s u"
  by (auto simp: sim_evolves_def)

lemma new_simulator_ok: "new_simulator seed = Inr s \<Longrightarrow> sim_ok s"
  by (auto simp: new_simulator_def sim_ok_def split: pyval.splits)

lemma register_handler_ok: "sim_ok s \<Longrightarrow> sim_ok (register_handler s k h)"
  by (simp add: sim_ok_def register_handler_def)

lemma sorted_wrt_insort_key:
  fixes f :: "'a \<Rightarrow> 'k::linorder"
  assumes "sorted_wrt (\<lambda>a b. f a < f b) xs" and "\<forall>y\<in>set xs. f y \<noteq> f x"
  shows "sorted_wrt (\<lambda>a b. f a < f b) (insort_key f x xs)"
  using assms by (induction xs) (auto simp: set_insort_key not_le)

lemma ev_key_less:
  "ev_key a < ev_key b \<longleftrightarrow> ev_time a < ev_time b \<or> ev_time a = ev_time b \<and> ev_sequence a < ev_sequence b"
  by (auto simp: ev_key_def)

lemma default_event_id_nonempty: "default_event_id n \<noteq> []"
  by (simp add: default_event_id_def)

lemma event_id_of_Inr: "event_id_of s i = Inr t \<Longrightarrow> t \<noteq> [] \<and> t \<notin> sim_known_ids s"
  by (auto simp: event_id_of_def bind_res_Inr default_event_id_nonempty split: pyval.splits if_splits)

lemma finite_nonnegative_Inr: "finite_nonnegative v = Inr r \<Longrightarrow> 0 \<le> r"
  by (auto simp: finite_nonnegative_def bind_res_Inr split: if_splits)

lemma event_time_of_Inr: "event_time_of s a d = Inr t \<Longrightarrow> sim_now s \<le> t"
  by (auto simp: event_time_of_def bind_res_Inr dest: finite_nonnegative_Inr split: if_splits)

text \<open>The event that a successful call schedules, and the state it leaves.\<close>

lemma schedule_cases:
  assumes "schedule s kind a d i p = (r, s')" and "0 \<le> sim_now s"
  obtains (error) e where "r = Inl e" and "s' = s"
  | (scheduled) ev where "r = Inr ev" and "ev_kind ev = kind" and "sim_now s \<le> ev_time ev"
      and "ev_sequence ev = sim_next_sequence s" and "ev_id ev \<notin> sim_known_ids s" and "ev_id ev \<noteq> []"
      and "freeze_payload p = Inr (ev_payload ev)"
      and "event_time_of s a d = Inr (ev_time ev)" and "event_id_of s i = Inr (ev_id ev)"
      and "s' = s\<lparr>sim_next_sequence := sim_next_sequence s + 1,
        sim_known_ids := insert (ev_id ev) (sim_known_ids s),
        sim_pending_ids := insert (ev_id ev) (sim_pending_ids s),
        sim_queue := insort_key ev_key ev (sim_queue s)\<rparr>"
proof (cases r)
  case (Inl e)
  then have "s' = s" using assms(1) by (auto simp: schedule_def reads_Inl)
  then show ?thesis using error Inl by blast
next
  case (Inr ev)
  then obtain t j q where t: "event_time_of s a d = Inr t" and j: "event_id_of s i = Inr j"
    and q: "freeze_payload p = Inr q"
    and ev: "new_SimEvent (PFloat (Fin t)) (PInt (int (sim_next_sequence s))) (PStr j) kind q = Inr ev"
    and s': "s' = s\<lparr>sim_next_sequence := sim_next_sequence s + 1,
        sim_known_ids := insert j (sim_known_ids s),
        sim_pending_ids := insert j (sim_pending_ids s),
        sim_queue := insort_key ev_key ev (sim_queue s)\<rparr>"
    using assms(1) by (auto simp: schedule_def reads_Inr)
  have "0 \<le> t" using event_time_of_Inr [OF t] assms(2) by simp
  with ev event_id_of_Inr [OF j]
  have "ev = \<lparr>ev_time = t, ev_sequence = sim_next_sequence s, ev_id = j, ev_kind = kind, ev_payload = q\<rparr>"
    by simp
  then show ?thesis
    using scheduled [of ev] Inr t j q s' event_id_of_Inr [OF j] event_time_of_Inr [OF t] by simp
qed

lemma schedule_ok:
  assumes ok: "sim_ok s" and run: "schedule s kind a d i p = (r, s')"
  shows "sim_ok s'" and "sim_evolves s s'"
proof -
  have now: "0 \<le> sim_now s" using ok by (simp add: sim_ok_def)
  from run now show "sim_ok s'"
  proof (cases rule: schedule_cases)
    case error
    with ok show ?thesis by simp
  next
    case (scheduled ev)
    have "\<forall>x\<in>set (sim_queue s). ev_sequence x < ev_sequence ev"
      using ok scheduled(4) by (simp add: sim_ok_def)
    then have fresh: "\<forall>x\<in>set (sim_queue s). ev_key x \<noteq> ev_key ev"
      by (auto simp: ev_key_def)
    have above: "\<forall>x\<in>set (sim_trace s). ev_key x < ev_key ev"
      using ok scheduled(3,4) by (fastforce simp: sim_ok_def ev_key_less)
    have "\<forall>x\<in>set (sim_trace s @ sim_queue s). ev_id x \<in> sim_known_ids s"
      using ok unfolding sim_ok_def by blast
    then have new: "ev_id ev \<notin> ev_id ` set (sim_trace s @ sim_queue s)"
      using scheduled(5) by (metis imageE)
    have "sorted_wrt (\<lambda>a b. ev_key a < ev_key b) (sim_trace s @ insort_key ev_key ev (sim_queue s))"
      using ok above fresh
      by (auto simp: sim_ok_def sorted_wrt_append set_insort_key intro: sorted_wrt_insort_key)
    moreover have "distinct (map ev_id (sim_trace s @ insort_key ev_key ev (sim_queue s)))"
    proof -
      have "mset (map ev_id (sim_trace s @ insort_key ev_key ev (sim_queue s))) =
          mset (ev_id ev # map ev_id (sim_trace s @ sim_queue s))" by simp
      moreover have "distinct (ev_id ev # map ev_id (sim_trace s @ sim_queue s))"
        using ok new by (auto simp: sim_ok_def)
      ultimately show ?thesis by (metis mset_eq_imp_distinct_iff)
    qed
    ultimately show ?thesis
      using ok scheduled by (auto simp: sim_ok_def set_insort_key less_Suc_eq)
  qed
  from run now show "sim_evolves s s'"
    by (cases rule: schedule_cases) (auto simp: sim_evolves_def)
qed

lemma cancel_ok:
  assumes "sim_ok s" and "cancel s i = (b, s')"
  shows "sim_ok s'" and "sim_evolves s s'"
proof -
  have "s' = s \<or> i \<in> ev_id ` set (sim_queue s) \<and> s' = s\<lparr>sim_cancelled := insert i (sim_cancelled s)\<rparr>"
    using assms by (simp add: cancel_def sim_ok_def split: if_splits)
  with assms(1) show "sim_ok s'" and "sim_evolves s s'" by (elim disjE; simp add: sim_ok_def sim_evolves_def)+
qed

text \<open>Taking the next event off the queue, and executing it.\<close>

lemma pop_ok:
  assumes "sim_ok s" and "sim_queue s = ev # rest"
  shows "ev_id ev \<in> sim_cancelled s \<Longrightarrow>
      sim_ok (s\<lparr>sim_queue := rest, sim_pending_ids := sim_pending_ids s - {ev_id ev},
               sim_cancelled := sim_cancelled s - {ev_id ev}\<rparr>)"
    and "ev_id ev \<notin> sim_cancelled s \<Longrightarrow>
      sim_ok (s\<lparr>sim_queue := rest, sim_pending_ids := sim_pending_ids s - {ev_id ev},
               sim_now := ev_time ev, sim_trace := sim_trace s @ [ev]\<rparr>)"
    and "\<not> ev_time ev < sim_now s"
proof -
  have d: "ev_id ev \<notin> ev_id ` set rest" using assms by (auto simp: sim_ok_def)
  have later: "\<forall>x\<in>set rest. ev_time ev \<le> ev_time x"
    using assms by (fastforce simp: sim_ok_def sorted_wrt_append ev_key_less)
  show "ev_id ev \<in> sim_cancelled s \<Longrightarrow>
      sim_ok (s\<lparr>sim_queue := rest, sim_pending_ids := sim_pending_ids s - {ev_id ev},
               sim_cancelled := sim_cancelled s - {ev_id ev}\<rparr>)"
    using assms d by (auto simp: sim_ok_def sorted_wrt_append)
  show "ev_id ev \<notin> sim_cancelled s \<Longrightarrow>
      sim_ok (s\<lparr>sim_queue := rest, sim_pending_ids := sim_pending_ids s - {ev_id ev},
               sim_now := ev_time ev, sim_trace := sim_trace s @ [ev]\<rparr>)"
    using assms d later by (auto simp: sim_ok_def sorted_wrt_append intro: order_trans)
  show "\<not> ev_time ev < sim_now s" using assms by (auto simp: sim_ok_def)
qed

text \<open>Partial correctness of the loop: what its passages keep, it keeps if it returns.\<close>

lemma run_loop_induct [consumes 1, case_names stop continue]:
  assumes "run_loop call horizon max_events n st = Some y"
    and stop: "\<And>n st r st'. run_body call horizon max_events n st = Stop r st' \<Longrightarrow> P n st (r, st')"
    and continue: "\<And>n st m st' y. run_body call horizon max_events n st = Continue m st' \<Longrightarrow> P m st' y \<Longrightarrow> P n st y"
  shows "P n st y"
proof -
  have "call = call \<longrightarrow> horizon = horizon \<longrightarrow> max_events = max_events \<longrightarrow> P n st y"
  proof (rule run_loop.raw_induct [where P = "\<lambda>c h l n st y. c = call \<longrightarrow> h = horizon \<longrightarrow> l = max_events \<longrightarrow> P n st y",
        OF _ assms(1)], goal_cases)
    case (1 loop c h l n st y)
    show ?case
    proof (intro impI)
      assume eq: "c = call" "h = horizon" "l = max_events"
      show "P n st y"
      proof (cases "run_body call horizon max_events n st")
        case (Stop r st1)
        with 1(2) eq have "y = (r, st1)" by simp
        with stop [OF Stop] show ?thesis by simp
      next
        case (Continue m st1)
        with 1(2) eq have "loop call horizon max_events m st1 = Some y" by simp
        with 1(1) have "P m st1 y" by blast
        with Continue show ?thesis by (rule continue)
      qed
    qed
  qed
  then show ?thesis by simp
qed

subsection \<open>Running with handlers that respect the engine\<close>

text \<open>
  The engine together with the state \<open>w\<close> of the objects its handlers belong to: \<open>W\<close> is an invariant
  of \<open>w\<close>, \<open>Q w ev\<close> says that the event \<open>ev\<close> makes sense to the handlers, and \<open>E\<close> is a preorder, the
  way \<open>w\<close> may change over time.
\<close>

definition world_ok :: "('w \<Rightarrow> bool) \<Rightarrow> ('w \<Rightarrow> SimEvent \<Rightarrow> bool) \<Rightarrow> 'h sim \<times> 'w \<Rightarrow> bool" where
  "world_ok W Q st \<longleftrightarrow>
     sim_ok (fst st) \<and> W (snd st) \<and> (\<forall>ev\<in>set (sim_queue (fst st)). Q (snd st) ev)"

definition world_evolves :: "('w \<Rightarrow> 'w \<Rightarrow> bool) \<Rightarrow> 'h sim \<times> 'w \<Rightarrow> 'h sim \<times> 'w \<Rightarrow> bool" where
  "world_evolves E st st' \<longleftrightarrow> sim_evolves (fst st) (fst st') \<and> E (snd st) (snd st')"

locale event_world =
  fixes W :: "'w \<Rightarrow> bool"
    and Q :: "'w \<Rightarrow> SimEvent \<Rightarrow> bool"
    and E :: "'w \<Rightarrow> 'w \<Rightarrow> bool"
  assumes E_refl: "E w w"
    and E_trans: "E w w' \<Longrightarrow> E w' w'' \<Longrightarrow> E w w''"
    and Q_stable: "E w w' \<Longrightarrow> Q w ev \<Longrightarrow> Q w' ev"
begin

lemma evolves_refl: "world_evolves E st st"
  by (simp add: world_evolves_def sim_evolves_refl E_refl)

lemma evolves_trans: "world_evolves E st st' \<Longrightarrow> world_evolves E st' st'' \<Longrightarrow> world_evolves E st st''"
  unfolding world_evolves_def by (blast intro: sim_evolves_trans E_trans)

text \<open>\<open>safe st out\<close>: from \<open>st\<close>, the outcome \<open>out\<close> leaves a good state that evolved from \<open>st\<close>.\<close>

definition safe :: "'h sim \<times> 'w \<Rightarrow> ('h sim \<times> 'w, 'a) outcome \<Rightarrow> bool" where
  "safe st out \<longleftrightarrow> world_ok W Q (snd out) \<and> world_evolves E st (snd out)"

lemma safe_pair [simp]: "safe st (r, st') \<longleftrightarrow> world_ok W Q st' \<and> world_evolves E st st'"
  by (simp add: safe_def)

lemma safe_return: "world_ok W Q st \<Longrightarrow> safe st (r, st)"
  by (simp add: evolves_refl)

lemma safe_from: "world_evolves E st st1 \<Longrightarrow> safe st1 out \<Longrightarrow> safe st out"
  unfolding safe_def by (blast intro: evolves_trans)

lemma safe_reads: "world_ok W Q st \<Longrightarrow> (\<And>x. m = Inr x \<Longrightarrow> safe st (k x)) \<Longrightarrow> safe st (reads st m k)"
  by (cases m) (simp_all add: evolves_refl)

lemma safe_calls:
  assumes "safe st out" and "\<And>x st1. out = (Inr x, st1) \<Longrightarrow> world_ok W Q st1 \<Longrightarrow> safe st1 (k x st1)"
  shows "safe st (calls out k)"
proof -
  obtain r st1 where out: "out = (r, st1)" by (cases out) auto
  with assms(1) have st1: "world_ok W Q st1" "world_evolves E st st1" by simp_all
  show ?thesis
  proof (cases r)
    case (Inl e)
    with out st1 show ?thesis by simp
  next
    case (Inr x)
    with out st1 assms(2) [of x st1] show ?thesis by (auto intro: safe_from)
  qed
qed

text \<open>Changing the objects' own state.\<close>

lemma put_ok:
  assumes "world_ok W Q st" and "W w'" and "E (snd st) w'"
  shows "world_ok W Q (fst st, w')" and "world_evolves E st (fst st, w')"
  using assms Q_stable by (auto simp: world_ok_def world_evolves_def sim_evolves_refl)

lemma sched_safe:
  assumes "world_ok W Q st"
    and "\<And>ev. ev_kind ev = kind \<Longrightarrow> freeze_payload p = Inr (ev_payload ev) \<Longrightarrow> Q (snd st) ev"
  shows "safe st (sched st kind d i p)"
proof -
  obtain r s' where c: "schedule (fst st) kind PNone d i p = (r, s')"
    by (cases "schedule (fst st) kind PNone d i p") auto
  have ok: "sim_ok (fst st)" using assms(1) by (simp add: world_ok_def)
  then have "0 \<le> sim_now (fst st)" by (simp add: sim_ok_def)
  with c have "\<forall>ev\<in>set (sim_queue s'). Q (snd st) ev"
  proof (cases rule: schedule_cases)
    case error
    with assms(1) show ?thesis by (simp add: world_ok_def)
  next
    case (scheduled ev)
    with assms show ?thesis by (auto simp: world_ok_def set_insort_key)
  qed
  with assms(1) schedule_ok [OF ok c] c show ?thesis
    by (simp add: sched_def safe_def world_ok_def world_evolves_def E_refl)
qed

lemma sched_snd: "snd (snd (sched st kind d i p)) = snd st"
  by (simp add: sched_def split: prod.splits)

lemma cancel_truthy_ok:
  assumes "world_ok W Q st"
  shows "world_ok W Q (cancel_truthy i st)" and "world_evolves E st (cancel_truthy i st)"
proof -
  have ok: "sim_ok (fst st)" using assms by (simp add: world_ok_def)
  have "sim_ok (snd (cancel (fst st) e)) \<and> sim_evolves (fst st) (snd (cancel (fst st) e)) \<and>
      sim_queue (snd (cancel (fst st) e)) = sim_queue (fst st)" for e
    using cancel_ok [OF ok, of e] by (cases "cancel (fst st) e") (auto simp: cancel_def split: if_splits)
  with assms show "world_ok W Q (cancel_truthy i st)" and "world_evolves E st (cancel_truthy i st)"
    by (auto simp: cancel_truthy_def world_ok_def world_evolves_def evolves_refl E_refl sim_evolves_refl
        split: option.splits)
qed

lemma cancel_truthy_snd: "snd (cancel_truthy i st) = snd st"
  by (simp add: cancel_truthy_def split: option.splits)

lemma for_loop_safe:
  assumes "world_ok W Q st"
    and "\<And>x st. x \<in> set xs \<Longrightarrow> world_ok W Q st \<Longrightarrow> safe st (body x st)"
  shows "safe st (for_loop xs body st)"
  using assms
proof (induction xs arbitrary: st)
  case (Cons x xs)
  have "safe st (body x st)" by (rule Cons.prems(2)) (simp_all add: Cons.prems(1))
  moreover have "safe st1 (for_loop xs body st1)" if "world_ok W Q st1" for st1
    using that Cons.prems(2) by (intro Cons.IH) simp_all
  ultimately show ?case by (auto intro: safe_calls)
qed (simp add: evolves_refl)

text \<open>
  A loop over the items of a dictionary whose body leaves the other entries alone sees, in each
  pass, the value that is still stored under the key.
\<close>

lemma for_items_safe:
  fixes sel :: "'w \<Rightarrow> 'v dict"
  assumes "world_ok W Q st" and "distinct (map fst xs)" and "\<forall>(i, x)\<in>set xs. map_of (sel (snd st)) i = Some x"
    and "\<And>i x st. world_ok W Q st \<Longrightarrow> map_of (sel (snd st)) i = Some x \<Longrightarrow>
        safe st (body (i, x) st) \<and>
        (\<forall>j. j \<noteq> i \<longrightarrow> map_of (sel (snd (snd (body (i, x) st)))) j = map_of (sel (snd st)) j)"
  shows "safe st (for_loop xs body st)"
  using assms(1-3)
proof (induction xs arbitrary: st)
  case (Cons ix xs)
  obtain i x where ix: "ix = (i, x)" by (cases ix)
  with Cons.prems(3) have x: "map_of (sel (snd st)) i = Some x" by simp
  note one = assms(4) [OF Cons.prems(1) x]
  show ?case
    unfolding for_loop.simps ix
  proof (rule safe_calls)
    show "safe st (body (i, x) st)" using one by blast
    fix u st1 assume b: "body (i, x) st = (Inr u, st1)" and g: "world_ok W Q st1"
    have "\<forall>(j, y)\<in>set xs. map_of (sel (snd st1)) j = Some y"
    proof clarify
      fix j y assume "(j, y) \<in> set xs"
      moreover from this have "j \<noteq> i" using Cons.prems(2) ix by force
      ultimately show "map_of (sel (snd st1)) j = Some y" using one b Cons.prems(3) by fastforce
    qed
    with Cons.IH [OF g] Cons.prems(2) show "safe st1 (for_loop xs body st1)" by simp
  qed
qed (simp add: evolves_refl)

end

text \<open>
  What the engine needs of a handler that may be registered for a kind of events: whether it returns
  or raises, it leaves the engine in order, only moves it forward, and keeps \<open>W\<close>, \<open>Q\<close> and \<open>E\<close>.
\<close>

definition registered :: "(EventKind \<Rightarrow> 'h \<Rightarrow> bool) \<Rightarrow> 'h sim \<Rightarrow> bool" where
  "registered R s \<longleftrightarrow> (\<forall>k. \<forall>h\<in>set (handlers_for s k). R k h)"

lemma registered_evolves: "sim_evolves s s' \<Longrightarrow> registered R s' = registered R s"
  by (simp add: registered_def handlers_for_def sim_evolves_def)

locale event_handlers = event_world +
  fixes call :: "'h \<Rightarrow> SimEvent \<Rightarrow> 'h sim \<times> 'a \<Rightarrow> (py_error + unit) \<times> ('h sim \<times> 'a)"
    and R :: "EventKind \<Rightarrow> 'h \<Rightarrow> bool"
  assumes handler_safe: "world_ok W Q st \<Longrightarrow> Q (snd st) ev \<Longrightarrow> R (ev_kind ev) h \<Longrightarrow> safe st (call h ev st)"
begin

lemma call_all_ok:
  "world_ok W Q st \<Longrightarrow> Q (snd st) ev \<Longrightarrow> \<forall>h\<in>set hs. R (ev_kind ev) h \<Longrightarrow> call_all call hs ev st = (r, st') \<Longrightarrow>
   world_ok W Q st' \<and> world_evolves E st st'"
proof (induction hs arbitrary: st)
  case (Cons h hs)
  obtain r1 st1 where c: "call h ev st = (r1, st1)" by (cases "call h ev st") auto
  have "R (ev_kind ev) h" using Cons.prems(3) by simp
  from handler_safe [OF Cons.prems(1,2) this] c have one: "world_ok W Q st1" "world_evolves E st st1" by simp_all
  from one(2) Cons.prems(2) have q: "Q (snd st1) ev" unfolding world_evolves_def by (blast intro: Q_stable)
  show ?case
  proof (cases r1)
    case (Inl e)
    with c Cons.prems(4) one show ?thesis by simp
  next
    case (Inr u)
    with c Cons.prems(4) have "call_all call hs ev st1 = (r, st')" by simp
    with Cons.IH [OF one(1) q] Cons.prems(3) one(2) show ?thesis by (auto intro: evolves_trans)
  qed
qed (simp add: evolves_refl)

lemma run_body_ok:
  assumes "world_ok W Q st" and reg: "registered R (fst st)"
    and "run_body call horizon max_events n st = Stop r st' \<or> run_body call horizon max_events n st = Continue m st'"
  shows "world_ok W Q st' \<and> world_evolves E st st'"
proof (cases "sim_queue (fst st)")
  case Nil
  with assms have "st' = st" by (auto simp: run_body_def)
  with assms(1) show ?thesis by (simp add: evolves_refl)
next
  case (Cons ev rest)
  let ?s = "(fst st)\<lparr>sim_queue := rest, sim_pending_ids := sim_pending_ids (fst st) - {ev_id ev}\<rparr>"
  let ?t = "?s\<lparr>sim_now := ev_time ev, sim_trace := sim_trace ?s @ [ev]\<rparr>"
  have ok: "sim_ok (fst st)" and Q: "Q (snd st) ev" "\<forall>x\<in>set rest. Q (snd st) x" and W: "W (snd st)"
    using assms(1) Cons by (simp_all add: world_ok_def)
  note pop = pop_ok [OF ok Cons]
  consider (horizon) "case horizon of None \<Rightarrow> False | Some h \<Rightarrow> ev_time ev > h"
    | (cancelled) "\<not> (case horizon of None \<Rightarrow> False | Some h \<Rightarrow> ev_time ev > h)" "ev_id ev \<in> sim_cancelled (fst st)"
    | (execute) "\<not> (case horizon of None \<Rightarrow> False | Some h \<Rightarrow> ev_time ev > h)" "ev_id ev \<notin> sim_cancelled (fst st)"
    by blast
  then show ?thesis
  proof cases
    case horizon
    with assms Cons have "st' = st" by (simp add: run_body_def)
    then show ?thesis using assms(1) by (simp add: evolves_refl)
  next
    case cancelled
    with assms Cons have "st' = (?s\<lparr>sim_cancelled := sim_cancelled ?s - {ev_id ev}\<rparr>, snd st)"
      by (simp add: run_body_def Let_def)
    then show ?thesis
      using pop(1) cancelled(2) W Q by (simp add: sim_evolves_def E_refl world_ok_def world_evolves_def)
  next
    case execute
    obtain r1 st1 where c: "call_all call (handlers_for ?t (ev_kind ev)) ev (?t, snd st) = (r1, st1)"
      by (cases "call_all call (handlers_for ?t (ev_kind ev)) ev (?t, snd st)") auto
    have "st' = st1"
      using assms(3) execute Cons pop(3) c by (cases r1; cases max_events) (auto simp: run_body_def Let_def split: if_splits)
    moreover have "world_ok W Q (?t, snd st)" using pop(2) execute W Q by (simp add: world_ok_def)
    moreover have "world_evolves E st (?t, snd st)" using pop(3) by (simp add: sim_evolves_def world_evolves_def E_refl)
    moreover have "\<forall>h\<in>set (handlers_for ?t (ev_kind ev)). R (ev_kind ev) h"
      using reg by (simp add: registered_def handlers_for_def)
    ultimately show ?thesis
      using call_all_ok [OF _ _ _ c] Q(1) evolves_trans [of st "(?t, snd st)" st1] by simp
  qed
qed

lemma run_loop_ok:
  assumes "run_loop call horizon max_events n st = Some y" and "world_ok W Q st" and "registered R (fst st)"
  shows "world_ok W Q (snd y) \<and> world_evolves E st (snd y)"
  using assms
proof (induction rule: run_loop_induct)
  case (stop n st r st')
  show ?case using run_body_ok [OF stop(2,3) disjI1 [OF stop(1)]] by simp
next
  case (continue n st m st' y)
  have one: "world_ok W Q st' \<and> world_evolves E st st'"
    by (rule run_body_ok [OF continue.prems disjI2 [OF continue.hyps]])
  then have "registered R (fst st')"
    using continue.prems(2) registered_evolves unfolding world_evolves_def by blast
  with one continue.IH show ?case using evolves_trans [of st st' "snd y"] by simp
qed

end

subsection \<open>When the loop returns\<close>

text \<open>A passage that goes on has either dropped a cancelled event or counted an executed one.\<close>

lemma run_body_Continue:
  assumes "run_body call horizon max_events n st = Continue m st'"
  shows "m = n \<and> length (sim_queue (fst st')) < length (sim_queue (fst st)) \<or>
     m = n + 1 \<and> (\<forall>k. max_events = Some k \<longrightarrow> m < k)"
  using assms by (auto simp: run_body_def Let_def split: list.splits if_splits option.splits sum.splits prod.splits)

lemma run_loop_returns: "\<exists>y. run_loop call horizon (Some k) n st = Some y"
proof (induction "(k - n, length (sim_queue (fst st)))" arbitrary: n st
    rule: wf_induct_rule [OF wf_lex_prod [OF wf_less_than wf_less_than]])
  case (1 n st)
  show ?case
  proof (cases "run_body call horizon (Some k) n st")
    case (Stop r st')
    then show ?thesis by (subst run_loop.simps) simp
  next
    case (Continue m st')
    then have "((k - m, length (sim_queue (fst st'))), (k - n, length (sim_queue (fst st)))) \<in> less_than <*lex*> less_than"
      using run_body_Continue [OF Continue] by auto
    with 1 Continue show ?thesis by (subst run_loop.simps) simp
  qed
qed

lemma run_loop_done:
  assumes "run_loop call horizon max_events n st = Some y" and "fst y = Inr False"
  shows "sim_queue (fst (snd y)) = [] \<or>
    (\<exists>h ev rest. horizon = Some h \<and> sim_queue (fst (snd y)) = ev # rest \<and> h < ev_time ev)"
  using assms
proof (induction rule: run_loop_induct)
  case (stop n st r st')
  then show ?case
    by (auto simp: run_body_def Let_def split: list.splits if_splits option.splits sum.splits prod.splits)
qed

subsection \<open>Whole runs\<close>

lemma run_sim_cases:
  assumes "run_sim call st until max_events = Some (r, st')"
  obtains (rejected) e where "r = Inl e" and "st' = st"
  | (raised) horizon limit e where "run_loop call horizon limit 0 st = Some (Inl e, st')" and "r = Inl e"
  | (returned) horizon limit hit st1 where "run_horizon (fst st) until = Inr horizon"
      and "run_limit max_events = Inr limit"
      and "run_loop call horizon limit 0 st = Some (Inr hit, st1)"
      and "r = Inr (drop (length (sim_trace (fst st))) (sim_trace (fst st1)))"
      and "st' = (finish_run horizon hit (fst st1), snd st1)"
proof (cases "run_horizon (fst st) until")
  case (Inr h)
  note h = this
  show ?thesis
  proof (cases "run_limit max_events")
    case (Inr l)
    with assms h obtain q st1 where l: "run_loop call h l 0 st = Some (q, st1)"
      and eq: "(r, st') = (case q of Inl e \<Rightarrow> (Inl e, st1) | Inr hit \<Rightarrow>
          (Inr (drop (length (sim_trace (fst st))) (sim_trace (fst st1))), (finish_run h hit (fst st1), snd st1)))"
      unfolding run_sim_def by auto
    then show ?thesis using raised returned h Inr by (cases q) auto
  qed (use assms h rejected in \<open>auto simp: run_sim_def\<close>)
qed (use assms rejected in \<open>auto simp: run_sim_def\<close>)

lemma run_sim_returns:
  assumes "max_events \<noteq> PNone"
  shows "run_sim call st until max_events \<noteq> None"
proof (cases "run_horizon (fst st) until")
  case (Inr h)
  note h = this
  show ?thesis
  proof (cases "run_limit max_events")
    case (Inr lim)
    with assms obtain k where "lim = Some k"
      by (auto simp: run_limit_def split: pyval.splits if_splits)
    with h Inr run_loop_returns [of call h k 0 st] show ?thesis by (auto simp: run_sim_def)
  qed (simp add: run_sim_def h)
qed (simp add: run_sim_def)

lemma finish_run_ok:
  assumes "sim_ok s" and "\<not> hit \<Longrightarrow> sim_queue s = [] \<or>
    (\<exists>h ev rest. horizon = Some h \<and> sim_queue s = ev # rest \<and> h < ev_time ev)"
  shows "sim_ok (finish_run horizon hit s) \<and> sim_evolves s (finish_run horizon hit s)"
proof (cases "\<exists>h. horizon = Some h \<and> \<not> hit \<and> sim_now s < h")
  case True
  then obtain h where h: "horizon = Some h" "\<not> hit" "sim_now s < h" by blast
  have later: "\<forall>ev\<in>set (sim_queue s). h \<le> ev_time ev"
  proof (cases "sim_queue s")
    case (Cons ev rest)
    with assms(2) h have "h < ev_time ev" by simp
    moreover have "\<forall>x\<in>set rest. ev_key ev < ev_key x" using assms(1) Cons
      by (simp add: sim_ok_def sorted_wrt_append)
    ultimately show ?thesis by (auto simp: Cons ev_key_less)
  qed simp
  from assms(1) h(3) have "\<forall>ev\<in>set (sim_trace s). ev_time ev \<le> h" and "0 \<le> h"
    unfolding sim_ok_def by (meson less_imp_le order_trans)+
  with assms(1) h later show ?thesis
    by (simp add: finish_run_def sim_ok_def sim_evolves_def)
next
  case False
  then have "finish_run horizon hit s = s" by (auto simp: finish_run_def split: option.splits)
  with assms(1) show ?thesis by (simp add: sim_evolves_refl)
qed

lemma finish_run_simps [simp]:
  "sim_trace (finish_run horizon hit s) = sim_trace s"
  "sim_queue (finish_run horizon hit s) = sim_queue s"
  "sim_cancelled (finish_run horizon hit s) = sim_cancelled s"
  by (simp_all add: finish_run_def split: option.splits)

context event_handlers
begin

lemma run_sim_ok:
  assumes "run_sim call st until max_events = Some (r, st')" and "world_ok W Q st" and "registered R (fst st)"
  shows "world_ok W Q st' \<and> world_evolves E st st'"
  using assms(1)
proof (cases rule: run_sim_cases)
  case rejected
  with assms show ?thesis by (simp add: evolves_refl)
next
  case raised
  with run_loop_ok [OF raised(1) assms(2,3)] show ?thesis by simp
next
  case (returned horizon limit hit st1)
  have one: "world_ok W Q st1 \<and> world_evolves E st st1"
    using run_loop_ok [OF returned(3) assms(2,3)] by simp
  then have "sim_ok (finish_run horizon hit (fst st1)) \<and> sim_evolves (fst st1) (finish_run horizon hit (fst st1))"
    using run_loop_done [OF returned(3)] by (intro finish_run_ok) (auto simp: world_ok_def)
  with one returned(5) have "world_ok W Q st'" and "world_evolves E st1 st'"
    by (simp_all add: world_ok_def world_evolves_def E_refl)
  with one show ?thesis using evolves_trans by blast
qed

text \<open>The events \<open>run\<close> returns are those by which it extended the trace, in their order.\<close>

lemma run_sim_events:
  assumes "run_sim call st until max_events = Some (Inr evs, st')" and "world_ok W Q st" and "registered R (fst st)"
  shows "sim_trace (fst st') = sim_trace (fst st) @ evs \<and> sorted_wrt (\<lambda>a b. ev_key a < ev_key b) evs \<and>
    (\<forall>ev\<in>set evs. ev_time ev \<le> sim_now (fst st'))"
  using assms(1)
proof (cases rule: run_sim_cases)
  case (returned horizon limit hit st1)
  have ok: "sim_ok (fst st')" "sim_evolves (fst st) (fst st')"
    using run_sim_ok [OF assms] by (simp_all add: world_ok_def world_evolves_def)
  from ok(2) obtain xs where xs: "sim_trace (fst st') = sim_trace (fst st) @ xs"
    unfolding sim_evolves_def by blast
  with returned have "evs = xs" by simp
  with xs ok(1) show ?thesis by (auto simp: sim_ok_def sorted_wrt_append)
qed simp_all

text \<open>A run that was not stopped by its limit has executed everything that was due.\<close>

lemma run_sim_exhausts:
  assumes "run_sim call st until PNone = Some (Inr evs, st')" and "world_ok W Q st" and "registered R (fst st)"
    and "ev \<in> set (sim_queue (fst st'))"
  shows "\<exists>h. run_horizon (fst st) until = Inr (Some h) \<and> h < ev_time ev"
  using assms(1)
proof (cases rule: run_sim_cases)
  case (returned horizon limit hit st1)
  then have "limit = None" by (simp add: run_limit_def)
  have "fst y = Inr True \<longrightarrow> False" if "run_loop call horizon None n st = Some y" for n st y
    using that
    by (induction rule: run_loop_induct)
       (auto simp: run_body_def Let_def split: list.splits if_splits option.splits sum.splits prod.splits)
  with returned(3) \<open>limit = None\<close> have "\<not> hit" by fastforce
  with run_loop_done [OF returned(3)] have "sim_queue (fst st') = [] \<or>
      (\<exists>h ev rest. horizon = Some h \<and> sim_queue (fst st') = ev # rest \<and> h < ev_time ev)"
    using returned(5) by simp
  with assms(4) obtain h e rest where h: "horizon = Some h" "sim_queue (fst st') = e # rest" "h < ev_time e"
    by auto
  have "sim_ok (fst st')" using run_sim_ok [OF assms(1-3)] by (simp add: world_ok_def)
  then have "\<forall>x\<in>set rest. ev_key e < ev_key x" using h(2) by (simp add: sim_ok_def sorted_wrt_append)
  with h assms(4) have "h < ev_time ev" by (auto simp: ev_key_less)
  with h(1) returned(1) show ?thesis by blast
qed simp_all

end

lemma random_uniform_range:
  assumes "random_uniform u low high = Inr x" and "0 \<le> u" and "u < 1"
  obtains l h where "finite_number low = Inr l" and "finite_number high = Inr h" and "l \<le> x" and "x \<le> h"
proof -
  from assms(1) obtain l h where lh: "finite_number low = Inr l" "finite_number high = Inr h" "l \<le> h"
    and x: "x = l + (h - l) * u"
    by (auto simp: random_uniform_def bind_res_Inr split: if_splits)
  have low: "0 \<le> (h - l) * u" using lh(3) assms(2) by simp
  have high: "(h - l) * u \<le> h - l" using lh(3) assms(2,3) by (simp add: mult_left_le)
  show ?thesis by (rule that [OF lh(1,2)]) (use x low high in linarith)+
qed

end
