(* ===== verification/Sim_Resources.thy ===== *)
theory Sim_Resources
  imports Sim_Engine
begin

section \<open>Physical resources\<close>

text \<open>
  \<open>simulator/resources.py\<close>: workers with a bounded number of running tasks, links, materialised
  replicas and their transfers, driven by the events of the engine. The state of an operation or a
  handler is the pair of the engine and the model's own dictionaries; a handler that raises leaves
  what it had already changed, and so does its definition here.
\<close>

subsection \<open>Entities\<close>

datatype WorkerStatus = UP | DOWN

datatype TaskStatus = QUEUED | RUNNING | COMPLETED | FAILED

datatype ReplicaRuntimeStatus = MATERIALIZING | AVAILABLE | EVICTED | LOST

datatype TransferStatus = SCHEDULED | RUNNING | COMPLETED | FAILED

record Worker =
  wk_id :: string
  wk_capacity :: int
  wk_status :: WorkerStatus

record ResourceTask =
  task_id :: string
  task_worker_id :: string
  task_duration :: rat
  task_status :: TaskStatus
  task_enqueued_at :: rat
  task_started_at :: "rat option"
  task_completed_at :: "rat option"
  task_completion_event_id :: "string option"

record NetworkLink =
  link_id :: string
  link_source_id :: string
  link_destination_id :: string
  link_latency :: rat
  link_bandwidth :: rat

record ReplicaRuntime =
  rr_id :: string
  rr_state_id :: string
  rr_location_id :: string
  rr_size_bytes :: int
  rr_status :: ReplicaRuntimeStatus
  rr_completion_event_id :: "string option"

record StateTransfer =
  tr_id :: string
  tr_replica_id :: string
  tr_link_id :: string
  tr_source_id :: string
  tr_destination_id :: string
  tr_size_bytes :: int
  tr_status :: TransferStatus
  tr_started_at :: "rat option"
  tr_completed_at :: "rat option"
  tr_completion_event_id :: "string option"

record resources =
  rs_workers :: "Worker dict"
  rs_links :: "NetworkLink dict"
  rs_tasks :: "ResourceTask dict"
  rs_worker_queues :: "string list dict"
  rs_worker_active :: "string list dict"
  rs_replicas :: "ReplicaRuntime dict"
  rs_transfers :: "StateTransfer dict"

type_synonym 'h rstate = "'h sim \<times> resources"

subsection \<open>Helpers\<close>

text \<open>An integer that is not a boolean, at least \<open>low\<close>.\<close>

definition int_at_least :: "int \<Rightarrow> pyval \<Rightarrow> int res" where
  "int_at_least low v = (case v of PInt n \<Rightarrow> if n < low then Inl ValueError else Inr n | _ \<Rightarrow> Inl ValueError)"

definition transfer_duration :: "NetworkLink \<Rightarrow> pyval \<Rightarrow> rat res" where
  "transfer_duration link size_bytes =
     bind_res (int_at_least 0 size_bytes) (\<lambda>n.
       Inr (link_latency link + of_int n / link_bandwidth link))"

definition require_id :: "string \<Rightarrow> unit res" where
  "require_id i = raise_if (i = '''') ValueError"

definition require_worker :: "resources \<Rightarrow> string \<Rightarrow> Worker res" where
  "require_worker r i = getitem (rs_workers r) i"

definition require_link :: "resources \<Rightarrow> string \<Rightarrow> NetworkLink res" where
  "require_link r i = getitem (rs_links r) i"

definition require_replica :: "resources \<Rightarrow> string \<Rightarrow> ReplicaRuntime res" where
  "require_replica r i = getitem (rs_replicas r) i"

definition finite_positive :: "pyval \<Rightarrow> rat res" where
  "finite_positive v =
     bind_res (finite_number v) (\<lambda>r. if r \<le> 0 then Inl ValueError else Inr r)"

text \<open>A payload \<open>{"k": v, ...}\<close> with string values.\<close>

definition str_payload :: "(string \<times> string) list \<Rightarrow> pyval" where
  "str_payload kvs = PDict (map (\<lambda>(k, v). (PStr k, PStr v)) kvs)"

definition active_transfer :: "StateTransfer \<Rightarrow> bool" where
  "active_transfer t \<longleftrightarrow> tr_status t = TransferStatus.SCHEDULED \<or> tr_status t = TransferStatus.RUNNING"

abbreviation (input) on_res :: "(resources \<Rightarrow> resources) \<Rightarrow> 'h sim \<times> resources \<Rightarrow> 'h sim \<times> resources" where
  "on_res f st \<equiv> (fst st, f (snd st))"

definition put_task :: "string \<Rightarrow> ResourceTask \<Rightarrow> 'h rstate \<Rightarrow> 'h rstate" where
  "put_task i t st = on_res (\<lambda>r. r\<lparr>rs_tasks := setitem i t (rs_tasks r)\<rparr>) st"

definition put_replica :: "string \<Rightarrow> ReplicaRuntime \<Rightarrow> 'h rstate \<Rightarrow> 'h rstate" where
  "put_replica i t st = on_res (\<lambda>r. r\<lparr>rs_replicas := setitem i t (rs_replicas r)\<rparr>) st"

definition put_transfer :: "string \<Rightarrow> StateTransfer \<Rightarrow> 'h rstate \<Rightarrow> 'h rstate" where
  "put_transfer i t st = on_res (\<lambda>r. r\<lparr>rs_transfers := setitem i t (rs_transfers r)\<rparr>) st"

definition put_worker :: "string \<Rightarrow> Worker \<Rightarrow> 'h rstate \<Rightarrow> 'h rstate" where
  "put_worker i t st = on_res (\<lambda>r. r\<lparr>rs_workers := setitem i t (rs_workers r)\<rparr>) st"

definition put_queue :: "string \<Rightarrow> string list \<Rightarrow> 'h rstate \<Rightarrow> 'h rstate" where
  "put_queue i q st = on_res (\<lambda>r. r\<lparr>rs_worker_queues := setitem i q (rs_worker_queues r)\<rparr>) st"

definition put_active :: "string \<Rightarrow> string list \<Rightarrow> 'h rstate \<Rightarrow> 'h rstate" where
  "put_active i q st = on_res (\<lambda>r. r\<lparr>rs_worker_active := setitem i q (rs_worker_active r)\<rparr>) st"

definition listing :: "string list dict \<Rightarrow> string \<Rightarrow> string list" where
  "listing d k = (case map_of d k of None \<Rightarrow> [] | Some xs \<Rightarrow> xs)"

subsection \<open>Operations\<close>

definition empty_resources :: resources where
  "empty_resources =
     \<lparr>rs_workers = [], rs_links = [], rs_tasks = [], rs_worker_queues = [], rs_worker_active = [],
      rs_replicas = [], rs_transfers = []\<rparr>"

definition add_worker :: "'h rstate \<Rightarrow> string \<Rightarrow> pyval \<Rightarrow> ('h rstate, Worker) outcome" where
  "add_worker st i capacity =
     reads st (require_id i) (\<lambda>_.
     reads st (raise_if (has_key (rs_workers (snd st)) i) ValueError) (\<lambda>_.
     reads st (int_at_least 1 capacity) (\<lambda>c.
     let worker = \<lparr>wk_id = i, wk_capacity = c, wk_status = UP\<rparr> in
     (Inr worker, put_active i [] (put_queue i [] (put_worker i worker st))))))"

definition add_link ::
    "'h rstate \<Rightarrow> string \<Rightarrow> string \<Rightarrow> string \<Rightarrow> pyval \<Rightarrow> pyval \<Rightarrow> ('h rstate, NetworkLink) outcome" where
  "add_link st i source destination latency bandwidth =
     reads st (require_id i) (\<lambda>_.
     reads st (require_worker (snd st) source) (\<lambda>_.
     reads st (require_worker (snd st) destination) (\<lambda>_.
     reads st (raise_if (has_key (rs_links (snd st)) i) ValueError) (\<lambda>_.
     reads st (finite_nonnegative latency) (\<lambda>l.
     reads st (finite_positive bandwidth) (\<lambda>b.
     let link = \<lparr>link_id = i, link_source_id = source, link_destination_id = destination,
                 link_latency = l, link_bandwidth = b\<rparr> in
     (Inr link, on_res (\<lambda>r. r\<lparr>rs_links := setitem i link (rs_links r)\<rparr>) st)))))))"

definition enqueue_task :: "'h rstate \<Rightarrow> string \<Rightarrow> string \<Rightarrow> pyval \<Rightarrow> ('h rstate, ResourceTask) outcome" where
  "enqueue_task st w i duration =
     reads st (require_worker (snd st) w) (\<lambda>_.
     reads st (require_id i) (\<lambda>_.
     reads st (raise_if (has_key (rs_tasks (snd st)) i) ValueError) (\<lambda>_.
     reads st (finite_nonnegative duration) (\<lambda>d.
     reads st (getitem (rs_worker_queues (snd st)) w) (\<lambda>q.
     let task = \<lparr>task_id = i, task_worker_id = w, task_duration = d, task_status = TaskStatus.QUEUED,
                 task_enqueued_at = sim_now (fst st), task_started_at = None,
                 task_completed_at = None, task_completion_event_id = None\<rparr>;
         st1 = put_queue w (q @ [i]) (put_task i task st)
     in case sched st1 WORKER_TASK_ENQUEUED (PInt 0) (PStr (''task-enqueued:'' @ i))
               (str_payload [(''task_id'', i), (''worker_id'', w)]) of
          (Inl e, st2) \<Rightarrow>
            (Inl e, on_res (\<lambda>r. r\<lparr>rs_tasks := delitem i (rs_tasks r)\<rparr>)
                      (put_queue w (remove1 i (listing (rs_worker_queues (snd st2)) w)) st2))
        | (Inr _, st2) \<Rightarrow> (Inr task, st2))))))"

definition fail_worker :: "'h rstate \<Rightarrow> string \<Rightarrow> ('h rstate, SimEvent) outcome" where
  "fail_worker st w =
     reads st (require_worker (snd st) w) (\<lambda>_.
     sched st WORKER_FAILED (PInt 0) PNone (str_payload [(''worker_id'', w)]))"

definition recover_worker :: "'h rstate \<Rightarrow> string \<Rightarrow> ('h rstate, SimEvent) outcome" where
  "recover_worker st w =
     reads st (require_worker (snd st) w) (\<lambda>_.
     sched st WORKER_RECOVERED (PInt 0) PNone (str_payload [(''worker_id'', w)]))"

definition materialize_replica ::
    "'h rstate \<Rightarrow> string \<Rightarrow> string \<Rightarrow> string \<Rightarrow> pyval \<Rightarrow> pyval \<Rightarrow> ('h rstate, ReplicaRuntime) outcome" where
  "materialize_replica st i state_id location size_bytes duration =
     reads st (require_id i) (\<lambda>_.
     reads st (require_id state_id) (\<lambda>_.
     reads st (require_worker (snd st) location) (\<lambda>_.
     reads st (raise_if (has_key (rs_replicas (snd st)) i) ValueError) (\<lambda>_.
     reads st (int_at_least 0 size_bytes) (\<lambda>n.
     reads st (finite_nonnegative duration) (\<lambda>d.
     let replica = \<lparr>rr_id = i, rr_state_id = state_id, rr_location_id = location, rr_size_bytes = n,
                    rr_status = ReplicaRuntimeStatus.MATERIALIZING, rr_completion_event_id = None\<rparr>;
         st1 = put_replica i replica st
     in case sched st1 STATE_MATERIALIZATION_STARTED (PInt 0) (PStr (''materialize-start:'' @ i))
               (PDict [(PStr ''replica_id'', PStr i), (PStr ''duration'', PFloat (Fin d))]) of
          (Inl e, st2) \<Rightarrow> (Inl e, on_res (\<lambda>r. r\<lparr>rs_replicas := delitem i (rs_replicas r)\<rparr>) st2)
        | (Inr _, st2) \<Rightarrow> (Inr replica, st2)))))))"

definition start_transfer :: "'h rstate \<Rightarrow> string \<Rightarrow> string \<Rightarrow> string \<Rightarrow> ('h rstate, StateTransfer) outcome" where
  "start_transfer st i replica_id l =
     reads st (require_id i) (\<lambda>_.
     reads st (raise_if (has_key (rs_transfers (snd st)) i) ValueError) (\<lambda>_.
     reads st (require_replica (snd st) replica_id) (\<lambda>replica.
     reads st (raise_if (rr_status replica \<noteq> ReplicaRuntimeStatus.AVAILABLE) ValueError) (\<lambda>_.
     reads st (require_link (snd st) l) (\<lambda>link.
     reads st (raise_if (rr_location_id replica \<noteq> link_source_id link) ValueError) (\<lambda>_.
     reads st (raise_if (list_ex (\<lambda>t. tr_replica_id t = replica_id \<and> active_transfer t)
                           (values_of (rs_transfers (snd st)))) ValueError) (\<lambda>_.
     let transfer = \<lparr>tr_id = i, tr_replica_id = replica_id, tr_link_id = l,
                     tr_source_id = link_source_id link, tr_destination_id = link_destination_id link,
                     tr_size_bytes = rr_size_bytes replica, tr_status = TransferStatus.SCHEDULED,
                     tr_started_at = None, tr_completed_at = None, tr_completion_event_id = None\<rparr>;
         st1 = put_transfer i transfer st
     in case sched st1 STATE_TRANSFER_STARTED (PInt 0) (PStr (''transfer-start:'' @ i))
               (str_payload [(''transfer_id'', i)]) of
          (Inl e, st2) \<Rightarrow> (Inl e, on_res (\<lambda>r. r\<lparr>rs_transfers := delitem i (rs_transfers r)\<rparr>) st2)
        | (Inr _, st2) \<Rightarrow> (Inr transfer, st2))))))))"

definition evict_replica :: "'h rstate \<Rightarrow> string \<Rightarrow> ('h rstate, SimEvent) outcome" where
  "evict_replica st i =
     reads st (require_replica (snd st) i) (\<lambda>_.
     sched st STATE_EVICTED (PInt 0) PNone (str_payload [(''replica_id'', i)]))"

definition lose_replica :: "'h rstate \<Rightarrow> string \<Rightarrow> ('h rstate, SimEvent) outcome" where
  "lose_replica st i =
     reads st (require_replica (snd st) i) (\<lambda>_.
     sched st STATE_LOST (PInt 0) PNone (str_payload [(''replica_id'', i)]))"

subsection \<open>Dispatching tasks\<close>

text \<open>
  \<open>while worker.status is UP and queue and len(active) < worker.capacity\<close>: the recursion is on the
  worker's queue, whose head each pass takes off.
\<close>

fun dispatch_loop :: "Worker \<Rightarrow> string \<Rightarrow> string list \<Rightarrow> 'h rstate \<Rightarrow> ('h rstate, unit) outcome" where
  "dispatch_loop worker w [] st = (Inr (), st)"
| "dispatch_loop worker w (i # queue) st =
     (if wk_status worker = UP \<and> int (length (listing (rs_worker_active (snd st)) w)) < wk_capacity worker
      then
        let st1 = put_queue w queue st in
        reads st1 (getitem (rs_tasks (snd st1)) i) (\<lambda>task.
        calls (sched st1 WORKER_TASK_COMPLETED (PFloat (Fin (task_duration task)))
                 (PStr (''task-complete:'' @ i)) (str_payload [(''task_id'', i), (''worker_id'', w)]))
          (\<lambda>completion st2.
             dispatch_loop worker w queue
               (put_active w (listing (rs_worker_active (snd st2)) w @ [i])
                 (put_task i (task\<lparr>task_status := TaskStatus.RUNNING, task_started_at := Some (sim_now (fst st2)),
                                   task_completion_event_id := Some (ev_id completion)\<rparr>) st2))))
      else (Inr (), st))"

definition dispatch :: "string \<Rightarrow> 'h rstate \<Rightarrow> ('h rstate, unit) outcome" where
  "dispatch w st =
     reads st (getitem (rs_workers (snd st)) w) (\<lambda>worker.
     reads st (getitem (rs_worker_queues (snd st)) w) (\<lambda>queue.
     reads st (getitem (rs_worker_active (snd st)) w) (\<lambda>_.
     dispatch_loop worker w queue st)))"

text \<open>
  A key read from a payload may be any frozen value: one that is not a string is no key of the
  model's dictionaries.
\<close>

definition str_item :: "SimEvent \<Rightarrow> string \<Rightarrow> string res" where
  "str_item ev k =
     bind_res (payload_item ev k) (\<lambda>v. case is_str v of None \<Rightarrow> Inl KeyError | Some s \<Rightarrow> Inr s)"

subsection \<open>Handlers\<close>

definition on_task_enqueued :: "SimEvent \<Rightarrow> 'h rstate \<Rightarrow> ('h rstate, unit) outcome" where
  "on_task_enqueued ev st = reads st (str_item ev ''worker_id'') (\<lambda>w. dispatch w st)"

definition on_task_completed :: "SimEvent \<Rightarrow> 'h rstate \<Rightarrow> ('h rstate, unit) outcome" where
  "on_task_completed ev st =
     reads st (payload_item ev ''task_id'') (\<lambda>tv.
     reads st (payload_item ev ''worker_id'') (\<lambda>wv.
     case (is_str tv, vlookup (rs_tasks (snd st)) tv) of
       (Some i, Some task) \<Rightarrow>
         if task_status task \<noteq> TaskStatus.RUNNING then (Inr (), st)
         else
           reads st (case is_str wv of None \<Rightarrow> Inl KeyError | Some w \<Rightarrow> Inr w) (\<lambda>w.
           reads st (getitem (rs_worker_active (snd st)) w) (\<lambda>active.
           dispatch w
             (put_task i (task\<lparr>task_status := TaskStatus.COMPLETED, task_completed_at := Some (sim_now (fst st)),
                               task_completion_event_id := None\<rparr>)
               (put_active w (remove1 i active) st))))
     | _ \<Rightarrow> (Inr (), st)))"

definition fail_task :: "string \<Rightarrow> string \<Rightarrow> 'h rstate \<Rightarrow> ('h rstate, unit) outcome" where
  "fail_task w i st =
     reads st (getitem (rs_tasks (snd st)) i) (\<lambda>task.
     let st1 = cancel_truthy (task_completion_event_id task) st;
         st2 = put_task i (task\<lparr>task_status := TaskStatus.FAILED, task_completed_at := Some (sim_now (fst st1)),
                                task_completion_event_id := None\<rparr>) st1
     in calls (sched st2 WORKER_TASK_FAILED (PInt 0) PNone (str_payload [(''task_id'', i), (''worker_id'', w)]))
          (\<lambda>_ st3. (Inr (), st3)))"

definition lose_replica_at :: "string \<Rightarrow> string \<times> ReplicaRuntime \<Rightarrow> 'h rstate \<Rightarrow> ('h rstate, unit) outcome" where
  "lose_replica_at w item st =
     (case item of (i, replica) \<Rightarrow>
        if rr_location_id replica \<noteq> w \<or> rr_status replica = ReplicaRuntimeStatus.EVICTED
           \<or> rr_status replica = ReplicaRuntimeStatus.LOST
        then (Inr (), st)
        else
          calls (sched (put_replica i (replica\<lparr>rr_status := ReplicaRuntimeStatus.LOST, rr_completion_event_id := None\<rparr>)
                          (cancel_truthy (rr_completion_event_id replica) st))
                   STATE_LOST (PInt 0) PNone (str_payload [(''replica_id'', i)]))
            (\<lambda>_ st1. (Inr (), st1)))"

text \<open>The common end of the two loops that fail active transfers.\<close>

definition fail_transfer :: "string \<times> StateTransfer \<Rightarrow> 'h rstate \<Rightarrow> ('h rstate, unit) outcome" where
  "fail_transfer item st =
     (case item of (i, transfer) \<Rightarrow>
        let st1 = cancel_truthy (tr_completion_event_id transfer) st;
            st2 = put_transfer i (transfer\<lparr>tr_status := TransferStatus.FAILED, tr_completed_at := Some (sim_now (fst st1)),
                                           tr_completion_event_id := None\<rparr>) st1
        in calls (sched st2 STATE_TRANSFER_FAILED (PInt 0) PNone (str_payload [(''transfer_id'', i)]))
             (\<lambda>_ st3. (Inr (), st3)))"

definition fail_transfer_at :: "string \<Rightarrow> string \<times> StateTransfer \<Rightarrow> 'h rstate \<Rightarrow> ('h rstate, unit) outcome" where
  "fail_transfer_at w item st =
     (if \<not> active_transfer (snd item) then (Inr (), st)
      else if w \<noteq> tr_source_id (snd item) \<and> w \<noteq> tr_destination_id (snd item) then (Inr (), st)
      else fail_transfer item st)"

definition on_worker_failed :: "SimEvent \<Rightarrow> 'h rstate \<Rightarrow> ('h rstate, unit) outcome" where
  "on_worker_failed ev st =
     reads st (str_item ev ''worker_id'') (\<lambda>w.
     reads st (getitem (rs_workers (snd st)) w) (\<lambda>worker.
     if wk_status worker = DOWN then (Inr (), st)
     else
       let st1 = put_worker w (worker\<lparr>wk_status := DOWN\<rparr>) st in
       reads st1 (getitem (rs_worker_active (snd st1)) w) (\<lambda>active.
       calls (for_loop active (fail_task w) (put_active w [] st1)) (\<lambda>_ st2.
       calls (for_loop (rs_replicas (snd st2)) (lose_replica_at w) st2) (\<lambda>_ st3.
       for_loop (rs_transfers (snd st3)) (fail_transfer_at w) st3)))))"

definition on_worker_recovered :: "SimEvent \<Rightarrow> 'h rstate \<Rightarrow> ('h rstate, unit) outcome" where
  "on_worker_recovered ev st =
     reads st (str_item ev ''worker_id'') (\<lambda>w.
     reads st (getitem (rs_workers (snd st)) w) (\<lambda>worker.
     if wk_status worker = UP then (Inr (), st)
     else dispatch w (put_worker w (worker\<lparr>wk_status := UP\<rparr>) st)))"

text \<open>The replica an event is about, with the key under which it is stored.\<close>

definition event_replica :: "resources \<Rightarrow> pyval \<Rightarrow> (string \<times> ReplicaRuntime) option" where
  "event_replica r v =
     (case is_str v of None \<Rightarrow> None | Some i \<Rightarrow> map_option (\<lambda>x. (i, x)) (map_of (rs_replicas r) i))"

definition on_materialization_started :: "SimEvent \<Rightarrow> 'h rstate \<Rightarrow> ('h rstate, unit) outcome" where
  "on_materialization_started ev st =
     reads st (payload_item ev ''replica_id'') (\<lambda>v.
     reads st (payload_item ev ''duration'') (\<lambda>duration.
     case event_replica (snd st) v of
       None \<Rightarrow> (Inr (), st)
     | Some (i, replica) \<Rightarrow>
         if rr_status replica \<noteq> ReplicaRuntimeStatus.MATERIALIZING then (Inr (), st)
         else
           reads st (getitem (rs_workers (snd st)) (rr_location_id replica)) (\<lambda>worker.
           if wk_status worker = DOWN
           then calls (sched (put_replica i (replica\<lparr>rr_status := ReplicaRuntimeStatus.LOST\<rparr>) st)
                         STATE_LOST (PInt 0) PNone (str_payload [(''replica_id'', i)]))
                  (\<lambda>_ st1. (Inr (), st1))
           else calls (sched st STATE_MATERIALIZED duration (PStr (''materialize-complete:'' @ i))
                         (str_payload [(''replica_id'', i)]))
                  (\<lambda>completion st1.
                     (Inr (), put_replica i (replica\<lparr>rr_completion_event_id := Some (ev_id completion)\<rparr>) st1)))))"

definition on_state_materialized :: "SimEvent \<Rightarrow> 'h rstate \<Rightarrow> ('h rstate, unit) outcome" where
  "on_state_materialized ev st =
     reads st (payload_item ev ''replica_id'') (\<lambda>v.
     case event_replica (snd st) v of
       None \<Rightarrow> (Inr (), st)
     | Some (i, replica) \<Rightarrow>
         if rr_status replica \<noteq> ReplicaRuntimeStatus.MATERIALIZING then (Inr (), st)
         else
           reads st (getitem (rs_workers (snd st)) (rr_location_id replica)) (\<lambda>worker.
           if wk_status worker = DOWN
           then calls (sched (put_replica i (replica\<lparr>rr_status := ReplicaRuntimeStatus.LOST,
                                                     rr_completion_event_id := None\<rparr>) st)
                         STATE_LOST (PInt 0) PNone (str_payload [(''replica_id'', i)]))
                  (\<lambda>_ st1. (Inr (), st1))
           else (Inr (), put_replica i (replica\<lparr>rr_status := ReplicaRuntimeStatus.AVAILABLE,
                                                 rr_completion_event_id := None\<rparr>) st)))"

definition event_transfer :: "resources \<Rightarrow> pyval \<Rightarrow> (string \<times> StateTransfer) option" where
  "event_transfer r v =
     (case is_str v of None \<Rightarrow> None | Some i \<Rightarrow> map_option (\<lambda>x. (i, x)) (map_of (rs_transfers r) i))"

text \<open>
  Whether a transfer cannot go on: the replica is not available at the source, or an endpoint is
  down. The operands of \<open>or\<close> are evaluated from the left, so an unknown worker raises only if
  the earlier operands are false.
\<close>

definition transfer_blocked :: "resources \<Rightarrow> ReplicaRuntime \<Rightarrow> StateTransfer \<Rightarrow> bool res" where
  "transfer_blocked r replica transfer =
     (if rr_status replica \<noteq> ReplicaRuntimeStatus.AVAILABLE \<or> rr_location_id replica \<noteq> tr_source_id transfer
      then Inr True
      else
        bind_res (getitem (rs_workers r) (tr_source_id transfer)) (\<lambda>source.
        if wk_status source = DOWN then Inr True
        else
          bind_res (getitem (rs_workers r) (tr_destination_id transfer)) (\<lambda>destination.
          Inr (wk_status destination = DOWN))))"

definition on_transfer_started :: "SimEvent \<Rightarrow> 'h rstate \<Rightarrow> ('h rstate, unit) outcome" where
  "on_transfer_started ev st =
     reads st (payload_item ev ''transfer_id'') (\<lambda>v.
     case event_transfer (snd st) v of
       None \<Rightarrow> (Inr (), st)
     | Some (i, transfer) \<Rightarrow>
         if tr_status transfer \<noteq> TransferStatus.SCHEDULED then (Inr (), st)
         else
           reads st (getitem (rs_replicas (snd st)) (tr_replica_id transfer)) (\<lambda>replica.
           reads st (transfer_blocked (snd st) replica transfer) (\<lambda>blocked.
           if blocked
           then calls (sched (put_transfer i (transfer\<lparr>tr_status := TransferStatus.FAILED,
                                  tr_started_at := Some (sim_now (fst st)),
                                  tr_completed_at := Some (sim_now (fst st))\<rparr>) st)
                         STATE_TRANSFER_FAILED (PInt 0) PNone (str_payload [(''transfer_id'', i)]))
                  (\<lambda>_ st1. (Inr (), st1))
           else
             reads st (getitem (rs_links (snd st)) (tr_link_id transfer)) (\<lambda>link.
             reads st (transfer_duration link (PInt (tr_size_bytes transfer))) (\<lambda>d.
             calls (sched st STATE_TRANSFER_COMPLETED (PFloat (Fin d)) (PStr (''transfer-complete:'' @ i))
                      (str_payload [(''transfer_id'', i)]))
               (\<lambda>completion st1.
                  (Inr (), put_transfer i (transfer\<lparr>tr_status := TransferStatus.RUNNING,
                               tr_started_at := Some (sim_now (fst st1)),
                               tr_completion_event_id := Some (ev_id completion)\<rparr>) st1)))))))"

definition on_transfer_completed :: "SimEvent \<Rightarrow> 'h rstate \<Rightarrow> ('h rstate, unit) outcome" where
  "on_transfer_completed ev st =
     reads st (payload_item ev ''transfer_id'') (\<lambda>v.
     case event_transfer (snd st) v of
       None \<Rightarrow> (Inr (), st)
     | Some (i, transfer) \<Rightarrow>
         if tr_status transfer \<noteq> TransferStatus.RUNNING then (Inr (), st)
         else
           reads st (getitem (rs_replicas (snd st)) (tr_replica_id transfer)) (\<lambda>replica.
           reads st (transfer_blocked (snd st) replica transfer) (\<lambda>blocked.
           if blocked
           then calls (sched (put_transfer i (transfer\<lparr>tr_status := TransferStatus.FAILED,
                                  tr_completed_at := Some (sim_now (fst st)),
                                  tr_completion_event_id := None\<rparr>) st)
                         STATE_TRANSFER_FAILED (PInt 0) PNone (str_payload [(''transfer_id'', i)]))
                  (\<lambda>_ st1. (Inr (), st1))
           else
             calls (sched (put_transfer i (transfer\<lparr>tr_status := TransferStatus.COMPLETED,
                                  tr_completed_at := Some (sim_now (fst st)),
                                  tr_completion_event_id := None\<rparr>)
                             (put_replica (tr_replica_id transfer)
                                (replica\<lparr>rr_location_id := tr_destination_id transfer\<rparr>) st))
                      STATE_MOVED (PInt 0) PNone
                      (str_payload [(''replica_id'', tr_replica_id transfer),
                         (''source_id'', tr_source_id transfer),
                         (''destination_id'', tr_destination_id transfer)]))
               (\<lambda>_ st1. (Inr (), st1)))))"

definition fail_active_transfers_for_replica :: "string \<Rightarrow> 'h rstate \<Rightarrow> ('h rstate, unit) outcome" where
  "fail_active_transfers_for_replica i st =
     for_loop (rs_transfers (snd st))
       (\<lambda>item st1. if tr_replica_id (snd item) \<noteq> i then (Inr (), st1)
                   else if \<not> active_transfer (snd item) then (Inr (), st1)
                   else fail_transfer item st1) st"

definition on_state_gone :: "ReplicaRuntimeStatus \<Rightarrow> SimEvent \<Rightarrow> 'h rstate \<Rightarrow> ('h rstate, unit) outcome" where
  "on_state_gone status ev st =
     reads st (payload_item ev ''replica_id'') (\<lambda>v.
     case event_replica (snd st) v of
       None \<Rightarrow> (Inr (), st)
     | Some (i, replica) \<Rightarrow>
         if rr_status replica = ReplicaRuntimeStatus.LOST then (Inr (), st)
         else
           calls (fail_active_transfers_for_replica i st) (\<lambda>_ st1.
             (Inr (), put_replica i (replica\<lparr>rr_status := status, rr_completion_event_id := None\<rparr>)
                        (cancel_truthy (rr_completion_event_id replica) st1))))"

definition on_state_evicted :: "SimEvent \<Rightarrow> 'h rstate \<Rightarrow> ('h rstate, unit) outcome" where
  "on_state_evicted = on_state_gone ReplicaRuntimeStatus.EVICTED"

definition on_state_lost :: "SimEvent \<Rightarrow> 'h rstate \<Rightarrow> ('h rstate, unit) outcome" where
  "on_state_lost = on_state_gone ReplicaRuntimeStatus.LOST"

subsection \<open>Registration\<close>

datatype resource_handler =
    OnTaskEnqueued | OnTaskCompleted | OnWorkerFailed | OnWorkerRecovered | OnMaterializationStarted
  | OnStateMaterialized | OnTransferStarted | OnTransferCompleted | OnStateEvicted | OnStateLost

fun resource_call :: "resource_handler \<Rightarrow> SimEvent \<Rightarrow> 'h rstate \<Rightarrow> ('h rstate, unit) outcome" where
  "resource_call OnTaskEnqueued = on_task_enqueued"
| "resource_call OnTaskCompleted = on_task_completed"
| "resource_call OnWorkerFailed = on_worker_failed"
| "resource_call OnWorkerRecovered = on_worker_recovered"
| "resource_call OnMaterializationStarted = on_materialization_started"
| "resource_call OnStateMaterialized = on_state_materialized"
| "resource_call OnTransferStarted = on_transfer_started"
| "resource_call OnTransferCompleted = on_transfer_completed"
| "resource_call OnStateEvicted = on_state_evicted"
| "resource_call OnStateLost = on_state_lost"

definition resource_registrations :: "(EventKind \<times> resource_handler) list" where
  "resource_registrations =
     [(WORKER_TASK_ENQUEUED, OnTaskEnqueued), (WORKER_TASK_COMPLETED, OnTaskCompleted),
      (WORKER_FAILED, OnWorkerFailed), (WORKER_RECOVERED, OnWorkerRecovered),
      (STATE_MATERIALIZATION_STARTED, OnMaterializationStarted),
      (STATE_MATERIALIZED, OnStateMaterialized), (STATE_TRANSFER_STARTED, OnTransferStarted),
      (STATE_TRANSFER_COMPLETED, OnTransferCompleted), (STATE_EVICTED, OnStateEvicted),
      (STATE_LOST, OnStateLost)]"

definition new_resource_model :: "resource_handler sim \<Rightarrow> resource_handler rstate" where
  "new_resource_model s =
     (fold (\<lambda>(k, h) t. register_handler t k h) resource_registrations s, empty_resources)"

end
