(* ===== verification/Sim_Resource_Inv.thy ===== *)
theory Sim_Resource_Inv
  imports Sim_Resources
begin

section \<open>The invariant of the resource model\<close>

text \<open>
  What holds of the resource model between any two calls, whether they returned or raised, and how
  its entities may change over time; that every operation and every handler keeps it; and the
  interpretation of the engine's interface.
\<close>

subsection \<open>Invariant and evolution\<close>

definition known_worker :: "resources \<Rightarrow> string \<Rightarrow> bool" where
  "known_worker r w \<longleftrightarrow> has_key (rs_workers r) w"

definition keys_ok :: "resources \<Rightarrow> bool" where
  "keys_ok r \<longleftrightarrow>
     distinct (keys_of (rs_tasks r)) \<and> distinct (keys_of (rs_replicas r)) \<and> distinct (keys_of (rs_transfers r)) \<and>
     (\<forall>w. known_worker r w \<longrightarrow> has_key (rs_worker_queues r) w \<and> has_key (rs_worker_active r) w)"

definition worker_ok :: "resources \<Rightarrow> string \<Rightarrow> Worker \<Rightarrow> bool" where
  "worker_ok r w worker \<longleftrightarrow>
     wk_id worker = w \<and> w \<noteq> [] \<and> 0 < wk_capacity worker \<and>
     int (length (listing (rs_worker_active r) w)) \<le> wk_capacity worker \<and>
     (wk_status worker = DOWN \<longrightarrow> listing (rs_worker_active r) w = [])"

definition tasks_in :: "resources \<Rightarrow> string \<Rightarrow> TaskStatus \<Rightarrow> string list \<Rightarrow> bool" where
  "tasks_in r w status xs \<longleftrightarrow>
     distinct xs \<and>
     (\<forall>i\<in>set xs. \<exists>t. map_of (rs_tasks r) i = Some t \<and> task_status t = status \<and> task_worker_id t = w)"

definition workers_ok :: "resources \<Rightarrow> bool" where
  "workers_ok r \<longleftrightarrow>
     (\<forall>w worker. map_of (rs_workers r) w = Some worker \<longrightarrow> worker_ok r w worker) \<and>
     (\<forall>w. tasks_in r w TaskStatus.QUEUED (listing (rs_worker_queues r) w)) \<and>
     (\<forall>w. tasks_in r w TaskStatus.RUNNING (listing (rs_worker_active r) w)) \<and>
     (\<forall>i t. map_of (rs_tasks r) i = Some t \<longrightarrow> task_id t = i \<and> known_worker r (task_worker_id t))"

definition link_ok :: "resources \<Rightarrow> string \<Rightarrow> NetworkLink \<Rightarrow> bool" where
  "link_ok r i x \<longleftrightarrow>
     link_id x = i \<and> known_worker r (link_source_id x) \<and> known_worker r (link_destination_id x) \<and>
     0 \<le> link_latency x \<and> 0 < link_bandwidth x"

definition replica_ok :: "resources \<Rightarrow> string \<Rightarrow> ReplicaRuntime \<Rightarrow> bool" where
  "replica_ok r i x \<longleftrightarrow> rr_id x = i \<and> known_worker r (rr_location_id x) \<and> 0 \<le> rr_size_bytes x"

definition transfer_ok :: "resources \<Rightarrow> string \<Rightarrow> StateTransfer \<Rightarrow> bool" where
  "transfer_ok r i x \<longleftrightarrow>
     tr_id x = i \<and> has_key (rs_replicas r) (tr_replica_id x) \<and> has_key (rs_links r) (tr_link_id x) \<and>
     known_worker r (tr_source_id x) \<and> known_worker r (tr_destination_id x) \<and> 0 \<le> tr_size_bytes x"

text \<open>At most one active transfer of a replica.\<close>

definition one_transfer :: "StateTransfer dict \<Rightarrow> bool" where
  "one_transfer us \<longleftrightarrow>
     (\<forall>i j x y. map_of us i = Some x \<longrightarrow> map_of us j = Some y \<longrightarrow>
        active_transfer x \<longrightarrow> active_transfer y \<longrightarrow> tr_replica_id x = tr_replica_id y \<longrightarrow> i = j)"

definition places_ok :: "resources \<Rightarrow> bool" where
  "places_ok r \<longleftrightarrow>
     (\<forall>i x. map_of (rs_links r) i = Some x \<longrightarrow> link_ok r i x) \<and>
     (\<forall>i x. map_of (rs_replicas r) i = Some x \<longrightarrow> replica_ok r i x) \<and>
     (\<forall>i x. map_of (rs_transfers r) i = Some x \<longrightarrow> transfer_ok r i x) \<and>
     one_transfer (rs_transfers r)"

definition res_ok :: "resources \<Rightarrow> bool" where
  "res_ok r \<longleftrightarrow> keys_ok r \<and> workers_ok r \<and> places_ok r"

definition worker_evolves :: "Worker \<Rightarrow> Worker \<Rightarrow> bool" where
  "worker_evolves x y \<longleftrightarrow> wk_id y = wk_id x \<and> wk_capacity y = wk_capacity x"

definition task_done :: "ResourceTask \<Rightarrow> bool" where
  "task_done t \<longleftrightarrow> task_status t = TaskStatus.COMPLETED \<or> task_status t = TaskStatus.FAILED"

definition task_evolves :: "ResourceTask \<Rightarrow> ResourceTask \<Rightarrow> bool" where
  "task_evolves x y \<longleftrightarrow>
     task_id y = task_id x \<and> task_worker_id y = task_worker_id x \<and> task_duration y = task_duration x \<and>
     task_enqueued_at y = task_enqueued_at x \<and>
     (task_status x \<noteq> TaskStatus.QUEUED \<longrightarrow> task_status y \<noteq> TaskStatus.QUEUED) \<and>
     (task_done x \<longrightarrow> y = x)"

fun replica_rank :: "ReplicaRuntimeStatus \<Rightarrow> nat" where
  "replica_rank MATERIALIZING = 0"
| "replica_rank AVAILABLE = 1"
| "replica_rank EVICTED = 2"
| "replica_rank LOST = 3"

definition replica_evolves :: "ReplicaRuntime \<Rightarrow> ReplicaRuntime \<Rightarrow> bool" where
  "replica_evolves x y \<longleftrightarrow>
     rr_id y = rr_id x \<and> rr_state_id y = rr_state_id x \<and> rr_size_bytes y = rr_size_bytes x \<and>
     replica_rank (rr_status x) \<le> replica_rank (rr_status y) \<and>
     (2 \<le> replica_rank (rr_status x) \<longrightarrow> rr_location_id y = rr_location_id x)"

definition transfer_evolves :: "StateTransfer \<Rightarrow> StateTransfer \<Rightarrow> bool" where
  "transfer_evolves x y \<longleftrightarrow>
     tr_id y = tr_id x \<and> tr_replica_id y = tr_replica_id x \<and> tr_link_id y = tr_link_id x \<and>
     tr_source_id y = tr_source_id x \<and> tr_destination_id y = tr_destination_id x \<and>
     tr_size_bytes y = tr_size_bytes x \<and>
     (active_transfer y \<longrightarrow> active_transfer x) \<and> (\<not> active_transfer x \<longrightarrow> y = x)"

definition res_evolves :: "resources \<Rightarrow> resources \<Rightarrow> bool" where
  "res_evolves r r' \<longleftrightarrow>
     dict_evolves worker_evolves (rs_workers r) (rs_workers r') \<and>
     dict_evolves (=) (rs_links r) (rs_links r') \<and>
     dict_evolves task_evolves (rs_tasks r) (rs_tasks r') \<and>
     dict_evolves replica_evolves (rs_replicas r) (rs_replicas r') \<and>
     dict_evolves transfer_evolves (rs_transfers r) (rs_transfers r')"

lemma entity_evolves_refl [simp]:
  "worker_evolves x x" "task_evolves t t" "replica_evolves p p" "transfer_evolves u u"
  by (simp_all add: worker_evolves_def task_evolves_def replica_evolves_def transfer_evolves_def)

lemma entity_evolves_trans:
  "worker_evolves a b \<Longrightarrow> worker_evolves b c \<Longrightarrow> worker_evolves a c"
  "task_evolves t u \<Longrightarrow> task_evolves u v \<Longrightarrow> task_evolves t v"
  "replica_evolves p q \<Longrightarrow> replica_evolves q s \<Longrightarrow> replica_evolves p s"
  "transfer_evolves x y \<Longrightarrow> transfer_evolves y z \<Longrightarrow> transfer_evolves x z"
     apply (simp add: worker_evolves_def)
    apply (unfold task_evolves_def, metis)
   apply (unfold replica_evolves_def, metis order_trans)
  apply (unfold transfer_evolves_def, metis)
  done

lemma res_evolves_refl: "res_evolves r r"
  by (simp add: res_evolves_def dict_evolves_refl)

lemma res_evolves_trans: "res_evolves r s \<Longrightarrow> res_evolves s t \<Longrightarrow> res_evolves r t"
  unfolding res_evolves_def
  by (elim conjE; intro conjI) (erule (1) dict_evolves_trans [rotated]; blast intro: entity_evolves_trans)+

text \<open>
  A completion event of a task names the worker the task was given to. Events of the other kinds
  may carry anything.
\<close>

definition event_ok :: "resources \<Rightarrow> SimEvent \<Rightarrow> bool" where
  "event_ok r ev \<longleftrightarrow>
     (ev_kind ev = WORKER_TASK_COMPLETED \<longrightarrow>
        (\<exists>i w t. map_of (ev_payload ev) ''task_id'' = Some (PStr i) \<and>
           map_of (ev_payload ev) ''worker_id'' = Some (PStr w) \<and>
           map_of (rs_tasks r) i = Some t \<and> task_worker_id t = w))"

lemma event_ok_stable: "res_evolves r r' \<Longrightarrow> event_ok r ev \<Longrightarrow> event_ok r' ev"
  unfolding event_ok_def res_evolves_def dict_evolves_def task_evolves_def by metis

interpretation resource_world: event_world res_ok event_ok res_evolves
  by unfold_locales (auto intro: res_evolves_refl res_evolves_trans event_ok_stable)

abbreviation res_good :: "'h rstate \<Rightarrow> bool" where
  "res_good \<equiv> world_ok res_ok event_ok"

abbreviation res_steps :: "'h rstate \<Rightarrow> 'h rstate \<Rightarrow> bool" where
  "res_steps \<equiv> world_evolves res_evolves"

subsection \<open>Single updates\<close>

lemma listing_setitem [simp]: "listing (setitem k v d) j = (if j = k then v else listing d j)"
  by (simp add: listing_def)

lemma listing_Some: "map_of d k = Some xs \<Longrightarrow> listing d k = xs"
  by (simp add: listing_def)

lemma put_simps [simp]:
  "fst (put_task i t st) = fst st" "fst (put_replica i p st) = fst st" "fst (put_transfer i u st) = fst st"
  "fst (put_worker w k st) = fst st" "fst (put_queue w q st) = fst st" "fst (put_active w q st) = fst st"
  "snd (put_task i t st) = (snd st)\<lparr>rs_tasks := setitem i t (rs_tasks (snd st))\<rparr>"
  "snd (put_replica i p st) = (snd st)\<lparr>rs_replicas := setitem i p (rs_replicas (snd st))\<rparr>"
  "snd (put_transfer i u st) = (snd st)\<lparr>rs_transfers := setitem i u (rs_transfers (snd st))\<rparr>"
  "snd (put_worker w k st) = (snd st)\<lparr>rs_workers := setitem w k (rs_workers (snd st))\<rparr>"
  "snd (put_queue w q st) = (snd st)\<lparr>rs_worker_queues := setitem w q (rs_worker_queues (snd st))\<rparr>"
  "snd (put_active w q st) = (snd st)\<lparr>rs_worker_active := setitem w q (rs_worker_active (snd st))\<rparr>"
  by (simp_all add: put_task_def put_replica_def put_transfer_def put_worker_def put_queue_def put_active_def)

lemma res_evolves_upd:
  "dict_evolves worker_evolves (rs_workers r) ws \<Longrightarrow> res_evolves r (r\<lparr>rs_workers := ws\<rparr>)"
  "dict_evolves (=) (rs_links r) ls \<Longrightarrow> res_evolves r (r\<lparr>rs_links := ls\<rparr>)"
  "dict_evolves task_evolves (rs_tasks r) ts \<Longrightarrow> res_evolves r (r\<lparr>rs_tasks := ts\<rparr>)"
  "dict_evolves replica_evolves (rs_replicas r) ps \<Longrightarrow> res_evolves r (r\<lparr>rs_replicas := ps\<rparr>)"
  "dict_evolves transfer_evolves (rs_transfers r) us \<Longrightarrow> res_evolves r (r\<lparr>rs_transfers := us\<rparr>)"
  "res_evolves r (r\<lparr>rs_worker_queues := qs\<rparr>)" "res_evolves r (r\<lparr>rs_worker_active := qs\<rparr>)"
  by (simp_all add: res_evolves_def dict_evolves_refl)

lemma res_good_res_ok: "res_good st \<Longrightarrow> res_ok (snd st)"
  by (simp add: world_ok_def)

text \<open>To show that an update of the model's own state is safe, look at that state only.\<close>

lemma put_good:
  assumes "res_good st" and "fst st' = fst st" and "res_ok (snd st')" and "res_evolves (snd st) (snd st')"
  shows "res_good st' \<and> res_steps st st'"
  using resource_world.put_ok [OF assms(1,3,4)] assms(2) by (metis prod.collapse)

lemma keys_ok_upd [simp]:
  "map_of (rs_tasks r) i = Some t \<Longrightarrow> keys_ok (r\<lparr>rs_tasks := setitem i t' (rs_tasks r)\<rparr>) = keys_ok r"
  "map_of (rs_replicas r) i = Some p \<Longrightarrow> keys_ok (r\<lparr>rs_replicas := setitem i p' (rs_replicas r)\<rparr>) = keys_ok r"
  "map_of (rs_transfers r) i = Some u \<Longrightarrow> keys_ok (r\<lparr>rs_transfers := setitem i u' (rs_transfers r)\<rparr>) = keys_ok r"
  by (auto simp: keys_ok_def known_worker_def keys_of_setitem dest: map_of_in_keys)

lemma known_worker_upd [simp]:
  "known_worker (r\<lparr>rs_tasks := ts\<rparr>) w = known_worker r w"
  "known_worker (r\<lparr>rs_replicas := ps\<rparr>) w = known_worker r w"
  "known_worker (r\<lparr>rs_transfers := us\<rparr>) w = known_worker r w"
  "known_worker (r\<lparr>rs_links := ls\<rparr>) w = known_worker r w"
  "known_worker (r\<lparr>rs_worker_queues := qs\<rparr>) w = known_worker r w"
  "known_worker (r\<lparr>rs_worker_active := qs\<rparr>) w = known_worker r w"
  "known_worker (r\<lparr>rs_workers := setitem v k (rs_workers r)\<rparr>) w \<longleftrightarrow> w = v \<or> known_worker r w"
  by (simp_all add: known_worker_def)

lemma workers_ok_frame [simp]:
  "workers_ok (r\<lparr>rs_replicas := ps\<rparr>) = workers_ok r"
  "workers_ok (r\<lparr>rs_transfers := us\<rparr>) = workers_ok r"
  "workers_ok (r\<lparr>rs_links := ls\<rparr>) = workers_ok r"
  by (simp_all add: workers_ok_def worker_ok_def tasks_in_def)

lemma places_ok_frame [simp]:
  "places_ok (r\<lparr>rs_tasks := ts\<rparr>) = places_ok r"
  "places_ok (r\<lparr>rs_worker_queues := qs\<rparr>) = places_ok r"
  "places_ok (r\<lparr>rs_worker_active := qs\<rparr>) = places_ok r"
  by (simp_all add: places_ok_def link_ok_def replica_ok_def transfer_ok_def)

lemma put_transfer_good:
  assumes g: "res_good st" and x: "map_of (rs_transfers (snd st)) i = Some x" and e: "transfer_evolves x y"
  shows "res_good (put_transfer i y st) \<and> res_steps st (put_transfer i y st)"
proof (rule put_good [OF g])
  have ok: "res_ok (snd st)" using g by (rule res_good_res_ok)
  then have p: "places_ok (snd st)" by (simp add: res_ok_def)
  let ?r = "(snd st)\<lparr>rs_transfers := setitem i y (rs_transfers (snd st))\<rparr>"
  have x': "transfer_ok (snd st) i x" using p x unfolding places_ok_def by blast
  have "transfer_ok (snd st) i y" using x' e by (simp add: transfer_ok_def transfer_evolves_def)
  then have "\<forall>j u. map_of (rs_transfers ?r) j = Some u \<longrightarrow> transfer_ok ?r j u"
    using p by (simp add: places_ok_def transfer_ok_def)
  moreover have "one_transfer (rs_transfers ?r)"
    using p x e unfolding places_ok_def one_transfer_def transfer_evolves_def by (simp add: all_conj_distrib) metis
  ultimately have "places_ok ?r"
    using p by (simp add: places_ok_def link_ok_def replica_ok_def)
  with ok x show "res_ok (snd (put_transfer i y st))" by (simp add: res_ok_def)
  show "res_evolves (snd st) (snd (put_transfer i y st))"
    using x e by (auto intro!: res_evolves_upd dict_evolves_replace)
qed simp

lemma put_replica_good:
  assumes g: "res_good st" and x: "map_of (rs_replicas (snd st)) i = Some x" and e: "replica_evolves x y"
    and l: "known_worker (snd st) (rr_location_id y)"
  shows "res_good (put_replica i y st) \<and> res_steps st (put_replica i y st)"
proof (rule put_good [OF g])
  have ok: "res_ok (snd st)" using g by (rule res_good_res_ok)
  then have p: "places_ok (snd st)" by (simp add: res_ok_def)
  then have "replica_ok (snd st) i x" using x unfolding places_ok_def by blast
  with p e l have "places_ok (snd (put_replica i y st))"
    by (simp add: places_ok_def replica_evolves_def link_ok_def replica_ok_def transfer_ok_def)
  with ok x show "res_ok (snd (put_replica i y st))" by (simp add: res_ok_def)
  show "res_evolves (snd st) (snd (put_replica i y st))"
    using x e by (auto intro!: res_evolves_upd dict_evolves_replace)
qed simp

lemma tasks_in_frame [simp]:
  "tasks_in (r\<lparr>rs_worker_queues := qs\<rparr>) = tasks_in r" "tasks_in (r\<lparr>rs_worker_active := qs\<rparr>) = tasks_in r"
  "tasks_in (r\<lparr>rs_workers := ws\<rparr>) = tasks_in r"
  by (simp_all add: tasks_in_def fun_eq_iff)

lemma put_queue_good:
  assumes g: "res_good st" and q: "tasks_in (snd st) w TaskStatus.QUEUED q"
  shows "res_good (put_queue w q st) \<and> res_steps st (put_queue w q st)"
proof (rule put_good [OF g])
  have ok: "res_ok (snd st)" using g by (rule res_good_res_ok)
  then show "res_ok (snd (put_queue w q st))" using q
    by (simp add: res_ok_def keys_ok_def workers_ok_def worker_ok_def)
qed (simp_all add: res_evolves_upd)

lemma put_active_good:
  assumes g: "res_good st" and q: "tasks_in (snd st) w TaskStatus.RUNNING q"
    and c: "\<And>worker. map_of (rs_workers (snd st)) w = Some worker \<Longrightarrow>
        int (length q) \<le> wk_capacity worker \<and> (wk_status worker = DOWN \<longrightarrow> q = [])"
  shows "res_good (put_active w q st) \<and> res_steps st (put_active w q st)"
proof (rule put_good [OF g])
  have ok: "res_ok (snd st)" using g by (rule res_good_res_ok)
  then show "res_ok (snd (put_active w q st))" using q c
    by (simp add: res_ok_def keys_ok_def workers_ok_def worker_ok_def)
qed (simp_all add: res_evolves_upd)

lemma put_task_good:
  assumes g: "res_good st" and x: "map_of (rs_tasks (snd st)) i = Some x" and e: "task_evolves x y"
    and q: "\<And>w. i \<notin> set (listing (rs_worker_queues (snd st)) w)"
    and a: "\<And>w. i \<in> set (listing (rs_worker_active (snd st)) w) \<Longrightarrow> task_status y = TaskStatus.RUNNING"
  shows "res_good (put_task i y st) \<and> res_steps st (put_task i y st)"
proof (rule put_good [OF g])
  have ok: "res_ok (snd st)" using g by (rule res_good_res_ok)
  then have w: "workers_ok (snd st)" by (simp add: res_ok_def)
  let ?r = "(snd st)\<lparr>rs_tasks := setitem i y (rs_tasks (snd st))\<rparr>"
  have "task_id x = i \<and> known_worker (snd st) (task_worker_id x)" using w x unfolding workers_ok_def by blast
  then have "\<forall>j t. map_of (rs_tasks ?r) j = Some t \<longrightarrow> task_id t = j \<and> known_worker ?r (task_worker_id t)"
    using w e by (auto simp: workers_ok_def task_evolves_def)
  moreover have "tasks_in ?r v TaskStatus.QUEUED (listing (rs_worker_queues ?r) v)" for v
    using w q unfolding workers_ok_def tasks_in_def by auto
  moreover have "tasks_in ?r v TaskStatus.RUNNING (listing (rs_worker_active ?r) v)" for v
    using w a x e unfolding workers_ok_def tasks_in_def task_evolves_def by fastforce
  moreover have "\<forall>v k. map_of (rs_workers ?r) v = Some k \<longrightarrow> worker_ok ?r v k"
    using w unfolding workers_ok_def worker_ok_def by simp
  ultimately have "workers_ok ?r" unfolding workers_ok_def by blast
  with ok x show "res_ok (snd (put_task i y st))" by (simp add: res_ok_def)
  show "res_evolves (snd st) (snd (put_task i y st))"
    using x e by (auto intro!: res_evolves_upd dict_evolves_replace)
qed simp

subsection \<open>Handlers keep the invariant\<close>

declare resource_world.evolves_refl [simp]

lemmas safe_step = resource_world.safe_from
lemmas safe_rules = resource_world.safe_reads resource_world.safe_calls resource_world.safe_return

lemma sched_other: "res_good st \<Longrightarrow> kind \<noteq> WORKER_TASK_COMPLETED \<Longrightarrow> resource_world.safe st (sched st kind d i p)"
  by (rule resource_world.sched_safe) (simp_all add: event_ok_def)

lemma sched_done:
  "res_good st \<Longrightarrow> kind \<noteq> WORKER_TASK_COMPLETED \<Longrightarrow>
   resource_world.safe st (calls (sched st kind d i p) (\<lambda>_ st1. (Inr (), st1)))"
  by (intro safe_rules sched_other)

lemma completion_payload:
  "freeze_payload (str_payload [(''task_id'', i), (''worker_id'', w)]) =
     Inr [(''task_id'', PStr i), (''worker_id'', PStr w)]"
  by (simp add: freeze_payload_def str_payload_def str_key_def sorted_items_def)

lemma sched_completion:
  assumes "res_good st" and "map_of (rs_tasks (snd st)) i = Some t" and "task_worker_id t = w"
  shows "resource_world.safe st
    (sched st WORKER_TASK_COMPLETED d e (str_payload [(''task_id'', i), (''worker_id'', w)]))"
proof (rule resource_world.sched_safe [OF assms(1)])
  fix ev :: SimEvent
  assume "freeze_payload (str_payload [(''task_id'', i), (''worker_id'', w)]) = Inr (ev_payload ev)"
  then have "ev_payload ev = [(''task_id'', PStr i), (''worker_id'', PStr w)]" by (simp add: completion_payload)
  with assms(2,3) show "event_ok (snd st) ev" by (simp add: event_ok_def)
qed

lemma put_transfer_safe:
  "res_good st \<Longrightarrow> map_of (rs_transfers (snd st)) i = Some x \<Longrightarrow> transfer_evolves x y \<Longrightarrow>
   resource_world.safe (put_transfer i y st) out \<Longrightarrow> resource_world.safe st out"
  using put_transfer_good by (blast intro: safe_step)

lemma put_replica_safe:
  "res_good st \<Longrightarrow> map_of (rs_replicas (snd st)) i = Some x \<Longrightarrow> replica_evolves x y \<Longrightarrow>
   known_worker (snd st) (rr_location_id y) \<Longrightarrow>
   resource_world.safe (put_replica i y st) out \<Longrightarrow> resource_world.safe st out"
  using put_replica_good by (blast intro: safe_step)

lemma cancel_truthy_safe:
  "res_good st \<Longrightarrow> (res_good (cancel_truthy i st) \<Longrightarrow> resource_world.safe (cancel_truthy i st) out) \<Longrightarrow>
   resource_world.safe st out"
  using resource_world.cancel_truthy_ok by (blast intro: safe_step)

lemma good_replica: "res_good st \<Longrightarrow> map_of (rs_replicas (snd st)) i = Some x \<Longrightarrow> known_worker (snd st) (rr_location_id x)"
  by (auto dest!: res_good_res_ok simp: res_ok_def places_ok_def replica_ok_def)

lemma snd_sched [simp]: "snd (snd (sched st k d i p)) = snd st"
  by (rule resource_world.sched_snd)

lemma snd_cancel_truthy [simp]: "snd (cancel_truthy i st) = snd st"
  by (rule resource_world.cancel_truthy_snd)

lemma sched_Inr_snd: "sched st k d i p = (Inr ev, st1) \<Longrightarrow> snd st1 = snd st"
  using snd_sched [of st k d i p] by simp

lemma transfer_failed_evolves [simp]:
  "active_transfer x \<Longrightarrow> transfer_evolves x (x\<lparr>tr_status := TransferStatus.FAILED, tr_completed_at := c, tr_completion_event_id := e\<rparr>)"
  "active_transfer x \<Longrightarrow> transfer_evolves x (x\<lparr>tr_status := TransferStatus.FAILED, tr_started_at := b, tr_completed_at := c\<rparr>)"
  "active_transfer x \<Longrightarrow> transfer_evolves x (x\<lparr>tr_status := TransferStatus.COMPLETED, tr_completed_at := c, tr_completion_event_id := e\<rparr>)"
  "active_transfer x \<Longrightarrow> transfer_evolves x (x\<lparr>tr_status := TransferStatus.RUNNING, tr_started_at := b, tr_completion_event_id := e\<rparr>)"
  by (simp_all add: transfer_evolves_def active_transfer_def)

lemma fail_transfer_safe:
  assumes "res_good st" and "map_of (rs_transfers (snd st)) i = Some x" and "active_transfer x"
  shows "resource_world.safe st (fail_transfer (i, x) st)"
    and "j \<noteq> i \<Longrightarrow> map_of (rs_transfers (snd (snd (fail_transfer (i, x) st)))) j = map_of (rs_transfers (snd st)) j"
    and "rs_replicas (snd (snd (fail_transfer (i, x) st))) = rs_replicas (snd st)"
proof -
  let ?y = "x\<lparr>tr_status := TransferStatus.FAILED, tr_completed_at := Some (sim_now (fst (cancel_truthy (tr_completion_event_id x) st))),
      tr_completion_event_id := None\<rparr>"
  let ?c = "cancel_truthy (tr_completion_event_id x) st"
  have eq: "fail_transfer (i, x) st = calls (sched (put_transfer i ?y ?c) STATE_TRANSFER_FAILED (PInt 0) PNone
      (str_payload [(''transfer_id'', i)])) (\<lambda>_ st3. (Inr (), st3))"
    by (simp add: fail_transfer_def Let_def)
  show "resource_world.safe st (fail_transfer (i, x) st)"
  proof (rule cancel_truthy_safe [OF assms(1), of "tr_completion_event_id x"])
    assume g: "res_good ?c"
    have "res_good (put_transfer i ?y ?c) \<and> res_steps ?c (put_transfer i ?y ?c)"
      by (rule put_transfer_good [OF g _ transfer_failed_evolves(1) [OF assms(3)]]) (simp add: assms(2))
    then show "resource_world.safe ?c (fail_transfer (i, x) st)"
      unfolding eq by (auto intro: safe_step sched_done)
  qed
  have frame: "snd (snd (calls (sched st' k d e p) (\<lambda>_ st3. (Inr (), st3)))) = snd st'" for st' :: "'a rstate" and k d e p
    using snd_sched [of st' k d e p] by (cases "sched st' k d e p"; cases "fst (sched st' k d e p)") auto
  show "j \<noteq> i \<Longrightarrow> map_of (rs_transfers (snd (snd (fail_transfer (i, x) st)))) j = map_of (rs_transfers (snd st)) j"
    and "rs_replicas (snd (snd (fail_transfer (i, x) st))) = rs_replicas (snd st)"
    unfolding eq frame by simp_all
qed

lemma queue_tasks: "res_good st \<Longrightarrow> tasks_in (snd st) w TaskStatus.QUEUED (listing (rs_worker_queues (snd st)) w)"
  and active_tasks: "res_good st \<Longrightarrow> tasks_in (snd st) w TaskStatus.RUNNING (listing (rs_worker_active (snd st)) w)"
  and good_worker: "res_good st \<Longrightarrow> map_of (rs_workers (snd st)) w = Some worker \<Longrightarrow> worker_ok (snd st) w worker"
  by (auto dest!: res_good_res_ok simp: res_ok_def workers_ok_def)

lemma tasks_in_Cons:
  "tasks_in r w s (i # xs) \<longleftrightarrow>
     i \<notin> set xs \<and> (\<exists>t. map_of (rs_tasks r) i = Some t \<and> task_status t = s \<and> task_worker_id t = w) \<and> tasks_in r w s xs"
  by (auto simp: tasks_in_def)

text \<open>Starting the task at the head of a queue: the updates of one pass of the dispatch loop.\<close>

lemma start_task_good:
  assumes g: "res_good st" and w: "map_of (rs_workers (snd st)) w = Some worker" "wk_status worker = UP"
      "int (length (listing (rs_worker_active (snd st)) w)) < wk_capacity worker"
    and t: "map_of (rs_tasks (snd st)) i = Some task" "task_status task = TaskStatus.QUEUED" "task_worker_id task = w"
    and q: "i \<notin> set (listing (rs_worker_queues (snd st)) w)"
    and st': "st' = put_active w (listing (rs_worker_active (snd st)) w @ [i])
        (put_task i (task\<lparr>task_status := TaskStatus.RUNNING, task_started_at := a, task_completion_event_id := c\<rparr>) st)"
  shows "res_good st' \<and> res_steps st st'"
proof -
  let ?y = "task\<lparr>task_status := TaskStatus.RUNNING, task_started_at := a, task_completion_event_id := c\<rparr>"
  let ?st = "put_task i ?y st"
  have e: "task_evolves task ?y" using t(2) by (simp add: task_evolves_def task_done_def)
  have nq: "i \<notin> set (listing (rs_worker_queues (snd st)) v)" for v
    using queue_tasks [OF g, of v] t q by (auto simp: tasks_in_def)
  have na: "i \<notin> set (listing (rs_worker_active (snd st)) v)" for v
    using active_tasks [OF g, of v] t by (auto simp: tasks_in_def)
  have one: "res_good ?st \<and> res_steps st ?st"
    by (rule put_task_good [OF g t(1) e nq]) simp
  then have g1: "res_good ?st" by blast
  have run: "tasks_in (snd ?st) w TaskStatus.RUNNING (listing (rs_worker_active (snd st)) w @ [i])"
    using active_tasks [OF g1, of w] na t(3) by (auto simp: tasks_in_def)
  have "res_good (put_active w (listing (rs_worker_active (snd st)) w @ [i]) ?st) \<and>
      res_steps ?st (put_active w (listing (rs_worker_active (snd st)) w @ [i]) ?st)"
    using w by (intro put_active_good [OF g1 run]) auto
  with one show ?thesis unfolding st' using resource_world.evolves_trans by blast
qed

lemma dispatch_loop_safe:
  assumes "res_good st" and "map_of (rs_workers (snd st)) w = Some worker"
    and "listing (rs_worker_queues (snd st)) w = queue"
  shows "resource_world.safe st (dispatch_loop worker w queue st)"
  using assms
proof (induction queue arbitrary: st)
  case (Cons i queue)
  show ?case
  proof (cases "wk_status worker = UP \<and> int (length (listing (rs_worker_active (snd st)) w)) < wk_capacity worker")
    case True
    let ?st1 = "put_queue w queue st"
    have qs: "tasks_in (snd st) w TaskStatus.QUEUED (i # queue)"
      using queue_tasks [OF Cons.prems(1), of w] Cons.prems(3) by simp
    then obtain task where i: "i \<notin> set queue" and t: "map_of (rs_tasks (snd st)) i = Some task"
        "task_status task = TaskStatus.QUEUED" "task_worker_id task = w"
      and rest: "tasks_in (snd st) w TaskStatus.QUEUED queue"
      by (auto simp: tasks_in_Cons)
    have g1: "res_good ?st1" "res_steps st ?st1" using put_queue_good [OF Cons.prems(1) rest] by simp_all
    show ?thesis
      unfolding dispatch_loop.simps if_P [OF True] Let_def
    proof (intro safe_step [OF g1(2)] safe_rules(1) [OF g1(1)] safe_rules(2), goal_cases)
      case (1 task')
      with t show ?case by (intro sched_completion [OF g1(1)]) simp_all
    next
      case (2 task' ev st2)
      from 2(1) t(1) have task': "task' = task" by simp
      from 2(2) have s2: "snd st2 = snd ?st1" by (rule sched_Inr_snd)
      define st3 where "st3 = put_active w (listing (rs_worker_active (snd st2)) w @ [i])
        (put_task i (task\<lparr>task_status := TaskStatus.RUNNING, task_started_at := Some (sim_now (fst st2)),
                          task_completion_event_id := Some (ev_id ev)\<rparr>) st2)"
      have g3: "res_good st3 \<and> res_steps st2 st3"
      proof (rule start_task_good [OF 2(3) _ _ _ _ t(2,3) _ st3_def])
        show "map_of (rs_workers (snd st2)) w = Some worker" using s2 Cons.prems(2) by simp
        show "wk_status worker = UP" using True by blast
        show "int (length (listing (rs_worker_active (snd st2)) w)) < wk_capacity worker"
          using True s2 by simp
        show "map_of (rs_tasks (snd st2)) i = Some task" using s2 t(1) by simp
        show "i \<notin> set (listing (rs_worker_queues (snd st2)) w)" using s2 i by simp
      qed
      have "resource_world.safe st3 (dispatch_loop worker w queue st3)"
        by (rule Cons.IH) (use g3 s2 Cons.prems(2) in \<open>simp_all add: st3_def\<close>)
      with g3 show ?case unfolding st3_def task' by (blast intro: safe_step)
    qed
  qed (use Cons.prems(1) in auto)
qed simp

lemma dispatch_safe: "res_good st \<Longrightarrow> resource_world.safe st (dispatch w st)"
  unfolding dispatch_def by (intro safe_rules dispatch_loop_safe) (simp_all add: listing_Some)

lemma on_task_enqueued_safe: "res_good st \<Longrightarrow> resource_world.safe st (on_task_enqueued ev st)"
  unfolding on_task_enqueued_def by (intro safe_rules dispatch_safe)

lemma on_task_completed_safe:
  assumes g: "res_good st" and q: "event_ok (snd st) ev" and k: "ev_kind ev = WORKER_TASK_COMPLETED"
  shows "resource_world.safe st (on_task_completed ev st)"
proof -
  from q k obtain i w task where p: "map_of (ev_payload ev) ''task_id'' = Some (PStr i)"
      "map_of (ev_payload ev) ''worker_id'' = Some (PStr w)"
    and t: "map_of (rs_tasks (snd st)) i = Some task" "task_worker_id task = w"
    by (auto simp: event_ok_def)
  let ?y = "task\<lparr>task_status := TaskStatus.COMPLETED, task_completed_at := Some (sim_now (fst st)), task_completion_event_id := None\<rparr>"
  have eq: "on_task_completed ev st =
      (if task_status task \<noteq> TaskStatus.RUNNING then (Inr (), st)
       else reads st (getitem (rs_worker_active (snd st)) w) (\<lambda>active.
         dispatch w (put_task i ?y (put_active w (remove1 i active) st))))"
    using p t by (simp add: on_task_completed_def payload_item_def getitem_def vlookup_def is_str_def)
  show ?thesis
  proof (cases "task_status task = TaskStatus.RUNNING")
    case True
    have "resource_world.safe st (dispatch w (put_task i ?y (put_active w (remove1 i active) st)))"
      if a: "map_of (rs_worker_active (snd st)) w = Some active" for active
    proof -
      let ?st1 = "put_active w (remove1 i active) st"
      have act: "tasks_in (snd st) w TaskStatus.RUNNING active"
        using active_tasks [OF g, of w] a by (simp add: listing_Some)
      then have sub: "tasks_in (snd st) w TaskStatus.RUNNING (remove1 i active)"
        by (auto simp: tasks_in_def dest: notin_set_remove1)
      have one: "res_good ?st1 \<and> res_steps st ?st1"
      proof (rule put_active_good [OF g sub])
        fix worker assume "map_of (rs_workers (snd st)) w = Some worker"
        then have "worker_ok (snd st) w worker" by (rule good_worker [OF g])
        moreover have "length (remove1 i active) \<le> length active" by (simp add: length_remove1)
        ultimately show "int (length (remove1 i active)) \<le> wk_capacity worker \<and> (wk_status worker = DOWN \<longrightarrow> remove1 i active = [])"
          using a by (auto simp: worker_ok_def listing_Some)
      qed
      have e: "task_evolves task ?y" using True by (simp add: task_evolves_def task_done_def)
      have two: "res_good (put_task i ?y ?st1) \<and> res_steps ?st1 (put_task i ?y ?st1)"
      proof (rule put_task_good [OF _ _ e])
        show "res_good ?st1" using one by blast
        show "map_of (rs_tasks (snd ?st1)) i = Some task" using t by simp
        show "i \<notin> set (listing (rs_worker_queues (snd ?st1)) v)" for v
          using queue_tasks [OF g, of v] t True by (auto simp: tasks_in_def)
        show "task_status ?y = TaskStatus.RUNNING" if "i \<in> set (listing (rs_worker_active (snd ?st1)) v)" for v
          using that active_tasks [OF g, of v] act t by (auto simp: tasks_in_def split: if_splits)
      qed
      from one two dispatch_safe show ?thesis by (blast intro: safe_step)
    qed
    then show ?thesis unfolding eq using True g by (auto intro!: safe_rules(1))
  qed (simp add: eq g)
qed

subsection \<open>A worker fails\<close>

text \<open>The running tasks that were taken off the list of a failed worker.\<close>

definition orphaned :: "resources \<Rightarrow> string list \<Rightarrow> bool" where
  "orphaned r xs \<longleftrightarrow>
     distinct xs \<and> (\<forall>i\<in>set xs. \<forall>w. i \<notin> set (listing (rs_worker_active r) w)) \<and>
     (\<forall>i\<in>set xs. \<exists>t. map_of (rs_tasks r) i = Some t \<and> task_status t = TaskStatus.RUNNING)"

lemma frame_sched_done:
  "snd (snd (calls (sched st k d e p) (\<lambda>_ st1. (Inr (), st1)))) = snd st"
  using snd_sched [of st k d e p] by (cases "sched st k d e p"; cases "fst (sched st k d e p)") auto

lemma fail_task_safe:
  assumes g: "res_good st" and t: "map_of (rs_tasks (snd st)) i = Some t" "task_status t = TaskStatus.RUNNING"
    and a: "\<And>w. i \<notin> set (listing (rs_worker_active (snd st)) w)"
  shows "resource_world.safe st (fail_task w i st)"
    and "\<exists>t'. snd (snd (fail_task w i st)) = (snd st)\<lparr>rs_tasks := setitem i t' (rs_tasks (snd st))\<rparr>"
proof -
  let ?c = "cancel_truthy (task_completion_event_id t) st"
  let ?y = "t\<lparr>task_status := TaskStatus.FAILED, task_completed_at := Some (sim_now (fst ?c)), task_completion_event_id := None\<rparr>"
  have eq: "fail_task w i st = calls (sched (put_task i ?y ?c) WORKER_TASK_FAILED (PInt 0) PNone
      (str_payload [(''task_id'', i), (''worker_id'', w)])) (\<lambda>_ st3. (Inr (), st3))"
    using t by (simp add: fail_task_def Let_def getitem_def)
  have e: "task_evolves t ?y" using t(2) by (simp add: task_evolves_def task_done_def)
  show "resource_world.safe st (fail_task w i st)"
  proof (rule cancel_truthy_safe [OF g, of "task_completion_event_id t"])
    assume gc: "res_good ?c"
    have "res_good (put_task i ?y ?c) \<and> res_steps ?c (put_task i ?y ?c)"
    proof (rule put_task_good [OF gc _ e])
      show "i \<notin> set (listing (rs_worker_queues (snd ?c)) v)" for v
        using queue_tasks [OF g, of v] t by (auto simp: tasks_in_def)
    qed (use t a in simp_all)
    then show "resource_world.safe ?c (fail_task w i st)"
      unfolding eq by (auto intro: safe_step sched_done)
  qed
  show "\<exists>t'. snd (snd (fail_task w i st)) = (snd st)\<lparr>rs_tasks := setitem i t' (rs_tasks (snd st))\<rparr>"
    unfolding eq frame_sched_done by (rule exI [of _ ?y]) simp
qed

lemma fail_tasks_safe:
  "res_good st \<Longrightarrow> orphaned (snd st) xs \<Longrightarrow> resource_world.safe st (for_loop xs (fail_task w) st)"
proof (induction xs arbitrary: st)
  case (Cons i xs)
  from Cons.prems(2) obtain t where t: "map_of (rs_tasks (snd st)) i = Some t" "task_status t = TaskStatus.RUNNING"
    and a: "i \<notin> set (listing (rs_worker_active (snd st)) v)" for v
    by (auto simp: orphaned_def)
  note one = fail_task_safe [OF Cons.prems(1) t a, of w]
  show ?case
    unfolding for_loop.simps
  proof (rule safe_rules(2) [OF one(1)])
    fix u st1 assume c: "fail_task w i st = (Inr u, st1)" and g: "res_good st1"
    from one(2) c obtain t' where "snd st1 = (snd st)\<lparr>rs_tasks := setitem i t' (rs_tasks (snd st))\<rparr>" by auto
    with Cons.prems(2) have "orphaned (snd st1) xs" by (auto simp: orphaned_def)
    with Cons.IH [OF g] show "resource_world.safe st1 (for_loop xs (fail_task w) st1)" by blast
  qed
qed simp

lemma lost_evolves [simp]:
  "rr_status x \<noteq> ReplicaRuntimeStatus.LOST \<Longrightarrow>
   replica_evolves x (x\<lparr>rr_status := ReplicaRuntimeStatus.LOST, rr_completion_event_id := c\<rparr>)"
  "rr_status x \<noteq> ReplicaRuntimeStatus.LOST \<Longrightarrow> replica_evolves x (x\<lparr>rr_status := ReplicaRuntimeStatus.LOST\<rparr>)"
  by (cases "rr_status x"; simp add: replica_evolves_def)+

lemma lose_replica_at_safe:
  assumes g: "res_good st" and x: "map_of (rs_replicas (snd st)) i = Some x"
  shows "resource_world.safe st (lose_replica_at w (i, x) st) \<and>
    (\<forall>j. j \<noteq> i \<longrightarrow> map_of (rs_replicas (snd (snd (lose_replica_at w (i, x) st)))) j = map_of (rs_replicas (snd st)) j)"
proof (cases "rr_location_id x \<noteq> w \<or> rr_status x = ReplicaRuntimeStatus.EVICTED \<or> rr_status x = ReplicaRuntimeStatus.LOST")
  case True
  with g show ?thesis by (simp add: lose_replica_at_def)
next
  case False
  let ?c = "cancel_truthy (rr_completion_event_id x) st"
  let ?y = "x\<lparr>rr_status := ReplicaRuntimeStatus.LOST, rr_completion_event_id := None\<rparr>"
  have eq: "lose_replica_at w (i, x) st =
      calls (sched (put_replica i ?y ?c) STATE_LOST (PInt 0) PNone (str_payload [(''replica_id'', i)])) (\<lambda>_ st1. (Inr (), st1))"
    using False by (auto simp: lose_replica_at_def)
  have "resource_world.safe st (lose_replica_at w (i, x) st)"
  proof (rule cancel_truthy_safe [OF g, of "rr_completion_event_id x"])
    assume gc: "res_good ?c"
    have "res_good (put_replica i ?y ?c) \<and> res_steps ?c (put_replica i ?y ?c)"
      using False good_replica [OF g x] x by (intro put_replica_good [OF gc, where x = x]) auto
    then show "resource_world.safe ?c (lose_replica_at w (i, x) st)"
      unfolding eq by (auto intro: safe_step sched_done)
  qed
  then show ?thesis unfolding eq frame_sched_done by simp
qed

lemma fail_transfer_at_safe:
  assumes "res_good st" and "map_of (rs_transfers (snd st)) i = Some x"
  shows "resource_world.safe st (fail_transfer_at w (i, x) st) \<and>
    (\<forall>j. j \<noteq> i \<longrightarrow> map_of (rs_transfers (snd (snd (fail_transfer_at w (i, x) st)))) j = map_of (rs_transfers (snd st)) j)"
  using fail_transfer_safe(1,2) [OF assms] assms(1) by (auto simp: fail_transfer_at_def)

lemma good_keys:
  "res_good st \<Longrightarrow> distinct (map fst (rs_replicas (snd st)))"
  "res_good st \<Longrightarrow> distinct (map fst (rs_transfers (snd st)))"
  by (auto dest!: res_good_res_ok simp: res_ok_def keys_ok_def keys_of_def)

lemma fail_worker_good:
  assumes g: "res_good st" and w: "map_of (rs_workers (snd st)) w = Some worker"
    and st': "st' = put_active w [] (put_worker w (worker\<lparr>wk_status := DOWN\<rparr>) st)"
  shows "res_good st' \<and> res_steps st st'"
proof (rule put_good [OF g])
  have ok: "res_ok (snd st)" using g by (rule res_good_res_ok)
  have kw: "known_worker (snd st) w" using w by (simp add: known_worker_def has_key_Some)
  let ?r = "snd st'"
  have known: "known_worker ?r v = known_worker (snd st) v" for v
    using kw by (auto simp: st')
  have "keys_ok ?r"
    using ok kw unfolding res_ok_def keys_ok_def known by (simp add: st')
  moreover have "places_ok ?r"
    using ok unfolding res_ok_def places_ok_def link_ok_def replica_ok_def transfer_ok_def known by (simp add: st')
  moreover have "workers_ok ?r"
  proof -
    have W: "workers_ok (snd st)" using ok by (simp add: res_ok_def)
    have "worker_ok ?r v k" if "map_of (rs_workers ?r) v = Some k" for v k
    proof (cases "v = w")
      case True
      with that good_worker [OF g w] show ?thesis by (auto simp: st' worker_ok_def)
    next
      case False
      with that have "worker_ok (snd st) v k" by (intro good_worker [OF g]) (simp add: st')
      with False show ?thesis by (simp add: st' worker_ok_def)
    qed
    moreover have "tasks_in ?r v s xs = tasks_in (snd st) v s xs" for v s xs by (simp add: st' tasks_in_def)
    moreover have "tasks_in (snd st) v TaskStatus.RUNNING (listing (rs_worker_active ?r) v)" for v
      using W by (simp add: workers_ok_def st') (simp add: tasks_in_def)
    ultimately show ?thesis using W unfolding workers_ok_def known by (simp add: st')
  qed
  ultimately show "res_ok ?r" by (simp add: res_ok_def)
  have "dict_evolves worker_evolves (rs_workers (snd st)) (rs_workers ?r)"
    using w by (auto simp: st' worker_evolves_def intro!: dict_evolves_replace)
  then show "res_evolves (snd st) ?r" by (simp add: res_evolves_def st' dict_evolves_refl)
qed (simp add: st')

lemma on_worker_failed_safe:
  assumes g: "res_good st"
  shows "resource_world.safe st (on_worker_failed ev st)"
  unfolding on_worker_failed_def Let_def
proof (intro safe_rules(1) [OF g])
  fix w worker
  assume "getitem (rs_workers (snd st)) w = Inr worker"
  then have w: "map_of (rs_workers (snd st)) w = Some worker" by simp
  let ?st1 = "put_worker w (worker\<lparr>wk_status := DOWN\<rparr>) st"
  have "known_worker (snd st) w" using w by (simp add: known_worker_def has_key_Some)
  then obtain active where a: "map_of (rs_worker_active (snd st)) w = Some active"
    using res_good_res_ok [OF g] unfolding res_ok_def keys_ok_def by (auto simp: has_key_Some)
  let ?st2 = "put_active w [] ?st1"
  have g2: "res_good ?st2 \<and> res_steps st ?st2" using fail_worker_good [OF g w] by simp
  have "orphaned (snd ?st2) active"
    using active_tasks [OF g] a unfolding orphaned_def tasks_in_def
    by (auto simp: listing_Some split: if_splits) (metis listing_Some option.inject)+
  then have loop1: "resource_world.safe ?st2 (for_loop active (fail_task w) ?st2)"
    using fail_tasks_safe g2 by blast
  have rest: "resource_world.safe ?st2 (calls (for_loop active (fail_task w) ?st2) (\<lambda>_ st2.
      calls (for_loop (rs_replicas (snd st2)) (lose_replica_at w) st2) (\<lambda>_ st3.
      for_loop (rs_transfers (snd st3)) (fail_transfer_at w) st3)))"
  proof (intro safe_rules(2) loop1)
    fix x :: unit and st3 :: "'a rstate" assume g3: "res_good st3"
    show "resource_world.safe st3 (for_loop (rs_replicas (snd st3)) (lose_replica_at w) st3)"
      using good_keys(1) [OF g3]
      by (intro resource_world.for_items_safe [OF g3, where sel = rs_replicas] lose_replica_at_safe) auto
  next
    fix y :: unit and st4 :: "'a rstate" assume g4: "res_good st4"
    show "resource_world.safe st4 (for_loop (rs_transfers (snd st4)) (fail_transfer_at w) st4)"
      using good_keys(2) [OF g4]
      by (intro resource_world.for_items_safe [OF g4, where sel = rs_transfers] fail_transfer_at_safe) auto
  qed
  show "resource_world.safe st
        (if wk_status worker = DOWN then (Inr (), st)
         else reads ?st1 (getitem (rs_worker_active (snd ?st1)) w)
               (\<lambda>active. calls (for_loop active (fail_task w) (put_active w [] ?st1))
                   (\<lambda>_ st2. calls (for_loop (rs_replicas (snd st2)) (lose_replica_at w) st2)
                      (\<lambda>_ st3. for_loop (rs_transfers (snd st3)) (fail_transfer_at w) st3))))"
    using g2 rest a g by (auto simp: getitem_def intro: safe_step)
qed

subsection \<open>The other handlers\<close>

lemma recover_worker_good:
  assumes g: "res_good st" and w: "map_of (rs_workers (snd st)) w = Some worker"
  shows "res_good (put_worker w (worker\<lparr>wk_status := UP\<rparr>) st) \<and>
    res_steps st (put_worker w (worker\<lparr>wk_status := UP\<rparr>) st)"
proof (rule put_good [OF g])
  have ok: "res_ok (snd st)" using g by (rule res_good_res_ok)
  have kw: "known_worker (snd st) w" using w by (simp add: known_worker_def has_key_Some)
  let ?r = "snd (put_worker w (worker\<lparr>wk_status := UP\<rparr>) st)"
  have known: "known_worker ?r v = known_worker (snd st) v" for v using kw by auto
  have "keys_ok ?r" using ok kw unfolding res_ok_def keys_ok_def known by simp
  moreover have "places_ok ?r"
    using ok unfolding res_ok_def places_ok_def link_ok_def replica_ok_def transfer_ok_def known by simp
  moreover have "workers_ok ?r"
  proof -
    have "worker_ok ?r v k" if "map_of (rs_workers ?r) v = Some k" for v k
      using that good_worker [OF g w] good_worker [OF g, of v k]
      by (auto simp: worker_ok_def split: if_splits)
    then show ?thesis using ok unfolding res_ok_def workers_ok_def known by simp
  qed
  ultimately show "res_ok ?r" by (simp add: res_ok_def)
  show "res_evolves (snd st) ?r"
    using w by (auto simp: worker_evolves_def intro!: res_evolves_upd dict_evolves_replace)
qed simp

lemma on_worker_recovered_safe:
  assumes g: "res_good st"
  shows "resource_world.safe st (on_worker_recovered ev st)"
  unfolding on_worker_recovered_def
proof (intro safe_rules(1) [OF g])
  fix w worker assume "getitem (rs_workers (snd st)) w = Inr worker"
  then have "map_of (rs_workers (snd st)) w = Some worker" by simp
  from recover_worker_good [OF g this] dispatch_safe [of "put_worker w (worker\<lparr>wk_status := UP\<rparr>) st" w] g
  show "resource_world.safe st (if wk_status worker = UP then (Inr (), st)
      else dispatch w (put_worker w (worker\<lparr>wk_status := UP\<rparr>) st))"
    by (auto intro: safe_step)
qed

lemma event_replica_Some: "event_replica r v = Some (i, x) \<Longrightarrow> map_of (rs_replicas r) i = Some x"
  by (auto simp: event_replica_def split: option.splits)

lemma event_transfer_Some: "event_transfer r v = Some (i, x) \<Longrightarrow> map_of (rs_transfers r) i = Some x"
  by (auto simp: event_transfer_def split: option.splits)

text \<open>Replacing a replica or a transfer and scheduling an event, in the patterns the handlers use.\<close>

lemma replica_then_sched:
  assumes "res_good st" and "map_of (rs_replicas (snd st)) i = Some x" and "replica_evolves x y"
    and "rr_location_id y = rr_location_id x" and "kind \<noteq> WORKER_TASK_COMPLETED"
  shows "resource_world.safe st (calls (sched (put_replica i y st) kind d e p) (\<lambda>_ st1. (Inr (), st1)))"
  using put_replica_good [OF assms(1-3)] good_replica [OF assms(1,2)] assms(4,5)
  by (auto intro: safe_step sched_done)

lemma transfer_then_sched:
  assumes "res_good st" and "map_of (rs_transfers (snd st)) i = Some x" and "transfer_evolves x y"
    and "kind \<noteq> WORKER_TASK_COMPLETED"
  shows "resource_world.safe st (calls (sched (put_transfer i y st) kind d e p) (\<lambda>_ st1. (Inr (), st1)))"
  using put_transfer_good [OF assms(1-3)] assms(4) by (auto intro: safe_step sched_done)

lemma replica_fields_evolve [simp]:
  "replica_evolves x (x\<lparr>rr_completion_event_id := c\<rparr>)"
  "rr_status x = ReplicaRuntimeStatus.MATERIALIZING \<Longrightarrow>
   replica_evolves x (x\<lparr>rr_status := s, rr_completion_event_id := c\<rparr>)"
  "rr_status x = ReplicaRuntimeStatus.AVAILABLE \<Longrightarrow> replica_evolves x (x\<lparr>rr_location_id := l\<rparr>)"
  by (simp_all add: replica_evolves_def)

lemma on_materialization_started_safe:
  assumes g: "res_good st"
  shows "resource_world.safe st (on_materialization_started ev st)"
  unfolding on_materialization_started_def
proof (intro safe_rules(1) [OF g])
  fix v d
  show "resource_world.safe st (case event_replica (snd st) v of None \<Rightarrow> (Inr (), st)
     | Some (i, replica) \<Rightarrow>
         if rr_status replica \<noteq> ReplicaRuntimeStatus.MATERIALIZING then (Inr (), st)
         else
           reads st (getitem (rs_workers (snd st)) (rr_location_id replica)) (\<lambda>worker.
           if wk_status worker = DOWN
           then calls (sched (put_replica i (replica\<lparr>rr_status := ReplicaRuntimeStatus.LOST\<rparr>) st)
                         STATE_LOST (PInt 0) PNone (str_payload [(''replica_id'', i)]))
                  (\<lambda>_ st1. (Inr (), st1))
           else calls (sched st STATE_MATERIALIZED d (PStr (''materialize-complete:'' @ i))
                         (str_payload [(''replica_id'', i)]))
                  (\<lambda>completion st1.
                     (Inr (), put_replica i (replica\<lparr>rr_completion_event_id := Some (ev_id completion)\<rparr>) st1))))"
  proof (cases "event_replica (snd st) v")
    case (Some ix)
    obtain i x where ix: "ix = (i, x)" by (cases ix)
    with Some have x: "map_of (rs_replicas (snd st)) i = Some x" by (simp add: event_replica_Some)
    have completed: "resource_world.safe st1 (Inr (), put_replica i (x\<lparr>rr_completion_event_id := Some (ev_id completion)\<rparr>) st1)"
      if "sched st STATE_MATERIALIZED d e p = (Inr completion, st1)" and g1: "res_good st1" for e p completion st1
    proof -
      from that(1) have "snd st1 = snd st" by (rule sched_Inr_snd)
      with x good_replica [OF g x] show ?thesis
        using put_replica_good [OF g1, of i x "x\<lparr>rr_completion_event_id := Some (ev_id completion)\<rparr>"] by simp
    qed
    have "resource_world.safe st (calls (sched st STATE_MATERIALIZED d e p) (\<lambda>completion st1.
        (Inr (), put_replica i (x\<lparr>rr_completion_event_id := Some (ev_id completion)\<rparr>) st1)))" for e p
      by (intro safe_rules(2) sched_other completed) (simp_all add: g)
    with g x show ?thesis by (auto simp: Some ix intro!: safe_rules(1) replica_then_sched)
  qed (simp add: g)
qed

lemma on_state_materialized_safe:
  assumes g: "res_good st"
  shows "resource_world.safe st (on_state_materialized ev st)"
  unfolding on_state_materialized_def
proof (intro safe_rules(1) [OF g])
  fix v
  show "resource_world.safe st (case event_replica (snd st) v of None \<Rightarrow> (Inr (), st)
     | Some (i, replica) \<Rightarrow>
         if rr_status replica \<noteq> ReplicaRuntimeStatus.MATERIALIZING then (Inr (), st)
         else
           reads st (getitem (rs_workers (snd st)) (rr_location_id replica)) (\<lambda>worker.
           if wk_status worker = DOWN
           then calls (sched (put_replica i (replica\<lparr>rr_status := ReplicaRuntimeStatus.LOST,
                                                     rr_completion_event_id := None\<rparr>) st)
                         STATE_LOST (PInt 0) PNone (str_payload [(''replica_id'', i)]))
                  (\<lambda>_ st1. (Inr (), st1))
           else (Inr (), put_replica i (replica\<lparr>rr_status := ReplicaRuntimeStatus.AVAILABLE,
                                                 rr_completion_event_id := None\<rparr>) st)))"
  proof (cases "event_replica (snd st) v")
    case (Some ix)
    obtain i x where ix: "ix = (i, x)" by (cases ix)
    with Some have x: "map_of (rs_replicas (snd st)) i = Some x" by (simp add: event_replica_Some)
    have "resource_world.safe st (Inr (), put_replica i (x\<lparr>rr_status := ReplicaRuntimeStatus.AVAILABLE,
        rr_completion_event_id := None\<rparr>) st)" if "rr_status x = ReplicaRuntimeStatus.MATERIALIZING"
      using put_replica_good [OF g x] that good_replica [OF g x] by simp
    with g x show ?thesis by (auto simp: Some ix intro!: safe_rules(1) replica_then_sched)
  qed (simp add: g)
qed

lemma on_transfer_started_safe:
  assumes g: "res_good st"
  shows "resource_world.safe st (on_transfer_started ev st)"
  unfolding on_transfer_started_def
proof (intro safe_rules(1) [OF g])
  fix v
  show "resource_world.safe st (case event_transfer (snd st) v of None \<Rightarrow> (Inr (), st)
     | Some (i, transfer) \<Rightarrow>
         if tr_status transfer \<noteq> TransferStatus.SCHEDULED then (Inr (), st)
         else
           reads st (getitem (rs_replicas (snd st)) (tr_replica_id transfer)) (\<lambda>replica.
           reads st (transfer_blocked (snd st) replica transfer) (\<lambda>blocked.
           if blocked
           then calls (sched (put_transfer i (transfer\<lparr>tr_status := TransferStatus.FAILED,
                                  tr_started_at := Some (sim_now (fst st)),
                                  tr_completed_at := Some (sim_now (fst st))\<rparr>) st)
                         STATE_TRANSFER_FAILED (PInt 0) PNone (str_payload [(''transfer_id'', i)]))
                  (\<lambda>_ st1. (Inr (), st1))
           else
             reads st (getitem (rs_links (snd st)) (tr_link_id transfer)) (\<lambda>link.
             reads st (transfer_duration link (PInt (tr_size_bytes transfer))) (\<lambda>d.
             calls (sched st STATE_TRANSFER_COMPLETED (PFloat (Fin d)) (PStr (''transfer-complete:'' @ i))
                      (str_payload [(''transfer_id'', i)]))
               (\<lambda>completion st1.
                  (Inr (), put_transfer i (transfer\<lparr>tr_status := TransferStatus.RUNNING,
                               tr_started_at := Some (sim_now (fst st1)),
                               tr_completion_event_id := Some (ev_id completion)\<rparr>) st1)))))))"
  proof (cases "event_transfer (snd st) v")
    case (Some ix)
    obtain i x where ix: "ix = (i, x)" by (cases ix)
    with Some have x: "map_of (rs_transfers (snd st)) i = Some x" by (simp add: event_transfer_Some)
    show ?thesis
    proof (cases "tr_status x = TransferStatus.SCHEDULED")
      case True
      then have act: "active_transfer x" by (simp add: active_transfer_def)
      have started: "resource_world.safe st1 (Inr (), put_transfer i (x\<lparr>tr_status := TransferStatus.RUNNING,
          tr_started_at := b, tr_completion_event_id := c\<rparr>) st1)"
        if "sched st STATE_TRANSFER_COMPLETED d e p = (Inr completion, st1)" and g1: "res_good st1"
        for d e p completion st1 b c
        using put_transfer_good [OF g1 _ transfer_failed_evolves(4) [OF act]] x sched_Inr_snd [OF that(1)] by simp
      have "resource_world.safe st (calls (sched st STATE_TRANSFER_COMPLETED d e p) (\<lambda>completion st1.
          (Inr (), put_transfer i (x\<lparr>tr_status := TransferStatus.RUNNING, tr_started_at := Some (sim_now (fst st1)),
             tr_completion_event_id := Some (ev_id completion)\<rparr>) st1)))" for d e p
        by (intro safe_rules(2) sched_other started) (simp_all add: g)
      moreover have "resource_world.safe st (calls (sched (put_transfer i (x\<lparr>tr_status := TransferStatus.FAILED,
          tr_started_at := b, tr_completed_at := c\<rparr>) st) STATE_TRANSFER_FAILED d e p) (\<lambda>_ st1. (Inr (), st1)))"
        for b c d e p
        by (rule transfer_then_sched [OF g x transfer_failed_evolves(2) [OF act]]) simp
      ultimately show ?thesis using g True by (auto simp: Some ix intro!: safe_rules(1))
    qed (simp add: Some ix g)
  qed (simp add: g)
qed

lemma on_transfer_completed_safe:
  assumes g: "res_good st"
  shows "resource_world.safe st (on_transfer_completed ev st)"
  unfolding on_transfer_completed_def
proof (intro safe_rules(1) [OF g])
  fix v
  show "resource_world.safe st (case event_transfer (snd st) v of None \<Rightarrow> (Inr (), st)
     | Some (i, transfer) \<Rightarrow>
         if tr_status transfer \<noteq> TransferStatus.RUNNING then (Inr (), st)
         else
           reads st (getitem (rs_replicas (snd st)) (tr_replica_id transfer)) (\<lambda>replica.
           reads st (transfer_blocked (snd st) replica transfer) (\<lambda>blocked.
           if blocked
           then calls (sched (put_transfer i (transfer\<lparr>tr_status := TransferStatus.FAILED,
                                  tr_completed_at := Some (sim_now (fst st)),
                                  tr_completion_event_id := None\<rparr>) st)
                         STATE_TRANSFER_FAILED (PInt 0) PNone (str_payload [(''transfer_id'', i)]))
                  (\<lambda>_ st1. (Inr (), st1))
           else
             calls (sched (put_transfer i (transfer\<lparr>tr_status := TransferStatus.COMPLETED,
                                  tr_completed_at := Some (sim_now (fst st)),
                                  tr_completion_event_id := None\<rparr>)
                             (put_replica (tr_replica_id transfer)
                                (replica\<lparr>rr_location_id := tr_destination_id transfer\<rparr>) st))
                      STATE_MOVED (PInt 0) PNone
                      (str_payload [(''replica_id'', tr_replica_id transfer),
                         (''source_id'', tr_source_id transfer),
                         (''destination_id'', tr_destination_id transfer)]))
               (\<lambda>_ st1. (Inr (), st1)))))"
  proof (cases "event_transfer (snd st) v")
    case (Some ix)
    obtain i x where ix: "ix = (i, x)" by (cases ix)
    with Some have x: "map_of (rs_transfers (snd st)) i = Some x" by (simp add: event_transfer_Some)
    show ?thesis
    proof (cases "tr_status x = TransferStatus.RUNNING")
      case True
      then have act: "active_transfer x" by (simp add: active_transfer_def)
      have "transfer_ok (snd st) i x" using res_good_res_ok [OF g] x by (simp add: res_ok_def places_ok_def)
      then have dest: "known_worker (snd st) (tr_destination_id x)" by (simp add: transfer_ok_def)
      have moved: "resource_world.safe st (calls (sched (put_transfer i (x\<lparr>tr_status := TransferStatus.COMPLETED,
          tr_completed_at := c, tr_completion_event_id := d\<rparr>)
          (put_replica (tr_replica_id x) (rep\<lparr>rr_location_id := tr_destination_id x\<rparr>) st)) STATE_MOVED e p q) (\<lambda>_ st1. (Inr (), st1)))"
        if r: "map_of (rs_replicas (snd st)) (tr_replica_id x) = Some rep" "rr_status rep = ReplicaRuntimeStatus.AVAILABLE"
        for rep c d e p q
      proof (rule put_replica_safe [OF g r(1) replica_fields_evolve(3) [OF r(2)]])
        let ?st1 = "put_replica (tr_replica_id x) (rep\<lparr>rr_location_id := tr_destination_id x\<rparr>) st"
        show "known_worker (snd st) (rr_location_id (rep\<lparr>rr_location_id := tr_destination_id x\<rparr>))" using dest by simp
        have "res_good ?st1" using put_replica_good [OF g r(1) replica_fields_evolve(3) [OF r(2)]] dest by simp
        then show "resource_world.safe ?st1 (calls (sched (put_transfer i (x\<lparr>tr_status := TransferStatus.COMPLETED,
            tr_completed_at := c, tr_completion_event_id := d\<rparr>) ?st1) STATE_MOVED e p q) (\<lambda>_ st1. (Inr (), st1)))"
          by (rule transfer_then_sched [OF _ _ transfer_failed_evolves(3) [OF act]]) (simp_all add: x)
      qed
      have "resource_world.safe st (calls (sched (put_transfer i (x\<lparr>tr_status := TransferStatus.FAILED,
          tr_completed_at := b, tr_completion_event_id := c\<rparr>) st) STATE_TRANSFER_FAILED d e p) (\<lambda>_ st1. (Inr (), st1)))"
        for b c d e p
        by (rule transfer_then_sched [OF g x transfer_failed_evolves(1) [OF act]]) simp
      moreover have "rr_status rep = ReplicaRuntimeStatus.AVAILABLE"
        if "transfer_blocked (snd st) rep x = Inr False" for rep
        using that by (auto simp: transfer_blocked_def split: if_splits)
      ultimately show ?thesis using g True moved by (auto simp: Some ix intro!: safe_rules(1))
    qed (simp add: Some ix g)
  qed (simp add: g)
qed

lemma fail_active_transfers_safe:
  assumes g: "res_good st"
  shows "resource_world.safe st (fail_active_transfers_for_replica i st)"
  unfolding fail_active_transfers_for_replica_def
proof (rule resource_world.for_items_safe [OF g, where sel = rs_transfers])
  show "distinct (map fst (rs_transfers (snd st)))" by (rule good_keys(2) [OF g])
  then show "\<forall>(j, x)\<in>set (rs_transfers (snd st)). map_of (rs_transfers (snd st)) j = Some x" by auto
next
  fix j x and st1 :: "'a rstate"
  assume "res_good st1" "map_of (rs_transfers (snd st1)) j = Some x"
  with fail_transfer_safe(1,2) [OF this]
  show "resource_world.safe st1
         (if tr_replica_id (snd (j, x)) \<noteq> i then (Inr (), st1)
          else if \<not> active_transfer (snd (j, x)) then (Inr (), st1) else fail_transfer (j, x) st1) \<and>
        (\<forall>k. k \<noteq> j \<longrightarrow> map_of (rs_transfers (snd (snd
          (if tr_replica_id (snd (j, x)) \<noteq> i then (Inr (), st1)
           else if \<not> active_transfer (snd (j, x)) then (Inr (), st1) else fail_transfer (j, x) st1)))) k =
          map_of (rs_transfers (snd st1)) k)"
    by auto
qed

lemma for_loop_frame:
  "(\<And>x st. x \<in> set xs \<Longrightarrow> f (snd (body x st)) = f st) \<Longrightarrow> f (snd (for_loop xs body st)) = f st"
proof (induction xs arbitrary: st)
  case (Cons x xs)
  obtain r st1 where b: "body x st = (r, st1)" by (cases "body x st") auto
  have "f st1 = f st" using Cons.prems [of x st] b by simp
  with Cons b show ?case by (cases r) auto
qed simp

lemma fail_transfer_replicas: "rs_replicas (snd (snd (fail_transfer item st))) = rs_replicas (snd st)"
proof (cases item)
  case (Pair i x)
  show ?thesis unfolding Pair fail_transfer_def Let_def prod.case frame_sched_done by simp
qed

lemma on_state_gone_safe:
  assumes g: "res_good st" and s: "2 \<le> replica_rank s"
  shows "resource_world.safe st (on_state_gone s ev st)"
  unfolding on_state_gone_def
proof (intro safe_rules(1) [OF g])
  fix v
  show "resource_world.safe st (case event_replica (snd st) v of None \<Rightarrow> (Inr (), st)
     | Some (i, replica) \<Rightarrow>
         if rr_status replica = ReplicaRuntimeStatus.LOST then (Inr (), st)
         else
           calls (fail_active_transfers_for_replica i st) (\<lambda>_ st1.
             (Inr (), put_replica i (replica\<lparr>rr_status := s, rr_completion_event_id := None\<rparr>)
                        (cancel_truthy (rr_completion_event_id replica) st1))))"
  proof (cases "event_replica (snd st) v")
    case (Some ix)
    obtain i x where ix: "ix = (i, x)" by (cases ix)
    with Some have x: "map_of (rs_replicas (snd st)) i = Some x" by (simp add: event_replica_Some)
    have "resource_world.safe st (calls (fail_active_transfers_for_replica i st) (\<lambda>_ st1.
             (Inr (), put_replica i (x\<lparr>rr_status := s, rr_completion_event_id := None\<rparr>)
                        (cancel_truthy (rr_completion_event_id x) st1))))" if l: "rr_status x \<noteq> ReplicaRuntimeStatus.LOST"
    proof (intro safe_rules(2) fail_active_transfers_safe [OF g])
      fix u :: unit and st1 assume c: "fail_active_transfers_for_replica i st = (Inr u, st1)" and g1: "res_good st1"
      have "rs_replicas (snd (snd (fail_active_transfers_for_replica i st))) = rs_replicas (snd st)"
        unfolding fail_active_transfers_for_replica_def
        by (rule for_loop_frame [where f = "\<lambda>st. rs_replicas (snd st)"]) (simp add: fail_transfer_replicas)
      with c x have x1: "map_of (rs_replicas (snd st1)) i = Some x" by simp
      have e: "replica_evolves x (x\<lparr>rr_status := s, rr_completion_event_id := None\<rparr>)"
        using l s by (cases "rr_status x") (simp_all add: replica_evolves_def)
      show "resource_world.safe st1 (Inr (), put_replica i (x\<lparr>rr_status := s, rr_completion_event_id := None\<rparr>)
                        (cancel_truthy (rr_completion_event_id x) st1))"
      proof (rule cancel_truthy_safe [OF g1, of "rr_completion_event_id x"])
        assume g2: "res_good (cancel_truthy (rr_completion_event_id x) st1)"
        then show "resource_world.safe (cancel_truthy (rr_completion_event_id x) st1)
            (Inr (), put_replica i (x\<lparr>rr_status := s, rr_completion_event_id := None\<rparr>)
               (cancel_truthy (rr_completion_event_id x) st1))"
          using put_replica_good [OF g2 _ e] x1 good_replica [OF g1 x1] by simp
      qed
    qed
    then show ?thesis by (simp add: Some ix g)
  qed (simp add: g)
qed

subsection \<open>The engine's interface\<close>

definition may_register :: "EventKind \<Rightarrow> resource_handler \<Rightarrow> bool" where
  "may_register k h \<longleftrightarrow> (k, h) \<in> set resource_registrations"

lemma resource_call_safe:
  assumes "res_good st" and "event_ok (snd st) ev" and "may_register (ev_kind ev) h"
  shows "resource_world.safe st (resource_call h ev st)"
  using assms
  by (cases h)
     (simp_all add: on_task_enqueued_safe on_worker_failed_safe on_worker_recovered_safe
       on_materialization_started_safe on_state_materialized_safe on_transfer_started_safe
       on_transfer_completed_safe on_state_evicted_def on_state_lost_def on_state_gone_safe
       on_task_completed_safe may_register_def resource_registrations_def)

interpretation resource_events: event_handlers res_ok event_ok res_evolves resource_call may_register
  by unfold_locales (rule resource_call_safe)

definition model_ok :: "resource_handler rstate \<Rightarrow> bool" where
  "model_ok st \<longleftrightarrow> res_good st \<and> registered may_register (fst st)"

lemma model_ok_evolves: "model_ok st \<Longrightarrow> res_good st' \<Longrightarrow> res_steps st st' \<Longrightarrow> model_ok st'"
  unfolding model_ok_def world_evolves_def using registered_evolves by blast

lemma handlers_for_register:
  "handlers_for (register_handler s k h) j = (if j = k then handlers_for s k @ [h] else handlers_for s j)"
  by (simp add: handlers_for_def register_handler_def update_conv')

lemma new_resource_model_ok:
  assumes "new_simulator seed = Inr s"
  shows "model_ok (new_resource_model s)"
proof -
  have ok: "sim_ok (fold (\<lambda>(k, h) t. register_handler t k h) rs s') \<and>
      sim_queue (fold (\<lambda>(k, h) t. register_handler t k h) rs s') = sim_queue s' \<and>
      registered may_register (fold (\<lambda>(k, h) t. register_handler t k h) rs s')"
    if "sim_ok s'" "registered may_register s'" "set rs \<subseteq> set resource_registrations" for rs s'
    using that
  proof (induction rs arbitrary: s')
    case (Cons kh rs)
    obtain k h where kh: "kh = (k, h)" by (cases kh)
    have "registered may_register (register_handler s' k h)"
      using Cons.prems kh by (auto simp: registered_def handlers_for_register may_register_def)
    moreover have "sim_queue (register_handler s' k h) = sim_queue s'" by (simp add: register_handler_def)
    moreover have "sim_ok (register_handler s' k h)" by (rule register_handler_ok [OF Cons.prems(1)])
    ultimately show ?case using Cons.IH [of "register_handler s' k h"] Cons.prems(3) kh by simp
  qed simp
  have "sim_queue s = []" "registered may_register s"
    using assms by (auto simp: new_simulator_def registered_def handlers_for_def split: pyval.splits)
  moreover have "res_ok empty_resources"
    by (simp add: empty_resources_def res_ok_def keys_ok_def workers_ok_def places_ok_def one_transfer_def
        known_worker_def has_key_def tasks_in_def listing_def keys_of_def)
  ultimately show ?thesis
    using ok [OF new_simulator_ok [OF assms], of resource_registrations]
    by (simp add: model_ok_def new_resource_model_def world_ok_def)
qed

subsection \<open>Operations keep the invariant\<close>

lemma require_id_iff [simp]: "require_id i = Inr u \<longleftrightarrow> i \<noteq> ''''"
  by (simp add: require_id_def)

lemma add_worker_safe:
  assumes g: "res_good st"
  shows "resource_world.safe st (add_worker st i capacity)"
  unfolding add_worker_def Let_def
proof (intro safe_rules(1) [OF g])
  fix c and u u' :: unit
  assume i: "require_id i = Inr u'" and new: "raise_if (has_key (rs_workers (snd st)) i) ValueError = Inr u" and c: "int_at_least 1 capacity = Inr c"
  let ?k = "\<lparr>wk_id = i, wk_capacity = c, wk_status = UP\<rparr>"
  let ?st = "put_active i [] (put_queue i [] (put_worker i ?k st))"
  have ok: "res_ok (snd st)" using g by (rule res_good_res_ok)
  have nw: "map_of (rs_workers (snd st)) i = None" using new by simp
  have "1 \<le> c" using c by (auto simp: int_at_least_def split: pyval.splits if_splits)
  then have "worker_ok (snd ?st) v k" if "map_of (rs_workers (snd ?st)) v = Some k" for v k
    using that good_worker [OF g, of v k] i by (auto simp: worker_ok_def split: if_splits)
  moreover have "tasks_in (snd ?st) v s xs = tasks_in (snd st) v s xs" for v s xs by (simp add: tasks_in_def)
  moreover have "tasks_in (snd st) v s []" for v s by (simp add: tasks_in_def)
  ultimately have "workers_ok (snd ?st)"
    using ok unfolding res_ok_def workers_ok_def by simp
  moreover have "keys_ok (snd ?st)"
    using ok unfolding res_ok_def keys_ok_def by simp
  moreover have "places_ok (snd ?st)"
    using ok unfolding res_ok_def places_ok_def link_ok_def replica_ok_def transfer_ok_def by simp
  moreover have "res_evolves (snd st) (snd ?st)"
    using nw by (simp add: res_evolves_def dict_evolves_refl dict_evolves_new)
  ultimately show "resource_world.safe st (Inr ?k, ?st)"
    using put_good [OF g, of ?st] by (simp add: res_ok_def)
qed

lemma add_link_safe:
  assumes g: "res_good st"
  shows "resource_world.safe st (add_link st i source destination latency bandwidth)"
  unfolding add_link_def Let_def
proof (intro safe_rules(1) [OF g])
  fix ws wd l b and u :: unit
  assume ws: "require_worker (snd st) source = Inr ws" and wd: "require_worker (snd st) destination = Inr wd"
    and new: "raise_if (has_key (rs_links (snd st)) i) ValueError = Inr u"
    and l: "finite_nonnegative latency = Inr l" and b: "finite_positive bandwidth = Inr b"
  let ?k = "\<lparr>link_id = i, link_source_id = source, link_destination_id = destination, link_latency = l, link_bandwidth = b\<rparr>"
  let ?r = "(snd st)\<lparr>rs_links := setitem i ?k (rs_links (snd st))\<rparr>"
  have ok: "res_ok (snd st)" using g by (rule res_good_res_ok)
  have "0 < b" using b by (auto simp: finite_positive_def bind_res_Inr split: if_splits)
  then have "link_ok ?r i ?k"
    using ws wd finite_nonnegative_Inr [OF l]
    by (auto simp: link_ok_def known_worker_def require_worker_def has_key_Some)
  with ok have "places_ok ?r"
    unfolding res_ok_def places_ok_def by (auto simp: link_ok_def replica_ok_def transfer_ok_def)
  moreover have "keys_ok ?r" using ok by (simp add: res_ok_def keys_ok_def known_worker_def)
  ultimately show "resource_world.safe st (Inr ?k, fst st, ?r)"
    using put_good [OF g, of "(fst st, ?r)"] ok new
    by (simp add: res_ok_def res_evolves_upd dict_evolves_new)
qed

lemma schedule_error: "schedule s k a d i p = (Inl e, s') \<Longrightarrow> s' = s"
  by (auto simp: schedule_def reads_Inl)

lemma sched_error: "sched st k d i p = (Inl e, st') \<Longrightarrow> st' = st"
  by (auto simp: sched_def dest: schedule_error split: prod.splits)

lemma sched_outcome:
  assumes "sched st k d i p = (r, st')" and "res_good st" and "k \<noteq> WORKER_TASK_COMPLETED"
  shows "res_good st'" and "res_steps st st'" and "snd st' = snd st" and "r = Inl e \<Longrightarrow> st' = st"
  using sched_other [OF assms(2,3), of d i p] snd_sched [of st k d i p] assms(1)
  by (auto dest: sched_error)

lemma setitem_same: "map_of d k = Some v \<Longrightarrow> setitem k v d = d"
  by (induction d) (auto split: if_splits)

lemma setitem_again: "setitem k v (setitem k u d) = setitem k v d"
  by (induction d) auto

lemma enqueued_good:
  assumes g: "res_good st" and w: "known_worker (snd st) w" and new: "map_of (rs_tasks (snd st)) i = None"
    and q: "map_of (rs_worker_queues (snd st)) w = Some q"
    and t: "task_id t = i" "task_worker_id t = w" "task_status t = TaskStatus.QUEUED"
    and st': "st' = put_queue w (q @ [i]) (put_task i t st)"
  shows "res_good st' \<and> res_steps st st'" and "i \<notin> set q"
proof -
  have ok: "res_ok (snd st)" using g by (rule res_good_res_ok)
  have qs: "tasks_in (snd st) v TaskStatus.QUEUED (listing (rs_worker_queues (snd st)) v)" for v
    by (rule queue_tasks [OF g])
  show ni: "i \<notin> set q" using qs [of w] q new by (auto simp: tasks_in_def listing_Some)
  have old: "tasks_in (snd st') v s xs" if "tasks_in (snd st) v s xs" for v s xs
    using that new by (auto simp: tasks_in_def st')
  have "tasks_in (snd st') w TaskStatus.QUEUED (q @ [i])"
    using qs [of w] q new t ni by (auto simp: tasks_in_def st' listing_Some)
  then have "tasks_in (snd st') v TaskStatus.QUEUED (listing (rs_worker_queues (snd st')) v)" for v
    using old [OF qs [of v]] by (simp add: st')
  moreover have "tasks_in (snd st') v TaskStatus.RUNNING (listing (rs_worker_active (snd st')) v)" for v
    using old [OF active_tasks [OF g, of v]] by (simp add: st')
  moreover have "worker_ok (snd st') v k" if "map_of (rs_workers (snd st')) v = Some k" for v k
    using good_worker [OF g, of v k] that by (simp add: st' worker_ok_def)
  moreover have "\<forall>j u. map_of (rs_tasks (snd st')) j = Some u \<longrightarrow> task_id u = j \<and> known_worker (snd st') (task_worker_id u)"
    using ok t w by (auto simp: res_ok_def workers_ok_def st')
  ultimately have "workers_ok (snd st')" unfolding workers_ok_def by blast
  moreover have "keys_ok (snd st')"
    using ok new by (auto simp: res_ok_def keys_ok_def st' keys_of_setitem)
  moreover have "places_ok (snd st')" using ok by (simp add: res_ok_def st')
  moreover have "res_evolves (snd st) (snd st')"
    using new by (simp add: res_evolves_def st' dict_evolves_refl dict_evolves_new)
  ultimately show "res_good st' \<and> res_steps st st'"
    using put_good [OF g, of st'] by (simp add: res_ok_def st')
qed

lemma enqueue_task_outcome:
  assumes g: "res_good st" and c: "enqueue_task st w i duration = (r, st')"
  shows "res_good st' \<and> res_steps st st'" and "r = Inl e \<Longrightarrow> st' = st"
proof -
  have "(res_good st' \<and> res_steps st st') \<and> (\<forall>e. r = Inl e \<longrightarrow> st' = st)"
  proof (cases "\<exists>k d q. require_worker (snd st) w = Inr k \<and> i \<noteq> '''' \<and> map_of (rs_tasks (snd st)) i = None \<and>
      finite_nonnegative duration = Inr d \<and> getitem (rs_worker_queues (snd st)) w = Inr q")
    case False
    then have "st' = st" using c
      by (cases r) (auto simp: enqueue_task_def reads_Inl reads_Inr has_key_Some split: prod.splits sum.splits)
    then show ?thesis using g by simp
  next
    case True
    then obtain k d q where k: "require_worker (snd st) w = Inr k" and i: "i \<noteq> ''''"
      and new: "map_of (rs_tasks (snd st)) i = None" and d: "finite_nonnegative duration = Inr d"
      and q: "map_of (rs_worker_queues (snd st)) w = Some q" by auto
    define t where "t = \<lparr>task_id = i, task_worker_id = w, task_duration = d, task_status = TaskStatus.QUEUED,
      task_enqueued_at = sim_now (fst st), task_started_at = None, task_completed_at = None, task_completion_event_id = None\<rparr>"
    define st1 where "st1 = put_queue w (q @ [i]) (put_task i t st)"
    have kw: "known_worker (snd st) w" using k by (simp add: require_worker_def known_worker_def has_key_Some)
    have one: "res_good st1 \<and> res_steps st st1" and ni: "i \<notin> set q"
      using enqueued_good [OF g kw new q, of t st1] by (simp_all add: t_def st1_def)
    obtain r2 st2 where s: "sched st1 WORKER_TASK_ENQUEUED (PInt 0) (PStr (''task-enqueued:'' @ i))
        (str_payload [(''task_id'', i), (''worker_id'', w)]) = (r2, st2)"
      by (cases "sched st1 WORKER_TASK_ENQUEUED (PInt 0) (PStr (''task-enqueued:'' @ i))
        (str_payload [(''task_id'', i), (''worker_id'', w)])") auto
    have eq: "enqueue_task st w i duration = (case (r2, st2) of
        (Inl e, st2) \<Rightarrow> (Inl e, on_res (\<lambda>r. r\<lparr>rs_tasks := delitem i (rs_tasks r)\<rparr>)
            (put_queue w (remove1 i (listing (rs_worker_queues (snd st2)) w)) st2))
      | (Inr _, st2) \<Rightarrow> (Inr t, st2))"
      unfolding s [symmetric] enqueue_task_def Let_def st1_def t_def
      using k i new d q by (simp add: getitem_def has_key_def raise_if_def require_id_def)
    show ?thesis
    proof (cases r2)
      case (Inl e)
      with s have "st2 = st1" using sched_error by blast
      then have "on_res (\<lambda>r. r\<lparr>rs_tasks := delitem i (rs_tasks r)\<rparr>)
            (put_queue w (remove1 i (listing (rs_worker_queues (snd st2)) w)) st2) = st"
        using new q ni
        by (simp add: st1_def remove1_append setitem_again setitem_same delitem_setitem_new)
      with eq c Inl g show ?thesis by simp
    next
      case (Inr ev)
      with eq c have "r = Inr t" "st' = st2" by simp_all
      moreover have "res_good st2" "res_steps st1 st2" using sched_outcome [OF s] one by simp_all
      ultimately show ?thesis using one resource_world.evolves_trans by blast
    qed
  qed
  then show "res_good st' \<and> res_steps st st'" and "r = Inl e \<Longrightarrow> st' = st" by blast+
qed

lemma materialize_replica_outcome:
  assumes g: "res_good st" and c: "materialize_replica st i state_id location size_bytes duration = (r, st')"
  shows "(res_good st' \<and> res_steps st st') \<and> (\<forall>e. r = Inl e \<longrightarrow> st' = st)"
proof (cases "\<exists>k n d. i \<noteq> '''' \<and> state_id \<noteq> '''' \<and> require_worker (snd st) location = Inr k \<and>
    map_of (rs_replicas (snd st)) i = None \<and> int_at_least 0 size_bytes = Inr n \<and> finite_nonnegative duration = Inr d")
  case False
  then have "st' = st" using c
    by (cases r) (auto simp: materialize_replica_def reads_Inl reads_Inr has_key_Some split: prod.splits sum.splits)
  then show ?thesis using g by simp
next
  case True
  then obtain k n d where i: "i \<noteq> ''''" "state_id \<noteq> ''''" and k: "require_worker (snd st) location = Inr k"
    and new: "map_of (rs_replicas (snd st)) i = None" and n: "int_at_least 0 size_bytes = Inr n"
    and d: "finite_nonnegative duration = Inr d" by auto
  define x where "x = \<lparr>rr_id = i, rr_state_id = state_id, rr_location_id = location, rr_size_bytes = n,
    rr_status = ReplicaRuntimeStatus.MATERIALIZING, rr_completion_event_id = None\<rparr>"
  let ?st1 = "put_replica i x st"
  obtain r2 st2 where s: "sched ?st1 STATE_MATERIALIZATION_STARTED (PInt 0) (PStr (''materialize-start:'' @ i))
      (PDict [(PStr ''replica_id'', PStr i), (PStr ''duration'', PFloat (Fin d))]) = (r2, st2)"
    by (cases "sched ?st1 STATE_MATERIALIZATION_STARTED (PInt 0) (PStr (''materialize-start:'' @ i))
      (PDict [(PStr ''replica_id'', PStr i), (PStr ''duration'', PFloat (Fin d))])") auto
  have eq: "materialize_replica st i state_id location size_bytes duration = (case (r2, st2) of
      (Inl e, st2) \<Rightarrow> (Inl e, on_res (\<lambda>r. r\<lparr>rs_replicas := delitem i (rs_replicas r)\<rparr>) st2)
    | (Inr _, st2) \<Rightarrow> (Inr x, st2))"
    unfolding s [symmetric] materialize_replica_def Let_def x_def
    using i k new n d by (simp add: has_key_def raise_if_def require_id_def)
  have ok: "res_ok (snd st)" using g by (rule res_good_res_ok)
  have "0 \<le> n" using n by (auto simp: int_at_least_def split: pyval.splits if_splits)
  moreover have "known_worker (snd st) location" using k by (simp add: require_worker_def known_worker_def has_key_Some)
  ultimately have "places_ok (snd ?st1)"
    using ok by (auto simp: res_ok_def places_ok_def link_ok_def replica_ok_def transfer_ok_def x_def)
  moreover have "keys_ok (snd ?st1)" using ok new by (auto simp: res_ok_def keys_ok_def keys_of_setitem)
  moreover have "res_evolves (snd st) (snd ?st1)"
    using new by (simp add: res_evolves_def dict_evolves_refl dict_evolves_new)
  ultimately have one: "res_good ?st1 \<and> res_steps st ?st1"
    using ok put_good [OF g, of ?st1] by (simp add: res_ok_def)
  show ?thesis
  proof (cases r2)
    case (Inl e)
    with s have "st2 = ?st1" using sched_error by blast
    then have "on_res (\<lambda>r. r\<lparr>rs_replicas := delitem i (rs_replicas r)\<rparr>) st2 = st"
      using new by (simp add: delitem_setitem_new)
    with eq c Inl g show ?thesis by simp
  next
    case (Inr ev)
    with eq c have "r = Inr x" "st' = st2" by simp_all
    moreover have "res_good st2" "res_steps ?st1 st2" using sched_outcome [OF s] one by simp_all
    ultimately show ?thesis using one resource_world.evolves_trans by blast
  qed
qed

lemma start_transfer_outcome:
  assumes g: "res_good st" and c: "start_transfer st i replica_id l = (r, st')"
  shows "(res_good st' \<and> res_steps st st') \<and> (\<forall>e. r = Inl e \<longrightarrow> st' = st)"
proof (cases "\<exists>rep link. i \<noteq> '''' \<and> map_of (rs_transfers (snd st)) i = None \<and>
    map_of (rs_replicas (snd st)) replica_id = Some rep \<and> rr_status rep = ReplicaRuntimeStatus.AVAILABLE \<and>
    map_of (rs_links (snd st)) l = Some link \<and> rr_location_id rep = link_source_id link \<and>
    \<not> list_ex (\<lambda>t. tr_replica_id t = replica_id \<and> active_transfer t) (values_of (rs_transfers (snd st)))")
  case False
  then have "st' = st" using c
    by (cases r) (auto simp: start_transfer_def require_replica_def require_link_def reads_Inl reads_Inr has_key_Some split: prod.splits sum.splits)
  then show ?thesis using g by simp
next
  case True
  then obtain rep link where i: "i \<noteq> ''''" and new: "map_of (rs_transfers (snd st)) i = None"
    and rep: "map_of (rs_replicas (snd st)) replica_id = Some rep" "rr_status rep = ReplicaRuntimeStatus.AVAILABLE"
    and link: "map_of (rs_links (snd st)) l = Some link" "rr_location_id rep = link_source_id link"
    and idle: "\<not> list_ex (\<lambda>t. tr_replica_id t = replica_id \<and> active_transfer t) (values_of (rs_transfers (snd st)))"
    by blast
  define x where "x = \<lparr>tr_id = i, tr_replica_id = replica_id, tr_link_id = l,
    tr_source_id = link_source_id link, tr_destination_id = link_destination_id link,
    tr_size_bytes = rr_size_bytes rep, tr_status = TransferStatus.SCHEDULED,
    tr_started_at = None, tr_completed_at = None, tr_completion_event_id = None\<rparr>"
  let ?st1 = "put_transfer i x st"
  obtain r2 st2 where s: "sched ?st1 STATE_TRANSFER_STARTED (PInt 0) (PStr (''transfer-start:'' @ i))
      (str_payload [(''transfer_id'', i)]) = (r2, st2)"
    by (cases "sched ?st1 STATE_TRANSFER_STARTED (PInt 0) (PStr (''transfer-start:'' @ i))
      (str_payload [(''transfer_id'', i)])") auto
  have eq: "start_transfer st i replica_id l = (case (r2, st2) of
      (Inl e, st2) \<Rightarrow> (Inl e, on_res (\<lambda>r. r\<lparr>rs_transfers := delitem i (rs_transfers r)\<rparr>) st2)
    | (Inr _, st2) \<Rightarrow> (Inr x, st2))"
    unfolding s [symmetric] start_transfer_def Let_def x_def
    using i new rep link idle by (simp add: has_key_def raise_if_def require_id_def require_replica_def require_link_def getitem_def)
  have ok: "res_ok (snd st)" using g by (rule res_good_res_ok)
  then have p: "places_ok (snd st)" by (simp add: res_ok_def)
  have "replica_ok (snd st) replica_id rep" "link_ok (snd st) l link"
    using p rep link unfolding places_ok_def by blast+
  then have xok: "transfer_ok (snd st) i x"
    using rep link by (simp add: transfer_ok_def replica_ok_def link_ok_def x_def has_key_Some)
  have no: "\<not> (active_transfer t \<and> tr_replica_id t = replica_id)" if "map_of (rs_transfers (snd st)) j = Some t" for j t
    using idle in_values_of [OF that] by (auto simp: list_ex_iff)
  have "one_transfer (rs_transfers (snd ?st1))"
    unfolding one_transfer_def
  proof (intro allI impI)
    fix a b u v
    assume u: "map_of (rs_transfers (snd ?st1)) a = Some u" "active_transfer u"
      and v: "map_of (rs_transfers (snd ?st1)) b = Some v" "active_transfer v" and same: "tr_replica_id u = tr_replica_id v"
    show "a = b"
    proof (cases "a = i \<or> b = i")
      case True
      then show ?thesis using u v same no [of a u] no [of b v] by (auto simp: x_def split: if_splits)
    next
      case False
      then show ?thesis using u v same p unfolding places_ok_def one_transfer_def by simp
    qed
  qed
  moreover have "\<forall>j t. map_of (rs_transfers (snd ?st1)) j = Some t \<longrightarrow> transfer_ok (snd ?st1) j t"
    using p xok by (auto simp: places_ok_def transfer_ok_def)
  ultimately have "places_ok (snd ?st1)"
    using p by (simp add: places_ok_def link_ok_def replica_ok_def)
  moreover have "keys_ok (snd ?st1)" using ok new by (auto simp: res_ok_def keys_ok_def keys_of_setitem)
  moreover have "res_evolves (snd st) (snd ?st1)"
    using new by (simp add: res_evolves_def dict_evolves_refl dict_evolves_new)
  ultimately have one: "res_good ?st1 \<and> res_steps st ?st1"
    using ok put_good [OF g, of ?st1] by (simp add: res_ok_def)
  show ?thesis
  proof (cases r2)
    case (Inl e)
    with s have "st2 = ?st1" using sched_error by blast
    then have "on_res (\<lambda>r. r\<lparr>rs_transfers := delitem i (rs_transfers r)\<rparr>) st2 = st"
      using new by (simp add: delitem_setitem_new)
    with eq c Inl g show ?thesis by simp
  next
    case (Inr ev)
    with eq c have "r = Inr x" "st' = st2" by simp_all
    moreover have "res_good st2" "res_steps ?st1 st2" using sched_outcome [OF s] one by simp_all
    ultimately show ?thesis using one resource_world.evolves_trans by blast
  qed
qed

subsection \<open>The operations as a machine\<close>

datatype resource_op =
    AddWorker string pyval
  | AddLink string string string pyval pyval
  | EnqueueTask string string pyval
  | FailWorker string
  | RecoverWorker string
  | MaterializeReplica string string string pyval pyval
  | StartTransfer string string string
  | EvictReplica string
  | LoseReplica string

definition no_result :: "('s, 'a) outcome \<Rightarrow> ('s, unit) outcome" where
  "no_result out = (map_sum id (\<lambda>_. ()) (fst out), snd out)"

fun resource_step :: "resource_handler rstate \<Rightarrow> resource_op \<Rightarrow> (resource_handler rstate, unit) outcome" where
  "resource_step st (AddWorker i c) = no_result (add_worker st i c)"
| "resource_step st (AddLink i s d l b) = no_result (add_link st i s d l b)"
| "resource_step st (EnqueueTask w i d) = no_result (enqueue_task st w i d)"
| "resource_step st (FailWorker w) = no_result (fail_worker st w)"
| "resource_step st (RecoverWorker w) = no_result (recover_worker st w)"
| "resource_step st (MaterializeReplica i s l n d) = no_result (materialize_replica st i s l n d)"
| "resource_step st (StartTransfer i p l) = no_result (start_transfer st i p l)"
| "resource_step st (EvictReplica i) = no_result (evict_replica st i)"
| "resource_step st (LoseReplica i) = no_result (lose_replica st i)"

text \<open>What an operation promises: a good state that evolved, and no change at all if it raised.\<close>

definition op_promise :: "'h rstate \<Rightarrow> ('h rstate, 'a) outcome \<Rightarrow> bool" where
  "op_promise st out \<longleftrightarrow>
     res_good (snd out) \<and> res_steps st (snd out) \<and> (\<forall>e. fst out = Inl e \<longrightarrow> snd out = st)"

lemma op_promise_pair [simp]:
  "op_promise st (r, st') \<longleftrightarrow> res_good st' \<and> res_steps st st' \<and> (\<forall>e. r = Inl e \<longrightarrow> st' = st)"
  by (simp add: op_promise_def)

lemma op_promise_no_result [simp]: "op_promise st (no_result out) = op_promise st out"
  by (cases "fst out") (simp_all add: op_promise_def no_result_def)

lemma op_promise_reads:
  "res_good st \<Longrightarrow> (\<And>x. m = Inr x \<Longrightarrow> op_promise st (k x)) \<Longrightarrow> op_promise st (reads st m k)"
  by (cases m) simp_all

lemma op_promise_sched:
  assumes "res_good st" and "k \<noteq> WORKER_TASK_COMPLETED"
  shows "op_promise st (sched st k d i p)"
  using sched_outcome [OF surjective_pairing assms, of d i p] by (simp add: op_promise_def)

lemma add_worker_promise: "res_good st \<Longrightarrow> op_promise st (add_worker st i c)"
  using add_worker_safe [of st i c]
  by (cases "add_worker st i c") (auto simp: add_worker_def Let_def reads_Inl)

lemma add_link_promise: "res_good st \<Longrightarrow> op_promise st (add_link st i s d l b)"
  using add_link_safe [of st i s d l b]
  by (cases "add_link st i s d l b") (auto simp: add_link_def Let_def reads_Inl)

lemma resource_step_promise: "res_good st \<Longrightarrow> op_promise st (resource_step st op)"
proof (cases op)
  case (EnqueueTask w i d)
  assume "res_good st"
  with EnqueueTask show ?thesis
    using enqueue_task_outcome [of st w i d] by (cases "enqueue_task st w i d") auto
next
  case (MaterializeReplica i s l n d)
  assume "res_good st"
  with MaterializeReplica show ?thesis
    using materialize_replica_outcome [of st i s l n d] by (cases "materialize_replica st i s l n d") auto
next
  case (StartTransfer i p l)
  assume "res_good st"
  with StartTransfer show ?thesis
    using start_transfer_outcome [of st i p l] by (cases "start_transfer st i p l") auto
qed (auto simp: add_worker_promise add_link_promise fail_worker_def recover_worker_def evict_replica_def
       lose_replica_def intro!: op_promise_reads op_promise_sched)

interpretation resource_ops: atomic_machine resource_step "\<lambda>_. True" model_ok res_steps
proof
  fix st op r st' assume "model_ok st" "resource_step st op = (r, st')"
  then have p: "op_promise st (r, st')" using resource_step_promise [of st op] by (simp add: model_ok_def)
  then show "model_ok st'" using model_ok_evolves [OF \<open>model_ok st\<close>] by simp
  from p show "res_steps st st'" by simp
next
  fix st op e st' assume "model_ok st" "resource_step st op = (Inl e, st')"
  then show "st' = st" using resource_step_promise [of st op] by (simp add: model_ok_def)
qed (auto intro: resource_world.evolves_trans)

subsection \<open>Reachable resource models\<close>

text \<open>
  A model is built on a new simulator; its user calls operations and runs the simulator, goes on
  after an exception, and may cancel pending events.
\<close>

inductive model_reachable :: "resource_handler rstate \<Rightarrow> bool" where
  start: "new_simulator seed = Inr s \<Longrightarrow> model_reachable (new_resource_model s)"
| operation: "model_reachable st \<Longrightarrow> resource_step st op = (r, st') \<Longrightarrow> model_reachable st'"
| run: "model_reachable st \<Longrightarrow> run_sim resource_call st until max_events = Some (q, st') \<Longrightarrow> model_reachable st'"
| cancelled: "model_reachable st \<Longrightarrow> cancel (fst st) i = (b, s) \<Longrightarrow> model_reachable (s, snd st)"

lemma cancel_good:
  assumes "model_ok st" and "cancel (fst st) i = (b, s)"
  shows "model_ok (s, snd st)" and "res_steps st (s, snd st)"
proof -
  have g: "res_good st" using assms(1) by (simp add: model_ok_def)
  then have "sim_ok (fst st)" by (simp add: world_ok_def)
  from cancel_ok [OF this assms(2)] have ok: "sim_ok s" "sim_evolves (fst st) s" by blast+
  have "sim_queue s = sim_queue (fst st)" using assms(2) by (auto simp: cancel_def split: if_splits)
  with ok g have "res_good (s, snd st)" by (simp add: world_ok_def)
  moreover show "res_steps st (s, snd st)" using ok(2) by (simp add: world_evolves_def res_evolves_refl)
  ultimately show "model_ok (s, snd st)" using model_ok_evolves [OF assms(1)] by blast
qed

lemma model_reachable_ok: "model_reachable st \<Longrightarrow> model_ok st"
proof (induction rule: model_reachable.induct)
  case (start seed s)
  then show ?case by (rule new_resource_model_ok)
next
  case (operation st op r st')
  then show ?case using resource_ops.keeps by blast
next
  case (run st until max_events q st')
  then have "res_good st' \<and> res_steps st st'"
    using resource_events.run_sim_ok [OF run(2)] by (simp add: model_ok_def)
  with run model_ok_evolves show ?case by blast
next
  case (cancelled st i b s)
  then show ?case using cancel_good by blast
qed

end
