(* ===== verification/Sim_Budget.thy ===== *)
theory Sim_Budget
  imports Sim_Engine
begin

section \<open>When runs return, and what they raise\<close>

text \<open>
  Two contracts beside that of \<open>event_handlers\<close>, each for any set of handlers on the engine. Handlers
  schedule further events, so that a run returns needs an argument: every pending event has a credit,
  and no handler adds to the budget of the state more than is left of the credit of its event. And a
  run raises nothing but what its handlers raise, besides the \<open>ValueError\<close> for a bad argument.
\<close>

subsection \<open>Bounded handlers\<close>

text \<open>At most one handler is registered for a kind of events.\<close>

definition one_handler :: "'h sim \<Rightarrow> bool" where
  "one_handler s \<longleftrightarrow> (\<forall>k. length (handlers_for s k) \<le> 1)"

lemma one_handler_evolves: "sim_evolves s s' \<Longrightarrow> one_handler s' = one_handler s"
  by (simp add: sim_evolves_def one_handler_def handlers_for_def)

locale bounded_handlers = event_handlers W Q E call R
  for W :: "'w \<Rightarrow> bool" and Q :: "'w \<Rightarrow> SimEvent \<Rightarrow> bool" and E :: "'w \<Rightarrow> 'w \<Rightarrow> bool"
    and call :: "'h \<Rightarrow> SimEvent \<Rightarrow> 'h sim \<times> 'w \<Rightarrow> (py_error + unit) \<times> ('h sim \<times> 'w)"
    and R :: "EventKind \<Rightarrow> 'h \<Rightarrow> bool" +
  fixes budget :: "'h sim \<times> 'w \<Rightarrow> nat" and credit :: "EventKind \<Rightarrow> nat"
  assumes credit_pos: "0 < credit k"
    and budget_pop: "sim_queue (fst st) = ev # sim_queue s \<Longrightarrow> budget (s, snd st) + credit (ev_kind ev) = budget st"
    and handler_spends: "world_ok W Q st \<Longrightarrow> Q (snd st) ev \<Longrightarrow> R (ev_kind ev) h \<Longrightarrow>
      budget (snd (call h ev st)) \<le> budget st + (credit (ev_kind ev) - 1)"
begin

lemma run_body_spends:
  assumes ok: "world_ok W Q st" "registered R (fst st)" "one_handler (fst st)"
    and c: "run_body call horizon max_events n st = Continue m st'"
  shows "budget st' < budget st"
proof -
  from c obtain ev rest where q: "sim_queue (fst st) = ev # rest"
    by (auto simp: run_body_def split: list.splits)
  let ?s = "(fst st)\<lparr>sim_queue := rest, sim_pending_ids := sim_pending_ids (fst st) - {ev_id ev}\<rparr>"
  let ?t = "?s\<lparr>sim_now := ev_time ev, sim_trace := sim_trace ?s @ [ev]\<rparr>"
  let ?hs = "handlers_for ?t (ev_kind ev)"
  have pop: "budget (?t, snd st) + credit (ev_kind ev) = budget st"
    "budget (?s\<lparr>sim_cancelled := x\<rparr>, snd st) + credit (ev_kind ev) = budget st" for x
    by (rule budget_pop; simp add: q)+
  have pos: "0 < credit (ev_kind ev)" by (rule credit_pos)
  show ?thesis
  proof (cases "ev_id ev \<in> sim_cancelled (fst st)")
    case True
    with c q have "st' = (?s\<lparr>sim_cancelled := sim_cancelled ?s - {ev_id ev}\<rparr>, snd st)"
      by (auto simp: run_body_def Let_def split: if_splits)
    with pop(2) [of "sim_cancelled ?s - {ev_id ev}"] pos show ?thesis by simp
  next
    case False
    with c q obtain r where called: "call_all call ?hs ev (?t, snd st) = (r, st')" and due: "sim_now (fst st) \<le> ev_time ev"
      by (auto simp: run_body_def Let_def split: if_splits prod.splits sum.splits option.splits)
    have popped: "world_ok W Q (?t, snd st)" and Q: "Q (snd (?t, snd st)) ev"
      using pop_ok(2) [OF _ q] False ok(1) due q by (simp_all add: world_ok_def)
    have "?hs = handlers_for (fst st) (ev_kind ev)" by (simp add: handlers_for_def)
    moreover have "length (handlers_for (fst st) (ev_kind ev)) \<le> 1" using ok(3) by (simp add: one_handler_def)
    ultimately consider "?hs = []" | h where "?hs = [h]" "h \<in> set (handlers_for (fst st) (ev_kind ev))"
      by (cases ?hs) auto
    then have "budget st' \<le> budget (?t, snd st) + (credit (ev_kind ev) - 1)"
    proof cases
      case 1
      with called show ?thesis by simp
    next
      case (2 h)
      have "R (ev_kind ev) h" using ok(2) 2(2) by (simp add: registered_def)
      from handler_spends [OF popped Q this]
      have "budget (snd (call h ev (?t, snd st))) \<le> budget (?t, snd st) + (credit (ev_kind ev) - 1)" .
      moreover have "st' = snd (call h ev (?t, snd st))"
        using called 2(1) by (cases "call h ev (?t, snd st)"; cases "fst (call h ev (?t, snd st))") auto
      ultimately show ?thesis by simp
    qed
    with pop(1) pos show ?thesis by linarith
  qed
qed

lemma run_loop_terminates:
  assumes "world_ok W Q st" "registered R (fst st)" "one_handler (fst st)"
  shows "\<exists>y. run_loop call horizon max_events n st = Some y"
  using assms
proof (induction "budget st" arbitrary: st n rule: less_induct)
  case less
  show ?case
  proof (cases "run_body call horizon max_events n st")
    case (Stop r st')
    then show ?thesis by (subst run_loop.simps) simp
  next
    case (Continue m st')
    have one: "world_ok W Q st' \<and> world_evolves E st st'"
      by (rule run_body_ok [OF less.prems(1,2) disjI2 [OF Continue]])
    then have "sim_evolves (fst st) (fst st')" by (simp add: world_evolves_def)
    then have "registered R (fst st')" "one_handler (fst st')"
      using less.prems(2,3) registered_evolves one_handler_evolves by blast+
    with less.hyps [OF run_body_spends [OF less.prems Continue]] one Continue show ?thesis
      by (subst run_loop.simps) simp
  qed
qed

lemma run_sim_terminates:
  assumes "world_ok W Q st" "registered R (fst st)" "one_handler (fst st)"
  shows "\<exists>r st'. run_sim call st until max_events = Some (r, st')"
proof -
  have "run_sim call st until max_events \<noteq> None"
  proof (cases "bind_res (run_horizon (fst st) until) (\<lambda>h. bind_res (run_limit max_events) (\<lambda>l. Inr (h, l)))")
    case (Inr hl)
    obtain h l where hl: "hl = (h, l)" by (cases hl)
    obtain y where "run_loop call h l 0 st = Some y" using run_loop_terminates [OF assms] by blast
    with Inr hl show ?thesis by (simp add: run_sim_def)
  qed (simp add: run_sim_def)
  then show ?thesis by auto
qed

end

subsection \<open>What a run raises\<close>

locale raising_handlers = event_handlers W Q E call R
  for W :: "'w \<Rightarrow> bool" and Q :: "'w \<Rightarrow> SimEvent \<Rightarrow> bool" and E :: "'w \<Rightarrow> 'w \<Rightarrow> bool"
    and call :: "'h \<Rightarrow> SimEvent \<Rightarrow> 'h sim \<times> 'w \<Rightarrow> (py_error + unit) \<times> ('h sim \<times> 'w)"
    and R :: "EventKind \<Rightarrow> 'h \<Rightarrow> bool" +
  fixes es :: "py_error set"
  assumes handler_raises: "world_ok W Q st \<Longrightarrow> Q (snd st) ev \<Longrightarrow> R (ev_kind ev) h \<Longrightarrow>
      call h ev st = (Inl e, st') \<Longrightarrow> e \<in> es"
begin

lemma call_all_raises:
  "world_ok W Q st \<Longrightarrow> Q (snd st) ev \<Longrightarrow> \<forall>h\<in>set hs. R (ev_kind ev) h \<Longrightarrow> call_all call hs ev st = (Inl e, st') \<Longrightarrow> e \<in> es"
proof (induction hs arbitrary: st)
  case (Cons h hs)
  obtain r1 st1 where c: "call h ev st = (r1, st1)" by (cases "call h ev st") auto
  have R: "R (ev_kind ev) h" using Cons.prems(3) by simp
  show ?case
  proof (cases r1)
    case (Inl e')
    with c Cons.prems(4) handler_raises [OF Cons.prems(1,2) R] show ?thesis by simp
  next
    case (Inr u)
    from handler_safe [OF Cons.prems(1,2) R] c have one: "world_ok W Q st1" "world_evolves E st st1" by simp_all
    then have "Q (snd st1) ev" using Cons.prems(2) Q_stable by (auto simp: world_evolves_def)
    with Cons.IH [OF one(1)] Cons.prems(3,4) c Inr show ?thesis by simp
  qed
qed simp

lemma run_body_raises:
  assumes "world_ok W Q st" and "registered R (fst st)" and "run_body call horizon max_events n st = Stop (Inl e) st'"
  shows "e \<in> es"
proof -
  from assms(3) obtain ev rest where q: "sim_queue (fst st) = ev # rest"
    by (auto simp: run_body_def split: list.splits)
  let ?s = "(fst st)\<lparr>sim_queue := rest, sim_pending_ids := sim_pending_ids (fst st) - {ev_id ev}\<rparr>"
  let ?t = "?s\<lparr>sim_now := ev_time ev, sim_trace := sim_trace ?s @ [ev]\<rparr>"
  have due: "sim_now (fst st) \<le> ev_time ev" using assms(1) q by (simp add: world_ok_def sim_ok_def)
  with assms(3) q have "ev_id ev \<notin> sim_cancelled (fst st)"
    and called: "call_all call (handlers_for ?t (ev_kind ev)) ev (?t, snd st) = (Inl e, st')"
    by (auto simp: run_body_def Let_def split: if_splits prod.splits sum.splits option.splits)
  then have "world_ok W Q (?t, snd st)" "Q (snd (?t, snd st)) ev"
    using pop_ok(2) [OF _ q] assms(1) due q by (simp_all add: world_ok_def)
  moreover have "\<forall>h\<in>set (handlers_for ?t (ev_kind ev)). R (ev_kind ev) h"
    using assms(2) by (simp add: registered_def handlers_for_def)
  ultimately show ?thesis using called by (rule call_all_raises)
qed

lemma run_loop_raises:
  assumes "run_loop call horizon max_events n st = Some y" and "world_ok W Q st" and "registered R (fst st)" and "fst y = Inl e"
  shows "e \<in> es"
  using assms
proof (induction rule: run_loop_induct)
  case (stop n st r st')
  then show ?case using run_body_raises by simp
next
  case (continue n st m st' y)
  have one: "world_ok W Q st' \<and> world_evolves E st st'"
    by (rule run_body_ok [OF continue.prems(1,2) disjI2 [OF continue.hyps]])
  then have "registered R (fst st')"
    using continue.prems(2) registered_evolves unfolding world_evolves_def by blast
  with one continue.IH continue.prems(3) show ?case by simp
qed

lemma run_sim_raises:
  assumes "run_sim call st until max_events = Some (Inl e, st')" and "world_ok W Q st" and "registered R (fst st)"
  shows "e \<in> es \<or> run_horizon (fst st) until = Inl e \<or> run_limit max_events = Inl e"
proof (cases "bind_res (run_horizon (fst st) until) (\<lambda>h. bind_res (run_limit max_events) (\<lambda>l. Inr (h, l)))")
  case (Inl e')
  with assms(1) have "e' = e" by (simp add: run_sim_def)
  with Inl show ?thesis by (auto simp: bind_res_Inl)
next
  case (Inr hl)
  obtain h l where hl: "hl = (h, l)" by (cases hl)
  with Inr assms(1) obtain q st1 where loop: "run_loop call h l 0 st = Some (q, st1)" by (auto simp: run_sim_def)
  with Inr hl assms(1) have "q = Inl e" by (cases q) (simp_all add: run_sim_def)
  with run_loop_raises [OF loop assms(2,3)] show ?thesis by simp
qed

end

end
