(* ===== verification/Sim_Termination.thy ===== *)
theory Sim_Termination
  imports Sim_Resource_Inv Sim_Budget
begin

section \<open>Runs of the resource model return\<close>

text \<open>
  Handlers schedule further events, so that a run returns needs an argument: every pending event has a
  credit, and every entry of the model that may still cause events has a load which pays for them. No
  handler adds to the sum of the two (the budget) more than the credit of its event allows, and taking
  an event off the queue spends at least 1.
\<close>

subsection \<open>The budget\<close>

definition dict_sum :: "('v \<Rightarrow> nat) \<Rightarrow> 'v dict \<Rightarrow> nat" where
  "dict_sum f d = sum_list (map (f \<circ> snd) d)"

definition credit :: "EventKind \<Rightarrow> nat" where
  "credit k = (if k = STATE_MATERIALIZATION_STARTED \<or> k = STATE_TRANSFER_STARTED then 2 else 1)"

definition replica_load :: "ReplicaRuntime \<Rightarrow> nat" where
  "replica_load x =
     (if rr_status x = ReplicaRuntimeStatus.EVICTED \<or> rr_status x = ReplicaRuntimeStatus.LOST then 0 else 1)"

definition transfer_load :: "StateTransfer \<Rightarrow> nat" where
  "transfer_load t = (if active_transfer t then 1 else 0)"

definition model_load :: "resources \<Rightarrow> nat" where
  "model_load r =
     dict_sum (\<lambda>xs. 2 * length xs) (rs_worker_queues r) + dict_sum length (rs_worker_active r) +
     dict_sum replica_load (rs_replicas r) + dict_sum transfer_load (rs_transfers r)"

definition queue_credit :: "'h sim \<Rightarrow> nat" where
  "queue_credit s = sum_list (map (credit \<circ> ev_kind) (sim_queue s))"

definition budget :: "'h rstate \<Rightarrow> nat" where
  "budget st = queue_credit (fst st) + model_load (snd st)"

lemma dict_sum_setitem:
  "dict_sum f (setitem k v d) + (case map_of d k of None \<Rightarrow> 0 | Some u \<Rightarrow> f u) = dict_sum f d + f v"
  by (induction d) (auto simp: dict_sum_def)

lemma dict_sum_listing:
  assumes "f [] = 0"
  shows "dict_sum f (setitem w xs d) + f (listing d w) = dict_sum f d + f xs"
  using dict_sum_setitem [of f w xs d] assms by (cases "map_of d w") (simp_all add: listing_def)

lemma budget_frame [simp]:
  "budget (put_task i t st) = budget st" "budget (put_worker w k st) = budget st"
  by (simp_all add: budget_def model_load_def)

lemma budget_cancel [simp]: "budget (cancel_truthy i st) = budget st"
  by (auto simp: budget_def queue_credit_def cancel_truthy_def cancel_def split: option.splits)

lemma budget_replica:
  "map_of (rs_replicas (snd st)) i = Some x \<Longrightarrow>
     budget (put_replica i y st) + replica_load x = budget st + replica_load y"
  using dict_sum_setitem [of replica_load i y "rs_replicas (snd st)"] by (simp add: budget_def model_load_def)

lemma budget_transfer:
  "map_of (rs_transfers (snd st)) i = Some x \<Longrightarrow>
     budget (put_transfer i y st) + transfer_load x = budget st + transfer_load y"
  using dict_sum_setitem [of transfer_load i y "rs_transfers (snd st)"] by (simp add: budget_def model_load_def)

lemma budget_queue:
  "budget (put_queue w xs st) + 2 * length (listing (rs_worker_queues (snd st)) w) = budget st + 2 * length xs"
  using dict_sum_listing [of "\<lambda>xs. 2 * length xs" w xs "rs_worker_queues (snd st)"]
  by (simp add: budget_def model_load_def)

lemma budget_active:
  "budget (put_active w xs st) + length (listing (rs_worker_active (snd st)) w) = budget st + length xs"
  using dict_sum_listing [of length w xs "rs_worker_active (snd st)"] by (simp add: budget_def model_load_def)

lemma sum_insort: "sum_list (map f (insort_key k x xs)) = f x + (sum_list (map f xs) :: nat)"
  by (induction xs) simp_all

lemma budget_sched:
  assumes "sched st k d i p = (r, st')"
  shows "budget st' \<le> budget st + credit k"
proof (cases r)
  case (Inl e)
  then show ?thesis using sched_error assms by fastforce
next
  case (Inr ev)
  with assms have "snd st' = snd st" "queue_credit (fst st') = queue_credit (fst st) + credit k"
    by (auto simp: sched_def schedule_def reads_Inr new_SimEvent_def bind_res_Inr queue_credit_def sum_insort
        split: prod.splits pyval.splits pyfloat.splits if_splits)
  then show ?thesis by (simp add: budget_def)
qed

subsection \<open>Steps within a budget\<close>

definition spends :: "nat \<Rightarrow> ('h rstate, 'a) outcome \<Rightarrow> bool" where
  "spends b out \<longleftrightarrow> budget (snd out) \<le> b"

lemma spends_pair [simp]: "spends b (r, st) \<longleftrightarrow> budget st \<le> b"
  by (simp add: spends_def)

lemma spends_mono: "spends b out \<Longrightarrow> b \<le> c \<Longrightarrow> spends c out"
  by (simp add: spends_def)

lemma spends_reads:
  "budget st \<le> b \<Longrightarrow> (\<And>x. m = Inr x \<Longrightarrow> spends b (k x)) \<Longrightarrow> spends b (reads st m k)"
  by (cases m) simp_all

lemma spends_calls:
  assumes "spends b out" and "b \<le> c" and "\<And>x st. out = (Inr x, st) \<Longrightarrow> budget st \<le> b \<Longrightarrow> spends c (k x st)"
  shows "spends c (calls out k)"
  using assms by (cases out; cases "fst out") auto

lemma spends_sched: "budget st + credit k \<le> b \<Longrightarrow> spends b (sched st k d i p)"
  using budget_sched [of st k d i p] by (cases "sched st k d i p") fastforce

text \<open>The common end of the handlers: an event is scheduled and nothing else happens.\<close>

lemma spends_sched_done:
  "budget st + credit k \<le> b \<Longrightarrow> spends b (calls (sched st k d i p) (\<lambda>_ st1. (Inr (), st1)))"
  by (rule spends_calls [OF spends_sched order_refl]) simp_all

lemma spends_for:
  fixes body :: "'x \<Rightarrow> 'h rstate \<Rightarrow> ('h rstate, unit) outcome"
  assumes "\<And>x st. x \<in> set xs \<Longrightarrow> spends (budget st + c) (body x st)"
  shows "spends (budget st + c * length xs) (for_loop xs body st)"
  using assms
proof (induction xs arbitrary: st)
  case (Cons x xs)
  show ?case
    unfolding for_loop.simps
  proof (rule spends_calls [OF Cons.prems])
    fix u and st1 :: "'h rstate" assume "budget st1 \<le> budget st + c"
    moreover have "spends (budget st1 + c * length xs) (for_loop xs body st1)" using Cons by simp
    ultimately show "spends (budget st + c * length (x # xs)) (for_loop xs body st1)" by (auto intro: spends_mono)
  qed simp_all
qed simp

lemma spends_for_items:
  fixes sel :: "resources \<Rightarrow> 'v dict" and body :: "string \<times> 'v \<Rightarrow> 'h rstate \<Rightarrow> ('h rstate, unit) outcome"
  assumes "distinct (map fst xs)" and "\<forall>(i, x)\<in>set xs. map_of (sel (snd st)) i = Some x"
    and "\<And>i x st. map_of (sel (snd st)) i = Some x \<Longrightarrow> spends (budget st) (body (i, x) st) \<and>
        (\<forall>j. j \<noteq> i \<longrightarrow> map_of (sel (snd (snd (body (i, x) st)))) j = map_of (sel (snd st)) j)"
  shows "spends (budget st) (for_loop xs body st)"
  using assms(1,2)
proof (induction xs arbitrary: st)
  case (Cons ix xs)
  obtain i x where ix: "ix = (i, x)" by (cases ix)
  with Cons.prems(2) have x: "map_of (sel (snd st)) i = Some x" by simp
  note one = assms(3) [OF x]
  show ?case
    unfolding for_loop.simps ix
  proof (rule spends_calls)
    show "spends (budget st) (body (i, x) st)" using one by blast
    fix u st1 assume b: "body (i, x) st = (Inr u, st1)" and le: "budget st1 \<le> budget st"
    have "\<forall>(j, y)\<in>set xs. map_of (sel (snd st1)) j = Some y"
    proof clarify
      fix j y assume "(j, y) \<in> set xs"
      moreover from this have "j \<noteq> i" using Cons.prems(1) ix by force
      ultimately show "map_of (sel (snd st1)) j = Some y" using one b Cons.prems(2) by fastforce
    qed
    with Cons.IH [of st1] Cons.prems(1) have "spends (budget st1) (for_loop xs body st1)" by simp
    then show "spends (budget st) (for_loop xs body st1)" using le by (rule spends_mono)
  qed simp
qed simp

subsection \<open>The handlers\<close>

lemma dispatch_loop_spends:
  fixes st :: "'a rstate"
  shows "listing (rs_worker_queues (snd st)) w = queue \<Longrightarrow> spends (budget st) (dispatch_loop worker w queue st)"
proof (induction queue arbitrary: st)
  case (Cons i queue)
  let ?st1 = "put_queue w queue st"
  have st1: "budget ?st1 + 2 = budget st" using budget_queue [of w queue st] Cons.prems by simp
  show ?case
    unfolding dispatch_loop.simps Let_def
  proof (split if_split, intro conjI impI)
    show "spends (budget st) (reads ?st1 (getitem (rs_tasks (snd ?st1)) i) (\<lambda>task.
        calls (sched ?st1 WORKER_TASK_COMPLETED (PFloat (Fin (task_duration task)))
                 (PStr (''task-complete:'' @ i)) (str_payload [(''task_id'', i), (''worker_id'', w)]))
          (\<lambda>completion st2.
             dispatch_loop worker w queue
               (put_active w (listing (rs_worker_active (snd st2)) w @ [i])
                 (put_task i (task\<lparr>task_status := TaskStatus.RUNNING, task_started_at := Some (sim_now (fst st2)),
                                   task_completion_event_id := Some (ev_id completion)\<rparr>) st2)))))"
    proof (rule spends_reads, use st1 in simp, rule spends_calls [where b = "budget ?st1 + 1"])
      fix task :: ResourceTask and completion and st2 :: "'a rstate"
      assume s: "sched ?st1 WORKER_TASK_COMPLETED (PFloat (Fin (task_duration task)))
                 (PStr (''task-complete:'' @ i)) (str_payload [(''task_id'', i), (''worker_id'', w)]) = (Inr completion, st2)"
        and b: "budget st2 \<le> budget ?st1 + 1"
      let ?t = "put_task i (task\<lparr>task_status := TaskStatus.RUNNING, task_started_at := Some (sim_now (fst st2)),
                                   task_completion_event_id := Some (ev_id completion)\<rparr>) st2"
      let ?st3 = "put_active w (listing (rs_worker_active (snd st2)) w @ [i]) ?t"
      have "budget ?st3 = budget st2 + 1"
        using budget_active [of w "listing (rs_worker_active (snd st2)) w @ [i]" ?t] by simp
      moreover have "spends (budget ?st3) (dispatch_loop worker w queue ?st3)"
        by (rule Cons.IH) (simp add: sched_Inr_snd [OF s])
      ultimately show "spends (budget st) (dispatch_loop worker w queue ?st3)"
        using b st1 by (auto intro: spends_mono)
    qed (use st1 in \<open>auto intro: spends_sched simp: credit_def\<close>)
  qed simp
qed simp

lemma dispatch_spends: "spends (budget st) (dispatch w st)"
  unfolding dispatch_def by (intro spends_reads) (auto intro: dispatch_loop_spends simp: getitem_Inr listing_Some)


lemma fail_task_spends: "spends (budget st + 1) (fail_task w i st)"
  unfolding fail_task_def Let_def
  by (intro spends_reads spends_sched_done) (simp_all add: credit_def)

lemma fail_transfer_spends:
  assumes "map_of (rs_transfers (snd st)) i = Some x" "active_transfer x"
  shows "spends (budget st) (fail_transfer (i, x) st)"
proof -
  have "map_of (rs_transfers (snd (cancel_truthy (tr_completion_event_id x) st))) i = Some x" using assms(1) by simp
  note b = budget_transfer [OF this]
  show ?thesis
    unfolding fail_transfer_def Let_def prod.case using b assms(2)
    by (intro spends_sched_done) (simp add: credit_def transfer_load_def active_transfer_def)
qed

lemma lose_replica_at_spends:
  assumes "map_of (rs_replicas (snd st)) i = Some x"
  shows "spends (budget st) (lose_replica_at w (i, x) st)"
proof -
  have "map_of (rs_replicas (snd (cancel_truthy (rr_completion_event_id x) st))) i = Some x" using assms by simp
  note b = budget_replica [OF this]
  show ?thesis
    unfolding lose_replica_at_def prod.case using b
    by (auto intro!: spends_sched_done simp: credit_def replica_load_def)
qed

lemma fail_task_frame:
  "rs_replicas (snd (snd (fail_task w i st))) = rs_replicas (snd st) \<and>
   rs_transfers (snd (snd (fail_task w i st))) = rs_transfers (snd st)"
  by (cases "map_of (rs_tasks (snd st)) i") (simp_all add: fail_task_def Let_def frame_sched_done getitem_def)

lemma lose_replica_at_frame:
  "rs_transfers (snd (snd (lose_replica_at w ix st))) = rs_transfers (snd st)"
  "j \<noteq> fst ix \<Longrightarrow> map_of (rs_replicas (snd (snd (lose_replica_at w ix st)))) j = map_of (rs_replicas (snd st)) j"
  by (cases ix; simp add: lose_replica_at_def frame_sched_done)+

lemma fail_transfer_frame:
  "j \<noteq> fst ix \<Longrightarrow> map_of (rs_transfers (snd (snd (fail_transfer ix st)))) j = map_of (rs_transfers (snd st)) j"
  by (cases ix; simp add: fail_transfer_def Let_def frame_sched_done)

definition keys_distinct :: "resources \<Rightarrow> bool" where
  "keys_distinct r \<longleftrightarrow> distinct (map fst (rs_replicas r)) \<and> distinct (map fst (rs_transfers r))"

lemma on_worker_failed_spends:
  assumes "keys_distinct (snd st)"
  shows "spends (budget st) (on_worker_failed ev st)"
proof -
  have loop: "spends (budget st) (calls (for_loop active (fail_task w) (put_active w [] st1)) (\<lambda>_ st2.
       calls (for_loop (rs_replicas (snd st2)) (lose_replica_at w) st2) (\<lambda>_ st3.
       for_loop (rs_transfers (snd st3)) (fail_transfer_at w) st3)))"
    if "budget st1 = budget st" "keys_distinct (snd st1)" "listing (rs_worker_active (snd st1)) w = active"
    for w active and st1 :: "'a rstate"
  proof (rule spends_calls [OF _ order_refl])
    let ?st2 = "put_active w [] st1"
    have "budget ?st2 + length active = budget st" using budget_active [of w "[]" st1] that by simp
    moreover have "spends (budget ?st2 + 1 * length active) (for_loop active (fail_task w) ?st2)"
      by (rule spends_for [OF fail_task_spends])
    ultimately show "spends (budget st) (for_loop active (fail_task w) ?st2)" by simp
    fix u st2 assume one: "for_loop active (fail_task w) ?st2 = (Inr u, st2)" and b2: "budget st2 \<le> budget st"
    have "rs_replicas (snd (snd (for_loop active (fail_task w) ?st2))) = rs_replicas (snd ?st2)"
      by (rule for_loop_frame [where f = "\<lambda>st. rs_replicas (snd st)"]) (simp add: fail_task_frame)
    moreover have "rs_transfers (snd (snd (for_loop active (fail_task w) ?st2))) = rs_transfers (snd ?st2)"
      by (rule for_loop_frame [where f = "\<lambda>st. rs_transfers (snd st)"]) (simp add: fail_task_frame)
    ultimately have keys: "keys_distinct (snd st2)" using one that(2) by (simp add: keys_distinct_def)
    show "spends (budget st) (calls (for_loop (rs_replicas (snd st2)) (lose_replica_at w) st2) (\<lambda>_ st3.
        for_loop (rs_transfers (snd st3)) (fail_transfer_at w) st3))"
    proof (rule spends_calls [OF _ order_refl])
      have "spends (budget st2) (for_loop (rs_replicas (snd st2)) (lose_replica_at w) st2)"
        using keys by (intro spends_for_items [where sel = rs_replicas])
          (auto simp: keys_distinct_def lose_replica_at_spends lose_replica_at_frame)
      with b2 show "spends (budget st) (for_loop (rs_replicas (snd st2)) (lose_replica_at w) st2)"
        by (auto intro: spends_mono)
      fix v st3 assume two: "for_loop (rs_replicas (snd st2)) (lose_replica_at w) st2 = (Inr v, st3)"
        and b3: "budget st3 \<le> budget st"
      have "rs_transfers (snd (snd (for_loop (rs_replicas (snd st2)) (lose_replica_at w) st2))) = rs_transfers (snd st2)"
        by (rule for_loop_frame [where f = "\<lambda>st. rs_transfers (snd st)"]) (simp add: lose_replica_at_frame)
      with two keys have "distinct (map fst (rs_transfers (snd st3)))" by (simp add: keys_distinct_def)
      then have "spends (budget st3) (for_loop (rs_transfers (snd st3)) (fail_transfer_at w) st3)"
        by (intro spends_for_items [where sel = rs_transfers])
          (auto simp: fail_transfer_at_def fail_transfer_spends fail_transfer_frame)
      with b3 show "spends (budget st) (for_loop (rs_transfers (snd st3)) (fail_transfer_at w) st3)"
        by (auto intro: spends_mono)
    qed
  qed
  show ?thesis
    unfolding on_worker_failed_def Let_def
  proof (intro spends_reads order_refl)
    fix w worker
    let ?st1 = "put_worker w (worker\<lparr>wk_status := DOWN\<rparr>) st"
    have "keys_distinct (snd ?st1)" using assms by (simp add: keys_distinct_def)
    with loop [of ?st1 w]
    show "spends (budget st) (if wk_status worker = DOWN then (Inr (), st)
        else reads ?st1 (getitem (rs_worker_active (snd ?st1)) w)
          (\<lambda>active. calls (for_loop active (fail_task w) (put_active w [] ?st1)) (\<lambda>_ st2.
             calls (for_loop (rs_replicas (snd st2)) (lose_replica_at w) st2) (\<lambda>_ st3.
             for_loop (rs_transfers (snd st3)) (fail_transfer_at w) st3))))"
      by (auto intro!: spends_reads simp: getitem_Inr listing_Some)
  qed
qed

lemma on_state_gone_spends:
  assumes "keys_distinct (snd st)" and s: "s = ReplicaRuntimeStatus.EVICTED \<or> s = ReplicaRuntimeStatus.LOST"
  shows "spends (budget st) (on_state_gone s ev st)"
proof -
  let ?loop = "\<lambda>i. fail_active_transfers_for_replica i st"
  have loop: "spends (budget st) (?loop i)" for i
    unfolding fail_active_transfers_for_replica_def using assms(1)
    by (intro spends_for_items [where sel = rs_transfers])
      (auto simp: keys_distinct_def fail_transfer_spends fail_transfer_frame)
  have frame: "rs_replicas (snd (snd (?loop i))) = rs_replicas (snd st)" for i
    unfolding fail_active_transfers_for_replica_def
    by (rule for_loop_frame [where f = "\<lambda>st. rs_replicas (snd st)"]) (simp add: fail_transfer_replicas)
  have gone: "spends (budget st) (calls (?loop i) (\<lambda>_ st1. (Inr (), put_replica i
      (x\<lparr>rr_status := s, rr_completion_event_id := None\<rparr>) (cancel_truthy (rr_completion_event_id x) st1))))"
    if "map_of (rs_replicas (snd st)) i = Some x" for i x
  proof (rule spends_calls [OF loop order_refl])
    fix u st1 assume "?loop i = (Inr u, st1)" and b: "budget st1 \<le> budget st"
    with frame [of i] that have "map_of (rs_replicas (snd (cancel_truthy (rr_completion_event_id x) st1))) i = Some x" by simp
    from budget_replica [OF this, of "x\<lparr>rr_status := s, rr_completion_event_id := None\<rparr>"] b s
    show "spends (budget st) (Inr (), put_replica i (x\<lparr>rr_status := s, rr_completion_event_id := None\<rparr>)
        (cancel_truthy (rr_completion_event_id x) st1))"
      by (auto simp: replica_load_def)
  qed
  show ?thesis
    unfolding on_state_gone_def by (auto intro!: spends_reads gone simp: event_replica_Some split: option.splits)
qed

lemma on_task_completed_spends: "spends (budget st) (on_task_completed ev st)"
proof -
  have "spends (budget st) (dispatch w (put_task i t (put_active w (remove1 i active) st)))"
    if "listing (rs_worker_active (snd st)) w = active" for w i t active
  proof -
    have "budget (put_active w (remove1 i active) st) \<le> budget st"
      using budget_active [of w "remove1 i active" st] that by (auto simp: length_remove1 split: if_splits)
    then show ?thesis using dispatch_spends [of "put_task i t (put_active w (remove1 i active) st)" w]
      by (auto intro: spends_mono)
  qed
  then show ?thesis
    unfolding on_task_completed_def
    by (auto intro!: spends_reads split: option.splits simp: getitem_Inr listing_Some)
qed

lemma on_materialization_started_spends: "spends (Suc (budget st)) (on_materialization_started ev st)"
proof -
  have lost: "spends (Suc (budget st)) (calls (sched (put_replica i (x\<lparr>rr_status := ReplicaRuntimeStatus.LOST\<rparr>) st)
      STATE_LOST d e p) (\<lambda>_ st1. (Inr (), st1)))" if "map_of (rs_replicas (snd st)) i = Some x" for i x d e p
    using budget_replica [OF that, of "x\<lparr>rr_status := ReplicaRuntimeStatus.LOST\<rparr>"]
    by (intro spends_sched_done) (simp add: credit_def replica_load_def)
  have finish: "spends (Suc (budget st)) (calls (sched st STATE_MATERIALIZED d e p) (\<lambda>completion st1.
      (Inr (), put_replica i (x\<lparr>rr_completion_event_id := Some (ev_id completion)\<rparr>) st1)))"
    if "map_of (rs_replicas (snd st)) i = Some x" for i x d e p
  proof (rule spends_calls [OF spends_sched order_refl])
    fix completion st1
    assume s: "sched st STATE_MATERIALIZED d e p = (Inr completion, st1)" and b: "budget st1 \<le> Suc (budget st)"
    from that sched_Inr_snd [OF s] have "map_of (rs_replicas (snd st1)) i = Some x" by simp
    from budget_replica [OF this, of "x\<lparr>rr_completion_event_id := Some (ev_id completion)\<rparr>"] b
    show "spends (Suc (budget st)) (Inr (), put_replica i (x\<lparr>rr_completion_event_id := Some (ev_id completion)\<rparr>) st1)"
      by (simp add: replica_load_def)
  qed (simp add: credit_def)
  show ?thesis
    unfolding on_materialization_started_def
    by (auto intro!: spends_reads lost finish simp: event_replica_Some split: option.splits)
qed


lemma on_state_materialized_spends: "spends (budget st) (on_state_materialized ev st)"
proof -
  have lost: "spends (budget st) (calls (sched (put_replica i (x\<lparr>rr_status := ReplicaRuntimeStatus.LOST,
      rr_completion_event_id := None\<rparr>) st) STATE_LOST d e p) (\<lambda>_ st1. (Inr (), st1)))"
    if "map_of (rs_replicas (snd st)) i = Some x" "rr_status x = ReplicaRuntimeStatus.MATERIALIZING" for i x d e p
    using budget_replica [OF that(1), of "x\<lparr>rr_status := ReplicaRuntimeStatus.LOST, rr_completion_event_id := None\<rparr>"] that(2)
    by (intro spends_sched_done) (simp add: credit_def replica_load_def)
  have available: "budget (put_replica i (x\<lparr>rr_status := ReplicaRuntimeStatus.AVAILABLE, rr_completion_event_id := None\<rparr>) st)
      \<le> budget st"
    if "map_of (rs_replicas (snd st)) i = Some x" "rr_status x = ReplicaRuntimeStatus.MATERIALIZING" for i x
    using budget_replica [OF that(1), of "x\<lparr>rr_status := ReplicaRuntimeStatus.AVAILABLE, rr_completion_event_id := None\<rparr>"] that(2)
    by (simp add: replica_load_def)
  show ?thesis
    unfolding on_state_materialized_def
    by (auto intro!: spends_reads lost available simp: event_replica_Some split: option.splits)
qed

lemma transfer_ends_spends:
  assumes "map_of (rs_transfers (snd st)) i = Some x" "active_transfer x" "\<not> active_transfer y" "credit k = 1"
  shows "spends (budget st) (calls (sched (put_transfer i y st) k d e p) (\<lambda>_ st1. (Inr (), st1)))"
  using budget_transfer [OF assms(1), of y] assms(2-) by (intro spends_sched_done) (simp add: transfer_load_def)

lemma on_transfer_started_spends: "spends (Suc (budget st)) (on_transfer_started ev st)"
proof -
  have failed: "spends (Suc (budget st)) (calls (sched (put_transfer i (x\<lparr>tr_status := TransferStatus.FAILED,
      tr_started_at := t, tr_completed_at := u\<rparr>) st) STATE_TRANSFER_FAILED d e p) (\<lambda>_ st1. (Inr (), st1)))"
    if "map_of (rs_transfers (snd st)) i = Some x" "tr_status x = TransferStatus.SCHEDULED" for i x t u d e p
    by (rule spends_mono [OF transfer_ends_spends [OF that(1)]]) (simp_all add: that(2) active_transfer_def credit_def)
  have runs: "spends (Suc (budget st)) (calls (sched st STATE_TRANSFER_COMPLETED d e p) (\<lambda>completion st1.
      (Inr (), put_transfer i (x\<lparr>tr_status := TransferStatus.RUNNING, tr_started_at := Some (sim_now (fst st1)),
         tr_completion_event_id := Some (ev_id completion)\<rparr>) st1)))"
    if "map_of (rs_transfers (snd st)) i = Some x" "tr_status x = TransferStatus.SCHEDULED" for i x d e p
  proof (rule spends_calls [OF spends_sched order_refl])
    fix completion st1
    assume s: "sched st STATE_TRANSFER_COMPLETED d e p = (Inr completion, st1)" and b: "budget st1 \<le> Suc (budget st)"
    let ?y = "x\<lparr>tr_status := TransferStatus.RUNNING, tr_started_at := Some (sim_now (fst st1)),
      tr_completion_event_id := Some (ev_id completion)\<rparr>"
    from that sched_Inr_snd [OF s] have "map_of (rs_transfers (snd st1)) i = Some x" by simp
    from budget_transfer [OF this, of ?y] b that(2) show "spends (Suc (budget st)) (Inr (), put_transfer i ?y st1)"
      by (simp add: transfer_load_def active_transfer_def)
  qed (simp add: credit_def)
  show ?thesis
    unfolding on_transfer_started_def
    by (auto intro!: spends_reads failed runs simp: event_transfer_Some split: option.splits)
qed

lemma on_transfer_completed_spends: "spends (budget st) (on_transfer_completed ev st)"
proof -
  have failed: "spends (budget st) (calls (sched (put_transfer i (x\<lparr>tr_status := TransferStatus.FAILED,
      tr_completed_at := u, tr_completion_event_id := None\<rparr>) st) STATE_TRANSFER_FAILED d e p) (\<lambda>_ st1. (Inr (), st1)))"
    if "map_of (rs_transfers (snd st)) i = Some x" "tr_status x = TransferStatus.RUNNING" for i x u d e p
    by (rule transfer_ends_spends [OF that(1)]) (simp_all add: that(2) active_transfer_def credit_def)
  have moved: "spends (budget st) (calls (sched (put_transfer i (x\<lparr>tr_status := TransferStatus.COMPLETED,
      tr_completed_at := u, tr_completion_event_id := None\<rparr>)
      (put_replica j (r\<lparr>rr_location_id := l\<rparr>) st)) STATE_MOVED d e p) (\<lambda>_ st1. (Inr (), st1)))"
    if "map_of (rs_transfers (snd st)) i = Some x" "tr_status x = TransferStatus.RUNNING"
      "map_of (rs_replicas (snd st)) j = Some r" for i x u d e p j r l
  proof -
    have "budget (put_replica j (r\<lparr>rr_location_id := l\<rparr>) st) = budget st"
      using budget_replica [OF that(3), of "r\<lparr>rr_location_id := l\<rparr>"] by (simp add: replica_load_def)
    with transfer_ends_spends [of "put_replica j (r\<lparr>rr_location_id := l\<rparr>) st" i x] that(1,2)
    show ?thesis by (simp add: active_transfer_def credit_def)
  qed
  show ?thesis
    unfolding on_transfer_completed_def
    by (auto intro!: spends_reads failed moved simp: event_transfer_Some getitem_Inr split: option.splits)
qed

text \<open>No handler exceeds what is left of the credit of its event.\<close>

lemma resource_call_spends:
  assumes "may_register (ev_kind ev) h" and "keys_distinct (snd st)"
  shows "spends (budget st + (credit (ev_kind ev) - 1)) (resource_call h ev st)"
proof (cases "h = OnMaterializationStarted \<or> h = OnTransferStarted")
  case True
  with assms(1) on_materialization_started_spends [of st ev] on_transfer_started_spends [of st ev] show ?thesis
    by (auto simp: may_register_def resource_registrations_def credit_def)
next
  case False
  have "spends (budget st) (on_task_enqueued ev st)"
    by (auto simp: on_task_enqueued_def intro!: spends_reads dispatch_spends)
  moreover have "spends (budget st) (dispatch w (put_worker w k st))" for w k
    using dispatch_spends [of "put_worker w k st" w] by simp
  then have "spends (budget st) (on_worker_recovered ev st)"
    by (auto simp: on_worker_recovered_def intro!: spends_reads)
  ultimately have "spends (budget st) (resource_call h ev st)"
    using False assms(2)
    by (cases h) (simp_all add: on_task_completed_spends on_worker_failed_spends on_state_materialized_spends
        on_transfer_completed_spends on_state_evicted_def on_state_lost_def on_state_gone_spends)
  then show ?thesis by (rule spends_mono) simp
qed

subsection \<open>Runs\<close>

interpretation resource_runs: bounded_handlers res_ok event_ok res_evolves resource_call may_register budget credit
proof
  show "0 < credit k" for k by (simp add: credit_def)
  show "sim_queue (fst st) = ev # sim_queue s \<Longrightarrow> budget (s, snd st) + credit (ev_kind ev) = budget st"
    for st :: "resource_handler rstate" and ev s by (simp add: budget_def queue_credit_def)
  show "budget (snd (resource_call h ev st)) \<le> budget st + (credit (ev_kind ev) - 1)"
    if "res_good st" "may_register (ev_kind ev) h" for st :: "resource_handler rstate" and ev h
  proof -
    have "keys_distinct (snd st)" using good_keys [OF that(1)] by (simp add: keys_distinct_def)
    with resource_call_spends [OF that(2)] show ?thesis by (simp add: spends_def)
  qed
qed

text \<open>A reachable model has the handlers it was built with.\<close>

lemma new_resource_model_one_handler:
  assumes "new_simulator seed = Inr s"
  shows "one_handler (fst (new_resource_model s))"
proof -
  have "handlers_for s k = []" for k
    using assms by (auto simp: new_simulator_def handlers_for_def split: pyval.splits)
  then have "length (handlers_for (fst (new_resource_model s)) k) \<le> 1" for k
    by (cases k) (simp_all add: new_resource_model_def resource_registrations_def handlers_for_register)
  then show ?thesis by (simp add: one_handler_def)
qed

lemma model_reachable_one_handler: "model_reachable st \<Longrightarrow> one_handler (fst st)"
proof (induction rule: model_reachable.induct)
  case (start seed s)
  then show ?case by (rule new_resource_model_one_handler)
next
  case (operation st op r st')
  then have "res_steps st st'" using resource_ops.evolves [OF model_reachable_ok] by simp
  then show ?case using operation.IH one_handler_evolves by (auto simp: world_evolves_def)
next
  case (run st until max_events q st')
  from model_reachable_ok [OF run(1)] have "res_steps st st'"
    using resource_events.run_sim_ok [OF run(2)] by (simp add: model_ok_def)
  then show ?case using run.IH one_handler_evolves by (auto simp: world_evolves_def)
next
  case (cancelled st i b s)
  then have "res_steps st (s, snd st)" using cancel_good(2) model_reachable_ok by blast
  then show ?case using cancelled.IH one_handler_evolves by (auto simp: world_evolves_def)
qed

lemma reachable_run_returns:
  assumes "model_reachable st"
  shows "\<exists>r st'. run_sim resource_call st until max_events = Some (r, st')"
  using resource_runs.run_sim_terminates model_reachable_ok [OF assms] model_reachable_one_handler [OF assms]
  by (auto simp: model_ok_def)

end
