(* ===== verification/Sim_Properties.thy ===== *)
theory Sim_Properties
  imports Sim_Termination
begin

section \<open>Properties of the simulator\<close>

text \<open>
  The properties of the resource model, stated over every model a program can reach
  (\<open>model_reachable\<close>) and whatever its user does next (\<open>model_continues\<close>), with a concrete run on
  which their hypotheses hold.
\<close>

subsection \<open>What may happen next\<close>

inductive model_continues :: "resource_handler rstate \<Rightarrow> resource_handler rstate \<Rightarrow> bool" where
  stay: "model_continues st st"
| operation: "model_continues st st1 \<Longrightarrow> resource_step st1 op = (r, st') \<Longrightarrow> model_continues st st'"
| run: "model_continues st st1 \<Longrightarrow> run_sim resource_call st1 until max_events = Some (q, st') \<Longrightarrow> model_continues st st'"
| cancelled: "model_continues st st1 \<Longrightarrow> cancel (fst st1) i = (b, s) \<Longrightarrow> model_continues st (s, snd st1)"


lemma model_continues_reachable: "model_continues st st' \<Longrightarrow> model_reachable st \<Longrightarrow> model_reachable st'"
  by (induction rule: model_continues.induct) (auto intro: model_reachable.intros)

lemma model_continues_ops: "model_continues st (run_ops resource_step st ops)"
proof (induction ops rule: rev_induct)
  case (snoc op ops)
  then show ?case
    by (auto simp: run_ops_append intro: model_continues.operation [OF _ prod.collapse [symmetric]])
qed (simp add: model_continues.stay)

subsection \<open>A run to try the properties on\<close>

text \<open>
  Two workers and a link between them; two tasks for the first, which can run one at a time; a
  replica there, which is then transferred. \<open>demo_a\<close> is the model before anything has run,
  \<open>demo_b\<close> the one at time 0, with a transfer asked for, and \<open>demo_c\<close> the one when all is done.
\<close>

definition demo_sim :: "resource_handler sim" where
  "demo_sim = \<lparr>sim_seed = 0, sim_now = 0, sim_queue = [], sim_handlers = [], sim_cancelled = {}, sim_pending_ids = {},
     sim_known_ids = {}, sim_trace = [], sim_next_sequence = 0\<rparr>"

definition demo_run :: "pyval \<Rightarrow> resource_handler rstate \<Rightarrow> resource_handler rstate" where
  "demo_run until st =
     (case run_sim resource_call st until PNone of None \<Rightarrow> st | Some (_, st') \<Rightarrow> st')"

definition demo_a :: "resource_handler rstate" where
  "demo_a = run_ops resource_step (new_resource_model demo_sim)
     [AddWorker ''w1'' (PInt 1), AddWorker ''w2'' (PInt 2), AddLink ''l'' ''w1'' ''w2'' (PInt 0) (PInt 8),
      MaterializeReplica ''p'' ''s'' ''w1'' (PInt 16) (PInt 0), EnqueueTask ''w1'' ''t1'' (PInt 5),
      EnqueueTask ''w1'' ''t2'' (PInt 1)]"

definition demo_b :: "resource_handler rstate" where
  "demo_b = run_ops resource_step (demo_run (PInt 0) demo_a) [StartTransfer ''x'' ''p'' ''l'']"

definition demo_c :: "resource_handler rstate" where
  "demo_c = demo_run PNone demo_b"

lemma model_continues_run: "model_continues st st1 \<Longrightarrow> model_continues st (demo_run until st1)"
  by (auto simp: demo_run_def intro: model_continues.run split: option.splits)

lemma demo_reachable_models: "model_reachable demo_a" "model_reachable demo_b" "model_continues demo_b demo_c"
proof -
  have "new_simulator (PInt 0) = Inr demo_sim" by (simp add: new_simulator_def demo_sim_def)
  then have "model_reachable (new_resource_model demo_sim)" by (rule model_reachable.start)
  then show a: "model_reachable demo_a"
    unfolding demo_a_def by (rule model_continues_reachable [OF model_continues_ops])
  have "model_reachable (demo_run (PInt 0) demo_a)"
    using a model_continues_reachable model_continues_run model_continues.stay by blast
  then show "model_reachable demo_b"
    unfolding demo_b_def by (rule model_continues_reachable [OF model_continues_ops])
  show "model_continues demo_b demo_c"
    unfolding demo_c_def by (rule model_continues_run [OF model_continues.stay])
qed

lemma demo_b_facts:
  "map_option wk_capacity (map_of (rs_workers (snd demo_b)) ''w1'') = Some 1"
  "listing (rs_worker_active (snd demo_b)) ''w1'' = [''t1'']"
  "listing (rs_worker_queues (snd demo_b)) ''w1'' = [''t2'']"
  "map_option (tr_replica_id) (map_of (rs_transfers (snd demo_b)) ''x'') = Some ''p''"
  "map_option active_transfer (map_of (rs_transfers (snd demo_b)) ''x'') = Some True"
  "map_option rr_status (map_of (rs_replicas (snd demo_b)) ''p'') = Some ReplicaRuntimeStatus.AVAILABLE"
  by code_simp+


subsection \<open>The properties\<close>

text \<open>C26. Whatever has happened, a worker runs no more tasks than its capacity and none while it is
down; every task on its active list is \<open>RUNNING\<close> on that worker, every task on its queue is \<open>QUEUED\<close>
for it, and no task is on a list twice.\<close>

theorem workers_within_capacity:
  assumes "model_reachable st" and "map_of (rs_workers (snd st)) w = Some worker"
  shows "int (length (listing (rs_worker_active (snd st)) w)) \<le> wk_capacity worker \<and>
    (wk_status worker = DOWN \<longrightarrow> listing (rs_worker_active (snd st)) w = []) \<and>
    distinct (listing (rs_worker_active (snd st)) w @ listing (rs_worker_queues (snd st)) w) \<and>
    (\<forall>i\<in>set (listing (rs_worker_active (snd st)) w). \<exists>t. map_of (rs_tasks (snd st)) i = Some t \<and>
      task_status t = TaskStatus.RUNNING \<and> task_worker_id t = w) \<and>
    (\<forall>i\<in>set (listing (rs_worker_queues (snd st)) w). \<exists>t. map_of (rs_tasks (snd st)) i = Some t \<and>
      task_status t = TaskStatus.QUEUED \<and> task_worker_id t = w)"
proof (intro conjI)
  from model_reachable_ok [OF assms(1)] have ok: "workers_ok (snd st)"
    by (simp add: model_ok_def world_ok_def res_ok_def)
  with assms(2) have worker: "worker_ok (snd st) w worker" by (simp add: workers_ok_def)
  have active: "tasks_in (snd st) w TaskStatus.RUNNING (listing (rs_worker_active (snd st)) w)"
    and queue: "tasks_in (snd st) w TaskStatus.QUEUED (listing (rs_worker_queues (snd st)) w)"
    using ok by (simp_all add: workers_ok_def)
  show "int (length (listing (rs_worker_active (snd st)) w)) \<le> wk_capacity worker"
    and "wk_status worker = DOWN \<longrightarrow> listing (rs_worker_active (snd st)) w = []"
    using worker by (simp_all add: worker_ok_def)
  show "distinct (listing (rs_worker_active (snd st)) w @ listing (rs_worker_queues (snd st)) w)"
    using active queue by (fastforce simp: tasks_in_def)
  show "\<forall>i\<in>set (listing (rs_worker_active (snd st)) w). \<exists>t. map_of (rs_tasks (snd st)) i = Some t \<and>
      task_status t = TaskStatus.RUNNING \<and> task_worker_id t = w"
    and "\<forall>i\<in>set (listing (rs_worker_queues (snd st)) w). \<exists>t. map_of (rs_tasks (snd st)) i = Some t \<and>
      task_status t = TaskStatus.QUEUED \<and> task_worker_id t = w"
    using active queue by (simp_all add: tasks_in_def)
qed

lemma workers_within_capacity_witness:
  "\<exists>worker. map_of (rs_workers (snd demo_b)) ''w1'' = Some worker \<and> wk_capacity worker = 1 \<and>
     int (length (listing (rs_worker_active (snd demo_b)) ''w1'')) \<le> wk_capacity worker \<and>
     listing (rs_worker_active (snd demo_b)) ''w1'' = [''t1'']"
proof -
  obtain worker where "map_of (rs_workers (snd demo_b)) ''w1'' = Some worker" "wk_capacity worker = 1"
    using demo_b_facts(1) by (auto simp: map_option_eq_Some)
  then show ?thesis
    using workers_within_capacity [OF demo_reachable_models(2)] demo_b_facts(2) by blast
qed



text \<open>At any time a replica has at most one transfer that is scheduled or running, and such a
transfer is between two workers the model knows.\<close>

theorem one_active_transfer:
  assumes "model_reachable st"
    and "map_of (rs_transfers (snd st)) i = Some t" "active_transfer t"
    and "map_of (rs_transfers (snd st)) j = Some u" "active_transfer u"
    and "tr_replica_id t = tr_replica_id u"
  shows "i = j \<and> has_key (rs_workers (snd st)) (tr_source_id t) \<and> has_key (rs_workers (snd st)) (tr_destination_id t)"
proof
  from model_reachable_ok [OF assms(1)] have ok: "places_ok (snd st)"
    by (simp add: model_ok_def world_ok_def res_ok_def)
  then show "i = j" using assms(2-) unfolding places_ok_def one_transfer_def by blast
  have "transfer_ok (snd st) i t" using ok assms(2) by (simp add: places_ok_def)
  then show "has_key (rs_workers (snd st)) (tr_source_id t) \<and> has_key (rs_workers (snd st)) (tr_destination_id t)"
    by (simp add: transfer_ok_def known_worker_def)
qed





end
