(* ===== verification/Policies.thy ===== *)
theory Policies
  imports Sim_Resource_Inv
begin

section \<open>Placement policies under information contracts\<close>

text \<open>
  \<open>simulator/policies.py\<close>: what a policy may observe (its information contract), the projection of
  an observation to a policy's view, and the baseline policies B0 to B3. The annotated types of the
  dataclasses' fields are the types of the records; the checks of \<open>__post_init__\<close> on the values are
  in the \<open>new_...\<close> functions.
\<close>

subsection \<open>Contracts\<close>

datatype PolicyID = B0 | B1 | B2 | B3 | B4

datatype InformationField =
    PROGRAM_ID | LOGICAL_REQUEST_ID | ATTEMPT_ID | ATTEMPT_AUTHORITY | SESSION_ID
  | SESSION_PREFERRED_LOCATION | CONTINUATION_ID | CONTINUATION_ANCESTRY | STATE_CANDIDATE_KEY
  | EXACT_STATE_ID | STATE_LOCATION | STATE_PROVENANCE | STATE_LIFECYCLE | PRODUCER_ATTEMPT
  | BINDING_ID | BINDING_EPOCH | EVIDENCE_AUTHORITY | EVIDENCE_STATUS | EVIDENCE_FRESHNESS
  | RECONCILIATION | RESOURCE_LOAD

fun field_value :: "InformationField \<Rightarrow> string" where
  "field_value PROGRAM_ID = ''program_id''"
| "field_value LOGICAL_REQUEST_ID = ''logical_request_id''"
| "field_value ATTEMPT_ID = ''attempt_id''"
| "field_value ATTEMPT_AUTHORITY = ''attempt_authority''"
| "field_value SESSION_ID = ''session_id''"
| "field_value SESSION_PREFERRED_LOCATION = ''session_preferred_location''"
| "field_value CONTINUATION_ID = ''continuation_id''"
| "field_value CONTINUATION_ANCESTRY = ''continuation_ancestry''"
| "field_value STATE_CANDIDATE_KEY = ''state_candidate_key''"
| "field_value EXACT_STATE_ID = ''exact_state_id''"
| "field_value STATE_LOCATION = ''state_location''"
| "field_value STATE_PROVENANCE = ''state_provenance''"
| "field_value STATE_LIFECYCLE = ''state_lifecycle''"
| "field_value PRODUCER_ATTEMPT = ''producer_attempt''"
| "field_value BINDING_ID = ''binding_id''"
| "field_value BINDING_EPOCH = ''binding_epoch''"
| "field_value EVIDENCE_AUTHORITY = ''evidence_authority''"
| "field_value EVIDENCE_STATUS = ''evidence_status''"
| "field_value EVIDENCE_FRESHNESS = ''evidence_freshness''"
| "field_value RECONCILIATION = ''reconciliation''"
| "field_value RESOURCE_LOAD = ''resource_load''"

lemma field_value_inj [simp]: "field_value a = field_value b \<longleftrightarrow> a = b"
  by (cases a; cases b) simp_all

definition all_fields :: "InformationField list" where
  "all_fields =
     [PROGRAM_ID, LOGICAL_REQUEST_ID, ATTEMPT_ID, ATTEMPT_AUTHORITY, SESSION_ID,
      SESSION_PREFERRED_LOCATION, CONTINUATION_ID, CONTINUATION_ANCESTRY, STATE_CANDIDATE_KEY,
      EXACT_STATE_ID, STATE_LOCATION, STATE_PROVENANCE, STATE_LIFECYCLE, PRODUCER_ATTEMPT,
      BINDING_ID, BINDING_EPOCH, EVIDENCE_AUTHORITY, EVIDENCE_STATUS, EVIDENCE_FRESHNESS,
      RECONCILIATION, RESOURCE_LOAD]"

record InformationContract =
  ic_policy_id :: PolicyID
  ic_label :: string
  ic_fields :: "InformationField list"

definition new_InformationContract :: "PolicyID \<Rightarrow> string \<Rightarrow> InformationField list \<Rightarrow> InformationContract res" where
  "new_InformationContract p label fs =
     bind_res (raise_if (label = '''') ValueError) (\<lambda>_.
     bind_res (raise_if (LOGICAL_REQUEST_ID \<notin> set fs) ValueError) (\<lambda>_.
     Inr \<lparr>ic_policy_id = p, ic_label = label, ic_fields = frozenset fs\<rparr>))"

definition contract_allows :: "InformationContract \<Rightarrow> InformationField \<Rightarrow> bool" where
  "contract_allows c f \<longleftrightarrow> f \<in> set (ic_fields c)"

text \<open>The constants \<open>_B0_FIELDS\<close> to \<open>_B4_FIELDS\<close> and the table \<open>INFORMATION_CONTRACTS\<close>.\<close>

definition B0_FIELDS :: "InformationField list" where
  "B0_FIELDS = [LOGICAL_REQUEST_ID, RESOURCE_LOAD]"

definition B1_FIELDS :: "InformationField list" where
  "B1_FIELDS = B0_FIELDS @ [STATE_CANDIDATE_KEY, STATE_LOCATION]"

definition B2_FIELDS :: "InformationField list" where
  "B2_FIELDS = B1_FIELDS @ [SESSION_ID, SESSION_PREFERRED_LOCATION]"

definition B3_FIELDS :: "InformationField list" where
  "B3_FIELDS = B0_FIELDS @ [STATE_CANDIDATE_KEY, EXACT_STATE_ID, STATE_LOCATION]"

definition B4_FIELDS :: "InformationField list" where
  "B4_FIELDS = all_fields"

fun INFORMATION_CONTRACTS :: "PolicyID \<Rightarrow> InformationContract" where
  "INFORMATION_CONTRACTS B0 = \<lparr>ic_policy_id = B0, ic_label = ''request-centric'', ic_fields = B0_FIELDS\<rparr>"
| "INFORMATION_CONTRACTS B1 = \<lparr>ic_policy_id = B1, ic_label = ''cache-aware'', ic_fields = B1_FIELDS\<rparr>"
| "INFORMATION_CONTRACTS B2 = \<lparr>ic_policy_id = B2, ic_label = ''session-affinity'', ic_fields = B2_FIELDS\<rparr>"
| "INFORMATION_CONTRACTS B3 = \<lparr>ic_policy_id = B3, ic_label = ''state-aware'', ic_fields = B3_FIELDS\<rparr>"
| "INFORMATION_CONTRACTS B4 = \<lparr>ic_policy_id = B4, ic_label = ''continuity-aware'', ic_fields = B4_FIELDS\<rparr>"

definition contract_to_dict :: "InformationContract \<Rightarrow> PolicyID \<times> string \<times> string list" where
  "contract_to_dict c = (ic_policy_id c, ic_label c, sort (map field_value (ic_fields c)))"

subsection \<open>Observations\<close>

record WorkerObservation =
  wo_worker_id :: string
  wo_available :: bool
  wo_capacity :: int
  wo_active_tasks :: int
  wo_queued_tasks :: int

definition new_WorkerObservation :: "string \<Rightarrow> bool \<Rightarrow> int \<Rightarrow> int \<Rightarrow> int \<Rightarrow> WorkerObservation res" where
  "new_WorkerObservation w available capacity active queued =
     bind_res (raise_if (w = '''') ValueError) (\<lambda>_.
     bind_res (raise_if (capacity \<le> 0) ValueError) (\<lambda>_.
     bind_res (raise_if (active < 0) ValueError) (\<lambda>_.
     bind_res (raise_if (queued < 0) ValueError) (\<lambda>_.
     bind_res (raise_if (active > capacity) ValueError) (\<lambda>_.
     Inr \<lparr>wo_worker_id = w, wo_available = available, wo_capacity = capacity,
          wo_active_tasks = active, wo_queued_tasks = queued\<rparr>)))))"

definition normalized_load :: "WorkerObservation \<Rightarrow> rat" where
  "normalized_load w = of_int (wo_active_tasks w + wo_queued_tasks w) / of_int (wo_capacity w)"

record PolicyObservation =
  po_request_id :: string
  po_workers :: "WorkerObservation list"
  po_attempt_id :: "string option"
  po_attempt_authority :: "string option"
  po_session_id :: "string option"
  po_session_preferred_location :: "string option"
  po_continuation_id :: "string option"
  po_continuation_ancestry :: "string list"
  po_state_candidate_key :: "string option"
  po_exact_state_id :: "string option"
  po_state_locations :: "string list"
  po_state_provenance :: "(string \<times> string) list"
  po_producer_attempt_id :: "string option"
  po_binding_id :: "string option"
  po_binding_epoch :: "int option"
  po_evidence_authority :: "string option"
  po_evidence_status :: "string option"
  po_evidence_freshness :: "pyfloat option"
  po_program_id :: "string option"
  po_state_lifecycle :: "string option"
  po_reconciliation :: "string option"

definition require_optional_id :: "string option \<Rightarrow> unit res" where
  "require_optional_id v = raise_if (v = Some '''') ValueError"

definition require_id_tuple :: "string list \<Rightarrow> unit res" where
  "require_id_tuple vs = raise_if ('''' \<in> set vs) ValueError"

definition require_canonical_id_set_tuple :: "string list \<Rightarrow> unit res" where
  "require_canonical_id_set_tuple vs =
     bind_res (require_id_tuple vs) (\<lambda>_.
     raise_if (\<not> distinct vs \<or> vs \<noteq> sort vs) ValueError)"

definition require_canonical_pairs :: "(string \<times> string) list \<Rightarrow> unit res" where
  "require_canonical_pairs ps =
     bind_res (for_each ps (\<lambda>(k, v). bind_res (require_id k) (\<lambda>_. require_id v))) (\<lambda>_.
     raise_if (\<not> distinct (map fst ps) \<or> ps \<noteq> sort ps) ValueError)"

definition check_freshness :: "pyfloat option \<Rightarrow> unit res" where
  "check_freshness f =
     (case f of None \<Rightarrow> Inr ()
      | Some (Fin r) \<Rightarrow> raise_if (r < 0) ValueError
      | Some _ \<Rightarrow> Inl ValueError)"

definition check_observation :: "PolicyObservation \<Rightarrow> unit res" where
  "check_observation ob =
     bind_res (require_id (po_request_id ob)) (\<lambda>_.
     bind_res (raise_if (\<not> distinct (map wo_worker_id (po_workers ob))) ValueError) (\<lambda>_.
     bind_res (raise_if (sort (map wo_worker_id (po_workers ob)) \<noteq> map wo_worker_id (po_workers ob)) ValueError) (\<lambda>_.
     bind_res (for_each
        [po_attempt_id ob, po_attempt_authority ob, po_session_id ob, po_session_preferred_location ob,
         po_continuation_id ob, po_state_candidate_key ob, po_exact_state_id ob, po_producer_attempt_id ob,
         po_binding_id ob, po_evidence_authority ob, po_evidence_status ob, po_program_id ob,
         po_state_lifecycle ob, po_reconciliation ob] require_optional_id) (\<lambda>_.
     bind_res (require_canonical_id_set_tuple (po_continuation_ancestry ob)) (\<lambda>_.
     bind_res (require_canonical_id_set_tuple (po_state_locations ob)) (\<lambda>_.
     bind_res (require_canonical_pairs (po_state_provenance ob)) (\<lambda>_.
     bind_res (case po_binding_epoch ob of None \<Rightarrow> Inr () | Some e \<Rightarrow> raise_if (e < 0) ValueError) (\<lambda>_.
     check_freshness (po_evidence_freshness ob)))))))))"

definition observe_resources :: "resources \<Rightarrow> WorkerObservation list res" where
  "observe_resources r =
     map_res (\<lambda>w.
       bind_res (getitem (rs_workers r) w) (\<lambda>worker.
       bind_res (getitem (rs_worker_active r) w) (\<lambda>active.
       bind_res (getitem (rs_worker_queues r) w) (\<lambda>queue.
       new_WorkerObservation w (wk_status worker = UP) (wk_capacity worker)
         (int (length active)) (int (length queue))))))
       (sort (keys_of (rs_workers r)))"

subsection \<open>Views\<close>

text \<open>The values a view may hold.\<close>

datatype view_value =
    VNone
  | VStr string
  | VInt int
  | VFloat pyfloat
  | VStrs "string list"
  | VPairs "(string \<times> string) list"
  | VWorkers "WorkerObservation list"

definition VOptStr :: "string option \<Rightarrow> view_value" where
  "VOptStr s = (case s of None \<Rightarrow> VNone | Some t \<Rightarrow> VStr t)"

record PolicyView =
  pv_policy_id :: PolicyID
  pv_values :: "(InformationField \<times> view_value) list"

definition new_PolicyView :: "PolicyID \<Rightarrow> (InformationField \<times> view_value) list \<Rightarrow> PolicyView res" where
  "new_PolicyView p values =
     bind_res (raise_if (\<not> distinct (map fst values)) ValueError) (\<lambda>_.
     bind_res (raise_if (sort_key field_value (map fst values) \<noteq> map fst values) ValueError) (\<lambda>_.
     bind_res (raise_if (\<not> same_set (map fst values) (ic_fields (INFORMATION_CONTRACTS p))) ValueError) (\<lambda>_.
     Inr \<lparr>pv_policy_id = p, pv_values = values\<rparr>)))"

definition view_item :: "PolicyView \<Rightarrow> InformationField \<Rightarrow> view_value res" where
  "view_item view f =
     (if f \<notin> set (map fst (pv_values view)) then Inl PermissionError
      else case map_of (pv_values view) f of None \<Rightarrow> Inl AssertionError | Some v \<Rightarrow> Inr v)"

fun observed :: "PolicyObservation \<Rightarrow> InformationField \<Rightarrow> view_value" where
  "observed ob PROGRAM_ID = VOptStr (po_program_id ob)"
| "observed ob LOGICAL_REQUEST_ID = VStr (po_request_id ob)"
| "observed ob ATTEMPT_ID = VOptStr (po_attempt_id ob)"
| "observed ob ATTEMPT_AUTHORITY = VOptStr (po_attempt_authority ob)"
| "observed ob SESSION_ID = VOptStr (po_session_id ob)"
| "observed ob SESSION_PREFERRED_LOCATION = VOptStr (po_session_preferred_location ob)"
| "observed ob CONTINUATION_ID = VOptStr (po_continuation_id ob)"
| "observed ob CONTINUATION_ANCESTRY = VStrs (po_continuation_ancestry ob)"
| "observed ob STATE_CANDIDATE_KEY = VOptStr (po_state_candidate_key ob)"
| "observed ob EXACT_STATE_ID = VOptStr (po_exact_state_id ob)"
| "observed ob STATE_LOCATION = VStrs (po_state_locations ob)"
| "observed ob STATE_PROVENANCE = VPairs (po_state_provenance ob)"
| "observed ob STATE_LIFECYCLE = VOptStr (po_state_lifecycle ob)"
| "observed ob PRODUCER_ATTEMPT = VOptStr (po_producer_attempt_id ob)"
| "observed ob BINDING_ID = VOptStr (po_binding_id ob)"
| "observed ob BINDING_EPOCH = (case po_binding_epoch ob of None \<Rightarrow> VNone | Some e \<Rightarrow> VInt e)"
| "observed ob EVIDENCE_AUTHORITY = VOptStr (po_evidence_authority ob)"
| "observed ob EVIDENCE_STATUS = VOptStr (po_evidence_status ob)"
| "observed ob EVIDENCE_FRESHNESS = (case po_evidence_freshness ob of None \<Rightarrow> VNone | Some x \<Rightarrow> VFloat x)"
| "observed ob RECONCILIATION = VOptStr (po_reconciliation ob)"
| "observed ob RESOURCE_LOAD = VWorkers (po_workers ob)"

definition project_observation :: "PolicyObservation \<Rightarrow> PolicyID \<Rightarrow> PolicyView res" where
  "project_observation ob p =
     new_PolicyView p (map (\<lambda>f. (f, observed ob f)) (sort_key field_value (ic_fields (INFORMATION_CONTRACTS p))))"

subsection \<open>Decisions\<close>

record PlacementDecision =
  pd_policy_id :: PolicyID
  pd_worker_id :: "string option"
  pd_ranked_worker_ids :: "string list"
  pd_reason :: string

definition new_PlacementDecision ::
    "PolicyID \<Rightarrow> string option \<Rightarrow> string list \<Rightarrow> string \<Rightarrow> PlacementDecision res" where
  "new_PlacementDecision p w ranked reason =
     bind_res (require_optional_id w) (\<lambda>_.
     bind_res (require_id_tuple ranked) (\<lambda>_.
     bind_res (require_id reason) (\<lambda>_.
     bind_res (raise_if (w = None \<and> ranked \<noteq> []) ValueError) (\<lambda>_.
     bind_res (raise_if (w \<noteq> None \<and> (case ranked of [] \<Rightarrow> True | r # _ \<Rightarrow> Some r \<noteq> w)) ValueError) (\<lambda>_.
     Inr \<lparr>pd_policy_id = p, pd_worker_id = w, pd_ranked_worker_ids = ranked, pd_reason = reason\<rparr>)))))"

definition require_policy_view :: "PolicyView \<Rightarrow> PolicyID \<Rightarrow> unit res" where
  "require_policy_view view p = raise_if (pv_policy_id view \<noteq> p) ValueError"

definition workers_from_view :: "PolicyView \<Rightarrow> WorkerObservation list res" where
  "workers_from_view view =
     bind_res (view_item view RESOURCE_LOAD) (\<lambda>v. case v of VWorkers ws \<Rightarrow> Inr ws | _ \<Rightarrow> Inl TypeError)"

definition available_workers :: "WorkerObservation list \<Rightarrow> WorkerObservation list" where
  "available_workers ws = filter wo_available ws"

definition state_locations_from_view :: "PolicyView \<Rightarrow> string list res" where
  "state_locations_from_view view =
     bind_res (view_item view STATE_LOCATION) (\<lambda>v. case v of
       VStrs ls \<Rightarrow> if '''' \<in> set ls then Inl TypeError else Inr ls
     | _ \<Rightarrow> Inl TypeError)"

text \<open>An item that must be a string or \<open>None\<close>.\<close>

definition opt_str_item :: "PolicyView \<Rightarrow> InformationField \<Rightarrow> string option res" where
  "opt_str_item view f =
     bind_res (view_item view f) (\<lambda>v. case v of VNone \<Rightarrow> Inr None | VStr s \<Rightarrow> Inr (Some s) | _ \<Rightarrow> Inl TypeError)"

definition candidate_local_ids :: "PolicyView \<Rightarrow> string list res" where
  "candidate_local_ids view =
     bind_res (opt_str_item view STATE_CANDIDATE_KEY) (\<lambda>key.
     bind_res (state_locations_from_view view) (\<lambda>ls.
     Inr (if key \<noteq> None then ls else [])))"

definition worker_load_key :: "WorkerObservation \<Rightarrow> rat \<times> int \<times> int \<times> string" where
  "worker_load_key w = (normalized_load w, wo_queued_tasks w, wo_active_tasks w, wo_worker_id w)"

definition locality_load_key :: "string list \<Rightarrow> WorkerObservation \<Rightarrow> int \<times> rat \<times> int \<times> int \<times> string" where
  "locality_load_key local w = (if wo_worker_id w \<in> set local then 0 else 1, worker_load_key w)"

definition rank_worker_ids_by_load :: "WorkerObservation list \<Rightarrow> string list" where
  "rank_worker_ids_by_load ws = map wo_worker_id (sort_key worker_load_key ws)"

definition rank_workers_cache_aware ::
    "PolicyView \<Rightarrow> WorkerObservation list \<Rightarrow> (WorkerObservation list \<times> bool) res" where
  "rank_workers_cache_aware view available =
     bind_res (candidate_local_ids view) (\<lambda>local.
     if \<not> list_ex (\<lambda>w. wo_worker_id w \<in> set local) available
     then Inr (sort_key worker_load_key available, False)
     else Inr (sort_key (locality_load_key local) available, True))"

text \<open>The decision for a ranking that is not empty: its first worker is selected.\<close>

definition ranked_decision :: "PolicyID \<Rightarrow> string list \<Rightarrow> string \<Rightarrow> PlacementDecision res" where
  "ranked_decision p ranked reason = new_PlacementDecision p (Some (hd ranked)) ranked reason"

definition decide_B0 :: "PolicyView \<Rightarrow> PlacementDecision res" where
  "decide_B0 view =
     bind_res (require_policy_view view B0) (\<lambda>_.
     bind_res (workers_from_view view) (\<lambda>ws.
     let available = available_workers ws in
     if available = [] then new_PlacementDecision B0 None [] ''NO_AVAILABLE_WORKER''
     else ranked_decision B0 (rank_worker_ids_by_load available) ''LEAST_NORMALIZED_LOAD''))"

definition decide_B1 :: "PolicyView \<Rightarrow> PlacementDecision res" where
  "decide_B1 view =
     bind_res (require_policy_view view B1) (\<lambda>_.
     bind_res (workers_from_view view) (\<lambda>ws.
     let available = available_workers ws in
     if available = [] then new_PlacementDecision B1 None [] ''NO_AVAILABLE_WORKER''
     else
       bind_res (rank_workers_cache_aware view available) (\<lambda>(ranked, locality_used).
       ranked_decision B1 (map wo_worker_id ranked)
         (if locality_used then ''CACHE_LOCALITY_THEN_LOAD'' else ''CACHE_AWARE_LOAD_FALLBACK''))))"

definition decide_B2 :: "PolicyView \<Rightarrow> PlacementDecision res" where
  "decide_B2 view =
     bind_res (require_policy_view view B2) (\<lambda>_.
     bind_res (workers_from_view view) (\<lambda>ws.
     let available = available_workers ws in
     if available = [] then new_PlacementDecision B2 None [] ''NO_AVAILABLE_WORKER''
     else
       bind_res (rank_workers_cache_aware view available) (\<lambda>(b1_ranked, _).
       bind_res (view_item view SESSION_ID) (\<lambda>sv.
       bind_res (view_item view SESSION_PREFERRED_LOCATION) (\<lambda>pv.
       bind_res (case sv of VNone \<Rightarrow> Inr None | VStr s \<Rightarrow> Inr (Some s) | _ \<Rightarrow> Inl TypeError) (\<lambda>session.
       bind_res (case pv of VNone \<Rightarrow> Inr None | VStr s \<Rightarrow> Inr (Some s) | _ \<Rightarrow> Inl TypeError) (\<lambda>preferred.
       case (session, preferred) of
         (Some _, Some w) \<Rightarrow>
           (case find (\<lambda>x. wo_worker_id x = w) available of
              Some best \<Rightarrow>
                ranked_decision B2 (map wo_worker_id (best # filter (\<lambda>x. wo_worker_id x \<noteq> w) b1_ranked))
                  ''SESSION_AFFINITY_THEN_CACHE_LOAD''
            | None \<Rightarrow> ranked_decision B2 (map wo_worker_id b1_ranked) ''SESSION_AFFINITY_B1_FALLBACK'')
       | _ \<Rightarrow> ranked_decision B2 (map wo_worker_id b1_ranked) ''SESSION_AFFINITY_B1_FALLBACK'')))))))"

definition decide_B3 :: "PolicyView \<Rightarrow> PlacementDecision res" where
  "decide_B3 view =
     bind_res (require_policy_view view B3) (\<lambda>_.
     bind_res (workers_from_view view) (\<lambda>ws.
     let available = available_workers ws in
     if available = [] then new_PlacementDecision B3 None [] ''NO_AVAILABLE_WORKER''
     else
       bind_res (opt_str_item view EXACT_STATE_ID) (\<lambda>exact.
       bind_res (state_locations_from_view view) (\<lambda>locations.
       let local = (if exact \<noteq> None then locations else []) in
       if list_ex (\<lambda>w. wo_worker_id w \<in> set local) available
       then ranked_decision B3 (map wo_worker_id (sort_key (locality_load_key local) available))
              ''EXACT_STATE_LOCALITY_THEN_LOAD''
       else
         bind_res (rank_workers_cache_aware view available) (\<lambda>(b1_ranked, locality_used).
         ranked_decision B3 (map wo_worker_id b1_ranked)
           (if locality_used then ''STATE_AWARE_CANDIDATE_FALLBACK'' else ''STATE_AWARE_LOAD_FALLBACK''))))))"

text \<open>A policy is its identifier and its \<open>decide\<close>.\<close>

type_synonym placement_policy = "PolicyID \<times> (PolicyView \<Rightarrow> PlacementDecision res)"

definition decide_placement :: "placement_policy \<Rightarrow> PolicyObservation \<Rightarrow> PlacementDecision res" where
  "decide_placement policy ob =
     bind_res (project_observation ob (fst policy)) (\<lambda>view.
     bind_res (snd policy view) (\<lambda>decision.
     if pd_policy_id decision \<noteq> fst policy then Inl ValueError else Inr decision))"

text \<open>The baselines, by the names of their classes.\<close>

definition RequestCentricPolicy :: placement_policy where "RequestCentricPolicy = (B0, decide_B0)"
definition CacheAwarePolicy :: placement_policy where "CacheAwarePolicy = (B1, decide_B1)"
definition SessionAffinityPolicy :: placement_policy where "SessionAffinityPolicy = (B2, decide_B2)"
definition StateAwarePolicy :: placement_policy where "StateAwarePolicy = (B3, decide_B3)"

subsection \<open>Projection\<close>

text \<open>An observation that exists: it and the worker observations in it passed their checks.\<close>

definition valid_worker :: "WorkerObservation \<Rightarrow> bool" where
  "valid_worker w \<longleftrightarrow>
     new_WorkerObservation (wo_worker_id w) (wo_available w) (wo_capacity w) (wo_active_tasks w) (wo_queued_tasks w) = Inr w"

definition valid_observation :: "PolicyObservation \<Rightarrow> bool" where
  "valid_observation ob \<longleftrightarrow> check_observation ob = Inr () \<and> list_all valid_worker (po_workers ob)"

lemma valid_worker_iff:
  "valid_worker w \<longleftrightarrow>
     wo_worker_id w \<noteq> '''' \<and> 0 < wo_capacity w \<and> 0 \<le> wo_active_tasks w \<and> 0 \<le> wo_queued_tasks w \<and>
     wo_active_tasks w \<le> wo_capacity w"
  by (auto simp: valid_worker_def new_WorkerObservation_def bind_res_Inr)

lemma contract_fields_distinct: "distinct (ic_fields (INFORMATION_CONTRACTS p))"
  by (cases p) (simp_all add: B0_FIELDS_def B1_FIELDS_def B2_FIELDS_def B3_FIELDS_def B4_FIELDS_def all_fields_def)

lemma project_observation_Inr:
  "project_observation ob p = Inr \<lparr>pv_policy_id = p,
     pv_values = map (\<lambda>f. (f, observed ob f)) (sort_key field_value (ic_fields (INFORMATION_CONTRACTS p)))\<rparr>"
  by (simp add: project_observation_def new_PolicyView_def raise_if_def same_set_iff comp_def
      contract_fields_distinct sorted_sort_id sort_key_id_if_sorted)

lemma view_item_project:
  assumes "project_observation ob p = Inr view"
  shows "view_item view f =
    (if contract_allows (INFORMATION_CONTRACTS p) f then Inr (observed ob f) else Inl PermissionError)"
proof -
  have "view = \<lparr>pv_policy_id = p,
     pv_values = map (\<lambda>f. (f, observed ob f)) (sort_key field_value (ic_fields (INFORMATION_CONTRACTS p)))\<rparr>"
    using assms unfolding project_observation_Inr by simp
  then show ?thesis
    by (auto simp: view_item_def comp_def contract_allows_def map_of_map_restrict restrict_map_def)
qed

lemma project_policy: "project_observation ob p = Inr view \<Longrightarrow> pv_policy_id view = p"
  unfolding project_observation_Inr by auto

lemma opt_str_item_VOptStr [simp]:
  "(case VOptStr s of VNone \<Rightarrow> Inr None | VStr t \<Rightarrow> Inr (Some t) | _ \<Rightarrow> Inl TypeError) = Inr s"
  by (cases s) (simp_all add: VOptStr_def)

lemmas contract_simps =
  contract_allows_def B0_FIELDS_def B1_FIELDS_def B2_FIELDS_def B3_FIELDS_def B4_FIELDS_def all_fields_def

lemma check_observation_facts:
  assumes "check_observation ob = Inr ()"
  shows "'''' \<notin> set (po_state_locations ob)" and "distinct (map wo_worker_id (po_workers ob))"
    and "po_request_id ob \<noteq> ''''"
  using assms by (auto simp: check_observation_def bind_res_Inr require_canonical_id_set_tuple_def require_id_tuple_def)

subsection \<open>What a placement decision is\<close>

text \<open>
  The ranking lists exactly the available workers, its first worker is selected, and nothing is
  selected only if no worker is available.
\<close>

definition places :: "PolicyID \<Rightarrow> WorkerObservation list \<Rightarrow> PlacementDecision \<Rightarrow> bool" where
  "places p available d \<longleftrightarrow>
     pd_policy_id d = p \<and> mset (pd_ranked_worker_ids d) = mset (map wo_worker_id available) \<and>
     pd_worker_id d = (case pd_ranked_worker_ids d of [] \<Rightarrow> None | w # _ \<Rightarrow> Some w)"

lemma new_PlacementDecision_None:
  "reason \<noteq> '''' \<Longrightarrow> new_PlacementDecision p None [] reason =
     Inr \<lparr>pd_policy_id = p, pd_worker_id = None, pd_ranked_worker_ids = [], pd_reason = reason\<rparr>"
  by (simp add: new_PlacementDecision_def require_optional_id_def require_id_tuple_def require_id_def raise_if_def)

lemma ranked_decision_Inr:
  assumes "ranked \<noteq> []" and "'''' \<notin> set ranked" and "reason \<noteq> ''''"
  shows "ranked_decision p ranked reason =
    Inr \<lparr>pd_policy_id = p, pd_worker_id = Some (hd ranked), pd_ranked_worker_ids = ranked, pd_reason = reason\<rparr>"
  using assms
  by (cases ranked) (auto simp: ranked_decision_def new_PlacementDecision_def require_optional_id_def
      require_id_tuple_def require_id_def raise_if_def)

lemma ranked_decision_places:
  assumes "mset ranked = mset (map wo_worker_id available)" and "available \<noteq> []"
    and "list_all valid_worker available" and "reason \<noteq> ''''"
  shows "\<exists>d. ranked_decision p ranked reason = Inr d \<and> places p available d \<and>
    pd_ranked_worker_ids d = ranked \<and> pd_reason d = reason"
proof -
  have "'''' \<notin> set (map wo_worker_id available)" using assms(3) by (auto simp: list_all_iff valid_worker_iff)
  then have "'''' \<notin> set ranked" using assms(1) by (metis set_mset_mset)
  moreover have "ranked \<noteq> []" using assms(1,2) by auto
  ultimately show ?thesis using assms(1,4)
    by (auto simp: ranked_decision_Inr places_def split: list.splits)
qed

text \<open>The workers of an observation, as the policies see them.\<close>

lemma workers_from_project:
  assumes "project_observation ob p = Inr view"
  shows "workers_from_view view = Inr (po_workers ob)"
proof -
  have "contract_allows (INFORMATION_CONTRACTS p) RESOURCE_LOAD" by (cases p) (simp_all add: contract_simps)
  with view_item_project [OF assms, of RESOURCE_LOAD] show ?thesis by (simp add: workers_from_view_def)
qed

lemma locations_from_project:
  assumes "project_observation ob p = Inr view" and "p \<noteq> B0" and "check_observation ob = Inr ()"
  shows "state_locations_from_view view = Inr (po_state_locations ob)"
proof -
  have "contract_allows (INFORMATION_CONTRACTS p) STATE_LOCATION" using assms(2) by (cases p) (simp_all add: contract_simps)
  with view_item_project [OF assms(1), of STATE_LOCATION] check_observation_facts(1) [OF assms(3)]
  show ?thesis by (simp add: state_locations_from_view_def)
qed

definition candidate_locations :: "PolicyObservation \<Rightarrow> string list" where
  "candidate_locations ob = (if po_state_candidate_key ob \<noteq> None then po_state_locations ob else [])"

definition exact_locations :: "PolicyObservation \<Rightarrow> string list" where
  "exact_locations ob = (if po_exact_state_id ob \<noteq> None then po_state_locations ob else [])"

lemma candidate_from_project:
  assumes "project_observation ob p = Inr view" and "p \<noteq> B0" and "check_observation ob = Inr ()"
  shows "candidate_local_ids view = Inr (candidate_locations ob)"
proof -
  have "contract_allows (INFORMATION_CONTRACTS p) STATE_CANDIDATE_KEY" using assms(2) by (cases p) (simp_all add: contract_simps)
  with view_item_project [OF assms(1), of STATE_CANDIDATE_KEY]
  have "opt_str_item view STATE_CANDIDATE_KEY = Inr (po_state_candidate_key ob)" by (simp add: opt_str_item_def)
  with locations_from_project [OF assms] show ?thesis
    by (simp add: candidate_local_ids_def candidate_locations_def)
qed

text \<open>With no local worker the two rankings agree, so one order describes them both.\<close>

lemma sort_locality_none:
  assumes "\<not> list_ex (\<lambda>w. wo_worker_id w \<in> set local) ws"
  shows "sort_key worker_load_key ws = sort_key (locality_load_key local) ws"
proof (rule sym, rule properties_for_sort_key)
  let ?s = "sort_key worker_load_key ws"
  show "mset ?s = mset ws" by simp
  have k: "locality_load_key local w = (1, worker_load_key w)" if "w \<in> set ws" for w
    using assms that by (auto simp: locality_load_key_def list_ex_iff)
  show "filter (\<lambda>x. locality_load_key local w = locality_load_key local x) ?s =
      filter (\<lambda>x. locality_load_key local w = locality_load_key local x) ws" if "w \<in> set ?s" for w
  proof -
    have "filter (\<lambda>x. locality_load_key local w = locality_load_key local x) ?s = filter (\<lambda>x. worker_load_key x = worker_load_key w) ?s"
      using that k by (intro filter_cong) auto
    also have "\<dots> = filter (\<lambda>x. worker_load_key x = worker_load_key w) ws" by (rule sort_key_stable)
    also have "\<dots> = filter (\<lambda>x. locality_load_key local w = locality_load_key local x) ws"
      using that k by (intro filter_cong) auto
    finally show ?thesis .
  qed
  have "map (locality_load_key local) ?s = map (\<lambda>w. (1, worker_load_key w)) ?s" using k by (intro map_cong) auto
  moreover have "sorted (map (\<lambda>w. (1 :: int, worker_load_key w)) ?s)"
  proof -
    have "sorted (map worker_load_key ?s)" by simp
    then show ?thesis by (simp add: sorted_iff_nth_mono)
  qed
  ultimately show "sorted (map (locality_load_key local) ?s)" by (simp only:)
qed

lemma rank_cache_aware:
  assumes "project_observation ob p = Inr view" and "p \<noteq> B0" and "check_observation ob = Inr ()"
  shows "rank_workers_cache_aware view ws = Inr (sort_key (locality_load_key (candidate_locations ob)) ws,
    list_ex (\<lambda>w. wo_worker_id w \<in> set (candidate_locations ob)) ws)"
  using candidate_from_project [OF assms] sort_locality_none [of "candidate_locations ob" ws]
  by (simp add: rank_workers_cache_aware_def)

subsection \<open>The baselines\<close>

text \<open>The order by which a baseline ranks the available workers.\<close>

definition ranking_B1 :: "PolicyObservation \<Rightarrow> WorkerObservation list \<Rightarrow> WorkerObservation list" where
  "ranking_B1 ob ws = sort_key (locality_load_key (candidate_locations ob)) ws"

definition ranking_B2 :: "PolicyObservation \<Rightarrow> WorkerObservation list \<Rightarrow> WorkerObservation list" where
  "ranking_B2 ob ws =
     (case (po_session_id ob, po_session_preferred_location ob) of
        (Some _, Some w) \<Rightarrow>
          filter (\<lambda>x. wo_worker_id x = w) ws @ filter (\<lambda>x. wo_worker_id x \<noteq> w) (ranking_B1 ob ws)
      | _ \<Rightarrow> ranking_B1 ob ws)"

definition ranking_B3 :: "PolicyObservation \<Rightarrow> WorkerObservation list \<Rightarrow> WorkerObservation list" where
  "ranking_B3 ob ws =
     (if list_ex (\<lambda>w. wo_worker_id w \<in> set (exact_locations ob)) ws
      then sort_key (locality_load_key (exact_locations ob)) ws else ranking_B1 ob ws)"

definition ranking :: "PolicyID \<Rightarrow> PolicyObservation \<Rightarrow> WorkerObservation list \<Rightarrow> WorkerObservation list" where
  "ranking p ob ws =
     (case p of B0 \<Rightarrow> sort_key worker_load_key ws | B1 \<Rightarrow> ranking_B1 ob ws | B2 \<Rightarrow> ranking_B2 ob ws | _ \<Rightarrow> ranking_B3 ob ws)"

definition baseline :: "PolicyID \<Rightarrow> placement_policy" where
  "baseline p =
     (case p of B0 \<Rightarrow> RequestCentricPolicy | B1 \<Rightarrow> CacheAwarePolicy | B2 \<Rightarrow> SessionAffinityPolicy
      | _ \<Rightarrow> StateAwarePolicy)"

lemma find_filter_distinct:
  assumes "distinct (map f ws)"
  shows "filter (\<lambda>x. f x = w) ws = (case find (\<lambda>x. f x = w) ws of None \<Rightarrow> [] | Some x \<Rightarrow> [x])"
  using assms
proof (induction ws)
  case (Cons a ws)
  show ?case
  proof (cases "f a = w")
    case True
    with Cons.prems have "filter (\<lambda>x. f x = w) ws = []" by (auto simp: filter_empty_conv) (metis imageI)
    with True show ?thesis by simp
  qed (use Cons in simp)
qed simp

lemma mset_ranking: "mset (ranking p ob ws) = mset ws"
  by (auto simp: ranking_def ranking_B1_def ranking_B2_def ranking_B3_def split: PolicyID.splits option.splits
      simp flip: mset_filter intro!: multiset_eqI)
     (simp_all add: multiset_partition [symmetric])

lemma available_facts:
  assumes "valid_observation ob"
  shows "list_all valid_worker (available_workers (po_workers ob))"
    and "distinct (map wo_worker_id (available_workers (po_workers ob)))"
    and "check_observation ob = Inr ()"
  using assms check_observation_facts(2) [of ob]
  by (auto simp: valid_observation_def available_workers_def list_all_iff distinct_map_filter)

lemma view_item_contract:
  "project_observation ob p = Inr view \<Longrightarrow> f \<in> set (ic_fields (INFORMATION_CONTRACTS p)) \<Longrightarrow>
   view_item view f = Inr (observed ob f)"
  by (simp add: view_item_project contract_allows_def)

definition none_available :: "PolicyID \<Rightarrow> PlacementDecision" where
  "none_available p = \<lparr>pd_policy_id = p, pd_worker_id = None, pd_ranked_worker_ids = [],
     pd_reason = ''NO_AVAILABLE_WORKER''\<rparr>"

lemma none_available_Inr: "new_PlacementDecision p None [] ''NO_AVAILABLE_WORKER'' = Inr (none_available p)"
  by (simp add: new_PlacementDecision_None none_available_def)

definition ranking_reason :: "PolicyID \<Rightarrow> PolicyObservation \<Rightarrow> WorkerObservation list \<Rightarrow> string" where
  "ranking_reason p ob ws =
     (case p of
        B0 \<Rightarrow> ''LEAST_NORMALIZED_LOAD''
      | B1 \<Rightarrow> if list_ex (\<lambda>w. wo_worker_id w \<in> set (candidate_locations ob)) ws
              then ''CACHE_LOCALITY_THEN_LOAD'' else ''CACHE_AWARE_LOAD_FALLBACK''
      | B2 \<Rightarrow> if po_session_id ob \<noteq> None \<and> list_ex (\<lambda>x. Some (wo_worker_id x) = po_session_preferred_location ob) ws
              then ''SESSION_AFFINITY_THEN_CACHE_LOAD'' else ''SESSION_AFFINITY_B1_FALLBACK''
      | _ \<Rightarrow> if list_ex (\<lambda>w. wo_worker_id w \<in> set (exact_locations ob)) ws then ''EXACT_STATE_LOCALITY_THEN_LOAD''
             else if list_ex (\<lambda>w. wo_worker_id w \<in> set (candidate_locations ob)) ws
             then ''STATE_AWARE_CANDIDATE_FALLBACK'' else ''STATE_AWARE_LOAD_FALLBACK'')"

lemma B2_ranking_cases:
  assumes "distinct (map wo_worker_id ws)" and "po_session_preferred_location ob = Some w" and "po_session_id ob \<noteq> None"
  shows "find (\<lambda>x. wo_worker_id x = w) ws = Some best \<Longrightarrow>
      ranking_B2 ob ws = best # filter (\<lambda>x. wo_worker_id x \<noteq> w) (ranking_B1 ob ws) \<and>
      list_ex (\<lambda>x. Some (wo_worker_id x) = po_session_preferred_location ob) ws"
    and "find (\<lambda>x. wo_worker_id x = w) ws = None \<Longrightarrow> ranking_B2 ob ws = ranking_B1 ob ws \<and>
      \<not> list_ex (\<lambda>x. Some (wo_worker_id x) = po_session_preferred_location ob) ws"
proof -
  note f = find_filter_distinct [OF assms(1), of w]
  show "ranking_B2 ob ws = best # filter (\<lambda>x. wo_worker_id x \<noteq> w) (ranking_B1 ob ws) \<and>
      list_ex (\<lambda>x. Some (wo_worker_id x) = po_session_preferred_location ob) ws"
    if "find (\<lambda>x. wo_worker_id x = w) ws = Some best"
  proof -
    from that have "best \<in> set ws" "wo_worker_id best = w" by (auto simp: find_Some_iff)
    with that f assms(2,3) show ?thesis by (auto simp: ranking_B2_def list_ex_iff)
  qed
  show "ranking_B2 ob ws = ranking_B1 ob ws \<and>
      \<not> list_ex (\<lambda>x. Some (wo_worker_id x) = po_session_preferred_location ob) ws"
    if "find (\<lambda>x. wo_worker_id x = w) ws = None"
  proof -
    from that have none: "\<forall>x\<in>set ws. wo_worker_id x \<noteq> w" by (auto simp: find_None_iff)
    then have "filter (\<lambda>x. wo_worker_id x \<noteq> w) (ranking_B1 ob ws) = ranking_B1 ob ws"
      by (intro filter_True) (simp add: ranking_B1_def)
    with that f none assms(2,3) show ?thesis by (auto simp: ranking_B2_def list_ex_iff)
  qed
qed

lemma decide_baseline:
  assumes view: "project_observation ob p = Inr view" and ob: "valid_observation ob" and p: "p \<noteq> B4"
  defines "ws \<equiv> available_workers (po_workers ob)"
  shows "snd (baseline p) view =
    (if ws = [] then Inr (none_available p)
     else ranked_decision p (map wo_worker_id (ranking p ob ws)) (ranking_reason p ob ws))"
proof -
  note facts = available_facts [OF ob, folded ws_def]
  have pv: "require_policy_view view p = Inr ()" using project_policy [OF view] by (simp add: require_policy_view_def)
  note base = workers_from_project [OF view] pv
  show ?thesis
  proof (cases p)
    case B0
    with base show ?thesis
      by (simp add: baseline_def RequestCentricPolicy_def decide_B0_def Let_def ws_def none_available_Inr ranking_def
          rank_worker_ids_by_load_def ranking_reason_def)
  next
    case B1
    with base rank_cache_aware [OF view _ facts(3)] show ?thesis
      by (simp add: baseline_def CacheAwarePolicy_def decide_B1_def Let_def ws_def none_available_Inr ranking_def
          ranking_B1_def ranking_reason_def)
  next
    case B2
    have items: "view_item view SESSION_ID = Inr (VOptStr (po_session_id ob))"
      "view_item view SESSION_PREFERRED_LOCATION = Inr (VOptStr (po_session_preferred_location ob))"
      using view_item_contract [OF view] B2 by (simp_all add: contract_simps)
    show ?thesis
    proof (cases "po_session_id ob = None \<or> po_session_preferred_location ob = None")
      case True
      with base items B2 rank_cache_aware [OF view _ facts(3)] show ?thesis
        by (auto simp: baseline_def SessionAffinityPolicy_def decide_B2_def Let_def ws_def none_available_Inr ranking_def
            ranking_B2_def ranking_B1_def ranking_reason_def list_ex_iff split: option.splits)
    next
      case False
      then obtain s w where sw: "po_session_id ob = Some s" "po_session_preferred_location ob = Some w" by auto
      note cases = B2_ranking_cases [OF facts(2) sw(2)]
      show ?thesis
        using base items B2 rank_cache_aware [OF view _ facts(3)] sw cases
        by (cases "find (\<lambda>x. wo_worker_id x = w) ws")
           (simp_all add: baseline_def SessionAffinityPolicy_def decide_B2_def Let_def ws_def none_available_Inr ranking_def
            ranking_B1_def ranking_reason_def)
    qed
  next
    case B3
    have item: "opt_str_item view EXACT_STATE_ID = Inr (po_exact_state_id ob)"
      using view_item_contract [OF view, of EXACT_STATE_ID] B3 by (simp add: contract_simps opt_str_item_def)
    from B3 base item locations_from_project [OF view _ facts(3)] rank_cache_aware [OF view _ facts(3)]
    show ?thesis
      by (simp add: baseline_def StateAwarePolicy_def decide_B3_def Let_def ws_def none_available_Inr ranking_def
          ranking_B3_def ranking_B1_def ranking_reason_def exact_locations_def)
  qed (use p in simp)
qed

lemma ranking_reason_nonempty: "ranking_reason p ob ws \<noteq> ''''"
  by (simp add: ranking_reason_def split: PolicyID.splits)

lemma baseline_policy: "p \<noteq> B4 \<Longrightarrow> fst (baseline p) = p"
  by (cases p) (simp_all add: baseline_def RequestCentricPolicy_def CacheAwarePolicy_def SessionAffinityPolicy_def StateAwarePolicy_def)

lemma decide_baseline_places:
  assumes "valid_observation ob" and "p \<noteq> B4"
  defines "ws \<equiv> available_workers (po_workers ob)"
  shows "\<exists>d. decide_placement (baseline p) ob = Inr d \<and> places p ws d \<and>
    pd_ranked_worker_ids d = map wo_worker_id (ranking p ob ws)"
proof -
  obtain view where view: "project_observation ob p = Inr view" using project_observation_Inr by blast
  note d = decide_baseline [OF view assms(1,2), folded ws_def]
  show ?thesis
  proof (cases "ws = []")
    case True
    then have "ranking p ob ws = []" using mset_ranking [of p ob ws] by simp
    with True d view baseline_policy [OF assms(2)] show ?thesis
      by (simp add: decide_placement_def none_available_def places_def)
  next
    case False
    have "mset (map wo_worker_id (ranking p ob ws)) = mset (map wo_worker_id ws)" by (simp add: mset_ranking)
    from ranked_decision_places [OF this False _ ranking_reason_nonempty] available_facts(1) [OF assms(1)]
    obtain x where "ranked_decision p (map wo_worker_id (ranking p ob ws)) (ranking_reason p ob ws) = Inr x \<and> places p ws x \<and>
        pd_ranked_worker_ids x = map wo_worker_id (ranking p ob ws)" unfolding ws_def by blast
    moreover from this have "pd_policy_id x = p" by (simp add: places_def)
    ultimately show ?thesis using d view baseline_policy [OF assms(2)] False by (simp add: decide_placement_def)
  qed
qed

text \<open>Observing the resources of a model in order gives a valid observation of each worker.\<close>

definition observes_worker :: "resources \<Rightarrow> WorkerObservation \<Rightarrow> bool" where
  "observes_worker r w \<longleftrightarrow>
     (\<exists>worker. map_of (rs_workers r) (wo_worker_id w) = Some worker \<and>
        wo_capacity w = wk_capacity worker \<and> wo_available w = (wk_status worker = UP) \<and>
        wo_active_tasks w = int (length (listing (rs_worker_active r) (wo_worker_id w))) \<and>
        wo_queued_tasks w = int (length (listing (rs_worker_queues r) (wo_worker_id w))))"

lemma observe_resources_ok:
  assumes "res_ok r"
  shows "\<exists>ws. observe_resources r = Inr ws \<and> list_all (\<lambda>w. valid_worker w \<and> observes_worker r w) ws \<and>
    map wo_worker_id ws = sort (keys_of (rs_workers r))"
proof -
  define obs where "obs w = \<lparr>wo_worker_id = w, wo_available = (wk_status (the (map_of (rs_workers r) w)) = UP),
    wo_capacity = wk_capacity (the (map_of (rs_workers r) w)),
    wo_active_tasks = int (length (listing (rs_worker_active r) w)),
    wo_queued_tasks = int (length (listing (rs_worker_queues r) w))\<rparr>" for w
  have both: "bind_res (getitem (rs_workers r) w) (\<lambda>worker.
       bind_res (getitem (rs_worker_active r) w) (\<lambda>active.
       bind_res (getitem (rs_worker_queues r) w) (\<lambda>queue.
       new_WorkerObservation w (wk_status worker = UP) (wk_capacity worker)
         (int (length active)) (int (length queue))))) = Inr (obs w) \<and>
      valid_worker (obs w) \<and> observes_worker r (obs w)"
    if w: "w \<in> set (sort (keys_of (rs_workers r)))" for w
  proof -
    from w obtain worker where worker: "map_of (rs_workers r) w = Some worker"
      using map_of_keys_of by (metis set_sort)
    then have "known_worker r w" by (simp add: known_worker_def has_key_Some)
    with assms obtain q a where "map_of (rs_worker_queues r) w = Some q" "map_of (rs_worker_active r) w = Some a"
      by (auto simp: res_ok_def keys_ok_def has_key_Some)
    moreover have "worker_ok r w worker" using assms worker by (simp add: res_ok_def workers_ok_def)
    ultimately show ?thesis
      using worker by (auto simp: getitem_def worker_ok_def obs_def listing_Some new_WorkerObservation_def raise_if_def
          valid_worker_iff observes_worker_def)
  qed
  have "observe_resources r = Inr (map obs (sort (keys_of (rs_workers r))))"
    unfolding observe_resources_def by (rule map_res_Inr) (use both in blast)
  with both show ?thesis by (auto simp: list_all_iff obs_def comp_def)
qed

end
