(* ===== verification/Policy_Continuity.thy ===== *)
theory Policy_Continuity
  imports Policies Core_History
begin

section \<open>The continuity-aware policy\<close>

text \<open>
  \<open>simulator/continuity_policy.py\<close>: policy B4, which asks a semantic authority whether an attempt
  still is the current one and whether a State is compatible, the authority over the semantic core,
  and the paired evaluation of the five policies. The two methods of the authority are arguments of
  the policy's definitions.
\<close>

datatype RetentionDisposition = PROTECT | RETAIN | BEST_EFFORT | RELEASE

datatype MigrationDisposition = ALLOW_COMMIT | WAIT

record StateRetentionDecision =
  rd_policy_id :: PolicyID
  rd_state_id :: string
  rd_lifecycle :: string
  rd_priority :: int
  rd_disposition :: RetentionDisposition

record MigrationDecision =
  md_policy_id :: PolicyID
  md_binding_id :: "string option"
  md_binding_epoch :: "int option"
  md_disposition :: MigrationDisposition
  md_reason :: string

definition require_nonempty :: "string \<Rightarrow> unit res" where
  "require_nonempty s = raise_if (s = '''') ValueError"

definition new_StateRetentionDecision ::
    "PolicyID \<Rightarrow> string \<Rightarrow> string \<Rightarrow> int \<Rightarrow> RetentionDisposition \<Rightarrow> StateRetentionDecision res" where
  "new_StateRetentionDecision p sid lifecycle priority disposition =
     bind_res (raise_if (p \<noteq> B4) ValueError) (\<lambda>_.
     bind_res (require_nonempty sid) (\<lambda>_.
     bind_res (require_nonempty lifecycle) (\<lambda>_.
     bind_res (raise_if (priority < 0) ValueError) (\<lambda>_.
     Inr \<lparr>rd_policy_id = p, rd_state_id = sid, rd_lifecycle = lifecycle, rd_priority = priority,
          rd_disposition = disposition\<rparr>))))"

definition new_MigrationDecision ::
    "PolicyID \<Rightarrow> string option \<Rightarrow> int option \<Rightarrow> MigrationDisposition \<Rightarrow> string \<Rightarrow> MigrationDecision res" where
  "new_MigrationDecision p binding epoch disposition reason =
     bind_res (raise_if (p \<noteq> B4) ValueError) (\<lambda>_.
     bind_res (case binding of None \<Rightarrow> Inr () | Some b \<Rightarrow> require_nonempty b) (\<lambda>_.
     bind_res (case epoch of None \<Rightarrow> Inr () | Some e \<Rightarrow> raise_if (e < 0) ValueError) (\<lambda>_.
     bind_res (require_nonempty reason) (\<lambda>_.
     Inr \<lparr>md_policy_id = p, md_binding_id = binding, md_binding_epoch = epoch,
          md_disposition = disposition, md_reason = reason\<rparr>))))"

subsection \<open>The authority over the semantic core\<close>

definition core_attempt_current :: "core \<Rightarrow> string \<Rightarrow> string \<Rightarrow> bool res" where
  "core_attempt_current g r a =
     bind_res (require_nonempty r) (\<lambda>_.
     bind_res (require_nonempty a) (\<lambda>_.
     Inr (case (map_of (requests g) r, map_of (attempts g) a) of
            (Some req, Some att) \<Rightarrow>
              att_request_id att = r \<and> req_current_attempt_id req = Some a \<and>
              att_authority_status att = AttemptAuthority.CURRENT
          | _ \<Rightarrow> False)))"

definition core_state_compatible ::
    "semantic_validity \<Rightarrow> core \<Rightarrow> string \<Rightarrow> string \<Rightarrow> string \<Rightarrow> string \<Rightarrow> string \<Rightarrow> string \<Rightarrow> bool res" where
  "core_state_compatible sv g sid program session continuation request attempt =
     bind_res (for_each [sid, program, session, continuation, request, attempt] require_nonempty) (\<lambda>_.
     state_compatible sv g sid
       \<lparr>ctx_program_id = program, ctx_session_id = session, ctx_continuation_id = continuation,
        ctx_request_id = request, ctx_attempt_id = attempt, ctx_phase_id = None\<rparr>)"

subsection \<open>Policy B4\<close>

type_synonym attempt_test = "string \<Rightarrow> string \<Rightarrow> bool res"
type_synonym state_test = "string \<Rightarrow> string \<Rightarrow> string \<Rightarrow> string \<Rightarrow> string \<Rightarrow> string \<Rightarrow> bool res"

definition optional_string :: "view_value \<Rightarrow> string option res" where
  "optional_string v =
     (case v of VNone \<Rightarrow> Inr None | VStr s \<Rightarrow> if s = '''' then Inl ValueError else Inr (Some s) | _ \<Rightarrow> Inl ValueError)"

definition optional_item :: "PolicyView \<Rightarrow> InformationField \<Rightarrow> string option res" where
  "optional_item view f = bind_res (view_item view f) optional_string"

definition load_fallback :: "PolicyID \<Rightarrow> WorkerObservation list \<Rightarrow> string \<Rightarrow> PlacementDecision res" where
  "load_fallback p available reason =
     ranked_decision p (map wo_worker_id (sort_key worker_load_key available)) reason"

text \<open>
  The fence: \<open>or\<close> evaluates from the left, so the authority is only asked about an attempt that the
  observation calls current.
\<close>

definition attempt_fenced :: "attempt_test \<Rightarrow> string option \<Rightarrow> string option \<Rightarrow> string option \<Rightarrow> bool res" where
  "attempt_fenced current request attempt authority =
     (case (request, attempt) of
        (Some r, Some a) \<Rightarrow>
          if authority \<noteq> Some ''CURRENT'' then Inr True
          else bind_res (current r a) (\<lambda>b. Inr (\<not> b))
      | _ \<Rightarrow> Inr True)"

text \<open>The part of \<open>decide\<close> after the context is known to be complete.\<close>

definition decide_by_state ::
    "state_test \<Rightarrow> PolicyView \<Rightarrow> WorkerObservation list \<Rightarrow> string \<Rightarrow> string \<Rightarrow> string \<Rightarrow> string \<Rightarrow> string \<Rightarrow>
     PlacementDecision res" where
  "decide_by_state compatible view available program session continuation request attempt =
     bind_res (optional_item view EXACT_STATE_ID) (\<lambda>exact.
     bind_res (state_locations_from_view view) (\<lambda>locations.
     case exact of
       None \<Rightarrow> load_fallback B4 available ''CONTINUITY_RECOMPUTE_LOAD_FALLBACK''
     | Some sid \<Rightarrow>
         if locations = [] then load_fallback B4 available ''CONTINUITY_RECOMPUTE_LOAD_FALLBACK''
         else
           bind_res (optional_item view RECONCILIATION) (\<lambda>reconciliation.
           if reconciliation \<noteq> Some ''MATCHED''
           then load_fallback B4 available ''RECONCILIATION_NOT_MATCHED_RECOMPUTE''
           else
             bind_res (compatible sid program session continuation request attempt) (\<lambda>ok.
             if \<not> ok then load_fallback B4 available ''INCOMPATIBLE_STATE_RECOMPUTE''
             else if \<not> list_ex (\<lambda>w. wo_worker_id w \<in> set locations) available
             then load_fallback B4 available ''COMPATIBLE_STATE_REMOTE_RECOMPUTE''
             else ranked_decision B4 (map wo_worker_id (sort_key (locality_load_key locations) available))
                    ''COMPATIBLE_STATE_LOCALITY_THEN_LOAD''))))"

definition decide_B4 :: "attempt_test \<Rightarrow> state_test \<Rightarrow> PolicyView \<Rightarrow> PlacementDecision res" where
  "decide_B4 current compatible view =
     bind_res (require_policy_view view B4) (\<lambda>_.
     bind_res (optional_item view LOGICAL_REQUEST_ID) (\<lambda>request.
     bind_res (optional_item view ATTEMPT_ID) (\<lambda>attempt.
     bind_res (optional_item view ATTEMPT_AUTHORITY) (\<lambda>authority.
     bind_res (attempt_fenced current request attempt authority) (\<lambda>fenced.
     if fenced then new_PlacementDecision B4 None [] ''ATTEMPT_FENCED''
     else
       bind_res (workers_from_view view) (\<lambda>ws.
       let available = available_workers ws in
       if available = [] then new_PlacementDecision B4 None [] ''NO_AVAILABLE_WORKER''
       else
         bind_res (optional_item view PROGRAM_ID) (\<lambda>program.
         bind_res (optional_item view SESSION_ID) (\<lambda>session.
         bind_res (optional_item view CONTINUATION_ID) (\<lambda>continuation.
         case (program, session, continuation, request, attempt) of
           (Some p, Some s, Some c, Some r, Some a) \<Rightarrow>
             decide_by_state compatible view available p s c r a
         | _ \<Rightarrow> new_PlacementDecision B4 None [] ''CONTINUITY_CONTEXT_INCOMPLETE'')))))))))"

definition retention_table :: "(int \<times> RetentionDisposition) dict" where
  "retention_table =
     [(''ACTIVE'', (3, PROTECT)), (''WAITING'', (2, RETAIN)), (''SPECULATIVE'', (1, BEST_EFFORT)),
      (''TERMINAL'', (0, RELEASE))]"

definition decide_retention :: "PolicyView \<Rightarrow> StateRetentionDecision res" where
  "decide_retention view =
     bind_res (require_policy_view view B4) (\<lambda>_.
     bind_res (optional_item view EXACT_STATE_ID) (\<lambda>state.
     bind_res (optional_item view STATE_LIFECYCLE) (\<lambda>lifecycle.
     case (state, lifecycle) of
       (Some sid, Some l) \<Rightarrow>
         (case map_of retention_table l of
            None \<Rightarrow> Inl ValueError
          | Some (priority, disposition) \<Rightarrow> new_StateRetentionDecision B4 sid l priority disposition)
     | _ \<Rightarrow> Inl ValueError)))"

definition decide_migration :: "PolicyView \<Rightarrow> MigrationDecision res" where
  "decide_migration view =
     bind_res (require_policy_view view B4) (\<lambda>_.
     bind_res (optional_item view BINDING_ID) (\<lambda>binding.
     bind_res (view_item view BINDING_EPOCH) (\<lambda>ev.
     bind_res (case ev of VNone \<Rightarrow> Inr None | VInt e \<Rightarrow> if e < 0 then Inl ValueError else Inr (Some e) | _ \<Rightarrow> Inl ValueError) (\<lambda>epoch.
     bind_res (optional_item view RECONCILIATION) (\<lambda>reconciliation.
     if binding = None \<or> epoch = None
     then new_MigrationDecision B4 binding epoch WAIT ''MISSING_BINDING_CONTEXT''
     else if reconciliation \<noteq> Some ''MATCHED''
     then new_MigrationDecision B4 binding epoch WAIT ''RECONCILIATION_REQUIRED''
     else new_MigrationDecision B4 binding epoch ALLOW_COMMIT ''RECONCILED_BINDING_COMMIT_ELIGIBLE'')))))"

subsection \<open>Paired evaluation\<close>

definition ContinuityAwarePolicy :: "attempt_test \<Rightarrow> state_test \<Rightarrow> placement_policy" where
  "ContinuityAwarePolicy current compatible = (B4, decide_B4 current compatible)"

definition build_baseline_policies :: "attempt_test \<Rightarrow> state_test \<Rightarrow> (PolicyID \<times> placement_policy) list" where
  "build_baseline_policies current compatible =
     [(B0, RequestCentricPolicy), (B1, CacheAwarePolicy), (B2, SessionAffinityPolicy),
      (B3, StateAwarePolicy), (B4, ContinuityAwarePolicy current compatible)]"

definition policy_ids :: "PolicyID list" where
  "policy_ids = [B0, B1, B2, B3, B4]"

definition decide_paired_placements ::
    "(PolicyID \<times> placement_policy) list \<Rightarrow> PolicyObservation \<Rightarrow> PlacementDecision list res" where
  "decide_paired_placements policies ob =
     bind_res (raise_if (\<not> same_set (map fst policies) policy_ids) ValueError) (\<lambda>_.
     bind_res (for_each policy_ids (\<lambda>p.
       raise_if (map_option fst (map_of policies p) \<noteq> Some p) ValueError)) (\<lambda>_.
     map_res (\<lambda>p. case map_of policies p of None \<Rightarrow> Inl KeyError | Some policy \<Rightarrow> decide_placement policy ob)
       policy_ids))"

subsection \<open>What the policy promises of any authority\<close>

text \<open>
  The interface: asked with non-empty identifiers about a good state \<open>g\<close>, the authority answers.
\<close>

locale semantic_authority =
  fixes current :: "'g \<Rightarrow> attempt_test"
    and compatible :: "'g \<Rightarrow> state_test"
    and good :: "'g \<Rightarrow> bool"
  assumes current_answers: "good g \<Longrightarrow> r \<noteq> '''' \<Longrightarrow> a \<noteq> '''' \<Longrightarrow> \<exists>b. current g r a = Inr b"
    and compatible_answers: "good g \<Longrightarrow> '''' \<notin> set [sid, p, s, c, r, a] \<Longrightarrow> \<exists>b. compatible g sid p s c r a = Inr b"

lemma optional_string_VOptStr: "s \<noteq> Some '''' \<Longrightarrow> optional_string (VOptStr s) = Inr s"
  by (cases s) (auto simp: optional_string_def VOptStr_def)

lemma observation_optional:
  assumes "check_observation ob = Inr ()"
  shows "po_attempt_id ob \<noteq> Some ''''" "po_attempt_authority ob \<noteq> Some ''''" "po_session_id ob \<noteq> Some ''''"
    "po_continuation_id ob \<noteq> Some ''''" "po_exact_state_id ob \<noteq> Some ''''" "po_binding_id ob \<noteq> Some ''''"
    "po_program_id ob \<noteq> Some ''''" "po_state_lifecycle ob \<noteq> Some ''''" "po_reconciliation ob \<noteq> Some ''''"
    "po_binding_epoch ob = Some e \<Longrightarrow> 0 \<le> e"
  using assms
  by (auto simp: check_observation_def bind_res_Inr require_optional_id_def)

lemma optional_items:
  assumes view: "project_observation ob B4 = Inr view" and ob: "check_observation ob = Inr ()"
  shows "optional_item view LOGICAL_REQUEST_ID = Inr (Some (po_request_id ob))"
    "optional_item view ATTEMPT_ID = Inr (po_attempt_id ob)"
    "optional_item view ATTEMPT_AUTHORITY = Inr (po_attempt_authority ob)"
    "optional_item view PROGRAM_ID = Inr (po_program_id ob)"
    "optional_item view SESSION_ID = Inr (po_session_id ob)"
    "optional_item view CONTINUATION_ID = Inr (po_continuation_id ob)"
    "optional_item view EXACT_STATE_ID = Inr (po_exact_state_id ob)"
    "optional_item view STATE_LIFECYCLE = Inr (po_state_lifecycle ob)"
    "optional_item view BINDING_ID = Inr (po_binding_id ob)"
    "optional_item view RECONCILIATION = Inr (po_reconciliation ob)"
    "view_item view BINDING_EPOCH = Inr (case po_binding_epoch ob of None \<Rightarrow> VNone | Some e \<Rightarrow> VInt e)"
proof -
  have "view_item view f = Inr (observed ob f)" for f
    using view_item_contract [OF view, of f] by (cases f) (simp_all add: contract_simps)
  then show "optional_item view LOGICAL_REQUEST_ID = Inr (Some (po_request_id ob))"
    "optional_item view ATTEMPT_ID = Inr (po_attempt_id ob)"
    "optional_item view ATTEMPT_AUTHORITY = Inr (po_attempt_authority ob)"
    "optional_item view PROGRAM_ID = Inr (po_program_id ob)"
    "optional_item view SESSION_ID = Inr (po_session_id ob)"
    "optional_item view CONTINUATION_ID = Inr (po_continuation_id ob)"
    "optional_item view EXACT_STATE_ID = Inr (po_exact_state_id ob)"
    "optional_item view STATE_LIFECYCLE = Inr (po_state_lifecycle ob)"
    "optional_item view BINDING_ID = Inr (po_binding_id ob)"
    "optional_item view RECONCILIATION = Inr (po_reconciliation ob)"
    "view_item view BINDING_EPOCH = Inr (case po_binding_epoch ob of None \<Rightarrow> VNone | Some e \<Rightarrow> VInt e)"
    using observation_optional [OF ob] check_observation_facts(3) [OF ob]
    by (simp_all add: optional_item_def optional_string_VOptStr) (simp add: optional_string_def)
qed

text \<open>
  The specification of B4 on an observation: nothing is placed without an attempt that both the
  observation and the authority call current; the ranking prefers the State's locations only if
  the State is exact, reconciled, compatible and local, and is by load otherwise.
\<close>

definition may_place :: "attempt_test \<Rightarrow> PolicyObservation \<Rightarrow> bool" where
  "may_place current ob \<longleftrightarrow>
     po_attempt_authority ob = Some ''CURRENT'' \<and>
     (\<exists>a. po_attempt_id ob = Some a \<and> current (po_request_id ob) a = Inr True)"

definition reuses_state :: "state_test \<Rightarrow> PolicyObservation \<Rightarrow> bool" where
  "reuses_state compatible ob \<longleftrightarrow>
     po_reconciliation ob = Some ''MATCHED'' \<and>
     (\<exists>sid p s c a. po_exact_state_id ob = Some sid \<and> po_program_id ob = Some p \<and> po_session_id ob = Some s \<and>
        po_continuation_id ob = Some c \<and> po_attempt_id ob = Some a \<and>
        compatible sid p s c (po_request_id ob) a = Inr True) \<and>
     list_ex (\<lambda>w. wo_worker_id w \<in> set (po_state_locations ob)) (available_workers (po_workers ob))"

definition context_complete :: "PolicyObservation \<Rightarrow> bool" where
  "context_complete ob \<longleftrightarrow> po_program_id ob \<noteq> None \<and> po_session_id ob \<noteq> None \<and> po_continuation_id ob \<noteq> None"

definition ranking_B4 :: "state_test \<Rightarrow> PolicyObservation \<Rightarrow> WorkerObservation list \<Rightarrow> WorkerObservation list" where
  "ranking_B4 compatible ob ws =
     (if reuses_state compatible ob then sort_key (locality_load_key (po_state_locations ob)) ws
      else sort_key worker_load_key ws)"

definition spec_B4 :: "attempt_test \<Rightarrow> state_test \<Rightarrow> PolicyObservation \<Rightarrow> PlacementDecision \<Rightarrow> bool" where
  "spec_B4 current compatible ob d \<longleftrightarrow>
     pd_policy_id d = B4 \<and>
     pd_ranked_worker_ids d =
       (if may_place current ob \<and> context_complete ob
        then map wo_worker_id (ranking_B4 compatible ob (available_workers (po_workers ob))) else []) \<and>
     pd_worker_id d = (case pd_ranked_worker_ids d of [] \<Rightarrow> None | w # _ \<Rightarrow> Some w) \<and>
     (pd_reason d = ''COMPATIBLE_STATE_LOCALITY_THEN_LOAD'' \<longleftrightarrow>
        may_place current ob \<and> context_complete ob \<and> reuses_state compatible ob)"

context semantic_authority
begin

lemma fenced_iff:
  assumes "good g" and "check_observation ob = Inr ()"
  shows "attempt_fenced (current g) (Some (po_request_id ob)) (po_attempt_id ob) (po_attempt_authority ob) =
    Inr (\<not> may_place (current g) ob)"
proof (cases "po_attempt_id ob")
  case (Some a)
  then have "a \<noteq> ''''" using observation_optional(1) [OF assms(2)] by simp
  then obtain b where "current g (po_request_id ob) a = Inr b"
    using current_answers [OF assms(1)] check_observation_facts(3) [OF assms(2)] by blast
  then show ?thesis by (simp add: attempt_fenced_def may_place_def Some)
qed (simp add: attempt_fenced_def may_place_def)

lemma ranked_B4:
  assumes "valid_observation ob" and "available_workers (po_workers ob) \<noteq> []" and "reason \<noteq> ''''"
  shows "ranked_decision B4 (map wo_worker_id (sort_key f (available_workers (po_workers ob)))) reason =
    Inr \<lparr>pd_policy_id = B4, pd_worker_id = Some (hd (map wo_worker_id (sort_key f (available_workers (po_workers ob))))),
         pd_ranked_worker_ids = map wo_worker_id (sort_key f (available_workers (po_workers ob))), pd_reason = reason\<rparr>"
proof (rule ranked_decision_Inr [OF _ _ assms(3)])
  show "map wo_worker_id (sort_key f (available_workers (po_workers ob))) \<noteq> []"
    using assms(2) by (metis Nil_is_map_conv set_empty set_sort)
  show "'''' \<notin> set (map wo_worker_id (sort_key f (available_workers (po_workers ob))))"
    using available_facts(1) [OF assms(1)] by (auto simp: list_all_iff valid_worker_iff)
qed

lemma hd_ranked: "xs \<noteq> [] \<Longrightarrow> Some (hd xs) = (case xs of [] \<Rightarrow> None | w # _ \<Rightarrow> Some w)"
  by (cases xs) simp_all

lemma decide_by_state_spec:
  assumes g: "good g" and ob: "valid_observation ob" and view: "project_observation ob B4 = Inr view"
    and ws: "available_workers (po_workers ob) \<noteq> []"
    and m: "may_place (current g) ob" and a: "po_attempt_id ob = Some a"
    and c: "po_program_id ob = Some p" "po_session_id ob = Some s" "po_continuation_id ob = Some c"
  shows "\<exists>d. decide_by_state (compatible g) view (available_workers (po_workers ob)) p s c (po_request_id ob) a = Inr d \<and>
    spec_B4 (current g) (compatible g) ob d"
proof -
  have ok: "check_observation ob = Inr ()" using ob by (simp add: valid_observation_def)
  note items = optional_items [OF view ok]
  have locs: "state_locations_from_view view = Inr (po_state_locations ob)"
    by (rule locations_from_project [OF view _ ok]) simp
  let ?ws = "available_workers (po_workers ob)"
  note ranked = ranked_B4 [OF ob ws]
  have ne: "sort_key f ?ws \<noteq> []" for f :: "WorkerObservation \<Rightarrow> 'k::linorder"
    using ws by (metis set_empty set_sort)
  have ctx: "context_complete ob" using c by (simp add: context_complete_def)
  have fallback: "\<exists>d. load_fallback B4 ?ws reason = Inr d \<and> spec_B4 (current g) (compatible g) ob d"
    if "\<not> reuses_state (compatible g) ob" "reason \<noteq> ''''" "reason \<noteq> ''COMPATIBLE_STATE_LOCALITY_THEN_LOAD''" for reason
    using that m ctx ranked [OF that(2), of worker_load_key] ne [of worker_load_key]
    by (simp add: load_fallback_def spec_B4_def ranking_B4_def hd_ranked)
  show ?thesis
  proof (cases "po_exact_state_id ob = None \<or> po_state_locations ob = [] \<or> po_reconciliation ob \<noteq> Some ''MATCHED''")
    case True
    then have "\<not> reuses_state (compatible g) ob" by (auto simp: reuses_state_def list_ex_iff)
    note f = fallback [OF this, of "''CONTINUITY_RECOMPUTE_LOAD_FALLBACK''"]
      fallback [OF this, of "''RECONCILIATION_NOT_MATCHED_RECOMPUTE''"]
    show ?thesis
    proof (cases "po_exact_state_id ob = None \<or> po_state_locations ob = []")
      case missing: True
      then have "decide_by_state (compatible g) view ?ws p s c (po_request_id ob) a =
          load_fallback B4 ?ws ''CONTINUITY_RECOMPUTE_LOAD_FALLBACK''"
        using items(7,10) locs by (cases "po_exact_state_id ob") (simp_all add: decide_by_state_def)
      with f(1) show ?thesis by simp
    next
      case unreconciled: False
      then have "decide_by_state (compatible g) view ?ws p s c (po_request_id ob) a =
          load_fallback B4 ?ws ''RECONCILIATION_NOT_MATCHED_RECOMPUTE''"
        using True items(7,10) locs by (auto simp: decide_by_state_def)
      with f(2) show ?thesis by simp
    qed
  next
    case False
    then obtain sid where sid: "po_exact_state_id ob = Some sid" by auto
    have ne: "'''' \<notin> set [sid, p, s, c, po_request_id ob, a]"
      using observation_optional [OF ok] check_observation_facts(3) [OF ok] sid c a by auto
    obtain b where b: "compatible g sid p s c (po_request_id ob) a = Inr b"
      using compatible_answers [OF g ne] by blast
    show ?thesis
    proof (cases "b \<and> list_ex (\<lambda>w. wo_worker_id w \<in> set (po_state_locations ob)) ?ws")
      case True
      with False b sid c a have reuse: "reuses_state (compatible g) ob" by (simp add: reuses_state_def)
      from True False b sid items(7,10) locs
      have "decide_by_state (compatible g) view ?ws p s c (po_request_id ob) a =
          ranked_decision B4 (map wo_worker_id (sort_key (locality_load_key (po_state_locations ob)) ?ws))
            ''COMPATIBLE_STATE_LOCALITY_THEN_LOAD''"
        by (simp add: decide_by_state_def)
      with reuse m ctx ranked [of "''COMPATIBLE_STATE_LOCALITY_THEN_LOAD''" "locality_load_key (po_state_locations ob)"]
        \<open>\<And>f. sort_key f ?ws \<noteq> []\<close> [of "locality_load_key (po_state_locations ob)"]
      show ?thesis by (simp add: spec_B4_def ranking_B4_def hd_ranked)
    next
      case no: False
      then have "\<not> reuses_state (compatible g) ob" using b sid c a by (auto simp: reuses_state_def)
      note f = fallback [OF this, of "''INCOMPATIBLE_STATE_RECOMPUTE''"]
        fallback [OF this, of "''COMPATIBLE_STATE_REMOTE_RECOMPUTE''"]
      from no False b sid items(7,10) locs have "decide_by_state (compatible g) view ?ws p s c (po_request_id ob) a =
          load_fallback B4 ?ws (if b then ''COMPATIBLE_STATE_REMOTE_RECOMPUTE'' else ''INCOMPATIBLE_STATE_RECOMPUTE'')"
        by (auto simp: decide_by_state_def)
      with f show ?thesis by (cases b) simp_all
    qed
  qed
qed

lemma decide_B4_spec:
  assumes g: "good g" and ob: "valid_observation ob"
  shows "\<exists>d. decide_placement (ContinuityAwarePolicy (current g) (compatible g)) ob = Inr d \<and>
    spec_B4 (current g) (compatible g) ob d"
proof -
  obtain view where view: "project_observation ob B4 = Inr view" using project_observation_Inr by blast
  have ok: "check_observation ob = Inr ()" using ob by (simp add: valid_observation_def)
  note items = optional_items [OF view ok]
  have pv: "require_policy_view view B4 = Inr ()" using project_policy [OF view] by (simp add: require_policy_view_def)
  let ?ws = "available_workers (po_workers ob)"
  have refuse: "\<exists>d. new_PlacementDecision B4 None [] reason = Inr d \<and> pd_policy_id d = B4 \<and>
      pd_ranked_worker_ids d = [] \<and> pd_worker_id d = None \<and> pd_reason d = reason" if "reason \<noteq> ''''" for reason
    using new_PlacementDecision_None [OF that] by simp
  have "\<exists>d. decide_B4 (current g) (compatible g) view = Inr d \<and> spec_B4 (current g) (compatible g) ob d"
  proof (cases "may_place (current g) ob")
    case False
    with pv items fenced_iff [OF g ok] refuse [of "''ATTEMPT_FENCED''"] show ?thesis
      by (auto simp: decide_B4_def spec_B4_def)
  next
    case True
    then obtain a where a: "po_attempt_id ob = Some a" by (auto simp: may_place_def)
    show ?thesis
    proof (cases "?ws = []")
      case empty: True
      then have "\<not> reuses_state (compatible g) ob" and "ranking_B4 (compatible g) ob [] = []"
        by (simp_all add: reuses_state_def ranking_B4_def)
      with empty True pv items fenced_iff [OF g ok] refuse [of "''NO_AVAILABLE_WORKER''"] workers_from_project [OF view]
      show ?thesis by (auto simp: decide_B4_def spec_B4_def Let_def)
    next
      case ws: False
      show ?thesis
      proof (cases "context_complete ob")
        case False
        with ws True a pv items fenced_iff [OF g ok] refuse [of "''CONTINUITY_CONTEXT_INCOMPLETE''"] workers_from_project [OF view]
        show ?thesis by (auto simp: decide_B4_def spec_B4_def Let_def context_complete_def split: option.splits)
      next
        case ctx: True
        then obtain p s c where c: "po_program_id ob = Some p" "po_session_id ob = Some s" "po_continuation_id ob = Some c"
          by (auto simp: context_complete_def)
        with ws True a pv items fenced_iff [OF g ok] workers_from_project [OF view]
        have "decide_B4 (current g) (compatible g) view =
            decide_by_state (compatible g) view ?ws p s c (po_request_id ob) a"
          by (simp add: decide_B4_def Let_def)
        with decide_by_state_spec [OF g ob view ws True a c] show ?thesis by simp
      qed
    qed
  qed
  then show ?thesis using view by (auto simp: decide_placement_def ContinuityAwarePolicy_def spec_B4_def)
qed

end

interpretation core_authority: semantic_authority core_attempt_current "core_state_compatible sv" inv for sv
proof
  fix g and r a :: string assume "r \<noteq> ''''" "a \<noteq> ''''"
  then show "\<exists>b. core_attempt_current g r a = Inr b"
    by (simp add: core_attempt_current_def require_nonempty_def raise_if_def)
next
  fix g and sid p s c r a :: string assume "inv g" "'''' \<notin> set [sid, p, s, c, r, a]"
  moreover from this have "for_each [sid, p, s, c, r, a] require_nonempty = Inr ()"
    unfolding for_each_Inr by (auto simp: require_nonempty_def)
  ultimately show "\<exists>b. core_state_compatible sv g sid p s c r a = Inr b"
    unfolding core_state_compatible_def by (simp add: inv_def state_compatible_correct del: for_each.simps)
qed

end
