(* ===== verification/Policy_Properties.thy ===== *)
theory Policy_Properties
  imports Policy_Continuity Core_Properties Sim_Properties
begin

section \<open>Properties of the placement policies\<close>

text \<open>
  What the policies promise of any valid observation, of the observations the simulator makes, and
  of the authority that the semantic core is at any reachable state.
\<close>

subsection \<open>An observation to try the properties on\<close>

text \<open>
  The workers of \<open>demo_b\<close>, the State \<open>x2\<close> of the core \<open>demo\<close> located at the busy one, and the
  current attempt of a request there.
\<close>

definition demo_observation :: PolicyObservation where
  "demo_observation =
     \<lparr>po_request_id = ''q'',
      po_workers = (case observe_resources (snd demo_b) of Inl _ \<Rightarrow> [] | Inr ws \<Rightarrow> ws),
      po_attempt_id = Some ''b'', po_attempt_authority = Some ''CURRENT'', po_session_id = Some ''s'',
      po_session_preferred_location = None, po_continuation_id = Some ''c1'', po_continuation_ancestry = [],
      po_state_candidate_key = None, po_exact_state_id = Some ''x2'', po_state_locations = [''w1''],
      po_state_provenance = [], po_producer_attempt_id = None, po_binding_id = None, po_binding_epoch = None,
      po_evidence_authority = None, po_evidence_status = None, po_evidence_freshness = None,
      po_program_id = Some ''p'', po_state_lifecycle = None, po_reconciliation = Some ''MATCHED''\<rparr>"

lemma demo_observation_facts:
  "valid_observation demo_observation"
  "map wo_worker_id (available_workers (po_workers demo_observation)) = [''w1'', ''w2'']"
  "context_complete demo_observation"
  "core_attempt_current demo ''q'' ''b'' = Inr True"
  by code_simp+

subsection \<open>The properties\<close>

text \<open>C31. A paired evaluation of the five policies on a valid observation, with the semantic core as the
authority, returns: one decision per policy in the order of their names. Each baseline ranks exactly
the available workers and selects the first of its ranking, none when no worker is available; B4 ranks
available workers only, none twice.\<close>

theorem paired_decisions:
  assumes "valid_observation ob" and "reachable g"
  shows "\<exists>ds d. decide_paired_placements
        (build_baseline_policies (core_attempt_current g) (core_state_compatible sv g)) ob = Inr (ds @ [d]) \<and>
      list_all2 (\<lambda>p x. places p (available_workers (po_workers ob)) x) [B0, B1, B2, B3] ds \<and>
      pd_policy_id d = B4 \<and> distinct (pd_ranked_worker_ids d) \<and>
      set (pd_ranked_worker_ids d) \<subseteq> wo_worker_id ` set (available_workers (po_workers ob))"
proof -
  let ?ws = "available_workers (po_workers ob)"
  have place: "\<exists>x. decide_placement (baseline p) ob = Inr x \<and> places p ?ws x" if "p \<noteq> B4" for p
    using decide_baseline_places [OF assms(1) that] by blast
  obtain d0 d1 d2 d3 where d: "decide_placement (baseline B0) ob = Inr d0 \<and> places B0 ?ws d0"
    "decide_placement (baseline B1) ob = Inr d1 \<and> places B1 ?ws d1"
    "decide_placement (baseline B2) ob = Inr d2 \<and> places B2 ?ws d2"
    "decide_placement (baseline B3) ob = Inr d3 \<and> places B3 ?ws d3"
    using place [of B0] place [of B1] place [of B2] place [of B3] by auto
  obtain d4 where d4: "decide_placement (ContinuityAwarePolicy (core_attempt_current g) (core_state_compatible sv g)) ob = Inr d4"
    "spec_B4 (core_attempt_current g) (core_state_compatible sv g) ob d4"
    using core_authority.decide_B4_spec [OF reachable_inv [OF assms(2)] assms(1)] by blast
  have "mset (map wo_worker_id (ranking_B4 (core_state_compatible sv g) ob ?ws)) = mset (map wo_worker_id ?ws)"
    by (simp add: ranking_B4_def)
  then have "distinct (map wo_worker_id (ranking_B4 (core_state_compatible sv g) ob ?ws))"
    "set (map wo_worker_id (ranking_B4 (core_state_compatible sv g) ob ?ws)) = wo_worker_id ` set ?ws"
    using available_facts(2) [OF assms(1)] by (metis distinct_count_atmost_1 set_mset_mset, metis set_map set_mset_mset)
  with d4(2) have "pd_policy_id d4 = B4 \<and> distinct (pd_ranked_worker_ids d4) \<and>
      set (pd_ranked_worker_ids d4) \<subseteq> wo_worker_id ` set ?ws"
    by (auto simp: spec_B4_def split: if_splits)
  moreover have "decide_paired_placements
      (build_baseline_policies (core_attempt_current g) (core_state_compatible sv g)) ob = Inr ([d0, d1, d2, d3] @ [d4])"
    using d d4(1)
    by (simp add: decide_paired_placements_def build_baseline_policies_def policy_ids_def same_set_iff baseline_def
        RequestCentricPolicy_def CacheAwarePolicy_def SessionAffinityPolicy_def StateAwarePolicy_def
        ContinuityAwarePolicy_def)
  ultimately show ?thesis using d by (intro exI [of _ "[d0, d1, d2, d3]"] exI [of _ d4]) simp
qed

lemma paired_decisions_witness:
  "\<exists>ds d. decide_paired_placements
      (build_baseline_policies (core_attempt_current demo) (core_state_compatible (\<lambda>_ _. True) demo)) demo_observation =
      Inr (ds @ [d]) \<and> length ds = 4 \<and> pd_policy_id d = B4"
  using paired_decisions [OF demo_observation_facts(1) demo_reachable, of "\<lambda>_ _. True"]
  by (fastforce dest: list_all2_lengthD)

text \<open>Every model of the resources a program can reach can be observed: the observation never
raises, lists the workers in order of their names, and is of each worker its capacity, its availability
and the lengths of its two lists, which pass the checks of a worker observation.\<close>

theorem reachable_model_is_observed:
  assumes "model_reachable st"
  shows "\<exists>ws. observe_resources (snd st) = Inr ws \<and> map wo_worker_id ws = sort (keys_of (rs_workers (snd st))) \<and>
    list_all (\<lambda>w. valid_worker w \<and> observes_worker (snd st) w) ws"
proof -
  from model_reachable_ok [OF assms] have "res_ok (snd st)" by (simp add: model_ok_def world_ok_def)
  then show ?thesis using observe_resources_ok by blast
qed

text \<open>C33. Policy B4 over a reachable core is its specification: it never raises, places nothing unless
the observation and the core both call the attempt current and the context is complete, and then prefers
the State's locations exactly when the State is reconciled, local and compatible in the core.\<close>

theorem continuity_policy_spec:
  assumes "valid_observation ob" and "reachable g"
  shows "\<exists>d. decide_placement (ContinuityAwarePolicy (core_attempt_current g) (core_state_compatible sv g)) ob = Inr d \<and>
    spec_B4 (core_attempt_current g) (core_state_compatible sv g) ob d"
  by (rule core_authority.decide_B4_spec [OF reachable_inv [OF assms(2)] assms(1)])

lemma continuity_policy_spec_witness:
  "\<exists>d. decide_placement (ContinuityAwarePolicy (core_attempt_current demo) (core_state_compatible (\<lambda>_ _. True) demo))
      demo_observation = Inr d \<and> pd_worker_id d = Some ''w1''"
proof -
  let ?test = "core_state_compatible (\<lambda>_ _. True) demo" and ?ws = "available_workers (po_workers demo_observation)"
  have "may_place (core_attempt_current demo) demo_observation"
    by (simp add: may_place_def demo_observation_def demo_observation_facts(4))
  moreover have "reuses_state ?test demo_observation"
  proof -
    have "?test ''x2'' ''p'' ''s'' ''c1'' ''q'' ''b'' = Inr True"
      "list_ex (\<lambda>w. wo_worker_id w \<in> set (po_state_locations demo_observation)) ?ws" by code_simp+
    then show ?thesis by (simp add: reuses_state_def demo_observation_def)
  qed
  moreover have "map wo_worker_id (sort_key (locality_load_key (po_state_locations demo_observation)) ?ws) = [''w1'', ''w2'']"
    by code_simp
  ultimately have "pd_worker_id d = Some ''w1''" if "spec_B4 (core_attempt_current demo) ?test demo_observation d" for d
    using that demo_observation_facts(3) by (simp add: spec_B4_def ranking_B4_def)
  with continuity_policy_spec [OF demo_observation_facts(1) demo_reachable, of "\<lambda>_ _. True"] show ?thesis by blast
qed

end
