(* ===== verification/Proto_Json.thy ===== *)
theory Proto_Json
  imports Py_Prelude "HOL-Library.List_Lexorder" "HOL-Library.Char_ord" "HOL-Library.Word"
begin

section \<open>Canonical JSON\<close>

text \<open>
  What \<open>prototype/c8_transport.py\<close> uses of the module \<open>json\<close>: \<open>canonical_json_bytes\<close>
  (\<open>json.dumps\<close> with sorted keys, no white space, ASCII only) and \<open>decode_canonical_json\<close>. Strings
  are sequences of Latin-1 characters; floating-point numbers are left out.

  \<open>json.loads\<close> reads more texts than \<open>json.dumps\<close> writes, but \<open>decode_canonical_json\<close> rejects every
  text that is not what \<open>json.dumps\<close> writes for the value read, so a reader of the written texts
  is enough.
\<close>

datatype jval =
    JNull
  | JBool bool
  | JInt int
  | JStr string
  | JList "jval list"
  | JObj "(string \<times> jval) list"

type_synonym bytes = "8 word list"

subsection \<open>Writing\<close>

definition escape_char :: "char \<Rightarrow> string" where
  "escape_char c =
     (let n = of_char c :: nat in
      if n = 34 then [CHR 0x5C, CHR 0x22]
      else if n = 92 then [CHR 0x5C, CHR 0x5C]
      else if n = 8 then [CHR 0x5C, CHR ''b'']
      else if n = 12 then [CHR 0x5C, CHR ''f'']
      else if n = 10 then [CHR 0x5C, CHR ''n'']
      else if n = 13 then [CHR 0x5C, CHR ''r'']
      else if n = 9 then [CHR 0x5C, CHR ''t'']
      else if n < 32 \<or> 126 < n
      then [CHR 0x5C, CHR ''u'', CHR ''0'', CHR ''0'', hex_digit (n div 16), hex_digit (n mod 16)]
      else [c])"

definition quoted :: "string \<Rightarrow> string" where
  "quoted s = [CHR 0x22] @ concat (map escape_char s) @ [CHR 0x22]"

text \<open>The items of an object are written in the order of their keys, at every level.\<close>

fun jsort :: "jval \<Rightarrow> jval"
  and jsort_items :: "(string \<times> jval) list \<Rightarrow> (string \<times> jval) list" where
  "jsort (JList vs) = JList (map jsort vs)"
| "jsort (JObj items) = JObj (sort_key fst (jsort_items items))"
| "jsort v = v"
| "jsort_items [] = []"
| "jsort_items ((k, v) # items) = (k, jsort v) # jsort_items items"

fun jwrite :: "jval \<Rightarrow> string"
  and jwrite_list :: "jval list \<Rightarrow> string list"
  and jwrite_items :: "(string \<times> jval) list \<Rightarrow> string list" where
  "jwrite JNull = ''null''"
| "jwrite (JBool b) = (if b then ''true'' else ''false'')"
| "jwrite (JInt i) = int_str i"
| "jwrite (JStr s) = quoted s"
| "jwrite (JList vs) = ''['' @ join_with '','' (jwrite_list vs) @ '']''"
| "jwrite (JObj items) = ''{'' @ join_with '','' (jwrite_items items) @ ''}''"
| "jwrite_list [] = []"
| "jwrite_list (v # vs) = jwrite v # jwrite_list vs"
| "jwrite_items [] = []"
| "jwrite_items ((k, v) # items) = (quoted k @ '':'' @ jwrite v) # jwrite_items items"

definition json_dumps :: "jval \<Rightarrow> string" where
  "json_dumps v = jwrite (jsort v)"

text \<open>ASCII text as bytes and back.\<close>

definition encode_text :: "string \<Rightarrow> bytes" where
  "encode_text s = map of_char s"

definition decode_text :: "bytes \<Rightarrow> string" where
  "decode_text bs = map (\<lambda>b. char_of (unat b)) bs"

definition canonical_json_bytes :: "jval \<Rightarrow> bytes" where
  "canonical_json_bytes v = encode_text (json_dumps v)"

subsection \<open>Reading\<close>

definition unhex :: "char \<Rightarrow> nat option" where
  "unhex c =
     (let n = of_char c :: nat in
      if 48 \<le> n \<and> n < 58 then Some (n - 48) else if 97 \<le> n \<and> n < 103 then Some (n - 87) else None)"

definition unescape_char :: "char \<Rightarrow> char option" where
  "unescape_char c =
     (let n = of_char c :: nat in
      if n = 34 \<or> n = 92 then Some c
      else if c = CHR ''b'' then Some (CHR 0x08) else if c = CHR ''f'' then Some (CHR 0x0C)
      else if c = CHR ''n'' then Some (CHR 0x0A) else if c = CHR ''r'' then Some (CHR 0x0D)
      else if c = CHR ''t'' then Some (CHR 0x09) else None)"

text \<open>The rest of a string literal after its opening quote.\<close>

fun read_string :: "nat \<Rightarrow> string \<Rightarrow> (string \<times> string) option" where
  "read_string 0 cs = None"
| "read_string (Suc fuel) [] = None"
| "read_string (Suc fuel) (c # cs) =
     (let n = of_char c :: nat in
      if n = 34 then Some ([], cs)
      else if n = 92 then
        (case cs of
           [] \<Rightarrow> None
         | e # ds \<Rightarrow>
             if e = CHR ''u'' then
               (case ds of
                  z # y # h # l # es \<Rightarrow>
                    (case (unhex h, unhex l) of
                       (Some a, Some b) \<Rightarrow>
                         if z = CHR ''0'' \<and> y = CHR ''0''
                         then map_option (\<lambda>(s, rest). (char_of (16 * a + b) # s, rest)) (read_string fuel es)
                         else None
                     | _ \<Rightarrow> None)
                | _ \<Rightarrow> None)
             else
               (case unescape_char e of
                  None \<Rightarrow> None
                | Some ch \<Rightarrow> map_option (\<lambda>(s, rest). (ch # s, rest)) (read_string fuel ds)))
      else map_option (\<lambda>(s, rest). (c # s, rest)) (read_string fuel cs))"

definition is_digit :: "char \<Rightarrow> bool" where
  "is_digit c \<longleftrightarrow> (let n = of_char c :: nat in 48 \<le> n \<and> n < 58)"

definition digits_value :: "string \<Rightarrow> nat" where
  "digits_value ds = foldl (\<lambda>n c. 10 * n + (of_char c - 48)) 0 ds"

definition read_int :: "string \<Rightarrow> (int \<times> string) option" where
  "read_int cs =
     (case cs of
        [] \<Rightarrow> None
      | c # ds \<Rightarrow>
          let neg = (c = CHR ''-''); body = (if neg then ds else cs); num = takeWhile is_digit body in
          if num = [] then None
          else Some (if neg then - int (digits_value num) else int (digits_value num), dropWhile is_digit body))"

text \<open>A dictionary filled item by item: of equal keys the last value stays.\<close>

definition dict_of :: "(string \<times> 'v) list \<Rightarrow> 'v dict" where
  "dict_of items = fold (\<lambda>(k, v) d. setitem k v d) items []"

fun read_value :: "nat \<Rightarrow> string \<Rightarrow> (jval \<times> string) option"
  and read_list :: "nat \<Rightarrow> string \<Rightarrow> (jval list \<times> string) option"
  and read_items :: "nat \<Rightarrow> string \<Rightarrow> ((string \<times> jval) list \<times> string) option"
  and read_item :: "nat \<Rightarrow> string \<Rightarrow> ((string \<times> jval) \<times> string) option" where
  "read_value 0 cs = None"
| "read_value (Suc fuel) cs =
     (if take 4 cs = ''null'' then Some (JNull, drop 4 cs)
      else if take 4 cs = ''true'' then Some (JBool True, drop 4 cs)
      else if take 5 cs = ''false'' then Some (JBool False, drop 5 cs)
      else
        (case cs of
           [] \<Rightarrow> None
         | c # ds \<Rightarrow>
             if c = CHR 0x22 then map_option (\<lambda>(s, rest). (JStr s, rest)) (read_string fuel ds)
             else if c = CHR ''['' then
               (if take 1 ds = '']'' then Some (JList [], drop 1 ds)
                else map_option (\<lambda>(vs, rest). (JList vs, rest)) (read_list fuel ds))
             else if c = CHR ''{'' then
               (if take 1 ds = ''}'' then Some (JObj [], drop 1 ds)
                else map_option (\<lambda>(kvs, rest). (JObj (dict_of kvs), rest)) (read_items fuel ds))
             else map_option (\<lambda>(i, rest). (JInt i, rest)) (read_int cs)))"
| "read_list 0 cs = None"
| "read_list (Suc fuel) cs =
     (case read_value fuel cs of
        None \<Rightarrow> None
      | Some (v, rest) \<Rightarrow>
          (case rest of
             [] \<Rightarrow> None
           | c # ds \<Rightarrow>
               if c = CHR '']'' then Some ([v], ds)
               else if c = CHR '','' then map_option (\<lambda>(vs, r). (v # vs, r)) (read_list fuel ds)
               else None))"
| "read_items 0 cs = None"
| "read_items (Suc fuel) cs =
     (case read_item fuel cs of
        None \<Rightarrow> None
      | Some (kv, rest) \<Rightarrow>
          (case rest of
             [] \<Rightarrow> None
           | c # ds \<Rightarrow>
               if c = CHR ''}'' then Some ([kv], ds)
               else if c = CHR '','' then map_option (\<lambda>(kvs, r). (kv # kvs, r)) (read_items fuel ds)
               else None))"
| "read_item 0 cs = None"
| "read_item (Suc fuel) cs =
     (case cs of
        [] \<Rightarrow> None
      | c # ds \<Rightarrow>
          if c \<noteq> CHR 0x22 then None
          else
            (case read_string fuel ds of
               None \<Rightarrow> None
             | Some (k, rest) \<Rightarrow>
                 (case rest of
                    [] \<Rightarrow> None
                  | e # es \<Rightarrow>
                      if e \<noteq> CHR '':'' then None
                      else map_option (\<lambda>(v, r). ((k, v), r)) (read_value fuel es))))"

text \<open>\<open>json.loads\<close> of a whole text; the fuel is more than the nesting and the length can use up.\<close>

definition json_loads :: "string \<Rightarrow> jval option" where
  "json_loads cs =
     (case read_value (Suc (2 * length cs)) cs of Some (v, []) \<Rightarrow> Some v | _ \<Rightarrow> None)"

text \<open>\<open>None\<close> stands for \<open>CanonicalEncodingError\<close>.\<close>

definition decode_canonical_json :: "bytes \<Rightarrow> jval option" where
  "decode_canonical_json payload =
     (if payload = [] then None
      else
        (case json_loads (decode_text payload) of
           None \<Rightarrow> None
         | Some v \<Rightarrow> if canonical_json_bytes v \<noteq> payload then None else Some v))"

subsection \<open>Reading back what was written\<close>

lemma unhex_hex_digit [simp]: "d < 16 \<Longrightarrow> unhex (hex_digit d) = Some d"
  by (auto simp: unhex_def hex_digit_def Let_def)

lemma escape_char_nonempty: "escape_char c \<noteq> []"
  by (simp add: escape_char_def Let_def)

lemma char_of_of_char_nat [simp]: "char_of (of_char c :: nat) = c"
  by (rule char_of_char)

lemma of_char_eq_nat:
  "(of_char c :: nat) = 34 \<Longrightarrow> c = CHR 0x22" "(of_char c :: nat) = 92 \<Longrightarrow> c = CHR 0x5C"
  "(of_char c :: nat) = 8 \<Longrightarrow> c = CHR 0x08" "(of_char c :: nat) = 12 \<Longrightarrow> c = CHR 0x0C"
  "(of_char c :: nat) = 10 \<Longrightarrow> c = CHR 0x0A" "(of_char c :: nat) = 13 \<Longrightarrow> c = CHR 0x0D"
  "(of_char c :: nat) = 9 \<Longrightarrow> c = CHR 0x09"
  using of_char_eq_iff [where 'a = nat, of c "CHR 0x22"] of_char_eq_iff [where 'a = nat, of c "CHR 0x5C"]
    of_char_eq_iff [where 'a = nat, of c "CHR 0x08"] of_char_eq_iff [where 'a = nat, of c "CHR 0x0C"]
    of_char_eq_iff [where 'a = nat, of c "CHR 0x0A"] of_char_eq_iff [where 'a = nat, of c "CHR 0x0D"]
    of_char_eq_iff [where 'a = nat, of c "CHR 0x09"]
  by simp_all

lemma read_string_escape:
  "read_string (Suc fuel) (escape_char c @ cs) = map_option (\<lambda>(s, rest). (c # s, rest)) (read_string fuel cs)"
proof -
  let ?n = "of_char c :: nat"
  have lt: "?n < 256" by (rule nat_of_char_less_256)
  consider "?n = 34" | "?n = 92" | "?n = 8" | "?n = 12" | "?n = 10" | "?n = 13" | "?n = 9"
    | (hex) "?n < 32 \<or> 126 < ?n" "?n \<notin> {34, 92, 8, 12, 10, 13, 9}"
    | (plain) "\<not> (?n < 32 \<or> 126 < ?n)" "?n \<noteq> 34" "?n \<noteq> 92" by blast
  then show ?thesis
  proof cases
    case hex
    have "char_of (16 * (?n div 16) + ?n mod 16) = c" by simp
    moreover have "?n div 16 < 16" by (rule less_mult_imp_div_less) simp
    moreover have "?n mod 16 < 16" by simp
    ultimately show ?thesis using hex by (auto simp: escape_char_def Let_def)
  next
    case plain
    then have "\<not> ?n < 32" "\<not> 126 < ?n" by auto
    with plain show ?thesis by (auto simp: escape_char_def Let_def)
  qed (auto simp: escape_char_def Let_def unescape_char_def dest!: of_char_eq_nat)
qed

lemma read_string_quoted:
  "length s < fuel \<Longrightarrow>
   read_string fuel (concat (map escape_char s) @ CHR 0x22 # rest) = Some (s, rest)"
proof (induction s arbitrary: fuel)
  case Nil
  then obtain f where "fuel = Suc f" by (cases fuel) auto
  then show ?case by simp
next
  case (Cons c s)
  then obtain f where f: "fuel = Suc f" "length s < f" by (cases fuel) auto
  with Cons.IH [of f] show ?case by (simp add: read_string_escape)
qed

lemma length_escaped: "length s \<le> length (concat (map escape_char s))"
proof (induction s)
  case (Cons c s)
  have "0 < length (escape_char c)" using escape_char_nonempty by blast
  with Cons show ?case by (simp del: length_greater_0_conv)
qed simp

lemma is_digit_digit_char: "d < 10 \<Longrightarrow> is_digit (digit_char d)"
  by (simp add: is_digit_def digit_char_def Let_def)

lemma nat_str_digits: "list_all is_digit (nat_str n)"
proof (induction n rule: nat_str.induct)
  case (1 n)
  show ?case
  proof (cases "n < 10")
    case True
    then show ?thesis by (subst nat_str.simps) (simp add: is_digit_digit_char)
  next
    case False
    with 1 show ?thesis by (subst nat_str.simps) (simp add: is_digit_digit_char)
  qed
qed

lemma digits_value_nat_str: "digits_value (nat_str n) = n"
proof (induction n rule: nat_str.induct)
  case (1 n)
  show ?case
  proof (cases "n < 10")
    case True
    then show ?thesis by (subst nat_str.simps) (simp add: digits_value_def digit_char_def)
  next
    case False
    have "digits_value (nat_str n) = 10 * digits_value (nat_str (n div 10)) + n mod 10"
      using False by (subst nat_str.simps) (simp add: digits_value_def digit_char_def)
    with 1 False show ?thesis by simp
  qed
qed

definition stops_int :: "string \<Rightarrow> bool" where
  "stops_int rest \<longleftrightarrow> (case rest of [] \<Rightarrow> True | c # _ \<Rightarrow> \<not> is_digit c)"

lemma takeWhile_digits:
  assumes "list_all is_digit ds" and "stops_int rest"
  shows "takeWhile is_digit (ds @ rest) = ds" and "dropWhile is_digit (ds @ rest) = rest"
proof -
  have "takeWhile is_digit rest = []" "dropWhile is_digit rest = rest"
    using assms(2) by (auto simp: stops_int_def split: list.splits)
  with assms(1) show "takeWhile is_digit (ds @ rest) = ds" and "dropWhile is_digit (ds @ rest) = rest"
    by (simp_all add: list_all_iff)
qed

lemma hd_nat_str_digit: "is_digit (hd (nat_str n))"
  using nat_str_digits [of n] by (cases "nat_str n") auto

lemma read_int_str:
  assumes "stops_int rest"
  shows "read_int (int_str i @ rest) = Some (i, rest)"
proof (cases "i < 0")
  case True
  with takeWhile_digits [OF nat_str_digits assms, of "nat (- i)"] show ?thesis
    by (simp add: read_int_def int_str_def Let_def digits_value_nat_str)
next
  case False
  obtain c ds where c: "nat_str (nat i) = c # ds" by (cases "nat_str (nat i)") auto
  then have "c \<noteq> CHR ''-''" using hd_nat_str [of "nat i"] by simp
  moreover have "digits_value (c # ds) = nat i" using digits_value_nat_str [of "nat i"] c by simp
  ultimately show ?thesis using c False takeWhile_digits [OF nat_str_digits assms, of "nat i"]
    by (simp add: read_int_def int_str_def Let_def)
qed

text \<open>The dictionaries of a Python value have distinct keys, at every level.\<close>

fun jvalid :: "jval \<Rightarrow> bool"
  and jvalid_items :: "(string \<times> jval) list \<Rightarrow> bool" where
  "jvalid (JList vs) = list_all jvalid vs"
| "jvalid (JObj items) = (distinct (map fst items) \<and> jvalid_items items)"
| "jvalid v = True"
| "jvalid_items [] = True"
| "jvalid_items ((k, v) # items) = (jvalid v \<and> jvalid_items items)"

lemma dict_of_distinct: "distinct (map fst items) \<Longrightarrow> dict_of items = items"
proof -
  have "fold (\<lambda>(k, v) d. setitem k v d) items d = d @ items"
    if "distinct (map fst (d @ items))" for d :: "'a dict"
    using that
  proof (induction items arbitrary: d)
    case (Cons kv items)
    obtain k v where kv: "kv = (k, v)" by (cases kv)
    have "map_of d k = None" using Cons.prems kv by (auto simp: map_of_eq_None_iff)
    then have "setitem k v d = d @ [(k, v)]" by (rule setitem_new)
    with Cons.IH [of "d @ [(k, v)]"] Cons.prems kv show ?case by simp
  qed simp
  from this [of "[]"] show "distinct (map fst items) \<Longrightarrow> dict_of items = items" by (simp add: dict_of_def)
qed

lemma length_quoted: "length s + 2 \<le> length (quoted s)"
  using length_escaped [of s] by (simp add: quoted_def)

lemma read_quoted:
  assumes "length s < fuel"
  shows "read_value (Suc fuel) (quoted s @ rest) = Some (JStr s, rest)"
  using read_string_quoted [OF assms, of rest] by (simp add: quoted_def)

lemma stops_int_simps [simp]:
  "stops_int (CHR '']'' # rest)" "stops_int (CHR '','' # rest)" "stops_int (CHR ''}'' # rest)" "stops_int []"
  by (simp_all add: stops_int_def is_digit_def)

text \<open>The first character of a number is not one of those that announce another value.\<close>

lemma int_str_head: "\<exists>c ds. int_str i = c # ds \<and> (c = CHR ''-'' \<or> is_digit c)"
proof (cases "i < 0")
  case False
  then have "int_str i = nat_str (nat i)" by (simp add: int_str_def)
  with hd_nat_str_digit [of "nat i"] show ?thesis by (cases "nat_str (nat i)") auto
qed (simp add: int_str_def)

lemma read_value_int:
  assumes "stops_int rest"
  shows "read_value (Suc fuel) (int_str i @ rest) = Some (JInt i, rest)"
proof -
  obtain c ds where c: "int_str i = c # ds" "c = CHR ''-'' \<or> is_digit c" using int_str_head by blast
  then have "c \<noteq> CHR ''n''" "c \<noteq> CHR ''t''" "c \<noteq> CHR ''f''" "c \<noteq> CHR 0x22" "c \<noteq> CHR ''[''" "c \<noteq> CHR ''{''"
    by (auto simp: is_digit_def)
  with c(1) read_int_str [OF assms, of i] show ?thesis by simp
qed

lemma join_with_Cons: "join_with sep (x # xs) = (if xs = [] then x else x @ sep @ join_with sep xs)"
  by (cases xs) simp_all

lemma jwrite_list_Nil [simp]: "jwrite_list vs = [] \<longleftrightarrow> vs = []"
  by (cases vs) simp_all

lemma jwrite_items_Nil [simp]: "jwrite_items kvs = [] \<longleftrightarrow> kvs = []"
  by (cases kvs) auto

lemma jwrite_head: "\<exists>c ds. jwrite v = c # ds \<and> c \<noteq> CHR '']'' \<and> c \<noteq> CHR ''}''"
proof (cases v)
  case (JInt i)
  with int_str_head [of i] show ?thesis by (auto simp: is_digit_def)
qed (auto simp: quoted_def)

lemma take_head: "xs \<noteq> [] \<Longrightarrow> hd xs \<noteq> c \<Longrightarrow> take 1 (xs @ ys) \<noteq> [c]"
  by (cases xs) auto

lemma read_written:
  "jvalid v \<Longrightarrow> stops_int rest \<Longrightarrow> 2 * length (jwrite v) \<le> fuel \<Longrightarrow>
     read_value (Suc fuel) (jwrite v @ rest) = Some (v, rest)"
  "list_all jvalid vs \<Longrightarrow> vs \<noteq> [] \<Longrightarrow> 2 * length (join_with '','' (jwrite_list vs)) + 2 \<le> fuel \<Longrightarrow>
     read_list fuel (join_with '','' (jwrite_list vs) @ CHR '']'' # rest) = Some (vs, rest)"
  "jvalid_items kvs \<Longrightarrow> kvs \<noteq> [] \<Longrightarrow> 2 * length (join_with '','' (jwrite_items kvs)) + 2 \<le> fuel \<Longrightarrow>
     read_items fuel (join_with '','' (jwrite_items kvs) @ CHR ''}'' # rest) = Some (kvs, rest)"
proof (induction v and vs and kvs arbitrary: fuel rest and fuel rest and fuel rest
    rule: jwrite_jwrite_list_jwrite_items.induct)
  case (3 i)
  then show ?case by (simp only: jwrite.simps read_value_int)
next
  case (4 s)
  then have "length s < fuel" using length_quoted [of s] by simp
  then show ?case by (simp only: jwrite.simps read_quoted)
next
  case (5 vs)
  show ?case
  proof (cases "vs = []")
    case False
    let ?t = "join_with '','' (jwrite_list vs)"
    obtain v ws where vs: "vs = v # ws" using False by (cases vs) auto
    obtain c ds where c: "jwrite v = c # ds" "c \<noteq> CHR '']''" using jwrite_head by blast
    then have "take 1 (?t @ CHR '']'' # rest) \<noteq> '']''" by (simp add: vs join_with_Cons)
    moreover have "read_list fuel (?t @ CHR '']'' # rest) = Some (vs, rest)"
      using 5 False by (intro "5.IH") auto
    ultimately show ?thesis by simp
  qed simp
next
  case (6 kvs)
  show ?case
  proof (cases "kvs = []")
    case False
    let ?t = "join_with '','' (jwrite_items kvs)"
    obtain k v ws where kvs: "kvs = (k, v) # ws" using False by (cases kvs) auto
    have "take 1 (?t @ CHR ''}'' # rest) \<noteq> ''}''" by (simp add: kvs join_with_Cons quoted_def)
    moreover have "read_items fuel (?t @ CHR ''}'' # rest) = Some (kvs, rest)"
      using 6 False by (intro "6.IH") auto
    moreover have "dict_of kvs = kvs" using 6 by (simp add: dict_of_distinct)
    ultimately show ?thesis by simp
  qed (simp add: dict_of_def)
next
  case (8 v vs)
  then obtain f where f: "fuel = Suc (Suc f)" by (cases fuel; cases "fuel - 1") auto
  show ?case
  proof (cases "vs = []")
    case True
    with 8 f have "read_value (Suc f) (jwrite v @ CHR '']'' # rest) = Some (v, CHR '']'' # rest)"
      by (intro "8.IH"(1)) auto
    with True f show ?thesis by simp
  next
    case False
    have v: "read_value (Suc f) (jwrite v @ CHR '','' # join_with '','' (jwrite_list vs) @ CHR '']'' # rest) =
        Some (v, CHR '','' # join_with '','' (jwrite_list vs) @ CHR '']'' # rest)"
      using 8 f False by (intro "8.IH"(1)) (auto simp: join_with_Cons)
    have "read_list (Suc f) (join_with '','' (jwrite_list vs) @ CHR '']'' # rest) = Some (vs, rest)"
      using 8 f False by (intro "8.IH"(2)) (auto simp: join_with_Cons)
    with v f False show ?thesis by (simp add: join_with_Cons)
  qed
next
  case (10 k v kvs)
  then obtain f where f: "fuel = Suc (Suc (Suc f))" by (cases fuel; cases "fuel - 1"; cases "fuel - 2") (auto simp: quoted_def join_with_Cons split: if_splits)
  let ?q = "concat (map escape_char k) @ [CHR 0x22]"
  have len: "length (quoted k) + length (jwrite v) + 1 \<le> length (join_with '','' (jwrite_items ((k, v) # kvs)))"
    by (simp add: join_with_Cons)
  have item: "read_item (Suc (Suc f)) (quoted k @ CHR '':'' # jwrite v @ more) = Some ((k, v), more)" if "stops_int more" for more
  proof -
    have "length k < Suc f" using len length_quoted [of k] "10.prems"(3) f by simp
    then have "read_string (Suc f) (concat (map escape_char k) @ CHR 0x22 # CHR '':'' # jwrite v @ more) =
        Some (k, CHR '':'' # jwrite v @ more)" by (rule read_string_quoted)
    moreover have "read_value (Suc f) (jwrite v @ more) = Some (v, more)"
      using len length_quoted [of k] 10 f that by (intro "10.IH"(1)) auto
    ultimately show ?thesis by (simp add: quoted_def)
  qed
  show ?case
  proof (cases "kvs = []")
    case True
    with item [of "CHR ''}'' # rest"] f show ?thesis by simp
  next
    case False
    have "read_items (Suc (Suc f)) (join_with '','' (jwrite_items kvs) @ CHR ''}'' # rest) = Some (kvs, rest)"
      using 10 f False by (intro "10.IH"(2)) (auto simp: join_with_Cons)
    with item [of "CHR '','' # join_with '','' (jwrite_items kvs) @ CHR ''}'' # rest"] f False
    show ?thesis by (simp add: join_with_Cons)
  qed
qed simp_all

text \<open>Sorting the items of every object.\<close>

lemma jsort_items_map: "jsort_items items = map (\<lambda>(k, v). (k, jsort v)) items"
  by (induction items) auto

lemma jvalid_items_iff: "jvalid_items items \<longleftrightarrow> (\<forall>kv\<in>set items. jvalid (snd kv))"
  by (induction items) auto

lemma fst_jsort_items: "map fst (jsort_items items) = map fst items"
  by (simp add: jsort_items_map case_prod_beta)

lemma jvalid_jsort: "jvalid v \<Longrightarrow> jvalid (jsort v)" "jvalid_items items \<Longrightarrow> jvalid_items (jsort_items items)"
proof (induction v and items rule: jvalid_jvalid_items.induct)
  case (2 items)
  then have "distinct (map fst (sort_key fst (jsort_items items)))"
    by (simp add: distinct_map fst_jsort_items) (metis distinct_map fst_jsort_items)
  with 2 show ?case by (simp add: jvalid_items_iff)
qed (auto simp: list_all_iff)

lemma jsort_idem: "jsort (jsort v) = jsort v" "jsort_items (jsort_items items) = jsort_items items"
proof (induction v and items rule: jsort_jsort_items.induct)
  case (2 items)
  have "jsort_items (sort_key fst (jsort_items items)) = sort_key fst (jsort_items items)"
  proof -
    have "\<forall>kv\<in>set (jsort_items items). jsort (snd kv) = snd kv"
      using 2 by (auto simp: jsort_items_map)
    then have "map (\<lambda>(k, v). (k, jsort v)) (sort_key fst (jsort_items items)) = sort_key fst (jsort_items items)"
      by (intro map_idI) auto
    then show ?thesis by (simp only: jsort_items_map)
  qed
  then show ?case by (simp add: sort_key_id_if_sorted)
qed auto

lemma json_loads_dumps:
  assumes "jvalid v"
  shows "json_loads (json_dumps v) = Some (jsort v)"
  using read_written(1) [OF jvalid_jsort(1) [OF assms], of "[]" "2 * length (json_dumps v)"]
  by (simp add: json_loads_def json_dumps_def)

lemma decode_encode_text [simp]: "decode_text (encode_text s) = s"
proof -
  have "char_of (unat (of_char c :: 8 word)) = c" for c
  proof -
    have "unat (of_nat (of_char c) :: 8 word) = (of_char c :: nat)"
      by (simp add: unsigned_of_nat take_bit_nat_eq_self_iff)
    then have "unat (of_char c :: 8 word) = (of_char c :: nat)" by (simp add: of_nat_of_char)
    then show ?thesis by simp
  qed
  then show ?thesis by (simp add: decode_text_def encode_text_def comp_def)
qed

lemma canonical_json_nonempty: "canonical_json_bytes v \<noteq> []"
  using jwrite_head [of "jsort v"] by (auto simp: canonical_json_bytes_def json_dumps_def encode_text_def)

lemma canonical_jsort [simp]: "canonical_json_bytes (jsort v) = canonical_json_bytes v"
  by (simp add: canonical_json_bytes_def json_dumps_def jsort_idem)

text \<open>The round trip; equality of dictionaries does not depend on the order of their items.\<close>

lemma decode_canonical: "jvalid v \<Longrightarrow> decode_canonical_json (canonical_json_bytes v) = Some (jsort v)"
  using canonical_json_nonempty [of v] json_loads_dumps [of v]
    decode_encode_text [of "json_dumps v", folded canonical_json_bytes_def]
  by (simp add: decode_canonical_json_def)

text \<open>Only one byte sequence decodes to a given value.\<close>

lemma decode_canonical_unique: "decode_canonical_json payload = Some v \<Longrightarrow> payload = canonical_json_bytes v"
  by (auto simp: decode_canonical_json_def split: option.splits if_splits)

text \<open>What is read is a value whose dictionaries have distinct keys.\<close>

lemma set_setitem: "kv \<in> set (setitem k v d) \<Longrightarrow> kv = (k, v) \<or> kv \<in> set d"
  by (induction d) (auto split: if_splits)

lemma dict_of_jvalid:
  assumes "\<forall>kv\<in>set items. jvalid (snd kv)"
  shows "jvalid (JObj (dict_of items))"
proof -
  have "distinct (map fst (fold (\<lambda>(k, v) d. setitem k v d) items d)) \<and>
      (\<forall>kv\<in>set (fold (\<lambda>(k, v) d. setitem k v d) items d). jvalid (snd kv))"
    if "distinct (map fst d)" "\<forall>kv\<in>set d. jvalid (snd kv)" for d :: "jval dict"
    using that assms
  proof (induction items arbitrary: d)
    case (Cons kv items)
    obtain k v where kv: "kv = (k, v)" by (cases kv)
    have "distinct (map fst (setitem k v d))" using Cons.prems(1) by (simp add: distinct_update)
    moreover have "\<forall>kv\<in>set (setitem k v d). jvalid (snd kv)"
      using Cons.prems kv set_setitem [of _ k v d] by fastforce
    ultimately show ?case using Cons.IH [of "setitem k v d"] Cons.prems(3) kv by simp
  qed simp
  from this [of "[]"] show ?thesis by (simp add: dict_of_def jvalid_items_iff)
qed

lemma read_jvalid:
  "read_value fuel cs = Some (v, rest) \<Longrightarrow> jvalid v"
  "read_list fuel cs = Some (vs, rest) \<Longrightarrow> list_all jvalid vs"
  "read_items fuel cs = Some (kvs, rest) \<Longrightarrow> \<forall>kv\<in>set kvs. jvalid (snd kv)"
  "read_item fuel cs = Some (kv, rest) \<Longrightarrow> jvalid (snd kv)"
proof (induction fuel cs and fuel cs and fuel cs and fuel cs arbitrary: v rest and vs rest and kvs rest and kv rest
    rule: read_value_read_list_read_items_read_item.induct)
  case (2 fuel cs)
  show ?case
  proof (cases cs)
    case (Cons c ds)
    with 2 show ?thesis by (auto split: if_splits simp: dict_of_jvalid simp del: jvalid.simps(2)) simp
  qed (use 2 in simp)
qed (fastforce split: option.splits list.splits if_splits)+

lemma loaded_jvalid: "json_loads cs = Some v \<Longrightarrow> jvalid v"
  unfolding json_loads_def
  by (cases "read_value (Suc (2 * length cs)) cs")
    (auto simp del: read_value.simps split: list.splits dest: read_jvalid(1))

lemma decoded_jvalid: "decode_canonical_json payload = Some v \<Longrightarrow> jvalid v"
  by (auto simp: decode_canonical_json_def split: if_splits option.splits dest: loaded_jvalid)

end
