(* ===== verification/Proto_Transport.thy ===== *)
theory Proto_Transport
  imports Proto_Json Sim_Events
begin

section \<open>Framed transport\<close>

text \<open>
  \<open>prototype/c8_wire_contract.py\<close> and \<open>prototype/c8_transport.py\<close>: message envelopes, frames with a
  four-byte length, and the receiving side of a socket. A socket is the sequence of what its calls
  of \<open>recv\<close> will find; timeouts are only observed as one of the outcomes of \<open>recv\<close>.
\<close>

subsection \<open>The wire contract\<close>

definition C8_MAX_FRAME_BYTES :: nat where
  "C8_MAX_FRAME_BYTES = 1048576"

definition C8_MESSAGE_ENVELOPE_FIELDS :: "string list" where
  "C8_MESSAGE_ENVELOPE_FIELDS =
     [''schema'', ''message_id'', ''message_kind'', ''sender_role'', ''receiver_role'', ''subject_type'',
      ''subject_id'', ''payload_schema'', ''payload'', ''send_monotonic_ns'']"

datatype C8WireRole = CONTROL_PLANE_AUTHORITY | WORKER | FAULT_TRANSPORT_HARNESS

fun role_value :: "C8WireRole \<Rightarrow> string" where
  "role_value CONTROL_PLANE_AUTHORITY = ''CONTROL_PLANE_AUTHORITY''"
| "role_value WORKER = ''WORKER''"
| "role_value FAULT_TRANSPORT_HARNESS = ''FAULT_TRANSPORT_HARNESS''"

definition role_values :: "string list" where
  "role_values = map role_value [CONTROL_PLANE_AUTHORITY, WORKER, FAULT_TRANSPORT_HARNESS]"

definition MESSAGE_SCHEMA :: string where
  "MESSAGE_SCHEMA = ''cadi.c8.2.message-envelope.v1''"

definition MESSAGE_KINDS :: "string list" where
  "MESSAGE_KINDS =
     [''REGISTER'', ''REGISTERED'', ''WORK'', ''COMPLETE'', ''PROCESS_FAILURE'', ''SHUTDOWN'', ''SHUTDOWN_ACK'']"

definition HEADER_BYTES :: nat where
  "HEADER_BYTES = 4"

subsection \<open>Errors\<close>

text \<open>The exception classes of the module, and the built-in ones it raises.\<close>

datatype transport_error =
    FrameSizeError
  | TruncatedFrameError
  | ConnectionClosedError
  | FrameTimeoutError
  | CanonicalEncodingError
  | EnvelopeValidationError
  | BuiltinError py_error

type_synonym 'a tres = "transport_error + 'a"

definition bind_t :: "'a tres \<Rightarrow> ('a \<Rightarrow> 'b tres) \<Rightarrow> 'b tres" where
  "bind_t m k = (case m of Inl e \<Rightarrow> Inl e | Inr x \<Rightarrow> k x)"

definition fail_if :: "bool \<Rightarrow> transport_error \<Rightarrow> unit tres" where
  "fail_if c e = (if c then Inl e else Inr ())"

lemma bind_t_simps [simp]: "bind_t (Inl e) k = Inl e" "bind_t (Inr x) k = k x"
  by (simp_all add: bind_t_def)

lemma fail_if_simps [simp]: "fail_if True e = Inl e" "fail_if False e = Inr ()"
  by (simp_all add: fail_if_def)

lemma bind_t_Inr: "bind_t m k = Inr y \<longleftrightarrow> (\<exists>x. m = Inr x \<and> k x = Inr y)"
  by (cases m) auto

lemma bind_t_Inl: "bind_t m k = Inl e \<longleftrightarrow> m = Inl e \<or> (\<exists>x. m = Inr x \<and> k x = Inl e)"
  by (cases m) auto

lemma fail_if_Inr [simp]: "fail_if c e = Inr u \<longleftrightarrow> \<not> c"
  by (simp add: fail_if_def)

lemma fail_if_Inl [simp]: "fail_if c e = Inl e' \<longleftrightarrow> c \<and> e' = e"
  by (auto simp: fail_if_def)

text \<open>\<open>TruncatedFrameError\<close> and its two subclasses, which an \<open>except\<close> clause catches together.\<close>

definition is_truncated :: "transport_error \<Rightarrow> bool" where
  "is_truncated e \<longleftrightarrow> e = TruncatedFrameError \<or> e = ConnectionClosedError \<or> e = FrameTimeoutError"

subsection \<open>Envelopes\<close>

definition field :: "jval dict \<Rightarrow> string \<Rightarrow> jval" where
  "field d k = (case map_of d k of None \<Rightarrow> JNull | Some v \<Rightarrow> v)"

definition nonempty_str :: "jval \<Rightarrow> bool" where
  "nonempty_str v = (case v of JStr s \<Rightarrow> s \<noteq> '''' | _ \<Rightarrow> False)"

text \<open>\<open>value not in S\<close> for a set of strings: a list or a dictionary cannot be hashed.\<close>

definition not_in_set :: "jval \<Rightarrow> string list \<Rightarrow> bool tres" where
  "not_in_set v S =
     (case v of JStr s \<Rightarrow> Inr (s \<notin> set S)
      | JList _ \<Rightarrow> Inl (BuiltinError TypeError) | JObj _ \<Rightarrow> Inl (BuiltinError TypeError) | _ \<Rightarrow> Inr True)"

definition validate_envelope :: "jval \<Rightarrow> jval dict tres" where
  "validate_envelope v =
     (case v of
        JObj d \<Rightarrow>
          bind_t (fail_if (\<not> same_set (keys_of d) C8_MESSAGE_ENVELOPE_FIELDS) EnvelopeValidationError) (\<lambda>_.
          bind_t (fail_if (field d ''schema'' \<noteq> JStr MESSAGE_SCHEMA) EnvelopeValidationError) (\<lambda>_.
          bind_t (fail_if (\<not> list_all (\<lambda>f. nonempty_str (field d f))
                    [''message_id'', ''subject_type'', ''subject_id'', ''payload_schema'']) EnvelopeValidationError) (\<lambda>_.
          bind_t (not_in_set (field d ''message_kind'') MESSAGE_KINDS) (\<lambda>bad_kind.
          bind_t (fail_if bad_kind EnvelopeValidationError) (\<lambda>_.
          bind_t (not_in_set (field d ''sender_role'') role_values) (\<lambda>bad_sender.
          bind_t (if bad_sender then Inr True else not_in_set (field d ''receiver_role'') role_values) (\<lambda>bad_role.
          bind_t (fail_if bad_role EnvelopeValidationError) (\<lambda>_.
          bind_t (fail_if (case field d ''payload'' of JObj _ \<Rightarrow> False | _ \<Rightarrow> True) EnvelopeValidationError) (\<lambda>_.
          bind_t (fail_if (case field d ''send_monotonic_ns'' of JInt n \<Rightarrow> n < 0 | _ \<Rightarrow> True) EnvelopeValidationError) (\<lambda>_.
          Inr d))))))))))
      | _ \<Rightarrow> Inl EnvelopeValidationError)"

text \<open>The roles are passed by their values; the reading of the clock is an argument.\<close>

definition make_envelope ::
    "string \<Rightarrow> string \<Rightarrow> string \<Rightarrow> string \<Rightarrow> string \<Rightarrow> string \<Rightarrow> string \<Rightarrow> jval dict \<Rightarrow> int \<Rightarrow> jval dict tres" where
  "make_envelope message_id kind sender receiver subject_type subject_id payload_schema payload clock =
     validate_envelope (JObj
       [(''schema'', JStr MESSAGE_SCHEMA), (''message_id'', JStr message_id), (''message_kind'', JStr kind),
        (''sender_role'', JStr sender), (''receiver_role'', JStr receiver),
        (''subject_type'', JStr subject_type), (''subject_id'', JStr subject_id),
        (''payload_schema'', JStr payload_schema), (''payload'', JObj payload),
        (''send_monotonic_ns'', JInt clock)])"

subsection \<open>Frames\<close>

text \<open>\<open>struct.Struct(">I")\<close>: four bytes, the most significant first.\<close>

definition header_pack :: "32 word \<Rightarrow> bytes" where
  "header_pack w = [ucast (drop_bit 24 w), ucast (drop_bit 16 w), ucast (drop_bit 8 w), ucast w]"

fun header_unpack :: "bytes \<Rightarrow> 32 word" where
  "header_unpack [a, b, c, d] =
     or (push_bit 24 (ucast a)) (or (push_bit 16 (ucast b)) (or (push_bit 8 (ucast c)) (ucast d)))"
| "header_unpack _ = 0"

definition encode_frame :: "jval dict \<Rightarrow> bytes tres" where
  "encode_frame envelope =
     bind_t (validate_envelope (JObj envelope)) (\<lambda>validated.
     let payload = canonical_json_bytes (JObj validated); n = length payload in
     if n \<le> 0 \<or> n > C8_MAX_FRAME_BYTES then Inl FrameSizeError
     else Inr (header_pack (of_nat n) @ payload))"

definition decode_value :: "bytes \<Rightarrow> jval tres" where
  "decode_value payload =
     (case decode_canonical_json payload of None \<Rightarrow> Inl CanonicalEncodingError | Some v \<Rightarrow> Inr v)"

definition decode_frame_bytes :: "bytes \<Rightarrow> jval dict tres" where
  "decode_frame_bytes frame =
     (if length frame < HEADER_BYTES then Inl TruncatedFrameError
      else
        let n = unat (header_unpack (take HEADER_BYTES frame)) in
        if n \<le> 0 \<or> n > C8_MAX_FRAME_BYTES then Inl FrameSizeError
        else if length frame \<noteq> HEADER_BYTES + n then Inl TruncatedFrameError
        else bind_t (decode_value (drop HEADER_BYTES frame)) validate_envelope)"

definition validated_timeout :: "pyval \<Rightarrow> pyfloat tres" where
  "validated_timeout v =
     (case v of
        PInt i \<Rightarrow> if i \<le> 0 then Inl (BuiltinError ValueError) else Inr (Fin (of_int i))
      | PFloat x \<Rightarrow>
          (case x of Fin r \<Rightarrow> if r \<le> 0 then Inl (BuiltinError ValueError) else Inr x
           | NegInf \<Rightarrow> Inl (BuiltinError ValueError) | _ \<Rightarrow> Inr x)
      | _ \<Rightarrow> Inl (BuiltinError TypeError))"

subsection \<open>Receiving\<close>

text \<open>
  What a call of \<open>recv\<close> finds: bytes that have arrived, the end of the stream, a reset connection,
  or nothing until the timeout. \<open>recv(n)\<close> takes at most \<open>n\<close> bytes and leaves the rest; with nothing
  more to come it times out.
\<close>

datatype recv_event = Arrived bytes | EndOfStream | Reset | TimedOut

function recv_exact :: "nat \<Rightarrow> recv_event list \<Rightarrow> bytes tres \<times> recv_event list" where
  "recv_exact 0 evs = (Inr [], evs)"
| "recv_exact (Suc n) [] = (Inl FrameTimeoutError, [])"
| "recv_exact (Suc n) (TimedOut # evs) = (Inl FrameTimeoutError, evs)"
| "recv_exact (Suc n) (Reset # evs) = (Inl ConnectionClosedError, evs)"
| "recv_exact (Suc n) (EndOfStream # evs) = (Inl TruncatedFrameError, evs)"
| "recv_exact (Suc n) (Arrived bs # evs) =
     (if bs = [] then (Inl TruncatedFrameError, evs)
      else
        let chunk = take (Suc n) bs; left = drop (Suc n) bs in
        case recv_exact (Suc n - length chunk) (if left = [] then evs else Arrived left # evs) of
          (Inl e, rest) \<Rightarrow> (Inl e, rest)
        | (Inr tail_bytes, rest) \<Rightarrow> (Inr (chunk @ tail_bytes), rest))"
  by pat_completeness auto
termination by (relation "measure fst") auto

definition recv_envelope :: "recv_event list \<Rightarrow> jval dict tres \<times> recv_event list" where
  "recv_envelope sock =
     (case recv_exact HEADER_BYTES sock of
        (Inl e, s1) \<Rightarrow> (Inl e, s1)
      | (Inr header, s1) \<Rightarrow>
          let n = unat (header_unpack header) in
          if n \<le> 0 \<or> n > C8_MAX_FRAME_BYTES then (Inl FrameSizeError, s1)
          else
            (case recv_exact n s1 of
               (Inl e, s2) \<Rightarrow> (Inl e, s2)
             | (Inr payload, s2) \<Rightarrow> (bind_t (decode_value payload) validate_envelope, s2)))"

subsection \<open>Lemmas\<close>

lemma header_unpack_pack: "header_unpack (header_pack w) = w"
proof (rule bit_word_eqI)
  fix n
  assume "n < LENGTH(32)"
  then consider "n < 8" | "8 \<le> n" "n < 16" | "16 \<le> n" "n < 24" | "24 \<le> n" "n < 32" by fastforce
  then show "bit (header_unpack (header_pack w)) n = bit w n"
    by cases (auto simp: header_pack_def bit_simps)
qed

lemma length_header_pack [simp]: "length (header_pack w) = 4"
  by (simp add: header_pack_def)

lemma unat_frame_length:
  assumes "n \<le> C8_MAX_FRAME_BYTES"
  shows "unat (of_nat n :: 32 word) = n"
proof -
  have "n < 2 ^ 32" using assms by (simp add: C8_MAX_FRAME_BYTES_def)
  then show ?thesis by (simp add: unsigned_of_nat take_bit_nat_eq_self_iff)
qed

text \<open>What the validation accepts, as one condition on the fields.\<close>

definition envelope_ok :: "jval dict \<Rightarrow> bool" where
  "envelope_ok d \<longleftrightarrow>
     set (keys_of d) = set C8_MESSAGE_ENVELOPE_FIELDS \<and> field d ''schema'' = JStr MESSAGE_SCHEMA \<and>
     (\<forall>f\<in>{''message_id'', ''subject_type'', ''subject_id'', ''payload_schema''}. nonempty_str (field d f)) \<and>
     (\<exists>k\<in>set MESSAGE_KINDS. field d ''message_kind'' = JStr k) \<and>
     (\<exists>r\<in>set role_values. field d ''sender_role'' = JStr r) \<and>
     (\<exists>r\<in>set role_values. field d ''receiver_role'' = JStr r) \<and>
     (\<exists>p. field d ''payload'' = JObj p) \<and> (\<exists>n\<ge>0. field d ''send_monotonic_ns'' = JInt n)"

lemma not_in_set_JStr: "not_in_set (JStr s) S = Inr (s \<notin> set S)"
  by (simp add: not_in_set_def)

lemma not_in_set_Inr_False: "not_in_set v S = Inr False \<longleftrightarrow> (\<exists>s\<in>set S. v = JStr s)"
  by (cases v) (auto simp: not_in_set_def)

lemma validate_envelope_sound: "validate_envelope v = Inr d \<Longrightarrow> v = JObj d \<and> envelope_ok d"
  by (cases v) (auto simp: validate_envelope_def bind_t_Inr same_set_iff envelope_ok_def not_in_set_Inr_False
        split: jval.splits if_splits)

lemma validate_envelope_complete:
  assumes "envelope_ok d"
  shows "validate_envelope (JObj d) = Inr d"
proof -
  from assms obtain k s r p n where d:
    "field d ''message_kind'' = JStr k" "k \<in> set MESSAGE_KINDS"
    "field d ''sender_role'' = JStr s" "s \<in> set role_values"
    "field d ''receiver_role'' = JStr r" "r \<in> set role_values"
    "field d ''payload'' = JObj p" "field d ''send_monotonic_ns'' = JInt n" "0 \<le> n"
    unfolding envelope_ok_def by blast
  show ?thesis
    using assms unfolding validate_envelope_def envelope_ok_def
    by (simp add: d not_in_set_JStr same_set_iff linorder_not_less [THEN iffD2])
qed

lemma validate_envelope_iff: "validate_envelope v = Inr d \<longleftrightarrow> v = JObj d \<and> envelope_ok d"
  using validate_envelope_sound validate_envelope_complete by blast

lemma envelope_okD:
  assumes "envelope_ok d"
  obtains kind sender receiver payload where
    "field d ''message_kind'' = JStr kind" "kind \<in> set MESSAGE_KINDS"
    "field d ''sender_role'' = JStr sender" "sender \<in> set role_values"
    "field d ''receiver_role'' = JStr receiver" "receiver \<in> set role_values"
    "field d ''payload'' = JObj payload" "nonempty_str (field d ''subject_id'')"
    "nonempty_str (field d ''message_id'')" "nonempty_str (field d ''subject_type'')"
  using assms by (auto simp: envelope_ok_def)

definition sorted_envelope :: "jval dict \<Rightarrow> jval dict" where
  "sorted_envelope d = sort_key fst (jsort_items d)"

lemma jsort_JObj: "jsort (JObj d) = JObj (sorted_envelope d)"
  by (simp add: sorted_envelope_def)

lemma keys_sorted_envelope: "set (keys_of (sorted_envelope d)) = set (keys_of d)"
  by (simp add: sorted_envelope_def keys_of_def jsort_items_map case_prod_beta image_image)

lemma map_of_jsort_items: "map_of (jsort_items d) k = map_option jsort (map_of d k)"
  by (induction d) auto

lemma field_sorted_envelope:
  assumes "distinct (keys_of d)"
  shows "field (sorted_envelope d) k = jsort (field d k)"
proof -
  have dist: "distinct (map fst (jsort_items d))" using assms by (simp add: fst_jsort_items keys_of_def)
  have "distinct (map fst (sort_key fst (jsort_items d)))"
    using jvalid_jsort(1) dist by (simp add: distinct_map)
  then have "map_of (sorted_envelope d) = map_of (jsort_items d)"
    unfolding sorted_envelope_def using dist by (intro map_of_eqI) (auto simp: map_of_eq_Some_iff)
  then show ?thesis by (simp add: field_def map_of_jsort_items split: option.splits)
qed

lemma nonempty_str_jsort [simp]: "nonempty_str (jsort v) = nonempty_str v"
  by (cases v) (simp_all add: nonempty_str_def)

lemma envelope_ok_sorted:
  assumes "envelope_ok d" "distinct (keys_of d)"
  shows "envelope_ok (sorted_envelope d)"
  using assms(1)
  unfolding envelope_ok_def keys_sorted_envelope field_sorted_envelope [OF assms(2)] by auto

text \<open>A frame holds the canonical bytes of a valid envelope after their number.\<close>

lemma encode_frame_Inr:
  assumes "encode_frame env = Inr frame"
  obtains payload where "envelope_ok env" "payload = canonical_json_bytes (JObj env)"
    "payload \<noteq> []" "length payload \<le> C8_MAX_FRAME_BYTES"
    "frame = header_pack (of_nat (length payload)) @ payload"
  using assms by (auto simp: encode_frame_def bind_t_Inr validate_envelope_iff Let_def split: if_splits)

lemma decode_written:
  assumes "envelope_ok env" "jvalid (JObj env)"
  shows "bind_t (decode_value (canonical_json_bytes (JObj env))) validate_envelope = Inr (sorted_envelope env)"
proof -
  have "envelope_ok (sorted_envelope env)"
    using assms by (intro envelope_ok_sorted) (auto simp: keys_of_def)
  then show ?thesis
    using decode_canonical [OF assms(2)]
    by (simp add: decode_value_def jsort_JObj validate_envelope_iff del: jsort.simps)
qed

lemma frame_header:
  assumes "length payload \<le> C8_MAX_FRAME_BYTES"
  shows "unat (header_unpack (header_pack (of_nat (length payload)))) = length payload"
  using assms by (simp add: header_unpack_pack unat_frame_length)

lemma decode_encode_frame:
  assumes "encode_frame env = Inr frame" "jvalid (JObj env)"
  shows "decode_frame_bytes frame = Inr (sorted_envelope env)"
  using assms(1)
proof (cases rule: encode_frame_Inr)
  case (1 payload)
  have head: "take HEADER_BYTES frame = header_pack (of_nat (length payload))"
    and body: "drop HEADER_BYTES frame = payload" and len: "length frame = HEADER_BYTES + length payload"
    using 1(5) by (simp_all add: HEADER_BYTES_def)
  have "\<not> length frame < HEADER_BYTES" "\<not> length payload \<le> 0" "\<not> C8_MAX_FRAME_BYTES < length payload"
    using 1 len by auto
  then show ?thesis
    unfolding decode_frame_bytes_def head body len frame_header [OF 1(4)] Let_def
    using decode_written [OF 1(1) assms(2)] 1(2) by simp
qed

text \<open>A frame is accepted only when it is the frame of what it decodes to.\<close>

lemma header_pack_unpack: "length h = 4 \<Longrightarrow> header_pack (header_unpack h) = h"
proof -
  assume "length h = 4"
  then obtain a b c d where h: "h = [a, b, c, d]"
    by (auto simp: length_Suc_conv numeral_eq_Suc)
  have none: "\<not> bit x (8 + n)" "\<not> bit x (16 + n)" "\<not> bit x (24 + n)" for x :: "8 word" and n
    using bit_imp_le_length [of x] by fastforce+
  show ?thesis unfolding h by (auto simp: header_pack_def bit_simps none intro!: bit_word_eqI)
qed

lemma decode_frame_unique:
  assumes "decode_frame_bytes frame = Inr env"
  shows "encode_frame env = Inr frame"
proof -
  let ?h = "take HEADER_BYTES frame" and ?p = "drop HEADER_BYTES frame"
  from assms have len: "length frame = HEADER_BYTES + unat (header_unpack ?h)"
    and pos: "0 < unat (header_unpack ?h)" "unat (header_unpack ?h) \<le> C8_MAX_FRAME_BYTES"
    and val: "decode_canonical_json ?p = Some (JObj env)" and ok: "envelope_ok env"
    by (auto simp: decode_frame_bytes_def decode_value_def Let_def bind_t_Inr validate_envelope_iff
        split: if_splits option.splits)
  from len have lp: "length ?p = unat (header_unpack ?h)" by simp
  have h4: "length ?h = 4" using len by (simp add: HEADER_BYTES_def)
  have "header_pack (of_nat (length ?p)) = ?h"
    unfolding lp using header_pack_unpack [OF h4] by simp
  moreover have "canonical_json_bytes (JObj env) = ?p" using decode_canonical_unique [OF val] by simp
  ultimately show ?thesis
    using pos ok lp by (simp add: encode_frame_def validate_envelope_iff [THEN iffD2] Let_def)
qed

subsection \<open>Receiving from a segmented stream\<close>

text \<open>\<open>segs\<close> are the pieces in which the bytes arrive; none is empty.\<close>

lemma recv_exact_segments:
  assumes "[] \<notin> set segs" "n \<le> length (concat segs)"
  shows "\<exists>segs'. recv_exact n (map Arrived segs @ evs) =
      (Inr (take n (concat segs)), map Arrived segs' @ evs) \<and>
    concat segs' = drop n (concat segs) \<and> [] \<notin> set segs'"
  using assms
proof (induction n arbitrary: segs rule: less_induct)
  case (less n)
  show ?case
  proof (cases n)
    case 0
    with less.prems show ?thesis by auto
  next
    case (Suc m)
    with less.prems obtain bs rest where segs: "segs = bs # rest" and bs: "bs \<noteq> []"
      by (cases segs) auto
    let ?left = "drop n bs" let ?segs = "if ?left = [] then rest else ?left # rest"
    have split: "concat ?segs = drop n bs @ concat rest" by simp
    have "n - length (take n bs) < n" using bs Suc by (cases bs) auto
    moreover have "[] \<notin> set ?segs" using less.prems segs by auto
    moreover have "n - length (take n bs) \<le> length (concat ?segs)"
      using less.prems(2) unfolding split segs by auto
    ultimately obtain segs' where
      got: "recv_exact (n - length (take n bs)) (map Arrived ?segs @ evs) =
         (Inr (take (n - length (take n bs)) (concat ?segs)), map Arrived segs' @ evs)"
      and left: "concat segs' = drop (n - length (take n bs)) (concat ?segs)" "[] \<notin> set segs'"
      using less.IH by blast
    have "map Arrived ?segs @ evs = (if ?left = [] then map Arrived rest @ evs else Arrived ?left # map Arrived rest @ evs)"
      by simp
    with got have "recv_exact n (map Arrived segs @ evs) =
        (Inr (take n bs @ take (n - length (take n bs)) (concat ?segs)), map Arrived segs' @ evs)"
      using bs unfolding segs Suc by (simp add: Let_def)
    moreover have "take n bs @ take (n - length (take n bs)) (concat ?segs) = take n (concat segs)"
      unfolding split segs by (cases "n \<le> length bs") auto
    moreover have "concat segs' = drop n (concat segs)"
      unfolding left split segs by (cases "n \<le> length bs") auto
    ultimately show ?thesis using left(2) by auto
  qed
qed

lemma recv_exact_truncated:
  assumes "[] \<notin> set segs" "length (concat segs) < n"
  shows "recv_exact n (map Arrived segs @ EndOfStream # evs) = (Inl TruncatedFrameError, evs)"
  using assms
proof (induction segs arbitrary: n)
  case Nil
  then obtain m where "n = Suc m" by (cases n) auto
  then show ?case by simp
next
  case (Cons bs segs)
  then obtain m where n: "n = Suc m" by (cases n) auto
  have "bs \<noteq> []" "drop n bs = []" "take n bs = bs" using Cons.prems by auto
  moreover have "recv_exact (n - length bs) (map Arrived segs @ EndOfStream # evs) = (Inl TruncatedFrameError, evs)"
    using Cons.prems by (intro Cons.IH) auto
  ultimately show ?case using Cons.prems unfolding n by (simp add: Let_def)
qed

text \<open>However a frame is cut into pieces, it is received as it was sent, and what follows it is left.\<close>

lemma receive_frame:
  assumes frame: "encode_frame env = Inr frame" "jvalid (JObj env)"
    and segs: "concat segs = frame @ later" "[] \<notin> set segs"
  shows "\<exists>segs'. recv_envelope (map Arrived segs @ evs) = (Inr (sorted_envelope env), map Arrived segs' @ evs) \<and>
    concat segs' = later \<and> [] \<notin> set segs'"
  using frame(1)
proof (cases rule: encode_frame_Inr)
  case (1 payload)
  let ?h = "header_pack (of_nat (length payload))"
  have all: "concat segs = ?h @ payload @ later" using segs 1 by simp
  obtain segs1 where head: "recv_exact HEADER_BYTES (map Arrived segs @ evs) = (Inr ?h, map Arrived segs1 @ evs)"
    and segs1: "concat segs1 = payload @ later" "[] \<notin> set segs1"
    using recv_exact_segments [OF segs(2), of HEADER_BYTES evs] unfolding all by (auto simp: HEADER_BYTES_def)
  obtain segs2 where body: "recv_exact (length payload) (map Arrived segs1 @ evs) = (Inr payload, map Arrived segs2 @ evs)"
    and segs2: "concat segs2 = later" "[] \<notin> set segs2"
    using recv_exact_segments [OF segs1(2), of "length payload" evs] unfolding segs1 by auto
  have "bind_t (decode_value payload) validate_envelope = Inr (sorted_envelope env)"
    using decode_written [OF 1(1) frame(2)] 1(2) by simp
  then have "recv_envelope (map Arrived segs @ evs) = (Inr (sorted_envelope env), map Arrived segs2 @ evs)"
    using 1(3,4) by (simp add: recv_envelope_def head frame_header body)
  with segs2 show ?thesis by blast
qed

lemma receive_cut_frame:
  assumes frame: "encode_frame env = Inr frame"
    and segs: "frame = concat segs @ missing" "missing \<noteq> []" "[] \<notin> set segs"
  shows "recv_envelope (map Arrived segs @ EndOfStream # evs) = (Inl TruncatedFrameError, evs)"
  using frame
proof (cases rule: encode_frame_Inr)
  case (1 payload)
  let ?h = "header_pack (of_nat (length payload))"
  show ?thesis
  proof (cases "length (concat segs) < HEADER_BYTES")
    case True
    then show ?thesis using recv_exact_truncated [OF segs(3)] by (simp add: recv_envelope_def)
  next
    case False
    have all: "concat segs @ missing = ?h @ payload" using segs(1) 1(5) by simp
    with False have head: "take HEADER_BYTES (concat segs) = ?h"
      by (metis HEADER_BYTES_def append_eq_append_conv_if length_header_pack linorder_not_less append_eq_conv_conj take_append diff_is_0_eq take_0 append_Nil2)
    obtain segs1 where got: "recv_exact HEADER_BYTES (map Arrived segs @ EndOfStream # evs) =
          (Inr ?h, map Arrived segs1 @ EndOfStream # evs)"
      and segs1: "concat segs1 = drop HEADER_BYTES (concat segs)" "[] \<notin> set segs1"
      using recv_exact_segments [OF segs(3), of HEADER_BYTES "EndOfStream # evs"] False unfolding head by auto
    have "length (concat segs) + length missing = 4 + length payload"
      using arg_cong [OF all, of length] by simp
    then have "length (concat segs1) < length payload"
      using False segs(2) unfolding segs1(1) by (cases missing) (auto simp: HEADER_BYTES_def)
    then have "recv_exact (length payload) (map Arrived segs1 @ EndOfStream # evs) = (Inl TruncatedFrameError, evs)"
      using recv_exact_truncated [OF segs1(2)] by blast
    then show ?thesis using 1(3,4) by (simp add: recv_envelope_def got frame_header)
  qed
qed

end
