(* ===== verification/Proto_Process.thy ===== *)
theory Proto_Process
  imports Proto_Transport
begin

section \<open>Processes of the prototype\<close>

text \<open>
  What the three processes share: \<open>prototype/c8_events.py\<close> (the event log), \<open>send_envelope\<close>, and
  the reading of the clock. The environment of a process is part of its state: \<open>pr_mono n\<close> is the
  \<open>n\<close>-th reading of the monotonic clock, and \<open>pr_fault n\<close> is the connection error, by its name, with
  which the operating system answers the \<open>n\<close>-th attempt to send, if it does (a frame that was only
  partly written counts as not sent). \<open>pr_sent\<close> are the frames that were sent.
\<close>

datatype peer = ToAuthority | ToHarness | ToWorker

record process =
  pr_role :: string
  pr_pid :: int
  pr_index :: int
  pr_events :: "jval dict list"
  pr_mono :: "nat \<Rightarrow> int"
  pr_reads :: nat
  pr_fault :: "nat \<Rightarrow> string option"
  pr_sends :: nat
  pr_sent :: "(peer \<times> bytes) list"

type_synonym ('s, 'a) tstep = "'a tres \<times> 's"

definition then_t :: "('s, 'a) tstep \<Rightarrow> ('a \<Rightarrow> 's \<Rightarrow> ('s, 'b) tstep) \<Rightarrow> ('s, 'b) tstep" where
  "then_t m k = (case m of (Inl e, s) \<Rightarrow> (Inl e, s) | (Inr x, s) \<Rightarrow> k x s)"

lemma then_t_simps [simp]: "then_t (Inl e, s) k = (Inl e, s)" "then_t (Inr x, s) k = k x s"
  by (simp_all add: then_t_def)

subsection \<open>Python values\<close>

text \<open>\<open>==\<close> of two values: a Boolean is an integer, and the order of the items of a dictionary does not count.\<close>

fun number_value :: "jval \<Rightarrow> int option" where
  "number_value (JInt i) = Some i"
| "number_value (JBool b) = Some (if b then 1 else 0)"
| "number_value v = None"

fun jeq :: "jval \<Rightarrow> jval \<Rightarrow> bool" where
  "jeq JNull w = (w = JNull)"
| "jeq (JBool b) w = (number_value w = Some (if b then 1 else 0))"
| "jeq (JInt i) w = (number_value w = Some i)"
| "jeq (JStr s) w = (w = JStr s)"
| "jeq (JList vs) w = (case w of JList ws \<Rightarrow> list_all2 jeq vs ws | _ \<Rightarrow> False)"
| "jeq (JObj d) w =
     (case w of
        JObj e \<Rightarrow> length d = length e \<and>
          list_all (\<lambda>kv. case map_of e (fst kv) of None \<Rightarrow> False | Some y \<Rightarrow> jeq (snd kv) y) d
      | _ \<Rightarrow> False)"

text \<open>\<open>isinstance(v, int)\<close>, which holds of Booleans too, and the truth value of a string or \<open>None\<close>.\<close>

definition is_int :: "jval \<Rightarrow> bool" where
  "is_int v \<longleftrightarrow> number_value v \<noteq> None"

definition positive_pid :: "jval \<Rightarrow> bool" where
  "positive_pid v = (case number_value v of None \<Rightarrow> False | Some i \<Rightarrow> 0 < i)"

text \<open>The text of an \<open>int\<close> (or of a Boolean) in an f-string.\<close>

definition int_text :: "jval \<Rightarrow> string" where
  "int_text v = (case v of JInt i \<Rightarrow> int_str i | JBool b \<Rightarrow> (if b then ''True'' else ''False'') | _ \<Rightarrow> ''None'')"

text \<open>Items of a message that has been validated.\<close>

definition str_field :: "jval dict \<Rightarrow> string \<Rightarrow> string" where
  "str_field d k = (case field d k of JStr s \<Rightarrow> s | _ \<Rightarrow> '''')"

definition obj_field :: "jval dict \<Rightarrow> string \<Rightarrow> jval dict" where
  "obj_field d k = (case field d k of JObj e \<Rightarrow> e | _ \<Rightarrow> [])"

subsection \<open>The event log\<close>

definition EVENT_SCHEMA :: string where
  "EVENT_SCHEMA = ''cadi.c8.2.process-event.v1''"

definition new_process :: "C8WireRole \<Rightarrow> int \<Rightarrow> (nat \<Rightarrow> int) \<Rightarrow> (nat \<Rightarrow> string option) \<Rightarrow> process" where
  "new_process role pid ticks fault =
     \<lparr>pr_role = role_value role, pr_pid = pid, pr_index = 0, pr_events = [], pr_mono = ticks, pr_reads = 0,
      pr_fault = fault, pr_sends = 0, pr_sent = []\<rparr>"

definition read_clock :: "'a process_scheme \<Rightarrow> int \<times> 'a process_scheme" where
  "read_clock p = (pr_mono p (pr_reads p), p\<lparr>pr_reads := pr_reads p + 1\<rparr>)"

definition subject_of :: "jval dict option \<Rightarrow> string \<Rightarrow> jval" where
  "subject_of message k = (case message of None \<Rightarrow> JNull | Some d \<Rightarrow> field d k)"

definition log_event :: "string \<Rightarrow> int \<Rightarrow> int \<Rightarrow> int \<Rightarrow> string \<Rightarrow> string \<Rightarrow> jval dict option \<Rightarrow> jval dict \<Rightarrow> jval dict" where
  "log_event role pid index clock action result message details =
     [(''schema'', JStr EVENT_SCHEMA), (''event_index'', JInt index), (''process_role'', JStr role),
      (''pid'', JInt pid), (''message_id'', subject_of message ''message_id''),
      (''message_kind'', subject_of message ''message_kind''),
      (''subject_type'', subject_of message ''subject_type''),
      (''subject_id'', subject_of message ''subject_id''), (''action'', JStr action),
      (''result'', JStr result), (''monotonic_ns'', JInt clock), (''details'', JObj details)]"

definition emit ::
    "string \<Rightarrow> string \<Rightarrow> jval dict option \<Rightarrow> jval dict \<Rightarrow> 'a process_scheme \<Rightarrow> ('a process_scheme, unit) tstep" where
  "emit action result message details p =
     (if action = '''' \<or> result = '''' then (Inl (BuiltinError ValueError), p)
      else
        let index = pr_index p + 1; (clock, p1) = read_clock (p\<lparr>pr_index := index\<rparr>);
            event = log_event (pr_role p) (pr_pid p) index clock action result message details
        in (Inr (), p1\<lparr>pr_events := pr_events p1 @ [event]\<rparr>))"

text \<open>The log file holds the events, one on each line.\<close>

definition log_text :: "jval dict list \<Rightarrow> string" where
  "log_text events = concat (map (\<lambda>e. json_dumps (JObj e) @ [CHR 0x0A]) events)"

text \<open>\<open>str.splitlines\<close> on Latin-1 text.\<close>

definition line_break :: "char \<Rightarrow> bool" where
  "line_break c \<longleftrightarrow> of_char c \<in> {10, 11, 12, 13, 28, 29, 30, 133 :: nat}"

fun splitlines :: "string \<Rightarrow> string \<Rightarrow> string list" where
  "splitlines line [] = (if line = [] then [] else [line])"
| "splitlines line (c # cs) =
     (if c = CHR 0x0D \<and> take 1 cs = [CHR 0x0A] then line # splitlines [] (drop 1 cs)
      else if line_break c then line # splitlines [] cs
      else splitlines (line @ [c]) cs)"

definition read_event :: "string \<Rightarrow> jval dict res" where
  "read_event line =
     (case json_loads line of
        None \<Rightarrow> Inl ValueError
      | Some (JObj d) \<Rightarrow> if field d ''schema'' = JStr EVENT_SCHEMA then Inr d else Inl ValueError
      | Some _ \<Rightarrow> Inl AttributeError)"

fun read_lines :: "string list \<Rightarrow> jval dict list res" where
  "read_lines [] = Inr []"
| "read_lines (line # lines) =
     (if line = '''' then read_lines lines
      else bind_res (read_event line) (\<lambda>e. bind_res (read_lines lines) (\<lambda>es. Inr (e # es))))"

text \<open>A file that does not exist has no events.\<close>

definition read_events :: "string option \<Rightarrow> jval dict list res" where
  "read_events file = (case file of None \<Rightarrow> Inr [] | Some txt \<Rightarrow> read_lines (splitlines [] txt))"

subsection \<open>Sending\<close>

text \<open>\<open>sendall\<close>: the name of the error, if the operating system reports one.\<close>

definition sendall :: "peer \<Rightarrow> bytes \<Rightarrow> 'a process_scheme \<Rightarrow> string option \<times> 'a process_scheme" where
  "sendall peer frame p =
     (let p1 = p\<lparr>pr_sends := pr_sends p + 1\<rparr> in
      case pr_fault p (pr_sends p) of
        Some name \<Rightarrow> (Some name, p1)
      | None \<Rightarrow> (None, p1\<lparr>pr_sent := pr_sent p1 @ [(peer, frame)]\<rparr>))"

definition send_envelope :: "peer \<Rightarrow> jval dict \<Rightarrow> 'a process_scheme \<Rightarrow> ('a process_scheme, unit) tstep" where
  "send_envelope peer envelope p =
     (case encode_frame envelope of
        Inl e \<Rightarrow> (Inl e, p)
      | Inr frame \<Rightarrow>
          (case sendall peer frame p of
             (None, p1) \<Rightarrow> (Inr (), p1)
           | (Some name, p1) \<Rightarrow>
               (Inl (if name = ''timeout'' then FrameTimeoutError else ConnectionClosedError), p1)))"

text \<open>\<open>make_envelope\<close> in a process: it reads the clock.\<close>

definition new_envelope ::
    "string \<Rightarrow> string \<Rightarrow> C8WireRole \<Rightarrow> C8WireRole \<Rightarrow> string \<Rightarrow> string \<Rightarrow> string \<Rightarrow> jval dict \<Rightarrow>
     'a process_scheme \<Rightarrow> ('a process_scheme, jval dict) tstep" where
  "new_envelope message_id kind sender receiver subject_type subject_id payload_schema payload p =
     (let (clock, p1) = read_clock p
      in (make_envelope message_id kind (role_value sender) (role_value receiver) subject_type subject_id
            payload_schema payload clock, p1))"

text \<open>
  \<open>connect_loopback\<close>: \<open>attempts\<close> tells, for each attempt made before the deadline, whether it
  succeeds. The \<open>ConnectionError\<close> at the deadline is an \<open>OSError\<close>, as is every error a socket reports.
\<close>

definition loopback :: "string \<Rightarrow> bool" where
  "loopback host \<longleftrightarrow> host = ''127.0.0.1'' \<or> host = ''localhost''"

definition valid_port :: "pyval \<Rightarrow> bool" where
  "valid_port v = (case v of PInt n \<Rightarrow> 0 \<le> n \<and> n \<le> 65535 | _ \<Rightarrow> False)"

definition connect_loopback :: "string \<Rightarrow> bool list \<Rightarrow> unit tres" where
  "connect_loopback host attempts =
     (if \<not> loopback host then Inl (BuiltinError ValueError)
      else if List.member attempts True then Inr () else Inl (BuiltinError OSError))"

subsection \<open>Reading the log back\<close>

definition printable :: "char \<Rightarrow> bool" where
  "printable c \<longleftrightarrow> 32 \<le> (of_char c :: nat) \<and> (of_char c :: nat) \<le> 126"

lemma printable_no_break: "printable c \<Longrightarrow> \<not> line_break c \<and> c \<noteq> CHR 0x0D"
  by (auto simp: printable_def line_break_def)

lemma printable_nat_str: "list_all printable (nat_str n)"
proof -
  have "is_digit c \<Longrightarrow> printable c" for c by (auto simp: is_digit_def printable_def Let_def)
  then show ?thesis using nat_str_digits [of n] by (auto simp: list_all_iff)
qed

lemma printable_int_str: "list_all printable (int_str i)"
  using printable_nat_str by (auto simp: int_str_def printable_def)

lemma printable_hex: "d < 16 \<Longrightarrow> printable (hex_digit d)"
  by (auto simp: hex_digit_def printable_def)

lemma printable_escape: "list_all printable (escape_char c)"
proof -
  have "(of_char c :: nat) div 16 < 16" by (rule less_mult_imp_div_less) simp
  then show ?thesis
    by (auto simp: escape_char_def Let_def printable_hex) (auto simp: printable_def)
qed

lemma printable_quoted: "list_all printable (quoted s)"
proof -
  have "list_all printable (concat (map escape_char s))"
    using printable_escape by (induction s) auto
  then show ?thesis by (simp add: quoted_def printable_def)
qed

lemma printable_join: "list_all printable sep \<Longrightarrow> list_all (list_all printable) xs \<Longrightarrow> list_all printable (join_with sep xs)"
  by (induction sep xs rule: join_with.induct) auto

lemma printable_punctuation [simp]:
  "printable CHR ''['' " "printable CHR '']'' " "printable CHR ''{'' " "printable CHR ''}'' "
  "printable CHR '','' " "printable CHR '':'' "
  "printable CHR ''n''" "printable CHR ''u''" "printable CHR ''l''" "printable CHR ''t''" "printable CHR ''r''"
  "printable CHR ''e''" "printable CHR ''f''" "printable CHR ''a''" "printable CHR ''s''"
  by (simp_all add: printable_def)

lemma printable_jwrite:
  "list_all printable (jwrite v)" "list_all (list_all printable) (jwrite_list vs)"
  "list_all (list_all printable) (jwrite_items items)"
proof (induction v and vs and items rule: jwrite_jwrite_list_jwrite_items.induct)
  case (5 vs)
  then show ?case using printable_join [of "'',''" "jwrite_list vs"] by simp
next
  case (6 items)
  then show ?case using printable_join [of "'',''" "jwrite_items items"] by simp
next
  case (10 k v items)
  then show ?case by (simp add: printable_quoted)
qed (simp_all add: printable_int_str printable_quoted)

lemma splitlines_line:
  assumes "list_all printable line"
  shows "splitlines acc (line @ CHR 0x0A # rest) = (acc @ line) # splitlines [] rest"
  using assms
proof (induction line arbitrary: acc)
  case Nil
  then show ?case by (simp add: line_break_def)
next
  case (Cons c line)
  then show ?case using printable_no_break [of c] by simp
qed

lemma splitlines_log: "splitlines [] (log_text events) = map (\<lambda>e. json_dumps (JObj e)) events"
proof (induction events)
  case (Cons e events)
  have "log_text (e # events) = json_dumps (JObj e) @ CHR 0x0A # log_text events"
    by (simp add: log_text_def)
  moreover have "list_all printable (json_dumps (JObj e))"
    unfolding json_dumps_def by (rule printable_jwrite)
  ultimately show ?case using Cons splitlines_line [of "json_dumps (JObj e)" "[]"] by simp
qed (simp add: log_text_def)

lemma read_lines_dumps:
  assumes "\<forall>e\<in>set events. jvalid (JObj e) \<and> field e ''schema'' = JStr EVENT_SCHEMA"
  shows "read_lines (map (\<lambda>e. json_dumps (JObj e)) events) = Inr (map sorted_envelope events)"
  using assms
proof (induction events)
  case (Cons e events)
  have "json_dumps (JObj e) \<noteq> ''''"
    using jwrite_head [of "jsort (JObj e)"] by (auto simp: json_dumps_def simp del: jsort.simps)
  moreover have "read_event (json_dumps (JObj e)) = Inr (sorted_envelope e)"
  proof -
    have "distinct (keys_of e)" using Cons.prems by (simp add: keys_of_def)
    from field_sorted_envelope [OF this] have "field (sorted_envelope e) ''schema'' = JStr EVENT_SCHEMA"
      using Cons.prems by simp
    with Cons.prems show ?thesis
      by (simp add: read_event_def json_loads_dumps jsort_JObj del: jsort.simps)
  qed
  ultimately show ?case using Cons by simp
qed simp

lemma read_log_text:
  assumes "\<forall>e\<in>set events. jvalid (JObj e) \<and> field e ''schema'' = JStr EVENT_SCHEMA"
  shows "read_events (Some (log_text events)) = Inr (map sorted_envelope events)"
  using read_lines_dumps [OF assms] by (simp add: read_events_def splitlines_log)

subsection \<open>What every step of a process keeps\<close>

text \<open>
  The log is numbered from 1 and can be read back; it and the sequence of sent frames only grow,
  and a process keeps its role and its pid.
\<close>

definition log_ok :: "'a process_scheme \<Rightarrow> bool" where
  "log_ok p \<longleftrightarrow> pr_index p = int (length (pr_events p)) \<and>
     map (\<lambda>e. field e ''event_index'') (pr_events p) = map (\<lambda>n. JInt (int n + 1)) [0..<length (pr_events p)] \<and>
     (\<forall>e\<in>set (pr_events p). jvalid (JObj e) \<and> field e ''schema'' = JStr EVENT_SCHEMA)"

definition process_evolves :: "'a process_scheme \<Rightarrow> 'a process_scheme \<Rightarrow> bool" where
  "process_evolves p q \<longleftrightarrow> pr_role q = pr_role p \<and> pr_pid q = pr_pid p \<and> (log_ok p \<longrightarrow> log_ok q) \<and>
     (\<exists>es. pr_events q = pr_events p @ es) \<and> (\<exists>fs. pr_sent q = pr_sent p @ fs)"

named_theorems process_steps \<open>steps that keep what every process keeps\<close>

lemma process_evolves_refl [process_steps]: "process_evolves p p"
  by (simp add: process_evolves_def)

lemma process_evolves_trans: "process_evolves p q \<Longrightarrow> process_evolves q r \<Longrightarrow> process_evolves p r"
  by (fastforce simp: process_evolves_def)

lemma then_t_evolves [process_steps]:
  assumes "process_evolves p (snd m)" and "\<And>x q. m = (Inr x, q) \<Longrightarrow> process_evolves q (snd (k x q))"
  shows "process_evolves p (snd (then_t m k))"
proof -
  obtain r q where m: "m = (r, q)" by (cases m)
  then show ?thesis using assms process_evolves_trans by (cases r) auto
qed

lemma jvalid_subject_of:
  assumes "case message of None \<Rightarrow> True | Some d \<Rightarrow> jvalid (JObj d)"
  shows "jvalid (subject_of message k)"
proof (cases message)
  case (Some d)
  then show ?thesis
    using assms by (auto simp: subject_of_def field_def jvalid_items_iff split: option.splits dest!: map_of_SomeD)
qed (simp add: subject_of_def)

lemma jvalid_log_event:
  assumes "case message of None \<Rightarrow> True | Some d \<Rightarrow> jvalid (JObj d)" "jvalid (JObj details)"
  shows "jvalid (JObj (log_event role pid index clock action result message details))"
  using assms(2) jvalid_subject_of [OF assms(1)] by (simp add: log_event_def)

lemma emit_evolves [process_steps]:
  assumes "case message of None \<Rightarrow> True | Some d \<Rightarrow> jvalid (JObj d)" "jvalid (JObj details)"
  shows "process_evolves p (snd (emit action result message details p))"
proof (cases "action = '''' \<or> result = ''''")
  case False
  let ?e = "log_event (pr_role p) (pr_pid p) (pr_index p + 1) (pr_mono p (pr_reads p)) action result message details"
  have "field ?e ''event_index'' = JInt (pr_index p + 1)" "field ?e ''schema'' = JStr EVENT_SCHEMA"
    by (simp_all add: log_event_def field_def)
  with False jvalid_log_event [OF assms] show ?thesis
    by (auto simp: emit_def read_clock_def process_evolves_def log_ok_def Let_def)
qed (auto simp: emit_def intro: process_evolves_refl)

lemma send_envelope_evolves [process_steps]: "process_evolves p (snd (send_envelope peer envelope p))"
  by (auto simp: send_envelope_def sendall_def process_evolves_def log_ok_def Let_def split: sum.splits option.splits)

lemma new_envelope_evolves [process_steps]:
  "process_evolves p (snd (new_envelope i k sender receiver st si ps payload p))"
  by (auto simp: new_envelope_def read_clock_def process_evolves_def log_ok_def)

lemma new_process_log_ok: "log_ok (new_process role pid ticks fault)"
  by (simp add: new_process_def log_ok_def)

lemma log_ok_reads_back:
  "log_ok p \<Longrightarrow> read_events (Some (log_text (pr_events p))) = Inr (map sorted_envelope (pr_events p))"
  by (rule read_log_text) (simp add: log_ok_def)

lemma emit_Inr:
  "action \<noteq> '''' \<Longrightarrow> result \<noteq> '''' \<Longrightarrow> fst (emit action result message details p) = Inr ()"
  by (simp add: emit_def Let_def split: prod.splits)

lemma new_envelope_valid:
  assumes "new_envelope i k sender receiver st si ps payload p = (Inr m, q)"
  shows "envelope_ok m" "field m ''message_id'' = JStr i" "field m ''message_kind'' = JStr k"
    "field m ''payload'' = JObj payload" "jvalid (JObj payload) \<Longrightarrow> jvalid (JObj m)"
  using assms by (auto simp: new_envelope_def make_envelope_def read_clock_def validate_envelope_iff field_def)

lemma then_t_post:
  assumes "P (snd m)" and "\<And>x q. m = (Inr x, q) \<Longrightarrow> P q \<Longrightarrow> P (snd (k x q))"
  shows "P (snd (then_t m k))"
  using assms by (cases m; cases "fst m") auto

subsection \<open>How a step may fail\<close>

text \<open>
  With a clock that does not go below zero, a step fails only because a message does not fit into a
  frame or because the connection does.
\<close>

definition clock_ok :: "'a process_scheme \<Rightarrow> bool" where
  "clock_ok p \<longleftrightarrow> (\<forall>n. 0 \<le> pr_mono p n)"

definition transport_failure :: "transport_error \<Rightarrow> bool" where
  "transport_failure e \<longleftrightarrow> e = FrameSizeError \<or> e = FrameTimeoutError \<or> e = ConnectionClosedError"

definition well_behaved :: "('a process_scheme, 'b) tstep \<Rightarrow> bool" where
  "well_behaved r \<longleftrightarrow> clock_ok (snd r) \<and> (\<forall>e. fst r = Inl e \<longrightarrow> transport_failure e)"

named_theorems well_behaved_steps \<open>steps that fail as described\<close>

lemma well_behaved_Inr [well_behaved_steps]: "clock_ok p \<Longrightarrow> well_behaved (Inr x, p)"
  by (simp add: well_behaved_def)

lemma then_t_well_behaved [well_behaved_steps]:
  assumes "well_behaved m" "\<And>x q. m = (Inr x, q) \<Longrightarrow> clock_ok q \<Longrightarrow> well_behaved (k x q)"
  shows "well_behaved (then_t m k)"
proof -
  obtain r q where m: "m = (r, q)" by (cases m)
  then show ?thesis using assms by (cases r) (auto simp: well_behaved_def)
qed

lemma emit_well_behaved [well_behaved_steps]:
  "clock_ok p \<Longrightarrow> a \<noteq> '''' \<Longrightarrow> r \<noteq> '''' \<Longrightarrow> well_behaved (emit a r m d p)"
  by (simp add: well_behaved_def clock_ok_def emit_def read_clock_def Let_def)

lemma send_envelope_well_behaved [well_behaved_steps]:
  assumes "clock_ok p" "envelope_ok m"
  shows "well_behaved (send_envelope peer m p)"
  using assms
  by (auto simp: send_envelope_def sendall_def encode_frame_def validate_envelope_complete well_behaved_def clock_ok_def
      transport_failure_def Let_def split: sum.splits option.splits if_splits)

lemma new_envelope_well_behaved [well_behaved_steps]:
  assumes "clock_ok p" "i \<noteq> ''''" "k \<in> set MESSAGE_KINDS" "st \<noteq> ''''" "si \<noteq> ''''" "ps \<noteq> ''''"
  shows "well_behaved (new_envelope i k sender receiver st si ps payload p)"
proof -
  let ?d = "[(''schema'', JStr MESSAGE_SCHEMA), (''message_id'', JStr i), (''message_kind'', JStr k),
     (''sender_role'', JStr (role_value sender)), (''receiver_role'', JStr (role_value receiver)),
     (''subject_type'', JStr st), (''subject_id'', JStr si), (''payload_schema'', JStr ps),
     (''payload'', JObj payload), (''send_monotonic_ns'', JInt (pr_mono p (pr_reads p)))]"
  have roles: "role_value r \<in> set role_values" for r by (cases r) (simp_all add: role_values_def)
  have "envelope_ok ?d"
    using assms roles [of sender] roles [of receiver]
    by (simp add: envelope_ok_def field_def keys_of_def C8_MESSAGE_ENVELOPE_FIELDS_def nonempty_str_def clock_ok_def)
  then show ?thesis
    using assms(1) by (simp add: new_envelope_def make_envelope_def read_clock_def validate_envelope_complete
        well_behaved_def clock_ok_def)
qed

lemma emit_outcome_sent: "emit a r m d s = (res, t) \<Longrightarrow> pr_sent t = pr_sent s"
  by (auto simp: emit_def read_clock_def Let_def split: if_splits)

end
