(* ===== verification/Proto_Authority.thy ===== *)
theory Proto_Authority
  imports Proto_Process
begin

section \<open>The authority process\<close>

text \<open>
  \<open>prototype/c8_authority.py\<close>: the control-plane process, a loop that receives messages over the
  one connection of the fault harness. The function \<open>sha\<close> (the digest of \<open>hashlib\<close>, in hexadecimal)
  is a parameter, and so are the endpoint the kernel bound and the address of the peer.
\<close>

record authority = process +
  au_shutdown :: bool
  au_counter :: int
  au_harness_pid :: jval
  au_worker_pid :: jval
  au_worker_id :: jval
  au_generation :: int

definition REGISTER_SCHEMA :: string where "REGISTER_SCHEMA = ''cadi.c8.2.authority-register.v1''"
definition WORK_SCHEMA :: string where "WORK_SCHEMA = ''cadi.c8.2.synthetic-work.v1''"
definition CONTROL_SCHEMA :: string where "CONTROL_SCHEMA = ''cadi.c8.2.control.v1''"

definition authority_message_id :: "int \<Rightarrow> int \<Rightarrow> string" where
  "authority_message_id pid counter = ''authority:'' @ int_str pid @ '':'' @ int_str counter"

definition authority_send ::
    "string \<Rightarrow> C8WireRole \<Rightarrow> string \<Rightarrow> string \<Rightarrow> string \<Rightarrow> jval dict \<Rightarrow> authority \<Rightarrow> (authority, jval dict) tstep" where
  "authority_send kind receiver subject_type subject_id payload_schema payload s =
     then_t (new_envelope (authority_message_id (pr_pid s) (au_counter s)) kind CONTROL_PLANE_AUTHORITY receiver
               subject_type subject_id payload_schema payload s) (\<lambda>message s.
     then_t (send_envelope ToHarness message s) (\<lambda>_ s. (Inr message, s)))"

definition count_up :: "authority \<Rightarrow> authority" where
  "count_up s = s\<lparr>au_counter := au_counter s + 1\<rparr>"

subsection \<open>One handler for each kind of message\<close>

definition reject_message :: "string \<Rightarrow> jval dict \<Rightarrow> authority \<Rightarrow> (authority, unit) tstep" where
  "reject_message reason message s = emit ''MESSAGE_REJECTED'' reason (Some message) [] s"

definition register_harness :: "jval dict \<Rightarrow> authority \<Rightarrow> (authority, unit) tstep" where
  "register_harness message s =
     (let reported_pid = field (obj_field message ''payload'') ''pid'' in
      if \<not> positive_pid reported_pid then reject_message ''INVALID_HARNESS_PID'' message s
      else
        let s = count_up (s\<lparr>au_harness_pid := reported_pid\<rparr>) in
        then_t (authority_send ''REGISTERED'' FAULT_TRANSPORT_HARNESS ''PROCESS'' (str_field message ''subject_id'')
                  REGISTER_SCHEMA [(''authority_pid'', JInt (pr_pid s)), (''harness_pid'', reported_pid)] s) (\<lambda>response s.
        then_t (emit ''HARNESS_REGISTERED'' ''OK'' (Some message) [(''pid'', reported_pid)] s) (\<lambda>_ s.
        emit ''MESSAGE_SENT'' ''REGISTERED'' (Some response) [] s)))"

definition valid_registration :: "jval dict \<Rightarrow> bool" where
  "valid_registration payload \<longleftrightarrow>
     positive_pid (field payload ''pid'') \<and> nonempty_str (field payload ''worker_id'') \<and>
     field payload ''continuity_modules_loaded'' = JList []"

definition send_work :: "(string \<Rightarrow> string) \<Rightarrow> string \<Rightarrow> authority \<Rightarrow> (authority, unit) tstep" where
  "send_work sha worker_id s =
     (let s = count_up s; generation = int_str (au_generation s);
          work_id = ''work:'' @ worker_id @ '':'' @ generation;
          work_input = ''cadi:'' @ worker_id @ '':'' @ generation
      in then_t (authority_send ''WORK'' WORKER ''SYNTHETIC_WORK'' work_id WORK_SCHEMA
                   [(''operation'', JStr ''SHA256''), (''input'', JStr work_input),
                    (''expected_output'', JStr (sha work_input)), (''worker_generation'', JInt (au_generation s))] s)
           (\<lambda>work s. emit ''MESSAGE_SENT'' ''WORK'' (Some work) [] s))"

definition register_worker :: "(string \<Rightarrow> string) \<Rightarrow> jval dict \<Rightarrow> authority \<Rightarrow> (authority, unit) tstep" where
  "register_worker sha message s =
     (let payload = obj_field message ''payload'' in
      if au_harness_pid s = JNull then reject_message ''HARNESS_NOT_REGISTERED'' message s
      else if \<not> valid_registration payload then reject_message ''INVALID_WORKER_REGISTRATION'' message s
      else
        let reported_pid = field payload ''pid''; worker_id = str_field payload ''worker_id'';
            s = count_up (s\<lparr>au_worker_pid := reported_pid, au_worker_id := JStr worker_id,
                            au_generation := au_generation s + 1\<rparr>)
        in then_t (authority_send ''REGISTERED'' WORKER ''PROCESS'' worker_id REGISTER_SCHEMA
                     [(''authority_pid'', JInt (pr_pid s)), (''harness_pid'', au_harness_pid s),
                      (''worker_pid'', reported_pid), (''worker_generation'', JInt (au_generation s))] s) (\<lambda>registered s.
           then_t (emit ''WORKER_REGISTERED'' ''OK'' (Some message)
                     [(''worker_id'', JStr worker_id), (''worker_pid'', reported_pid),
                      (''worker_generation'', JInt (au_generation s))] s) (\<lambda>_ s.
           then_t (emit ''MESSAGE_SENT'' ''REGISTERED'' (Some registered) [] s) (\<lambda>_ s.
           send_work sha worker_id s))))"

definition expected_current :: "jval dict \<Rightarrow> authority \<Rightarrow> bool" where
  "expected_current message s \<longleftrightarrow> jeq (field (obj_field message ''payload'') ''pid'') (au_worker_pid s)"

definition observe_completion :: "jval dict \<Rightarrow> authority \<Rightarrow> (authority, unit) tstep" where
  "observe_completion message s =
     (let reported_pid = field (obj_field message ''payload'') ''pid''; current = expected_current message s in
      then_t (emit ''PHYSICAL_COMPLETION_OBSERVED'' (if current then ''CURRENT_WORKER'' else ''NONCURRENT_WORKER'')
                (Some message)
                [(''reported_pid'', reported_pid), (''current_worker_pid'', au_worker_pid s),
                 (''timestamp_used_for_authority'', JBool False)] s) (\<lambda>_ s.
      if au_shutdown s \<and> current \<and> nonempty_str (au_worker_id s) then
        let worker_id = (case au_worker_id s of JStr w \<Rightarrow> w | _ \<Rightarrow> '''') in
        then_t (authority_send ''SHUTDOWN'' WORKER ''PROCESS'' worker_id CONTROL_SCHEMA
                  [(''reason'', JStr ''C8.2_CONFORMANCE_COMPLETE'')] (count_up s)) (\<lambda>shutdown s.
        emit ''MESSAGE_SENT'' ''SHUTDOWN'' (Some shutdown) [] s)
      else (Inr (), s)))"

definition clear_worker :: "jval \<Rightarrow> authority \<Rightarrow> authority" where
  "clear_worker pid s =
     (if jeq pid (au_worker_pid s) then s\<lparr>au_worker_pid := JNull, au_worker_id := JNull\<rparr> else s)"

definition observe_failure :: "jval dict \<Rightarrow> authority \<Rightarrow> (authority, unit) tstep" where
  "observe_failure message s =
     (let payload = obj_field message ''payload'' in
      then_t (emit ''PROCESS_FAILURE_OBSERVED'' ''EXPLICIT_NON_SEMANTIC_OBSERVATION'' (Some message)
                [(''failed_pid'', field payload ''pid''), (''reason'', field payload ''reason'')] s)
        (\<lambda>_ s. (Inr (), clear_worker (field payload ''pid'') s)))"

definition observe_shutdown_ack :: "jval dict \<Rightarrow> authority \<Rightarrow> (authority, unit) tstep" where
  "observe_shutdown_ack message s =
     then_t (emit ''WORKER_SHUTDOWN_ACK'' ''OK'' (Some message) [] s)
       (\<lambda>_ s. (Inr (), clear_worker (field (obj_field message ''payload'') ''pid'') s))"

subsection \<open>The loop\<close>

definition dispatch_message :: "(string \<Rightarrow> string) \<Rightarrow> jval dict \<Rightarrow> authority \<Rightarrow> (authority, unit) tstep" where
  "dispatch_message sha message s =
     (let kind = str_field message ''message_kind''; sender = str_field message ''sender_role'' in
      if str_field message ''receiver_role'' \<noteq> role_value CONTROL_PLANE_AUTHORITY
      then reject_message ''WRONG_RECEIVER'' message s
      else if kind = ''REGISTER'' \<and> sender = role_value FAULT_TRANSPORT_HARNESS then register_harness message s
      else if kind = ''REGISTER'' \<and> sender = role_value WORKER then register_worker sha message s
      else if kind = ''COMPLETE'' \<and> sender = role_value WORKER then observe_completion message s
      else if kind = ''PROCESS_FAILURE'' \<and> sender = role_value FAULT_TRANSPORT_HARNESS then observe_failure message s
      else if kind = ''SHUTDOWN_ACK'' \<and> sender = role_value WORKER then observe_shutdown_ack message s
      else reject_message ''UNEXPECTED_KIND_OR_SENDER'' message s)"

definition authority_message :: "(string \<Rightarrow> string) \<Rightarrow> jval dict \<Rightarrow> authority \<Rightarrow> (authority, unit) tstep" where
  "authority_message sha message s =
     then_t (emit ''MESSAGE_RECEIVED'' (str_field message ''message_kind'') (Some message) [] s)
       (\<lambda>_ s. dispatch_message sha message s)"

text \<open>Receiving a frame uses up at least its header.\<close>

fun event_size :: "recv_event \<Rightarrow> nat" where
  "event_size (Arrived bs) = length bs + 1"
| "event_size e = 1"

definition sock_size :: "recv_event list \<Rightarrow> nat" where
  "sock_size sock = sum_list (map event_size sock)"

lemma recv_exact_size:
  "recv_exact n sock = (Inr bs, rest) \<Longrightarrow> sock_size rest \<le> sock_size sock \<and> (0 < n \<longrightarrow> sock_size rest < sock_size sock)"
proof (induction n sock arbitrary: bs rest rule: recv_exact.induct)
  case (6 n bs' evs)
  then show ?case
    by (cases "bs' = []"; cases "drop (Suc n) bs' = []")
      (fastforce simp: sock_size_def Let_def split: prod.splits sum.splits)+
qed (auto simp: sock_size_def)

lemma recv_envelope_size: "recv_envelope sock = (Inr message, rest) \<Longrightarrow> sock_size rest < sock_size sock"
  by (auto simp: recv_envelope_def Let_def HEADER_BYTES_def dest!: recv_exact_size split: prod.splits sum.splits if_splits)

function authority_loop :: "(string \<Rightarrow> string) \<Rightarrow> recv_event list \<Rightarrow> authority \<Rightarrow> (authority, unit) tstep" where
  "authority_loop sha sock s =
     (case recv_envelope sock of
        (Inl e, rest) \<Rightarrow>
          if is_truncated e then emit ''TRANSPORT_CLOSED'' ''HARNESS_DISCONNECTED'' None [] s else (Inl e, s)
      | (Inr message, rest) \<Rightarrow>
          (case authority_message sha message s of
             (Inl e, s) \<Rightarrow> (Inl e, s)
           | (Inr _, s) \<Rightarrow> authority_loop sha rest s))"
  by pat_completeness auto
termination by (relation "measure (\<lambda>(_, sock, _). sock_size sock)") (auto dest: recv_envelope_size [OF sym])

declare authority_loop.simps [simp del]

definition authority_start :: "process \<Rightarrow> bool \<Rightarrow> authority" where
  "authority_start p shutdown_flag =
     process.extend p (authority.fields shutdown_flag 0 JNull JNull JNull 0)"

definition authority_process_main ::
    "(string \<Rightarrow> string) \<Rightarrow> string \<Rightarrow> pyval \<Rightarrow> bool \<Rightarrow> jval \<Rightarrow> int \<Rightarrow> jval list \<Rightarrow> recv_event list \<Rightarrow> process \<Rightarrow>
     (authority, unit) tstep" where
  "authority_process_main sha host port shutdown_flag bound_host bound_port peer sock p =
     (let s = authority_start p shutdown_flag in
      if \<not> loopback host \<or> \<not> valid_port port then (Inl (BuiltinError ValueError), s)
      else
        then_t (emit ''PROCESS_STARTED'' ''OK'' None
                  [(''pid_source'', JStr ''os.getpid''), (''continuity_core_owned'', JBool True),
                   (''core_type'', JStr ''ContinuityCore'')] s) (\<lambda>_ s.
        then_t (emit ''LISTENING'' ''OK'' None
                  [(''host'', bound_host), (''port'', JInt bound_port), (''port_source'', JStr ''kernel_bind'')] s) (\<lambda>_ s.
        then_t (emit ''HARNESS_SOCKET_ACCEPTED'' ''OK'' None [(''peer'', JList peer)] s) (\<lambda>_ s.
        authority_loop sha sock s))))"

subsection \<open>Every step keeps the log\<close>

lemma jvalid_field: "jvalid (JObj d) \<Longrightarrow> jvalid (field d k)"
  using jvalid_subject_of [of "Some d" k] by (simp add: subject_of_def)

lemma jvalid_obj_field: "jvalid (JObj d) \<Longrightarrow> jvalid (JObj (obj_field d k))"
  using jvalid_field [of d k] by (auto simp: obj_field_def split: jval.splits)

lemma fields_evolve:
  "process_evolves s (s\<lparr>au_worker_pid := w, au_worker_id := i\<rparr>)"
  "process_evolves s (s\<lparr>au_counter := c\<rparr>)" "process_evolves s (s\<lparr>au_harness_pid := w\<rparr>)"
  "process_evolves s (s\<lparr>au_worker_pid := w, au_worker_id := i, au_generation := g\<rparr>)"
  by (simp_all add: process_evolves_def log_ok_def)

lemma count_up_evolves: "process_evolves s (count_up s)"
  by (simp add: count_up_def fields_evolve)

lemma authority_send_evolves [process_steps]:
  "process_evolves s (snd (authority_send kind receiver st si ps payload s))"
  unfolding authority_send_def by (intro process_steps) (simp add: process_evolves_refl)

lemma authority_send_valid:
  assumes "authority_send kind receiver st si ps payload s = (Inr m, t)" "jvalid (JObj payload)"
  shows "jvalid (JObj m)"
proof -
  obtain r u where env: "new_envelope (authority_message_id (pr_pid s) (au_counter s)) kind CONTROL_PLANE_AUTHORITY
      receiver st si ps payload s = (r, u)" by (meson surj_pair)
  show ?thesis
  proof (cases r)
    case (Inr m')
    with env assms(1) have "m' = m"
      by (auto simp: authority_send_def then_t_def split: prod.splits sum.splits)
    with env Inr new_envelope_valid(5) assms(2) show ?thesis by blast
  qed (use env assms(1) in \<open>simp add: authority_send_def\<close>)
qed

text \<open>
  The registration an authority holds: a harness before any worker, and a pid that is a positive
  number with an identifier, or neither.
\<close>

definition registration_ok :: "authority \<Rightarrow> bool" where
  "registration_ok s \<longleftrightarrow>
     (au_harness_pid s = JNull \<or> positive_pid (au_harness_pid s)) \<and>
     (au_worker_pid s = JNull \<and> au_worker_id s = JNull \<or>
      positive_pid (au_worker_pid s) \<and> nonempty_str (au_worker_id s) \<and> au_harness_pid s \<noteq> JNull)"

lemma positive_pid_jvalid: "positive_pid v \<Longrightarrow> jvalid v"
  by (cases v) (simp_all add: positive_pid_def)

lemma registration_pids: "registration_ok s \<Longrightarrow> jvalid (au_harness_pid s) \<and> jvalid (au_worker_pid s)"
  by (auto simp: registration_ok_def dest: positive_pid_jvalid)

text \<open>A handler that first changes some fields.\<close>

lemma evolves_after: "process_evolves s t \<Longrightarrow> process_evolves t u \<Longrightarrow> process_evolves s u"
  by (rule process_evolves_trans)

lemma reject_evolves [process_steps]: "jvalid (JObj m) \<Longrightarrow> process_evolves s (snd (reject_message reason m s))"
  unfolding reject_message_def by (rule emit_evolves) simp_all

lemma register_harness_evolves:
  assumes "jvalid (JObj m)"
  shows "process_evolves s (snd (register_harness m s))"
proof -
  let ?pid = "field (obj_field m ''payload'') ''pid''" let ?s = "count_up (s\<lparr>au_harness_pid := ?pid\<rparr>)"
  have start: "process_evolves s ?s" by (rule evolves_after [OF fields_evolve(3) count_up_evolves])
  have pid: "jvalid ?pid" using assms by (intro jvalid_field jvalid_obj_field)
  show ?thesis
    unfolding register_harness_def Let_def using assms pid
    by (auto intro!: evolves_after [OF start] process_steps dest: authority_send_valid)
qed

lemma send_work_evolves: "process_evolves s (snd (send_work sha w s))"
  unfolding send_work_def Let_def
  by (rule evolves_after [OF count_up_evolves]) (auto intro!: process_steps dest: authority_send_valid)

lemma register_worker_evolves:
  assumes "jvalid (JObj m)" "registration_ok s"
  shows "process_evolves s (snd (register_worker sha m s))"
proof -
  let ?p = "obj_field m ''payload''"
  let ?s = "count_up (s\<lparr>au_worker_pid := field ?p ''pid'', au_worker_id := JStr (str_field ?p ''worker_id''),
              au_generation := au_generation s + 1\<rparr>)"
  have start: "process_evolves s ?s" by (rule evolves_after [OF fields_evolve(4) count_up_evolves])
  have pid: "jvalid (field ?p ''pid'')" using assms by (intro jvalid_field jvalid_obj_field)
  show ?thesis
    unfolding register_worker_def Let_def
    by (auto intro!: evolves_after [OF start] process_steps send_work_evolves dest!: authority_send_valid
        simp: assms(1) pid registration_pids [OF assms(2)] count_up_def simp del: jvalid.simps(2))
      (use assms(1) pid registration_pids [OF assms(2)] in \<open>auto\<close>)
qed

lemma observe_completion_evolves:
  assumes "jvalid (JObj m)" "registration_ok s"
  shows "process_evolves s (snd (observe_completion m s))"
proof -
  have pid: "jvalid (field (obj_field m ''payload'') ''pid'')" using assms by (intro jvalid_field jvalid_obj_field)
  have shut: "process_evolves t (snd (then_t (authority_send ''SHUTDOWN'' WORKER ''PROCESS'' w CONTROL_SCHEMA
      [(''reason'', JStr r)] (count_up t)) (\<lambda>x u. emit ''MESSAGE_SENT'' ''SHUTDOWN'' (Some x) [] u)))" for t w r
    by (rule evolves_after [OF count_up_evolves]) (auto intro!: process_steps dest: authority_send_valid)
  show ?thesis
    unfolding observe_completion_def Let_def using assms pid
    by (intro then_t_evolves emit_evolves)
      (use registration_pids [OF assms(2)] in \<open>auto intro: shut process_evolves_refl\<close>)
qed

lemma clear_worker_evolves: "process_evolves s (clear_worker pid s)"
  by (simp add: clear_worker_def fields_evolve process_evolves_refl)

lemma observe_failure_evolves:
  assumes "jvalid (JObj m)"
  shows "process_evolves s (snd (observe_failure m s))"
  unfolding observe_failure_def Let_def using assms jvalid_field [OF jvalid_obj_field [OF assms]]
  by (intro then_t_evolves emit_evolves) (auto intro: clear_worker_evolves)

lemma observe_shutdown_ack_evolves:
  assumes "jvalid (JObj m)"
  shows "process_evolves s (snd (observe_shutdown_ack m s))"
  unfolding observe_shutdown_ack_def using assms
  by (intro then_t_evolves emit_evolves) (auto intro: clear_worker_evolves)

lemma dispatch_message_evolves:
  assumes "jvalid (JObj m)" "registration_ok s"
  shows "process_evolves s (snd (dispatch_message sha m s))"
  using assms
  by (simp add: dispatch_message_def Let_def reject_evolves register_harness_evolves register_worker_evolves
      observe_completion_evolves observe_failure_evolves observe_shutdown_ack_evolves)

lemma emit_fields [simp]:
  "au_worker_pid (snd (emit a r m d s)) = au_worker_pid s" "au_harness_pid (snd (emit a r m d s)) = au_harness_pid s"
  "au_worker_id (snd (emit a r m d s)) = au_worker_id s" "au_generation (snd (emit a r m d s)) = au_generation s"
  "au_counter (snd (emit a r m d s)) = au_counter s" "au_shutdown (snd (emit a r m d s)) = au_shutdown s"
  by (simp_all add: emit_def read_clock_def Let_def)

lemma authority_message_evolves:
  assumes "jvalid (JObj m)" "registration_ok s"
  shows "process_evolves s (snd (authority_message sha m s))"
  unfolding authority_message_def
proof (rule then_t_evolves)
  fix x t
  assume "emit ''MESSAGE_RECEIVED'' (str_field m ''message_kind'') (Some m) [] s = (Inr x, t)"
  then have "t = snd (emit ''MESSAGE_RECEIVED'' (str_field m ''message_kind'') (Some m) [] s)" by simp
  then have "registration_ok t" using assms(2) by (simp add: registration_ok_def)
  then show "process_evolves t (snd (dispatch_message sha m t))" using assms(1) by (rule dispatch_message_evolves [rotated])
qed (use assms in \<open>auto intro!: emit_evolves\<close>)

subsection \<open>Who is registered\<close>

text \<open>The registration, and what a message does to it, by its fields alone.\<close>

type_synonym reg_view = "jval \<times> jval \<times> jval \<times> int"

definition registration :: "authority \<Rightarrow> reg_view" where
  "registration s = (au_harness_pid s, au_worker_pid s, au_worker_id s, au_generation s)"

definition from_to :: "string \<Rightarrow> C8WireRole \<Rightarrow> jval dict \<Rightarrow> bool" where
  "from_to kind sender m \<longleftrightarrow> str_field m ''receiver_role'' = role_value CONTROL_PLANE_AUTHORITY \<and>
     str_field m ''message_kind'' = kind \<and> str_field m ''sender_role'' = role_value sender"

definition payload_pid :: "jval dict \<Rightarrow> jval" where
  "payload_pid m = field (obj_field m ''payload'') ''pid''"

definition registers_harness :: "jval dict \<Rightarrow> bool" where
  "registers_harness m \<longleftrightarrow> from_to ''REGISTER'' FAULT_TRANSPORT_HARNESS m \<and> positive_pid (payload_pid m)"

definition registers_worker :: "jval dict \<Rightarrow> bool" where
  "registers_worker m \<longleftrightarrow> from_to ''REGISTER'' WORKER m \<and> valid_registration (obj_field m ''payload'')"

definition reports_end :: "jval dict \<Rightarrow> bool" where
  "reports_end m \<longleftrightarrow> from_to ''PROCESS_FAILURE'' FAULT_TRANSPORT_HARNESS m \<or> from_to ''SHUTDOWN_ACK'' WORKER m"

definition registration_step :: "reg_view \<Rightarrow> jval dict \<Rightarrow> reg_view" where
  "registration_step reg m =
     (case reg of (h, w, i, g) \<Rightarrow>
        if registers_harness m then (payload_pid m, w, i, g)
        else if h \<noteq> JNull \<and> registers_worker m
        then (h, payload_pid m, JStr (str_field (obj_field m ''payload'') ''worker_id''), g + 1)
        else if reports_end m \<and> jeq (payload_pid m) w then (h, JNull, JNull, g)
        else (h, w, i, g))"

lemma then_t_registration:
  assumes "registration (snd m) = g" "\<And>x q. m = (Inr x, q) \<Longrightarrow> registration q = g \<Longrightarrow> registration (snd (k x q)) = h"
    "\<And>e q. m = (Inl e, q) \<Longrightarrow> g = h"
  shows "registration (snd (then_t m k)) = h"
  using assms by (cases m; cases "fst m") auto

lemma then_t_keeps_registration:
  assumes "registration (snd m) = g" "\<And>x q. registration q = g \<Longrightarrow> registration (snd (k x q)) = g"
  shows "registration (snd (then_t m k)) = g"
  by (rule then_t_registration [OF assms(1)]) (use assms(2) in blast, simp)

lemma registration_count_up [simp]: "registration (count_up s) = registration s"
  by (simp add: registration_def count_up_def)

lemma registration_updates [simp]:
  "registration (s\<lparr>au_harness_pid := p\<rparr>) = (p, snd (registration s))"
  "registration (s\<lparr>au_worker_pid := p, au_worker_id := i, au_generation := g\<rparr>) = (au_harness_pid s, p, i, g)"
  by (simp_all add: registration_def)

lemma registration_emit [simp]: "registration (snd (emit a r m d s)) = registration s"
  by (simp add: registration_def)

lemma registration_new_envelope [simp]:
  "registration (snd (new_envelope i k sr rr st si ps p s)) = registration s"
  by (simp add: new_envelope_def read_clock_def registration_def)

lemma registration_send [simp]: "registration (snd (send_envelope peer m s)) = registration s"
  by (auto simp: send_envelope_def sendall_def registration_def Let_def split: sum.splits option.splits)

lemma registration_authority_send [simp]: "registration (snd (authority_send k rr st si ps p s)) = registration s"
  unfolding authority_send_def by (intro then_t_keeps_registration) simp_all

lemma registration_reject [simp]: "registration (snd (reject_message r m s)) = registration s"
  by (simp add: reject_message_def)

lemma registration_register_harness:
  "registration (snd (register_harness m s)) =
     (if positive_pid (payload_pid m) then (payload_pid m, snd (registration s)) else registration s)"
proof (cases "positive_pid (payload_pid m)")
  case True
  then show ?thesis
    unfolding register_harness_def Let_def payload_pid_def
    by simp (intro then_t_keeps_registration; simp)
qed (simp add: register_harness_def payload_pid_def Let_def)

lemma registration_send_work [simp]: "registration (snd (send_work sha w s)) = registration s"
  unfolding send_work_def Let_def by (intro then_t_keeps_registration) simp_all

lemma registration_register_worker:
  "registration (snd (register_worker sha m s)) =
     (if au_harness_pid s \<noteq> JNull \<and> valid_registration (obj_field m ''payload'')
      then (au_harness_pid s, payload_pid m, JStr (str_field (obj_field m ''payload'') ''worker_id''), au_generation s + 1)
      else registration s)"
proof (cases "au_harness_pid s \<noteq> JNull \<and> valid_registration (obj_field m ''payload'')")
  case True
  then show ?thesis
    unfolding register_worker_def Let_def payload_pid_def
    by simp (intro then_t_keeps_registration; simp)
qed (auto simp: register_worker_def Let_def)

lemma registration_observe_completion [simp]: "registration (snd (observe_completion m s)) = registration s"
  unfolding observe_completion_def Let_def by (intro then_t_keeps_registration) (simp_all, intro impI then_t_keeps_registration, simp_all)

lemma registration_clear_worker:
  "registration (clear_worker pid s) =
     (if jeq pid (au_worker_pid s) then (au_harness_pid s, JNull, JNull, au_generation s) else registration s)"
  by (simp add: clear_worker_def registration_def)

lemma emit_result:
  "a \<noteq> '''' \<Longrightarrow> r \<noteq> '''' \<Longrightarrow> emit a r m d s = (Inr (), snd (emit a r m d s))"
  using emit_Inr [of a r m d s] by (metis prod.collapse)

lemma then_emit: "a \<noteq> '''' \<Longrightarrow> r \<noteq> '''' \<Longrightarrow> then_t (emit a r m d s) k = k () (snd (emit a r m d s))"
  by (subst emit_result) simp_all

lemma registration_fields:
  "registration t = registration s \<Longrightarrow> au_harness_pid t = au_harness_pid s \<and> au_worker_pid t = au_worker_pid s \<and>
     au_worker_id t = au_worker_id s \<and> au_generation t = au_generation s"
  by (simp add: registration_def)

lemma registration_observe_end:
  "registration (snd (observe_failure m s)) = registration (clear_worker (payload_pid m) s)"
  "registration (snd (observe_shutdown_ack m s)) = registration (clear_worker (payload_pid m) s)"
  unfolding observe_failure_def observe_shutdown_ack_def Let_def
  by (subst emit_result, simp, simp, simp add: registration_clear_worker payload_pid_def)+

lemma registration_dispatch:
  "registration (snd (dispatch_message sha m s)) = registration_step (registration s) m"
proof (cases "str_field m ''receiver_role'' = role_value CONTROL_PLANE_AUTHORITY")
  case to_me: True
  let ?kind = "str_field m ''message_kind''" and ?sender = "str_field m ''sender_role''"
  note defs = dispatch_message_def registration_step_def registers_harness_def registers_worker_def reports_end_def
    from_to_def to_me
  consider (a) "?kind = ''REGISTER''" "?sender = role_value FAULT_TRANSPORT_HARNESS"
    | (b) "?kind = ''REGISTER''" "?sender = role_value WORKER"
    | (c) "?kind = ''COMPLETE''" "?sender = role_value WORKER"
    | (d) "?kind = ''PROCESS_FAILURE''" "?sender = role_value FAULT_TRANSPORT_HARNESS"
    | (e) "?kind = ''SHUTDOWN_ACK''" "?sender = role_value WORKER"
    | (f) "\<not> (?kind = ''REGISTER'' \<and> (?sender = role_value FAULT_TRANSPORT_HARNESS \<or> ?sender = role_value WORKER))"
      "\<not> (?kind = ''COMPLETE'' \<and> ?sender = role_value WORKER)"
      "\<not> (?kind = ''PROCESS_FAILURE'' \<and> ?sender = role_value FAULT_TRANSPORT_HARNESS)"
      "\<not> (?kind = ''SHUTDOWN_ACK'' \<and> ?sender = role_value WORKER)"
    by blast
  then show ?thesis
  proof cases
    case a
    then show ?thesis by (simp add: defs registration_register_harness) (simp add: registration_def)
  next
    case b
    then show ?thesis by (simp add: defs registration_register_worker) (simp add: registration_def reports_end_def from_to_def)
  next
    case c
    then show ?thesis by (simp add: defs)
  next
    case d
    then show ?thesis by (simp add: defs registration_observe_end registration_clear_worker) (simp add: registration_def)
  next
    case e
    then show ?thesis by (simp add: defs registration_observe_end registration_clear_worker) (simp add: registration_def)
  next
    case f
    then show ?thesis by (auto simp: defs Let_def)
  qed
next
  case False
  then show ?thesis
    by (simp add: dispatch_message_def registration_step_def registers_harness_def registers_worker_def
        reports_end_def from_to_def)
qed

lemma registration_message:
  assumes "str_field m ''message_kind'' \<noteq> ''''"
  shows "registration (snd (authority_message sha m s)) = registration_step (registration s) m"
  unfolding authority_message_def
  by (subst emit_result) (use assms registration_dispatch in simp_all)

lemma registration_ok_step:
  assumes "registration_ok s" "registration t = registration_step (registration s) m"
  shows "registration_ok t"
  using assms
  by (auto simp: registration_ok_def registration_def registration_step_def registers_harness_def registers_worker_def
      valid_registration_def payload_pid_def str_field_def nonempty_str_def positive_pid_def split: if_splits jval.splits)

subsection \<open>Runs of messages\<close>

text \<open>The messages a process receives one after the other; an exception ends the process.\<close>

fun authority_run :: "(string \<Rightarrow> string) \<Rightarrow> jval dict list \<Rightarrow> authority \<Rightarrow> (authority, unit) tstep" where
  "authority_run sha [] s = (Inr (), s)"
| "authority_run sha (m # ms) s = then_t (authority_message sha m s) (\<lambda>_ s. authority_run sha ms s)"

text \<open>A message that has been validated and decoded.\<close>

definition received :: "jval dict \<Rightarrow> bool" where
  "received m \<longleftrightarrow> envelope_ok m \<and> jvalid (JObj m)"

lemma received_kind: "received m \<Longrightarrow> str_field m ''message_kind'' \<noteq> ''''"
  by (auto simp: received_def envelope_ok_def str_field_def MESSAGE_KINDS_def)

lemma message_keeps_registration_ok:
  "registration_ok s \<Longrightarrow> received m \<Longrightarrow> registration_ok (snd (authority_message sha m s))"
  using registration_ok_step registration_message received_kind by blast

lemma authority_run_evolves:
  "registration_ok s \<Longrightarrow> list_all received ms \<Longrightarrow> process_evolves s (snd (authority_run sha ms s)) \<and>
     registration_ok (snd (authority_run sha ms s))"
proof (induction ms arbitrary: s)
  case (Cons m ms)
  obtain r t where step: "authority_message sha m s = (r, t)" by (cases "authority_message sha m s")
  have "process_evolves s t" "registration_ok t"
    using authority_message_evolves [of m s sha] message_keeps_registration_ok [of s m sha] Cons.prems step
    by (simp_all add: received_def)
  with Cons step show ?case by (cases r) (auto intro: process_evolves_trans)
qed (simp add: process_evolves_refl)

text \<open>The loop over the socket is a run over the messages it delivers.\<close>

lemma recv_envelope_received:
  assumes "recv_envelope sock = (Inr m, rest)"
  shows "received m"
proof -
  from assms obtain payload where
    "bind_t (decode_value payload) validate_envelope = Inr m"
    by (auto simp: recv_envelope_def Let_def split: prod.splits sum.splits if_splits)
  then have "envelope_ok m" "decode_canonical_json payload = Some (JObj m)"
    by (auto simp: bind_t_Inr decode_value_def validate_envelope_iff split: option.splits)
  moreover have "jvalid (JObj m)" if "decode_canonical_json payload = Some (JObj m)"
    using that decoded_jvalid by blast
  ultimately show ?thesis by (simp add: received_def)
qed

lemma authority_loop_evolves:
  "registration_ok s \<Longrightarrow> process_evolves s (snd (authority_loop sha sock s)) \<and>
     registration_ok (snd (authority_loop sha sock s))"
proof (induction sha sock s rule: authority_loop.induct)
  case (1 sha sock s)
  obtain r rest where recv: "recv_envelope sock = (r, rest)" by (cases "recv_envelope sock")
  show ?case
  proof (cases r)
    case (Inl e)
    have "process_evolves s (snd (emit ''TRANSPORT_CLOSED'' ''HARNESS_DISCONNECTED'' None [] s))"
      by (rule emit_evolves) simp_all
    moreover have "registration_ok (snd (emit ''TRANSPORT_CLOSED'' ''HARNESS_DISCONNECTED'' None [] s))"
      using 1(2) by (simp add: registration_ok_def)
    ultimately show ?thesis
      using 1(2) recv Inl by (subst authority_loop.simps, subst authority_loop.simps) (simp add: process_evolves_refl)
  next
    case (Inr m)
    have m: "received m" using recv_envelope_received recv Inr by blast
    obtain r' t where step: "authority_message sha m s = (r', t)" by (cases "authority_message sha m s")
    have "process_evolves s t" "registration_ok t"
      using authority_message_evolves [of m s sha] message_keeps_registration_ok [of s m sha] 1(2) m step
      by (simp_all add: received_def)
    moreover have "process_evolves t (snd (authority_loop sha rest t)) \<and> registration_ok (snd (authority_loop sha rest t))"
      if "r' = Inr ()"
      using 1(1) [OF recv [symmetric] Inr step [symmetric] that] calculation(2) by blast
    ultimately show ?thesis
      using recv Inr step
      by (cases r'; subst authority_loop.simps, subst authority_loop.simps) (auto intro: process_evolves_trans)
  qed
qed

text \<open>Frames cut into pieces anyhow: the authority handles the messages they hold, one by one.\<close>

lemma authority_loop_frames:
  assumes "list_all2 (\<lambda>env frame. encode_frame env = Inr frame \<and> jvalid (JObj env)) envs frames"
    and "concat segs = concat frames" "[] \<notin> set segs"
  shows "authority_loop sha (map Arrived segs @ [EndOfStream]) s =
    then_t (authority_run sha (map sorted_envelope envs) s)
      (\<lambda>_ t. emit ''TRANSPORT_CLOSED'' ''HARNESS_DISCONNECTED'' None [] t)"
  using assms
proof (induction envs frames arbitrary: segs s rule: list_all2_induct)
  case Nil
  then have "segs = []" by (cases segs) auto
  then show ?case by (subst authority_loop.simps) (simp add: recv_envelope_def HEADER_BYTES_def numeral_eq_Suc is_truncated_def)
next
  case (Cons env envs frame frames)
  obtain segs' where recv: "recv_envelope (map Arrived segs @ [EndOfStream]) =
      (Inr (sorted_envelope env), map Arrived segs' @ [EndOfStream])"
    and segs': "concat segs' = concat frames" "[] \<notin> set segs'"
    using receive_frame [of env frame segs "concat frames" "[EndOfStream]"] Cons by auto
  show ?case
    by (subst authority_loop.simps) (simp add: recv Cons.IH [OF segs'] then_t_def split: prod.splits sum.splits)
qed

subsection \<open>The time stamp of a message has no effect\<close>

definition same_but_time :: "jval dict \<Rightarrow> jval dict \<Rightarrow> bool" where
  "same_but_time m m' \<longleftrightarrow> (\<forall>k. k \<noteq> ''send_monotonic_ns'' \<longrightarrow> field m k = field m' k)"

lemma same_but_time_fields:
  assumes "same_but_time m m'"
  shows "str_field m ''message_kind'' = str_field m' ''message_kind''"
    "str_field m ''sender_role'' = str_field m' ''sender_role''"
    "str_field m ''receiver_role'' = str_field m' ''receiver_role''"
    "str_field m ''subject_id'' = str_field m' ''subject_id''"
    "obj_field m ''payload'' = obj_field m' ''payload''"
    "emit a r (Some m) d = emit a r (Some m') d"
  using assms by (auto simp: same_but_time_def str_field_def obj_field_def emit_def log_event_def subject_of_def)

lemma same_but_time_message:
  assumes "same_but_time m m'"
  shows "authority_message sha m = authority_message sha m'"
  unfolding authority_message_def dispatch_message_def reject_message_def register_harness_def register_worker_def
    observe_completion_def observe_failure_def observe_shutdown_ack_def expected_current_def
    same_but_time_fields [OF assms] by (rule refl)

lemma same_but_time_run: "list_all2 same_but_time ms ms' \<Longrightarrow> authority_run sha ms = authority_run sha ms'"
proof (induction ms ms' rule: list_all2_induct)
  case (Cons m ms m' ms')
  then show ?case using same_but_time_message [of m m' sha] by (intro ext) simp
qed simp

subsection \<open>No message is sent twice\<close>

text \<open>The frames sent hold messages of this process, numbered upwards and not beyond \<open>n\<close>.\<close>

definition numbered :: "int \<Rightarrow> nat \<Rightarrow> bytes \<Rightarrow> bool" where
  "numbered pid k frame \<longleftrightarrow>
     (\<exists>env. encode_frame env = Inr frame \<and> jvalid (JObj env) \<and>
        field env ''message_id'' = JStr (authority_message_id pid (int k)))"

definition sent_upto :: "int \<Rightarrow> authority \<Rightarrow> bool" where
  "sent_upto n s \<longleftrightarrow>
     (\<exists>ks. sorted_wrt (<) ks \<and> (\<forall>k\<in>set ks. int k \<le> n) \<and> list_all2 (numbered (pr_pid s)) ks (map snd (pr_sent s)))"

lemma numbered_inj:
  assumes "numbered pid k frame" "numbered pid l frame"
  shows "k = l"
proof -
  obtain env env' where e: "encode_frame env = Inr frame" "encode_frame env' = Inr frame"
    "jvalid (JObj env)" "jvalid (JObj env')"
    "field env ''message_id'' = JStr (authority_message_id pid (int k))"
    "field env' ''message_id'' = JStr (authority_message_id pid (int l))"
    using assms by (auto simp: numbered_def)
  have "sorted_envelope env = sorted_envelope env'"
    using decode_encode_frame e(1-4) by (metis sum.inject(2))
  moreover have "field (sorted_envelope env) ''message_id'' = field env ''message_id''"
    "field (sorted_envelope env') ''message_id'' = field env' ''message_id''"
    using e by (simp_all add: field_sorted_envelope keys_of_def)
  ultimately have "int_str (int k) = int_str (int l)"
    using e(5,6) by (simp add: authority_message_id_def)
  then show ?thesis by (simp add: int_str_def nat_str_inj)
qed

lemma sent_upto_distinct:
  assumes "sent_upto n s"
  shows "distinct (map snd (pr_sent s))"
proof -
  from assms obtain ks where ks: "sorted_wrt (<) ks" "list_all2 (numbered (pr_pid s)) ks (map snd (pr_sent s))"
    by (auto simp: sent_upto_def)
  then have "distinct ks" by (simp add: strict_sorted_iff)
  with ks(2) show ?thesis
    by (auto simp: distinct_conv_nth list_all2_conv_all_nth) (metis numbered_inj)
qed

lemma sent_upto_keeps:
  "sent_upto n s \<Longrightarrow> pr_pid t = pr_pid s \<Longrightarrow> pr_sent t = pr_sent s \<Longrightarrow> n \<le> n' \<Longrightarrow> sent_upto n' t"
  unfolding sent_upto_def by force

definition sent_ok :: "authority \<Rightarrow> bool" where
  "sent_ok s \<longleftrightarrow> sent_upto (au_counter s) s \<and> 0 \<le> au_counter s"

lemma sent_ok_same:
  "sent_ok s \<Longrightarrow> pr_pid t = pr_pid s \<Longrightarrow> pr_sent t = pr_sent s \<Longrightarrow> au_counter t = au_counter s \<Longrightarrow> sent_ok t"
  unfolding sent_ok_def using sent_upto_keeps [of "au_counter s" s t "au_counter s"] by simp

lemma sent_ok_emit: "sent_ok s \<Longrightarrow> sent_ok (snd (emit a r m d s))"
  by (erule sent_ok_same) (simp_all add: emit_def read_clock_def Let_def)

lemma sent_ok_send:
  assumes "sent_ok s" "jvalid (JObj payload)"
  shows "sent_ok (snd (authority_send kind receiver st si ps payload (count_up s)))"
proof -
  let ?s = "count_up s" let ?n = "au_counter s + 1"
  obtain r u where env: "new_envelope (authority_message_id (pr_pid ?s) (au_counter ?s)) kind CONTROL_PLANE_AUTHORITY
      receiver st si ps payload ?s = (r, u)" by (meson surj_pair)
  have u: "pr_pid u = pr_pid s" "pr_sent u = pr_sent s" "au_counter u = ?n" "pr_fault u = pr_fault s" "pr_sends u = pr_sends s"
    using env by (auto simp: new_envelope_def read_clock_def count_up_def)
  have up: "sent_upto ?n t" if "pr_pid t = pr_pid s" "pr_sent t = pr_sent s" for t
    using assms(1) that sent_upto_keeps [of "au_counter s" s t ?n] by (simp add: sent_ok_def)
  have pos: "0 \<le> ?n" using assms(1) by (simp add: sent_ok_def)
  show ?thesis
  proof (cases r)
    case (Inl e)
    then show ?thesis using up [of u] u pos by (simp add: authority_send_def env sent_ok_def)
  next
    case (Inr m)
    note m = new_envelope_valid [OF env [unfolded Inr]]
    obtain v t where send: "send_envelope ToHarness m u = (v, t)" by (cases "send_envelope ToHarness m u")
    have t: "pr_pid t = pr_pid s" "au_counter t = ?n"
      using send u by (auto simp: send_envelope_def sendall_def Let_def split: sum.splits option.splits)
    have "sent_upto ?n t"
    proof (cases "pr_sent t = pr_sent s")
      case False
      then obtain frame where frame: "encode_frame m = Inr frame" "pr_sent t = pr_sent s @ [(ToHarness, frame)]"
        using send u by (auto simp: send_envelope_def sendall_def Let_def split: sum.splits option.splits)
      obtain ks where ks: "sorted_wrt (<) ks" "\<forall>k\<in>set ks. int k \<le> au_counter s"
        "list_all2 (numbered (pr_pid s)) ks (map snd (pr_sent s))"
        using assms(1) by (auto simp: sent_ok_def sent_upto_def)
      have "numbered (pr_pid s) (nat ?n) frame"
        using frame(1) m(2,5) assms(2) pos by (auto simp: numbered_def count_up_def)
      then show ?thesis
        using ks frame(2) t pos unfolding sent_upto_def
        by (intro exI [of _ "ks @ [nat ?n]"]) (fastforce simp: sorted_wrt_append list_all2_appendI)
    qed (use up t in blast)
    then show ?thesis using t pos Inr by (cases v) (simp_all add: authority_send_def env send sent_ok_def)
  qed
qed

lemma sent_ok_register_harness:
  assumes "sent_ok s" "received m"
  shows "sent_ok (snd (register_harness m s))"
proof -
  have "jvalid (payload_pid m)"
    using assms(2) by (auto simp: payload_pid_def received_def intro!: jvalid_field jvalid_obj_field)
  then show ?thesis
    using assms(1) unfolding register_harness_def Let_def reject_message_def
    by (auto simp: payload_pid_def intro!: then_t_post [where P = sent_ok] sent_ok_emit sent_ok_send intro: sent_ok_same)
qed

lemma sent_ok_send_work: "sent_ok s \<Longrightarrow> sent_ok (snd (send_work sha w s))"
  unfolding send_work_def Let_def by (auto intro!: then_t_post [where P = sent_ok] sent_ok_emit sent_ok_send)

lemma harness_pid_count_up [simp]: "au_harness_pid (count_up s) = au_harness_pid s"
  by (simp add: count_up_def)

lemma sent_ok_register_worker:
  assumes "sent_ok s" "received m" "registration_ok s"
  shows "sent_ok (snd (register_worker sha m s))"
proof -
  have "jvalid (field (obj_field m ''payload'') ''pid'')"
    using assms(2) by (auto simp: received_def intro!: jvalid_field jvalid_obj_field)
  moreover have "jvalid (au_harness_pid s)" using registration_pids [OF assms(3)] by simp
  ultimately show ?thesis
    using assms(1) unfolding register_worker_def Let_def reject_message_def
    by (auto intro!: then_t_post [where P = sent_ok] sent_ok_emit sent_ok_send sent_ok_send_work intro: sent_ok_same)
qed

lemma sent_ok_dispatch:
  assumes "sent_ok s" "received m" "registration_ok s"
  shows "sent_ok (snd (dispatch_message sha m s))"
proof -
  have "sent_ok (snd (observe_completion m s))"
    using assms(1) unfolding observe_completion_def Let_def
    by (auto intro!: then_t_post [where P = sent_ok] sent_ok_emit sent_ok_send)
  moreover have "sent_ok (clear_worker pid t)" if "sent_ok t" for pid t
    using that by (rule sent_ok_same) (simp_all add: clear_worker_def)
  ultimately show ?thesis
    using assms sent_ok_register_harness sent_ok_register_worker
    by (auto simp: dispatch_message_def Let_def reject_message_def observe_failure_def observe_shutdown_ack_def
        intro!: sent_ok_emit then_t_post [where P = sent_ok])
qed

lemma sent_ok_message:
  assumes "sent_ok s" "registration_ok s" "received m"
  shows "sent_ok (snd (authority_message sha m s))"
  unfolding authority_message_def
proof (rule then_t_post [where P = sent_ok])
  fix x q
  assume "emit ''MESSAGE_RECEIVED'' (str_field m ''message_kind'') (Some m) [] s = (Inr x, q)" "sent_ok q"
  moreover then have "registration_ok q"
    using assms(2) by (auto simp: registration_ok_def emit_def read_clock_def Let_def split: if_splits)
  ultimately show "sent_ok (snd (dispatch_message sha m q))" using assms(3) sent_ok_dispatch by simp
qed (rule sent_ok_emit [OF assms(1)])

subsection \<open>What every message keeps, the loop keeps\<close>

lemma authority_loop_keeps:
  assumes "P s" "\<And>m s. P s \<Longrightarrow> received m \<Longrightarrow> P (snd (authority_message sha m s))"
    and "\<And>s. P s \<Longrightarrow> P (snd (emit ''TRANSPORT_CLOSED'' ''HARNESS_DISCONNECTED'' None [] s))"
  shows "P (snd (authority_loop sha sock s))"
  using assms
proof (induction sha sock s rule: authority_loop.induct)
  case (1 sha sock s)
  obtain r rest where recv: "recv_envelope sock = (r, rest)" by (cases "recv_envelope sock")
  show ?case
  proof (cases r)
    case (Inl e)
    then show ?thesis using 1(2,4) recv by (subst authority_loop.simps) simp
  next
    case (Inr m)
    obtain r' t where step: "authority_message sha m s = (r', t)" by (cases "authority_message sha m s")
    with 1(2,3) recv_envelope_received recv Inr have t: "P t" by (metis snd_conv)
    show ?thesis
    proof (cases r')
      case (Inr u)
      with \<open>r = Inr m\<close> have "P (snd (authority_loop sha rest t))"
        using 1(1) [OF recv [symmetric] _ step [symmetric] Inr] t 1(3,4) by blast
      then show ?thesis using recv \<open>r = Inr m\<close> step Inr by (subst authority_loop.simps) simp
    qed (use t recv Inr step in \<open>subst authority_loop.simps, simp\<close>)
  qed
qed

lemma sent_ok_loop:
  assumes "sent_ok s" "registration_ok s"
  shows "sent_ok (snd (authority_loop sha sock s))"
proof -
  have "sent_ok (snd (authority_loop sha sock s)) \<and> registration_ok (snd (authority_loop sha sock s))"
    by (rule authority_loop_keeps [where P = "\<lambda>s. sent_ok s \<and> registration_ok s"])
      (use assms sent_ok_message sent_ok_emit message_keeps_registration_ok in \<open>auto simp: registration_ok_def\<close>)
  then show ?thesis by simp
qed

text \<open>
  The registration after any run, also one that an exception ended: that of the messages it handled,
  the one that raised included.
\<close>

lemma authority_run_registrations:
  assumes "list_all received ms"
  shows "\<exists>k\<le>length ms. registration (snd (authority_run sha ms s)) =
      fold (\<lambda>m reg. registration_step reg m) (take k ms) (registration s) \<and>
    (fst (authority_run sha ms s) = Inr () \<longrightarrow> k = length ms)"
  using assms
proof (induction ms arbitrary: s)
  case (Cons m ms)
  obtain r t where step: "authority_message sha m s = (r, t)" by (cases "authority_message sha m s")
  have one: "registration t = registration_step (registration s) m"
    using registration_message [of m sha s] received_kind [of m] Cons.prems step by simp
  show ?case
  proof (cases r)
    case (Inl e)
    then show ?thesis using step one by (intro exI [of _ 1]) simp
  next
    case (Inr u)
    from Cons.IH [of t] Cons.prems obtain k where "k \<le> length ms"
      "registration (snd (authority_run sha ms t)) = fold (\<lambda>m reg. registration_step reg m) (take k ms) (registration t)"
      "fst (authority_run sha ms t) = Inr () \<longrightarrow> k = length ms" by auto
    with Inr step one show ?thesis by (intro exI [of _ "Suc k"]) simp
  qed
qed simp

subsection \<open>How the authority may fail\<close>

lemma authority_send_well_behaved [well_behaved_steps]:
  assumes "clock_ok s" "k \<in> set MESSAGE_KINDS" "st \<noteq> ''''" "si \<noteq> ''''" "ps \<noteq> ''''"
  shows "well_behaved (authority_send k receiver st si ps payload s)"
  unfolding authority_send_def
  using assms new_envelope_valid(1)
  by (auto intro!: well_behaved_steps simp: authority_message_id_def)

lemma clock_ok_updates [simp]:
  "clock_ok (count_up s) = clock_ok s" "clock_ok (s\<lparr>au_harness_pid := h\<rparr>) = clock_ok s"
  "clock_ok (s\<lparr>au_worker_pid := w, au_worker_id := i\<rparr>) = clock_ok s"
  "clock_ok (s\<lparr>au_worker_pid := w, au_worker_id := i, au_generation := g\<rparr>) = clock_ok s"
  "clock_ok (clear_worker p s) = clock_ok s"
  by (simp_all add: clock_ok_def count_up_def clear_worker_def)

lemma schemas_nonempty [simp]: "REGISTER_SCHEMA \<noteq> ''''" "WORK_SCHEMA \<noteq> ''''" "CONTROL_SCHEMA \<noteq> ''''"
  by (simp_all add: REGISTER_SCHEMA_def WORK_SCHEMA_def CONTROL_SCHEMA_def)

lemma dispatch_well_behaved:
  assumes "clock_ok s" "received m"
  shows "well_behaved (dispatch_message sha m s)"
proof -
  have kinds: "''REGISTERED'' \<in> set MESSAGE_KINDS" "''WORK'' \<in> set MESSAGE_KINDS" "''SHUTDOWN'' \<in> set MESSAGE_KINDS"
    by (simp_all add: MESSAGE_KINDS_def)
  have subject: "str_field m ''subject_id'' \<noteq> ''''"
    using assms(2) by (auto simp: received_def envelope_ok_def str_field_def nonempty_str_def split: jval.splits)
  have worker: "str_field p ''worker_id'' \<noteq> ''''" if "valid_registration p" for p
    using that by (auto simp: valid_registration_def str_field_def nonempty_str_def split: jval.splits)
  have current: "(case v of JStr w \<Rightarrow> w | _ \<Rightarrow> '''') \<noteq> ''''" if "nonempty_str v" for v
    using that by (auto simp: nonempty_str_def split: jval.splits)
  have "well_behaved (register_harness m s)"
    using assms kinds subject
    by (auto simp: register_harness_def reject_message_def Let_def intro!: well_behaved_steps)
  moreover have "well_behaved (send_work sha w t)" if "clock_ok t" for w t
    using that kinds by (auto simp: send_work_def Let_def intro!: well_behaved_steps)
  then have "well_behaved (register_worker sha m s)"
    using assms kinds worker
    by (auto simp: register_worker_def reject_message_def Let_def intro!: well_behaved_steps)
  moreover have "well_behaved (observe_completion m s)"
    using assms kinds current
    by (auto simp: observe_completion_def Let_def intro!: well_behaved_steps)
  moreover have "well_behaved (observe_failure m s)" "well_behaved (observe_shutdown_ack m s)"
    using assms by (auto simp: observe_failure_def observe_shutdown_ack_def Let_def intro!: well_behaved_steps)
  ultimately show ?thesis
    using assms(1) by (auto simp: dispatch_message_def reject_message_def Let_def intro!: well_behaved_steps)
qed

lemma authority_message_well_behaved:
  assumes "clock_ok s" "received m"
  shows "well_behaved (authority_message sha m s)"
  unfolding authority_message_def
  using assms received_kind [OF assms(2)] dispatch_well_behaved by (intro well_behaved_steps) simp_all

lemma authority_run_well_behaved:
  "clock_ok s \<Longrightarrow> list_all received ms \<Longrightarrow> well_behaved (authority_run sha ms s)"
  by (induction ms arbitrary: s) (auto intro!: well_behaved_steps intro: authority_message_well_behaved)

text \<open>The authority at the start of its loop.\<close>

lemma authority_start_ok:
  fixes p :: process
  assumes "log_ok p" "pr_sent p = []"
  shows "registration_ok (authority_start p b)" "sent_ok (authority_start p b)" "log_ok (authority_start p b)"
    "registration (authority_start p b) = (JNull, JNull, JNull, 0)" "clock_ok (authority_start p b) = clock_ok p"
  using assms
  by (auto simp: authority_start_def registration_ok_def sent_ok_def sent_upto_def log_ok_def registration_def clock_ok_def
      process.defs authority.defs)

text \<open>With a loopback address and a port, the main function reaches its loop.\<close>

lemma authority_main_starts:
  fixes p :: process
  assumes "log_ok p" "pr_sent p = []" "loopback host" "valid_port port"
  obtains s where "authority_process_main sha host port b bh bp peer sock p = authority_loop sha sock s"
    "registration s = (JNull, JNull, JNull, 0)" "registration_ok s" "sent_ok s" "clock_ok s = clock_ok p"
    "pr_pid s = pr_pid p"
proof -
  let ?s0 = "authority_start p b"
  let ?s1 = "snd (emit ''PROCESS_STARTED'' ''OK'' None
    [(''pid_source'', JStr ''os.getpid''), (''continuity_core_owned'', JBool True), (''core_type'', JStr ''ContinuityCore'')] ?s0)"
  let ?s2 = "snd (emit ''LISTENING'' ''OK'' None
    [(''host'', bh), (''port'', JInt bp), (''port_source'', JStr ''kernel_bind'')] ?s1)"
  let ?s3 = "snd (emit ''HARNESS_SOCKET_ACCEPTED'' ''OK'' None [(''peer'', JList peer)] ?s2)"
  note start = authority_start_ok [OF assms(1,2), of b]
  have keep: "registration_ok (snd (emit a r m d s)) = registration_ok s" "clock_ok (snd (emit a r m d s)) = clock_ok s"
    "pr_pid (snd (emit a r m d s)) = pr_pid s" for a r m d and s :: authority
    by (simp_all add: registration_ok_def clock_ok_def emit_def read_clock_def Let_def)
  have "authority_process_main sha host port b bh bp peer sock p = authority_loop sha sock ?s3"
    using assms(3,4) by (simp add: authority_process_main_def then_emit)
  moreover have "sent_ok ?s3" by (intro sent_ok_emit start(2))
  moreover have "pr_pid ?s0 = pr_pid p" by (simp add: authority_start_def process.defs authority.defs)
  ultimately show ?thesis using start by (intro that [of ?s3]) (simp_all add: keep)
qed

end
