(* ===== verification/Proto_Worker.thy ===== *)
theory Proto_Worker
  imports Proto_Process
begin

section \<open>The worker process\<close>

text \<open>
  \<open>prototype/c8_worker.py\<close>. The digest function, the names of the loaded modules and the outcome of
  the attempts to connect are parameters; the simulated work time has no effect.
\<close>

record worker_process = process +
  wk_worker_id :: string
  wk_counter :: int

definition WORKER_REGISTER_SCHEMA :: string where "WORKER_REGISTER_SCHEMA = ''cadi.c8.2.worker-register.v1''"
definition COMPLETE_SCHEMA :: string where "COMPLETE_SCHEMA = ''cadi.c8.2.synthetic-completion.v1''"
definition WORKER_CONTROL_SCHEMA :: string where "WORKER_CONTROL_SCHEMA = ''cadi.c8.2.control.v1''"

definition worker_message_id :: "string \<Rightarrow> int \<Rightarrow> int \<Rightarrow> string" where
  "worker_message_id worker_id pid counter =
     ''worker:'' @ worker_id @ '':'' @ int_str pid @ '':'' @ int_str counter"

definition worker_send ::
    "string \<Rightarrow> string \<Rightarrow> string \<Rightarrow> string \<Rightarrow> jval dict \<Rightarrow> worker_process \<Rightarrow> (worker_process, unit) tstep" where
  "worker_send kind subject_type subject_id payload_schema payload s =
     then_t (new_envelope (worker_message_id (wk_worker_id s) (pr_pid s) (wk_counter s)) kind WORKER
               CONTROL_PLANE_AUTHORITY subject_type subject_id payload_schema payload s) (\<lambda>message s.
     then_t (send_envelope ToHarness message s) (\<lambda>_ s.
     emit ''MESSAGE_SENT'' kind (Some message) [] s))"

definition continuity_modules :: "string list \<Rightarrow> string list" where
  "continuity_modules modules =
     sort (filter (\<lambda>name. name = ''continuity'' \<or> take 11 name = ''continuity.'') modules)"

text \<open>The work: the digest of the input, when the payload asks for it.\<close>

definition work_result :: "(string \<Rightarrow> string) \<Rightarrow> jval dict \<Rightarrow> jval \<times> jval" where
  "work_result sha payload =
     (case (field payload ''operation'' = JStr ''SHA256'', field payload ''input'') of
        (True, JStr input) \<Rightarrow> (JStr ''OK'', JStr (sha input))
      | _ \<Rightarrow> (JStr ''ERROR'', JNull))"

definition do_work :: "(string \<Rightarrow> string) \<Rightarrow> jval dict \<Rightarrow> worker_process \<Rightarrow> (worker_process, unit) tstep" where
  "do_work sha message s =
     (let (status, output) = work_result sha (obj_field message ''payload'') in
      worker_send ''COMPLETE'' (str_field message ''subject_type'') (str_field message ''subject_id'') COMPLETE_SCHEMA
        [(''pid'', JInt (pr_pid s)), (''worker_id'', JStr (wk_worker_id s)), (''status'', status),
         (''output'', output), (''work_message_id'', field message ''message_id'')]
        (s\<lparr>wk_counter := wk_counter s + 1\<rparr>))"

definition acknowledge_shutdown :: "worker_process \<Rightarrow> (worker_process, unit) tstep" where
  "acknowledge_shutdown s =
     then_t (worker_send ''SHUTDOWN_ACK'' ''PROCESS'' (wk_worker_id s) WORKER_CONTROL_SCHEMA
               [(''pid'', JInt (pr_pid s)), (''worker_id'', JStr (wk_worker_id s))]
               (s\<lparr>wk_counter := wk_counter s + 1\<rparr>))
       (\<lambda>_ s. emit ''PROCESS_EXITING'' ''GRACEFUL'' None [] s)"

text \<open>One message; the value is whether the process returns.\<close>

definition worker_message :: "(string \<Rightarrow> string) \<Rightarrow> jval dict \<Rightarrow> worker_process \<Rightarrow> (worker_process, bool) tstep" where
  "worker_message sha message s =
     (let kind = str_field message ''message_kind'' in
      then_t (emit ''MESSAGE_RECEIVED'' kind (Some message) [] s) (\<lambda>_ s.
      if kind = ''REGISTERED'' then (Inr False, s)
      else if kind = ''WORK'' then then_t (do_work sha message s) (\<lambda>_ s. (Inr False, s))
      else if kind = ''SHUTDOWN'' then then_t (acknowledge_shutdown s) (\<lambda>_ s. (Inr True, s))
      else then_t (emit ''MESSAGE_REJECTED'' ''UNEXPECTED_KIND'' (Some message) [] s) (\<lambda>_ s. (Inr False, s))))"

text \<open>The loop over what the socket delivers; no exception of \<open>recv_envelope\<close> is caught.\<close>

fun worker_loop :: "(string \<Rightarrow> string) \<Rightarrow> jval dict tres list \<Rightarrow> worker_process \<Rightarrow> (worker_process, unit) tstep" where
  "worker_loop sha [] s = (Inl FrameTimeoutError, s)"
| "worker_loop sha (Inl e # inputs) s = (Inl e, s)"
| "worker_loop sha (Inr message # inputs) s =
     then_t (worker_message sha message s) (\<lambda>finished s. if finished then (Inr (), s) else worker_loop sha inputs s)"

definition worker_process_main ::
    "(string \<Rightarrow> string) \<Rightarrow> string \<Rightarrow> string \<Rightarrow> rat \<Rightarrow> string list \<Rightarrow> bool list \<Rightarrow> jval dict tres list \<Rightarrow> process \<Rightarrow>
     (worker_process, unit) tstep" where
  "worker_process_main sha harness_host worker_id work_delay modules attempts inputs p =
     (let s = process.extend p (worker_process.fields worker_id 1) in
      if worker_id = '''' \<or> work_delay < 0 then (Inl (BuiltinError ValueError), s)
      else
        then_t (emit ''PROCESS_STARTED'' ''OK'' None
                  [(''worker_id'', JStr worker_id), (''pid_source'', JStr ''os.getpid'')] s) (\<lambda>_ s.
        then_t (connect_loopback harness_host attempts, s) (\<lambda>_ s.
        then_t (worker_send ''REGISTER'' ''PROCESS'' worker_id WORKER_REGISTER_SCHEMA
                  [(''pid'', JInt (pr_pid s)), (''worker_id'', JStr worker_id),
                   (''continuity_modules_loaded'', JList (map JStr (continuity_modules modules)))] s) (\<lambda>_ s.
        worker_loop sha inputs s))))"

end
