(* ===== verification/Proto_Delivery.thy ===== *)
theory Proto_Delivery
  imports Proto_Transport Machine "HOL-Library.Multiset"
begin

section \<open>Scripted delivery\<close>

text \<open>
  \<open>prototype/c8_faults.py\<close>: the scheduler that delays, duplicates, reorders and drops the frames
  of one kind of message as its script says. \<open>QueueCapacityError\<close> is a \<open>RuntimeError\<close>, the only one
  raised here, and appears as such.
\<close>

datatype DeliveryAction = DELIVER | DELAY | DUPLICATE | REORDER | DROP | LATE_DELIVER

fun action_value :: "DeliveryAction \<Rightarrow> string" where
  "action_value DELIVER = ''DELIVER''"
| "action_value DELAY = ''DELAY''"
| "action_value DUPLICATE = ''DUPLICATE''"
| "action_value REORDER = ''REORDER''"
| "action_value DROP = ''DROP''"
| "action_value LATE_DELIVER = ''LATE_DELIVER''"

record DeliveryScheduler =
  ds_capacity :: int
  ds_script :: "DeliveryAction list"
  ds_cursor :: nat
  ds_delayed :: "bytes list"
  ds_late :: "bytes list"
  ds_held :: "bytes option"
  ds_dropped :: nat

text \<open>The loop of the constructor: whether the first of two \<open>REORDER\<close> directives is still alone.\<close>

fun check_pairs :: "bool \<Rightarrow> DeliveryAction list \<Rightarrow> unit res" where
  "check_pairs e [] = (if e then Inl ValueError else Inr ())"
| "check_pairs e (a # as) =
     (if a = REORDER then check_pairs (\<not> e) as
      else if e then Inl ValueError else check_pairs e as)"

definition new_DeliveryScheduler :: "DeliveryAction list \<Rightarrow> pyval \<Rightarrow> DeliveryScheduler res" where
  "new_DeliveryScheduler script capacity =
     (case capacity of
        PInt n \<Rightarrow>
          if n \<le> 0 then Inl ValueError
          else bind_res (check_pairs False script) (\<lambda>_.
            Inr \<lparr>ds_capacity = n, ds_script = script, ds_cursor = 0, ds_delayed = [], ds_late = [],
                 ds_held = None, ds_dropped = 0\<rparr>)
      | _ \<Rightarrow> Inl ValueError)"

definition pending_count :: "DeliveryScheduler \<Rightarrow> nat" where
  "pending_count s = length (ds_delayed s) + length (ds_late s) + (if ds_held s \<noteq> None then 1 else 0)"

definition reserve_room :: "DeliveryScheduler \<Rightarrow> unit res" where
  "reserve_room s = raise_if (int (pending_count s) \<ge> ds_capacity s) RuntimeError"

definition next_action :: "DeliveryScheduler \<Rightarrow> DeliveryAction \<times> DeliveryScheduler" where
  "next_action s =
     (if ds_cursor s \<ge> length (ds_script s) then (DELIVER, s)
      else (ds_script s ! ds_cursor s, s\<lparr>ds_cursor := ds_cursor s + 1\<rparr>))"

definition submit_action :: "DeliveryScheduler \<Rightarrow> DeliveryAction \<Rightarrow> bytes \<Rightarrow> (DeliveryScheduler, bytes list) outcome" where
  "submit_action s action frame =
     (case action of
        DELIVER \<Rightarrow> (Inr [frame], s)
      | DUPLICATE \<Rightarrow> (Inr [frame, frame], s)
      | DROP \<Rightarrow> (Inr [], s\<lparr>ds_dropped := ds_dropped s + 1\<rparr>)
      | DELAY \<Rightarrow> reads s (reserve_room s) (\<lambda>_. (Inr [], s\<lparr>ds_delayed := ds_delayed s @ [frame]\<rparr>))
      | LATE_DELIVER \<Rightarrow> reads s (reserve_room s) (\<lambda>_. (Inr [], s\<lparr>ds_late := ds_late s @ [frame]\<rparr>))
      | REORDER \<Rightarrow>
          (case ds_held s of
             None \<Rightarrow> reads s (reserve_room s) (\<lambda>_. (Inr [], s\<lparr>ds_held := Some frame\<rparr>))
           | Some held \<Rightarrow> (Inr [frame, held], s\<lparr>ds_held := None\<rparr>)))"

definition submit :: "DeliveryScheduler \<Rightarrow> bytes \<Rightarrow> (DeliveryScheduler, bytes list) outcome" where
  "submit s frame =
     (if frame = [] then (Inl ValueError, s)
      else case next_action s of (action, s1) \<Rightarrow> submit_action s1 action frame)"

definition flush_delayed :: "DeliveryScheduler \<Rightarrow> bytes list \<times> DeliveryScheduler" where
  "flush_delayed s = (ds_delayed s, s\<lparr>ds_delayed := []\<rparr>)"

definition flush_late :: "DeliveryScheduler \<Rightarrow> bytes list \<times> DeliveryScheduler" where
  "flush_late s = (ds_late s, s\<lparr>ds_late := []\<rparr>)"

definition flush_reorder :: "DeliveryScheduler \<Rightarrow> bytes list \<times> DeliveryScheduler" where
  "flush_reorder s =
     (case ds_held s of None \<Rightarrow> ([], s) | Some frame \<Rightarrow> ([frame], s\<lparr>ds_held := None\<rparr>))"

subsection \<open>Runs\<close>

datatype delivery_op = Submit bytes | FlushDelayed | FlushLate | FlushReorder

fun delivery_call :: "DeliveryScheduler \<Rightarrow> delivery_op \<Rightarrow> (DeliveryScheduler, bytes list) outcome" where
  "delivery_call s (Submit frame) = submit s frame"
| "delivery_call s FlushDelayed = (case flush_delayed s of (out, t) \<Rightarrow> (Inr out, t))"
| "delivery_call s FlushLate = (case flush_late s of (out, t) \<Rightarrow> (Inr out, t))"
| "delivery_call s FlushReorder = (case flush_reorder s of (out, t) \<Rightarrow> (Inr out, t))"

definition delivery_step :: "DeliveryScheduler \<Rightarrow> delivery_op \<Rightarrow> (DeliveryScheduler, unit) outcome" where
  "delivery_step s op = (case delivery_call s op of (Inl e, t) \<Rightarrow> (Inl e, t) | (Inr out, t) \<Rightarrow> (Inr (), t))"

text \<open>What a run hands over, what it was given, and what it refused.\<close>

fun emitted :: "DeliveryScheduler \<Rightarrow> delivery_op list \<Rightarrow> bytes list" where
  "emitted s [] = []"
| "emitted s (op # ops) =
     (case delivery_call s op of
        (Inl e, t) \<Rightarrow> emitted t ops
      | (Inr out, t) \<Rightarrow> out @ emitted t ops)"

fun refused :: "DeliveryScheduler \<Rightarrow> delivery_op list \<Rightarrow> bytes list" where
  "refused s [] = []"
| "refused s (op # ops) =
     (case (op, delivery_call s op) of
        (Submit frame, Inl e, t) \<Rightarrow> frame # refused t ops
      | (_, _, t) \<Rightarrow> refused t ops)"

fun submitted :: "delivery_op list \<Rightarrow> bytes list" where
  "submitted [] = []"
| "submitted (Submit frame # ops) = frame # submitted ops"
| "submitted (op # ops) = submitted ops"

definition held_frames :: "DeliveryScheduler \<Rightarrow> bytes list" where
  "held_frames s = ds_delayed s @ ds_late s @ (case ds_held s of None \<Rightarrow> [] | Some f \<Rightarrow> [f])"

subsection \<open>Invariant\<close>

definition delivery_ok :: "DeliveryScheduler \<Rightarrow> bool" where
  "delivery_ok s \<longleftrightarrow> int (pending_count s) \<le> ds_capacity s \<and> ds_cursor s \<le> length (ds_script s)"

definition delivery_evolves :: "DeliveryScheduler \<Rightarrow> DeliveryScheduler \<Rightarrow> bool" where
  "delivery_evolves s t \<longleftrightarrow> ds_capacity t = ds_capacity s \<and> ds_script t = ds_script s \<and>
     ds_cursor s \<le> ds_cursor t \<and> ds_dropped s \<le> ds_dropped t"

lemma delivery_evolves_refl: "delivery_evolves s s"
  by (simp add: delivery_evolves_def)

lemma delivery_evolves_trans: "delivery_evolves s t \<Longrightarrow> delivery_evolves t u \<Longrightarrow> delivery_evolves s u"
  by (simp add: delivery_evolves_def)

text \<open>The outcomes of a submission, one case each.\<close>

lemma submit_cases:
  assumes "submit s frame = (r, t)"
  obtains (empty) "frame = []" "r = Inl ValueError" "t = s"
  | (acts) action s1 where "frame \<noteq> []" "next_action s = (action, s1)" "submit_action s1 action frame = (r, t)"
  using assms by (auto simp: submit_def split: if_splits prod.splits)

lemma next_action_ok:
  assumes "delivery_ok s" "next_action s = (action, s1)"
  shows "delivery_ok s1" "delivery_evolves s s1" "held_frames s1 = held_frames s" "ds_dropped s1 = ds_dropped s"
    "action \<in> insert DELIVER (set (ds_script s))"
  using assms
  by (auto simp: next_action_def delivery_ok_def delivery_evolves_def held_frames_def pending_count_def split: if_splits)

lemma submit_action_ok:
  assumes "delivery_ok s" "submit_action s action frame = (r, t)"
  shows "delivery_ok t \<and> delivery_evolves s t"
  using assms
  by (cases action)
    (auto simp: submit_action_def delivery_ok_def delivery_evolves_def pending_count_def reserve_room_def
      reads_def raise_if_def split: option.splits if_splits)

lemma submit_ok:
  assumes "delivery_ok s" "submit s frame = (r, t)"
  shows "delivery_ok t \<and> delivery_evolves s t"
  using assms(2)
proof (cases rule: submit_cases)
  case (acts action s1)
  then show ?thesis
    using next_action_ok [OF assms(1) acts(2)] submit_action_ok delivery_evolves_trans by blast
qed (simp add: assms(1) delivery_evolves_refl)

lemma delivery_call_ok:
  assumes "delivery_ok s" "delivery_call s op = (r, t)"
  shows "delivery_ok t \<and> delivery_evolves s t"
proof (cases op)
  case (Submit frame)
  then show ?thesis using submit_ok [OF assms(1)] assms(2) by simp
qed (use assms in \<open>auto simp: flush_delayed_def flush_late_def flush_reorder_def delivery_ok_def
    delivery_evolves_def pending_count_def split: option.splits\<close>)

lemma delivery_step_call: "snd (delivery_step s op) = snd (delivery_call s op)"
  by (auto simp: delivery_step_def split: prod.splits sum.splits)

interpretation delivery: invariant_machine delivery_step "\<lambda>_. True" delivery_ok delivery_evolves
proof unfold_locales
  fix s op r t
  assume ok: "delivery_ok s" and step: "delivery_step s op = (r, t)"
  obtain r' where "delivery_call s op = (r', t)"
    using delivery_step_call [of s op] step by (cases "delivery_call s op") auto
  with ok show "delivery_ok t" "delivery_evolves s t" using delivery_call_ok by blast+
qed (auto intro: delivery_evolves_refl delivery_evolves_trans)

lemma new_DeliveryScheduler_ok:
  "new_DeliveryScheduler script capacity = Inr s \<Longrightarrow> delivery_ok s \<and> ds_script s = script \<and> ds_dropped s = 0 \<and> held_frames s = []"
  by (auto simp: new_DeliveryScheduler_def delivery_ok_def pending_count_def held_frames_def bind_res_def
      split: pyval.splits if_splits sum.splits)

subsection \<open>Conservation of frames\<close>

text \<open>What one call gives back and what it keeps, against what it had and was given.\<close>

definition call_input :: "delivery_op \<Rightarrow> bytes multiset" where
  "call_input op = (case op of Submit frame \<Rightarrow> {#frame#} | _ \<Rightarrow> {#})"

lemma submit_action_frames:
  assumes "submit_action s action frame = (Inr out, t)" "action \<noteq> DUPLICATE"
  shows "\<exists>lost. {#frame#} + mset (held_frames s) = mset out + mset (held_frames t) + lost \<and>
    ds_dropped t = ds_dropped s + size lost"
proof (cases "action = DROP")
  case True
  then show ?thesis using assms(1)
    by (intro exI [of _ "{#frame#}"]) (auto simp: submit_action_def held_frames_def)
next
  case False
  then show ?thesis using assms
    by (intro exI [of _ "{#}"])
      (cases action; auto simp: submit_action_def held_frames_def reserve_room_def raise_if_def split: option.splits if_splits)
qed

lemma submit_action_refused:
  "submit_action s action frame = (Inl e, t) \<Longrightarrow> t = s \<and> e = RuntimeError \<and> ds_capacity s \<le> int (pending_count s)"
  by (cases action) (auto simp: submit_action_def reserve_room_def raise_if_def split: option.splits if_splits)

lemma delivery_call_frames:
  assumes "delivery_ok s" "DUPLICATE \<notin> set (ds_script s)" "delivery_call s op = (Inr out, t)"
  shows "\<exists>lost. call_input op + mset (held_frames s) = mset out + mset (held_frames t) + lost \<and>
    ds_dropped t = ds_dropped s + size lost"
proof (cases op)
  case (Submit frame)
  with assms(3) have "submit s frame = (Inr out, t)" by simp
  then show ?thesis
  proof (cases rule: submit_cases)
    case (acts action s1)
    from next_action_ok [OF assms(1) acts(2)] assms(2) have "action \<noteq> DUPLICATE" by auto
    from submit_action_frames [OF acts(3) this] next_action_ok(3,4) [OF assms(1) acts(2)] Submit
    show ?thesis by (simp add: call_input_def)
  qed simp
qed (use assms(3) in \<open>auto simp: call_input_def flush_delayed_def flush_late_def flush_reorder_def held_frames_def
    split: option.splits\<close>)

lemma delivery_call_refused:
  assumes "delivery_ok s" "delivery_call s op = (Inl e, t)"
  shows "\<exists>frame. op = Submit frame" "held_frames t = held_frames s" "ds_dropped t = ds_dropped s"
proof -
  show "\<exists>frame. op = Submit frame" using assms(2) by (cases op) (auto split: prod.splits)
  then obtain frame where "submit s frame = (Inl e, t)" using assms(2) by auto
  then have "held_frames t = held_frames s \<and> ds_dropped t = ds_dropped s"
  proof (cases rule: submit_cases)
    case (acts action s1)
    then show ?thesis
      using next_action_ok(3,4) [OF assms(1) acts(2)] submit_action_refused [OF acts(3)] by simp
  qed simp
  then show "held_frames t = held_frames s" "ds_dropped t = ds_dropped s" by auto
qed

lemma delivery_conserves:
  assumes "delivery_ok s" "DUPLICATE \<notin> set (ds_script s)"
  shows "\<exists>lost. mset (submitted ops) + mset (held_frames s) =
      mset (emitted s ops) + mset (refused s ops) + mset (held_frames (run_ops delivery_step s ops)) + lost \<and>
    ds_dropped (run_ops delivery_step s ops) = ds_dropped s + size lost"
  using assms
proof (induction ops arbitrary: s)
  case Nil
  then show ?case by (intro exI [of _ "{#}"]) simp
next
  case (Cons op ops)
  obtain r t where call: "delivery_call s op = (r, t)" by (cases "delivery_call s op")
  have next_state: "snd (delivery_step s op) = t" by (simp add: delivery_step_call call)
  have ok: "delivery_ok t" "DUPLICATE \<notin> set (ds_script t)"
    using delivery_call_ok [OF Cons.prems(1) call] Cons.prems(2) by (auto simp: delivery_evolves_def)
  from Cons.IH [OF ok] obtain lost where
    rest: "mset (submitted ops) + mset (held_frames t) =
      mset (emitted t ops) + mset (refused t ops) + mset (held_frames (run_ops delivery_step t ops)) + lost"
      "ds_dropped (run_ops delivery_step t ops) = ds_dropped t + size lost"
    by blast
  have sub: "mset (submitted (op # ops)) = call_input op + mset (submitted ops)"
    by (cases op) (simp_all add: call_input_def)
  show ?case
  proof (cases r)
    case (Inl e)
    note call' = call [unfolded Inl]
    from delivery_call_refused [OF Cons.prems(1) call'] obtain frame where "op = Submit frame"
      "held_frames t = held_frames s" "ds_dropped t = ds_dropped s" by blast
    with rest call' next_state sub show ?thesis
      by (intro exI [of _ lost]) (simp add: call_input_def ac_simps)
  next
    case (Inr out)
    from delivery_call_frames [OF Cons.prems call [unfolded Inr]] obtain lost1 where
      one: "call_input op + mset (held_frames s) = mset out + mset (held_frames t) + lost1"
        "ds_dropped t = ds_dropped s + size lost1" by blast
    have "emitted s (op # ops) = out @ emitted t ops" "refused s (op # ops) = refused t ops"
      using call Inr by (simp_all split: delivery_op.splits)
    with rest one next_state show ?thesis unfolding sub
      by (intro exI [of _ "lost1 + lost"]) (simp add: ac_simps, metis (no_types, lifting) union_assoc union_commute)
  qed
qed

end
