(* ===== verification/Proto_Harness.thy ===== *)
theory Proto_Harness
  imports Proto_Process Proto_Delivery
begin

section \<open>The fault harness\<close>

text \<open>
  \<open>prototype/c8_harness.py\<close>: the process between the workers and the authority, which forwards
  frames through scripted schedulers, one for each direction and kind of message. The selector is
  the sequence of the batches of ready sockets it reports, each with what the call on that socket
  finds. \<open>WorkerSocketSendClosed\<close>, which every caller catches, is the value \<open>WorkerClosed\<close>.
\<close>

datatype forwarding = Sent | WorkerClosed

record harness = process +
  hn_upstream :: "(string \<times> DeliveryScheduler) list"
  hn_downstream :: "(string \<times> DeliveryScheduler) list"
  hn_capacity :: jval
  hn_worker :: bool
  hn_worker_pid :: jval
  hn_worker_id :: jval
  hn_shutdown_expected :: bool
  hn_failures :: int

definition HARNESS_REGISTER_SCHEMA :: string where "HARNESS_REGISTER_SCHEMA = ''cadi.c8.2.harness-register.v1''"
definition FAILURE_SCHEMA :: string where "FAILURE_SCHEMA = ''cadi.c8.2.process-failure.v1''"

subsection \<open>The schedulers\<close>

definition delivery_action :: "string \<Rightarrow> DeliveryAction res" where
  "delivery_action v =
     (case filter (\<lambda>a. action_value a = v) [DELIVER, DELAY, DUPLICATE, REORDER, DROP, LATE_DELIVER] of
        [] \<Rightarrow> Inl ValueError
      | a # _ \<Rightarrow> Inr a)"

fun delivery_actions :: "string list \<Rightarrow> DeliveryAction list res" where
  "delivery_actions [] = Inr []"
| "delivery_actions (v # vs) =
     bind_res (delivery_action v) (\<lambda>a. bind_res (delivery_actions vs) (\<lambda>as. Inr (a # as)))"

fun scheduler_map :: "(string \<times> string list) list \<Rightarrow> pyval \<Rightarrow> (string \<times> DeliveryScheduler) list res" where
  "scheduler_map [] capacity = Inr []"
| "scheduler_map ((kind, vs) # rules) capacity =
     bind_res (delivery_actions vs) (\<lambda>script.
     bind_res (new_DeliveryScheduler script capacity) (\<lambda>sch.
     bind_res (scheduler_map rules capacity) (\<lambda>rest. Inr ((kind, sch) # rest))))"

text \<open>The two directions; upstream is towards the authority.\<close>

datatype direction = Up | Down

definition schedulers :: "direction \<Rightarrow> harness \<Rightarrow> (string \<times> DeliveryScheduler) list" where
  "schedulers dir s = (case dir of Up \<Rightarrow> hn_upstream s | Down \<Rightarrow> hn_downstream s)"

definition put_scheduler :: "direction \<Rightarrow> string \<Rightarrow> DeliveryScheduler \<Rightarrow> harness \<Rightarrow> harness" where
  "put_scheduler dir kind sch s =
     (case dir of
        Up \<Rightarrow> s\<lparr>hn_upstream := AList.update kind sch (hn_upstream s)\<rparr>
      | Down \<Rightarrow> s\<lparr>hn_downstream := AList.update kind sch (hn_downstream s)\<rparr>)"

definition peer_of :: "direction \<Rightarrow> peer" where
  "peer_of dir = (case dir of Up \<Rightarrow> ToAuthority | Down \<Rightarrow> ToWorker)"

subsection \<open>Forwarding\<close>

text \<open>The errors of a broken connection that the send boundary towards a worker turns into one.\<close>

definition closed_names :: "string list" where
  "closed_names = [''BrokenPipeError'', ''ConnectionResetError'', ''ConnectionAbortedError'']"

definition raw_send :: "direction \<Rightarrow> string \<Rightarrow> string \<Rightarrow> bytes \<Rightarrow> harness \<Rightarrow> (harness, forwarding) tstep" where
  "raw_send dir label kind frame s =
     (case sendall (peer_of dir) frame s of
        (None, s) \<Rightarrow>
          then_t (emit ''FRAME_FORWARDED'' label None
                    [(''message_kind'', JStr kind), (''frame_bytes'', JInt (int (length frame)))] s) (\<lambda>_ s. (Inr Sent, s))
      | (Some name, s) \<Rightarrow>
          if dir = Down \<and> List.member closed_names name then
            then_t (emit ''FRAME_FORWARD_FAILED'' label None
                      [(''message_kind'', JStr kind), (''frame_bytes'', JInt (int (length frame))),
                       (''error_class'', JStr name)] s) (\<lambda>_ s. (Inr WorkerClosed, s))
          else (Inl (BuiltinError OSError), s))"

fun raw_send_all :: "direction \<Rightarrow> string \<Rightarrow> string \<Rightarrow> bytes list \<Rightarrow> harness \<Rightarrow> (harness, forwarding) tstep" where
  "raw_send_all dir label kind [] s = (Inr Sent, s)"
| "raw_send_all dir label kind (frame # frames) s =
     then_t (raw_send dir label kind frame s) (\<lambda>outcome s.
     if outcome = WorkerClosed then (Inr WorkerClosed, s) else raw_send_all dir label kind frames s)"

definition forward_label :: "direction \<Rightarrow> string" where
  "forward_label dir = (case dir of Up \<Rightarrow> ''WORKER_TO_AUTHORITY'' | Down \<Rightarrow> ''AUTHORITY_TO_WORKER'')"

definition queue_or_send :: "direction \<Rightarrow> jval dict \<Rightarrow> harness \<Rightarrow> (harness, forwarding) tstep" where
  "queue_or_send dir envelope s =
     (let kind = str_field envelope ''message_kind''; label = forward_label dir in
      case encode_frame envelope of
        Inl e \<Rightarrow> (Inl e, s)
      | Inr frame \<Rightarrow>
          (case map_of (schedulers dir s) kind of
             None \<Rightarrow> raw_send_all dir label kind [frame] s
           | Some sch \<Rightarrow>
               (case submit sch frame of
                  (Inl RuntimeError, sch) \<Rightarrow>
                    then_t (emit ''QUEUE_CAPACITY_FAILURE'' ''EXPLICIT_DROP'' (Some envelope)
                              [(''direction'', JStr label), (''queue_capacity'', hn_capacity s)]
                              (put_scheduler dir kind sch s)) (\<lambda>_ s. (Inr Sent, s))
                | (Inl e, sch) \<Rightarrow> (Inl (BuiltinError e), put_scheduler dir kind sch s)
                | (Inr frames, sch) \<Rightarrow>
                    then_t (raw_send_all dir label kind frames (put_scheduler dir kind sch s)) (\<lambda>outcome s.
                    if outcome = WorkerClosed then (Inr WorkerClosed, s)
                    else if frames \<noteq> [] then (Inr Sent, s)
                    else
                      then_t (emit ''FRAME_HELD_OR_DROPPED'' ''SCRIPTED'' (Some envelope)
                                [(''direction'', JStr label), (''pending_count'', JInt (int (pending_count sch))),
                                 (''dropped'', JInt (int (ds_dropped sch)))] s) (\<lambda>_ s. (Inr Sent, s))))))"

text \<open>Both flushes go through the kinds in the order of the dictionary.\<close>

fun flush_kinds ::
    "(DeliveryScheduler \<Rightarrow> bytes list \<times> DeliveryScheduler) \<Rightarrow> direction \<Rightarrow> string \<Rightarrow> string list \<Rightarrow> harness \<Rightarrow>
     (harness, forwarding) tstep" where
  "flush_kinds flush dir label [] s = (Inr Sent, s)"
| "flush_kinds flush dir label (kind # kinds) s =
     (case map_of (schedulers dir s) kind of
        None \<Rightarrow> flush_kinds flush dir label kinds s
      | Some sch \<Rightarrow>
          (case flush sch of
             (frames, sch) \<Rightarrow>
               then_t (raw_send_all dir label kind frames (put_scheduler dir kind sch s)) (\<lambda>outcome s.
               if outcome = WorkerClosed then (Inr WorkerClosed, s) else flush_kinds flush dir label kinds s)))"

definition flush_all_delayed :: "direction \<Rightarrow> harness \<Rightarrow> (harness, forwarding) tstep" where
  "flush_all_delayed dir s =
     flush_kinds flush_delayed dir (forward_label dir @ ''_DELAYED'') (map fst (schedulers dir s)) s"

definition flush_late_upstream :: "harness \<Rightarrow> (harness, forwarding) tstep" where
  "flush_late_upstream s = flush_kinds flush_late Up ''WORKER_TO_AUTHORITY_LATE'' (map fst (hn_upstream s)) s"

subsection \<open>The worker connection\<close>

definition forget_worker :: "harness \<Rightarrow> harness" where
  "forget_worker s = s\<lparr>hn_worker_pid := JNull, hn_worker_id := JNull, hn_shutdown_expected := False\<rparr>"

definition failure_subject :: "harness \<Rightarrow> string" where
  "failure_subject s =
     (case hn_worker_id s of
        JStr w \<Rightarrow> if w = '''' then ''worker-pid-'' @ int_text (hn_worker_pid s) else w
      | _ \<Rightarrow> ''worker-pid-'' @ int_text (hn_worker_pid s))"

definition report_failure :: "string \<Rightarrow> harness \<Rightarrow> (harness, unit) tstep" where
  "report_failure reason s =
     (let s = s\<lparr>hn_failures := hn_failures s + 1\<rparr> in
      then_t (new_envelope (''harness:'' @ int_str (pr_pid s) @ '':failure:'' @ int_str (hn_failures s)) ''PROCESS_FAILURE''
                FAULT_TRANSPORT_HARNESS CONTROL_PLANE_AUTHORITY ''PROCESS'' (failure_subject s) FAILURE_SCHEMA
                [(''pid'', hn_worker_pid s), (''worker_id'', hn_worker_id s), (''reason'', JStr reason)] s) (\<lambda>failure s.
      then_t (send_envelope ToAuthority failure s) (\<lambda>_ s.
      emit ''MESSAGE_SENT'' ''PROCESS_FAILURE'' (Some failure) [] s)))"

definition disconnect_worker :: "string \<Rightarrow> harness \<Rightarrow> (harness, unit) tstep" where
  "disconnect_worker reason s =
     (let s = s\<lparr>hn_worker := False\<rparr> in
      then_t
        (if hn_shutdown_expected s then
           emit ''WORKER_DISCONNECTED'' ''EXPECTED_AFTER_SHUTDOWN'' None
             [(''worker_pid'', hn_worker_pid s), (''worker_id'', hn_worker_id s), (''reason'', JStr reason)] s
         else if hn_worker_pid s \<noteq> JNull then report_failure reason s
         else (Inr (), s))
        (\<lambda>_ s. (Inr (), forget_worker s)))"

definition accept_worker :: "jval list \<Rightarrow> harness \<Rightarrow> (harness, unit) tstep" where
  "accept_worker peer_address s =
     emit ''WORKER_SOCKET_ACCEPTED'' ''OK'' None [(''peer'', JList peer_address)] (forget_worker (s\<lparr>hn_worker := True\<rparr>))"

subsection \<open>The loop\<close>

text \<open>What a ready socket yields.\<close>

datatype ready = Listener "jval list" | Authority "jval dict tres" | Worker_Socket "jval dict tres"

definition or_disconnect :: "(harness, forwarding) tstep \<Rightarrow> (harness, unit) tstep" where
  "or_disconnect m =
     then_t m (\<lambda>outcome s.
     if outcome = WorkerClosed then disconnect_worker ''WORKER_SOCKET_SEND_CLOSED'' s else (Inr (), s))"

definition from_authority :: "jval dict \<Rightarrow> harness \<Rightarrow> (harness, unit) tstep" where
  "from_authority message s =
     then_t (emit ''MESSAGE_RECEIVED'' ''FROM_AUTHORITY'' (Some message) [] s) (\<lambda>_ s.
     let receiver = str_field message ''receiver_role''; kind = str_field message ''message_kind'' in
     if receiver = role_value FAULT_TRANSPORT_HARNESS
     then emit ''HARNESS_CONTROL_CONSUMED'' kind (Some message) [] s
     else if receiver \<noteq> role_value WORKER
     then emit ''MESSAGE_REJECTED'' ''INVALID_DOWNSTREAM_RECEIVER'' (Some message) [] s
     else if \<not> hn_worker s then emit ''ROUTE_FAILURE'' ''NO_WORKER_SOCKET'' (Some message) [] s
     else or_disconnect (queue_or_send Down message
            (if kind = ''SHUTDOWN'' then s\<lparr>hn_shutdown_expected := True\<rparr> else s)))"

definition note_registration :: "jval dict \<Rightarrow> harness \<Rightarrow> (harness, forwarding) tstep" where
  "note_registration message s =
     (let payload = obj_field message ''payload''; pid = field payload ''pid''; worker_id = field payload ''worker_id'' in
      case (str_field message ''message_kind'' = ''REGISTER'' \<and> is_int pid, worker_id) of
        (True, JStr w) \<Rightarrow> flush_late_upstream (s\<lparr>hn_worker_pid := pid, hn_worker_id := worker_id\<rparr>)
      | _ \<Rightarrow> (Inr Sent, s))"

definition from_worker :: "jval dict \<Rightarrow> harness \<Rightarrow> (harness, unit) tstep" where
  "from_worker message s =
     then_t (emit ''MESSAGE_RECEIVED'' ''FROM_WORKER'' (Some message) [] s) (\<lambda>_ s.
     if str_field message ''sender_role'' \<noteq> role_value WORKER
     then emit ''MESSAGE_REJECTED'' ''INVALID_UPSTREAM_SENDER'' (Some message) [] s
     else
       then_t (note_registration message s) (\<lambda>_ s.
       then_t (queue_or_send Up message s) (\<lambda>_ s. (Inr (), s))))"

text \<open>One ready socket; the value is whether the process returns.\<close>

fun on_ready :: "ready \<Rightarrow> harness \<Rightarrow> (harness, bool) tstep" where
  "on_ready (Listener peer_address) s = then_t (accept_worker peer_address s) (\<lambda>_ s. (Inr False, s))"
| "on_ready (Authority (Inl e)) s =
     (if is_truncated e
      then then_t (emit ''AUTHORITY_DISCONNECTED'' ''FAIL'' None [] s) (\<lambda>_ s. (Inr True, s)) else (Inl e, s))"
| "on_ready (Authority (Inr message)) s = then_t (from_authority message s) (\<lambda>_ s. (Inr False, s))"
| "on_ready (Worker_Socket received) s =
     (if \<not> hn_worker s then (Inl (BuiltinError AssertionError), s)
      else
        (case received of
           Inl e \<Rightarrow>
             if is_truncated e
             then then_t (disconnect_worker ''WORKER_SOCKET_CLOSED'' s) (\<lambda>_ s. (Inr False, s)) else (Inl e, s)
         | Inr message \<Rightarrow> then_t (from_worker message s) (\<lambda>_ s. (Inr False, s))))"

fun on_batch :: "ready list \<Rightarrow> harness \<Rightarrow> (harness, bool) tstep" where
  "on_batch [] s = (Inr False, s)"
| "on_batch (r # rs) s =
     then_t (on_ready r s) (\<lambda>finished s. if finished then (Inr True, s) else on_batch rs s)"

definition on_idle :: "harness \<Rightarrow> (harness, unit) tstep" where
  "on_idle s =
     then_t (flush_all_delayed Up s) (\<lambda>_ s.
     if hn_worker s then or_disconnect (flush_all_delayed Down s) else (Inr (), s))"

definition on_select :: "ready list \<Rightarrow> harness \<Rightarrow> (harness, bool) tstep" where
  "on_select batch s =
     (if batch = [] then then_t (on_idle s) (\<lambda>_ s. (Inr False, s)) else on_batch batch s)"

text \<open>The batches the selector reports before the process is stopped from outside.\<close>

fun harness_loop :: "ready list list \<Rightarrow> harness \<Rightarrow> (harness, unit) tstep" where
  "harness_loop [] s = (Inr (), s)"
| "harness_loop (batch # batches) s =
     then_t (on_select batch s) (\<lambda>finished s. if finished then (Inr (), s) else harness_loop batches s)"

subsection \<open>The main function\<close>

definition harness_start :: "process \<Rightarrow> (string \<times> DeliveryScheduler) list \<Rightarrow> (string \<times> DeliveryScheduler) list \<Rightarrow> jval \<Rightarrow> harness" where
  "harness_start p up down capacity =
     process.extend p (harness.fields up down capacity False JNull JNull False 1)"

definition register_upstream :: "jval \<Rightarrow> int \<Rightarrow> harness \<Rightarrow> (harness, unit) tstep" where
  "register_upstream bound_host bound_port s =
     then_t (new_envelope (''harness:'' @ int_str (pr_pid s) @ '':1'') ''REGISTER'' FAULT_TRANSPORT_HARNESS
               CONTROL_PLANE_AUTHORITY ''PROCESS'' ''fault-transport-harness'' HARNESS_REGISTER_SCHEMA
               [(''pid'', JInt (pr_pid s)), (''listen_host'', bound_host), (''listen_port'', JInt bound_port)] s) (\<lambda>register s.
     then_t (send_envelope ToAuthority register s) (\<lambda>_ s.
     emit ''MESSAGE_SENT'' ''REGISTER'' (Some register) [] s))"

definition harness_process_main ::
    "string \<Rightarrow> string \<Rightarrow> pyval \<Rightarrow> (string \<times> string list) list \<Rightarrow> (string \<times> string list) list \<Rightarrow> pyval \<Rightarrow> jval \<Rightarrow>
     jval \<Rightarrow> int \<Rightarrow> bool list \<Rightarrow> ready list list \<Rightarrow> process \<Rightarrow> (harness, unit) tstep" where
  "harness_process_main authority_host worker_host worker_port up down capacity capacity_value bound_host bound_port
       attempts batches p =
     (let s = harness_start p [] [] capacity_value in
      if \<not> loopback authority_host \<or> \<not> loopback worker_host \<or> \<not> valid_port worker_port
      then (Inl (BuiltinError ValueError), s)
      else
        then_t (emit ''PROCESS_STARTED'' ''OK'' None [(''pid_source'', JStr ''os.getpid'')] s) (\<lambda>_ s.
        case (scheduler_map up capacity, scheduler_map down capacity) of
          (Inr up_map, Inr down_map) \<Rightarrow>
            then_t (emit ''WORKER_LISTENING'' ''OK'' None
                      [(''host'', bound_host), (''port'', JInt bound_port), (''port_source'', JStr ''kernel_bind''),
                       (''queue_capacity'', capacity_value)]
                      (s\<lparr>hn_upstream := up_map, hn_downstream := down_map\<rparr>)) (\<lambda>_ s.
            then_t (connect_loopback authority_host attempts, s) (\<lambda>_ s.
            then_t (register_upstream bound_host bound_port s) (\<lambda>_ s.
            harness_loop batches s)))
        | (Inl e, _) \<Rightarrow> (Inl (BuiltinError e), s)
        | (_, Inl e) \<Rightarrow> (Inl (BuiltinError e), s)))"

subsection \<open>The harness only forwards\<close>

text \<open>
  \<open>A\<close> are the frames of the authority for a worker, \<open>W\<close> those of the workers. What the schedulers
  hold and what was sent comes from there, but for the messages the harness sends in its own name.
\<close>

definition own_frame :: "bytes \<Rightarrow> bool" where
  "own_frame f \<longleftrightarrow>
     (\<exists>env. encode_frame env = Inr f \<and> field env ''sender_role'' = JStr (role_value FAULT_TRANSPORT_HARNESS))"

definition sources :: "bytes set \<Rightarrow> bytes set \<Rightarrow> direction \<Rightarrow> bytes set" where
  "sources A W dir = (case dir of Down \<Rightarrow> A | Up \<Rightarrow> W)"

definition sent_from :: "bytes set \<Rightarrow> bytes set \<Rightarrow> peer \<times> bytes \<Rightarrow> bool" where
  "sent_from A W pf =
     (case pf of (ToWorker, f) \<Rightarrow> f \<in> A | (ToAuthority, f) \<Rightarrow> f \<in> W \<or> own_frame f | (ToHarness, f) \<Rightarrow> False)"

definition scheduler_ok :: "bytes set \<Rightarrow> DeliveryScheduler \<Rightarrow> bool" where
  "scheduler_ok B sch \<longleftrightarrow> delivery_ok sch \<and> set (held_frames sch) \<subseteq> B"

definition forwards :: "bytes set \<Rightarrow> bytes set \<Rightarrow> harness \<Rightarrow> bool" where
  "forwards A W s \<longleftrightarrow>
     (\<forall>dir. \<forall>ks\<in>set (schedulers dir s). scheduler_ok (sources A W dir) (snd ks)) \<and>
     (\<forall>pf\<in>set (pr_sent s). sent_from A W pf)"

named_theorems forwarding_steps \<open>steps of the harness that only forward\<close>

lemma forwards_same:
  "forwards A W s \<Longrightarrow> hn_upstream t = hn_upstream s \<Longrightarrow> hn_downstream t = hn_downstream s \<Longrightarrow>
     pr_sent t = pr_sent s \<Longrightarrow> forwards A W t"
  by (auto simp: forwards_def schedulers_def split: direction.splits)

lemma forwards_emit [forwarding_steps]: "forwards A W s \<Longrightarrow> forwards A W (snd (emit a r m d s))"
  by (erule forwards_same) (simp_all add: emit_def read_clock_def Let_def)

lemma forwards_new_envelope [forwarding_steps]:
  "forwards A W s \<Longrightarrow> forwards A W (snd (new_envelope i k sr rr st si ps p s))"
  by (erule forwards_same) (simp_all add: new_envelope_def read_clock_def)

lemma forwards_then [forwarding_steps]:
  "forwards A W (snd m) \<Longrightarrow> (\<And>x q. m = (Inr x, q) \<Longrightarrow> forwards A W q \<Longrightarrow> forwards A W (snd (k x q))) \<Longrightarrow>
     forwards A W (snd (then_t m k))"
  by (rule then_t_post [where P = "forwards A W"])

lemma forwards_sendall:
  assumes "forwards A W s" "sent_from A W (peer, f)"
  shows "forwards A W (snd (sendall peer f s))"
  using assms by (auto simp: sendall_def forwards_def schedulers_def Let_def split: option.splits direction.splits)

lemma forwards_raw_send [forwarding_steps]:
  assumes "forwards A W s" "f \<in> sources A W dir"
  shows "forwards A W (snd (raw_send dir label kind f s))"
proof -
  have "sent_from A W (peer_of dir, f)"
    using assms(2) by (cases dir) (simp_all add: sent_from_def peer_of_def sources_def)
  from forwards_sendall [OF assms(1) this] show ?thesis
    by (auto simp: raw_send_def split: prod.splits option.splits intro!: forwarding_steps)
qed

lemma forwards_raw_send_all [forwarding_steps]:
  "forwards A W s \<Longrightarrow> set fs \<subseteq> sources A W dir \<Longrightarrow> forwards A W (snd (raw_send_all dir label kind fs s))"
  by (induction fs arbitrary: s) (auto intro!: forwarding_steps)

lemma forwards_put_scheduler [forwarding_steps]:
  assumes "forwards A W s" "scheduler_ok (sources A W dir) sch"
  shows "forwards A W (put_scheduler dir kind sch s)"
proof -
  have upd: "ks \<in> set (AList.update kind sch d) \<Longrightarrow> snd ks = sch \<or> ks \<in> set d" for ks and d :: "(string \<times> DeliveryScheduler) list"
    by (induction d) (auto split: if_splits)
  show ?thesis
    using assms upd unfolding forwards_def
    by (cases dir) (fastforce simp: put_scheduler_def schedulers_def split: direction.splits)+
qed

text \<open>What a scheduler is given and holds is what it hands over and holds afterwards.\<close>

lemma submit_scheduler_ok:
  assumes "scheduler_ok B sch" "f \<in> B" "submit sch f = (r, sch')"
  shows "scheduler_ok B sch'" "r = Inr out \<Longrightarrow> set out \<subseteq> B"
proof -
  have ok: "delivery_ok sch" using assms(1) by (simp add: scheduler_ok_def)
  have "set (held_frames sch') \<subseteq> B \<and> (r = Inr out \<longrightarrow> set out \<subseteq> B)"
    using assms(3)
  proof (cases rule: submit_cases)
    case (acts action s1)
    have s1: "set (held_frames s1) \<subseteq> B"
      using next_action_ok(3) [OF ok acts(2)] assms(1) by (simp add: scheduler_ok_def)
    show ?thesis
      using acts(3) s1 assms(2)
      by (cases action)
        (auto simp: submit_action_def held_frames_def reserve_room_def raise_if_def split: option.splits if_splits)
  qed (use assms(1) in \<open>auto simp: scheduler_ok_def\<close>)
  then show "scheduler_ok B sch'" "r = Inr out \<Longrightarrow> set out \<subseteq> B"
    using submit_ok [OF ok assms(3)] by (auto simp: scheduler_ok_def)
qed

lemma forwards_lookup:
  "forwards A W s \<Longrightarrow> map_of (schedulers dir s) kind = Some sch \<Longrightarrow> scheduler_ok (sources A W dir) sch"
  by (fastforce simp: forwards_def dest: map_of_SomeD)

lemma forwards_queue_or_send [forwarding_steps]:
  assumes "forwards A W s" "\<And>f. encode_frame m = Inr f \<Longrightarrow> f \<in> sources A W dir"
  shows "forwards A W (snd (queue_or_send dir m s))"
proof (cases "encode_frame m")
  case (Inr f)
  have f: "f \<in> sources A W dir" using assms(2) Inr .
  show ?thesis
  proof (cases "map_of (schedulers dir s) (str_field m ''message_kind'')")
    case None
    have "forwards A W (snd (raw_send_all dir (forward_label dir) (str_field m ''message_kind'') [f] s))"
      using assms(1) f by (intro forwards_raw_send_all) simp_all
    with None Inr show ?thesis unfolding queue_or_send_def Let_def by simp
  next
    case (Some sch)
    obtain r sch' where sub: "submit sch f = (r, sch')" by (cases "submit sch f")
    note ok = submit_scheduler_ok [OF forwards_lookup [OF assms(1) Some] f sub]
    have put: "forwards A W (put_scheduler dir kind sch' s)" for kind
      using assms(1) ok(1) by (rule forwards_put_scheduler)
    show ?thesis
    proof (cases r)
      case (Inl e)
      then show ?thesis
        using put assms(1) ok(1) Inr Some sub by (cases e) (auto simp: queue_or_send_def Let_def intro!: forwarding_steps)
    next
      case (Inr out)
      then show ?thesis
        using put assms(1) ok \<open>encode_frame m = Inr f\<close> Some sub
        by (auto simp: queue_or_send_def Let_def intro!: forwarding_steps)
    qed
  qed
qed (simp add: queue_or_send_def assms(1))

definition flush_ok :: "(DeliveryScheduler \<Rightarrow> bytes list \<times> DeliveryScheduler) \<Rightarrow> bool" where
  "flush_ok flush \<longleftrightarrow>
     (\<forall>B sch out sch'. scheduler_ok B sch \<longrightarrow> flush sch = (out, sch') \<longrightarrow> set out \<subseteq> B \<and> scheduler_ok B sch')"

lemma flush_ok_flushes: "flush_ok flush_delayed" "flush_ok flush_late"
  by (auto simp: flush_ok_def flush_delayed_def flush_late_def scheduler_ok_def delivery_ok_def pending_count_def
      held_frames_def)

lemma forwards_flush_kinds [forwarding_steps]:
  assumes "flush_ok flush"
  shows "forwards A W s \<Longrightarrow> forwards A W (snd (flush_kinds flush dir label kinds s))"
proof (induction kinds arbitrary: s)
  case (Cons kind kinds)
  show ?case
  proof (cases "map_of (schedulers dir s) kind")
    case (Some sch)
    obtain out sch' where fl: "flush sch = (out, sch')" by (cases "flush sch")
    have "set out \<subseteq> sources A W dir" "scheduler_ok (sources A W dir) sch'"
      using assms forwards_lookup [OF Cons.prems Some] fl by (auto simp: flush_ok_def)
    then show ?thesis using Cons Some fl by (auto intro!: forwarding_steps)
  qed (use Cons in simp)
qed simp

lemma forwards_flush [forwarding_steps]:
  "forwards A W s \<Longrightarrow> forwards A W (snd (flush_all_delayed dir s))"
  "forwards A W s \<Longrightarrow> forwards A W (snd (flush_late_upstream s))"
  by (simp_all add: flush_all_delayed_def flush_late_upstream_def forwards_flush_kinds flush_ok_flushes)

lemma forwards_fields [forwarding_steps]:
  assumes "forwards A W s"
  shows "forwards A W (forget_worker s)" "forwards A W (s\<lparr>hn_worker := w\<rparr>)" "forwards A W (s\<lparr>hn_failures := n\<rparr>)"
    "forwards A W (s\<lparr>hn_shutdown_expected := b\<rparr>)" "forwards A W (s\<lparr>hn_worker_pid := p, hn_worker_id := i\<rparr>)"
    "forwards A W (forget_worker (s\<lparr>hn_worker := w\<rparr>))"
  by (rule forwards_same [OF assms]; simp add: forget_worker_def)+

lemma forwards_own_send:
  assumes "forwards A W s" "field m ''sender_role'' = JStr (role_value FAULT_TRANSPORT_HARNESS)"
  shows "forwards A W (snd (send_envelope ToAuthority m s))"
proof (cases "encode_frame m")
  case (Inr f)
  then have "sent_from A W (ToAuthority, f)" using assms(2) by (auto simp: sent_from_def own_frame_def)
  from forwards_sendall [OF assms(1) this] show ?thesis
    using Inr by (auto simp: send_envelope_def split: prod.splits option.splits)
qed (simp add: send_envelope_def assms(1))

lemma new_envelope_sender:
  "new_envelope i k sender receiver st si ps payload p = (Inr m, q) \<Longrightarrow> field m ''sender_role'' = JStr (role_value sender)"
  by (auto simp: new_envelope_def make_envelope_def read_clock_def validate_envelope_iff field_def)

lemma forwards_report_failure [forwarding_steps]: "forwards A W s \<Longrightarrow> forwards A W (snd (report_failure reason s))"
  unfolding report_failure_def Let_def
  by (intro forwards_then forwards_emit forwards_own_send) (auto intro!: forwarding_steps dest: new_envelope_sender)

lemma forwards_disconnect [forwarding_steps]: "forwards A W s \<Longrightarrow> forwards A W (snd (disconnect_worker reason s))"
  unfolding disconnect_worker_def Let_def by (auto intro!: forwarding_steps)

lemma forwards_or_disconnect [forwarding_steps]: "forwards A W (snd m) \<Longrightarrow> forwards A W (snd (or_disconnect m))"
  unfolding or_disconnect_def by (intro forwards_then) (auto intro!: forwarding_steps)

text \<open>The frames of a batch: those of messages for a worker, and those of messages of a worker.\<close>

definition authority_frame :: "ready \<Rightarrow> bytes set" where
  "authority_frame r =
     (case r of
        Authority (Inr m) \<Rightarrow>
          if str_field m ''receiver_role'' = role_value WORKER then {f. encode_frame m = Inr f} else {}
      | _ \<Rightarrow> {})"

definition worker_frame :: "ready \<Rightarrow> bytes set" where
  "worker_frame r =
     (case r of
        Worker_Socket (Inr m) \<Rightarrow>
          if str_field m ''sender_role'' = role_value WORKER then {f. encode_frame m = Inr f} else {}
      | _ \<Rightarrow> {})"

lemma authority_frame_iff:
  "f \<in> authority_frame r \<longleftrightarrow>
     (\<exists>m. r = Authority (Inr m) \<and> str_field m ''receiver_role'' = role_value WORKER \<and> encode_frame m = Inr f)"
  by (cases r) (auto simp: authority_frame_def split: sum.splits)

lemma worker_frame_iff:
  "f \<in> worker_frame r \<longleftrightarrow>
     (\<exists>m. r = Worker_Socket (Inr m) \<and> str_field m ''sender_role'' = role_value WORKER \<and> encode_frame m = Inr f)"
  by (cases r) (auto simp: worker_frame_def split: sum.splits)

lemma forwards_note_registration [forwarding_steps]:
  "forwards A W s \<Longrightarrow> forwards A W (snd (note_registration m s))"
  by (auto simp: note_registration_def Let_def split: jval.splits bool.splits intro!: forwarding_steps)

lemma forwards_on_ready:
  assumes "forwards A W s" "authority_frame r \<subseteq> A" "worker_frame r \<subseteq> W"
  shows "forwards A W (snd (on_ready r s))"
  using assms
proof (induction r s rule: on_ready.induct)
  case (1 peer_address s)
  then show ?case by (auto simp: accept_worker_def intro!: forwarding_steps)
next
  case (2 e s)
  then show ?case by (auto intro!: forwarding_steps)
next
  case (3 m s)
  have "f \<in> sources A W Down" if "encode_frame m = Inr f" "str_field m ''receiver_role'' = role_value WORKER" for f
    using 3(2) that by (auto simp: authority_frame_def sources_def)
  with 3(1) show ?case
    unfolding on_ready.simps from_authority_def Let_def
    by (auto intro!: forwarding_steps simp del: role_value.simps)
next
  case (4 received s)
  show ?case
  proof (cases received)
    case (Inl e)
    then show ?thesis using 4(1) by (auto intro!: forwarding_steps)
  next
    case (Inr m)
    have "f \<in> sources A W Up" if "encode_frame m = Inr f" "str_field m ''sender_role'' = role_value WORKER" for f
      using 4(3) that Inr by (auto simp: worker_frame_def sources_def)
    with 4(1) Inr show ?thesis
      by (auto simp: from_worker_def intro!: forwarding_steps simp del: role_value.simps)
  qed
qed

lemma forwards_on_batch:
  "forwards A W s \<Longrightarrow> \<forall>r\<in>set batch. authority_frame r \<subseteq> A \<and> worker_frame r \<subseteq> W \<Longrightarrow>
     forwards A W (snd (on_batch batch s))"
  by (induction batch arbitrary: s) (auto intro!: forwards_then forwards_on_ready)

lemma forwards_on_idle: "forwards A W s \<Longrightarrow> forwards A W (snd (on_idle s))"
  unfolding on_idle_def by (auto intro!: forwarding_steps)

lemma forwards_loop:
  "forwards A W s \<Longrightarrow> \<forall>batch\<in>set batches. \<forall>r\<in>set batch. authority_frame r \<subseteq> A \<and> worker_frame r \<subseteq> W \<Longrightarrow>
     forwards A W (snd (harness_loop batches s))"
  by (induction batches arbitrary: s)
    (auto simp: on_select_def intro!: forwards_then forwards_on_batch forwards_on_idle)

lemma delivery_map_ok:
  "scheduler_map rules capacity = Inr d \<Longrightarrow> ks \<in> set d \<Longrightarrow> scheduler_ok B (snd ks)"
proof (induction rules capacity arbitrary: d rule: scheduler_map.induct)
  case (2 kind vs rules capacity)
  from 2(2) obtain script sch rest where "new_DeliveryScheduler script capacity = Inr sch"
    "scheduler_map rules capacity = Inr rest" "d = (kind, sch) # rest"
    "delivery_actions vs = Inr script"
    by (auto simp: bind_res_def split: sum.splits)
  with 2 show ?case using new_DeliveryScheduler_ok [of script capacity sch] by (auto simp: scheduler_ok_def)
qed simp

lemma forwards_main:
  fixes p :: process
  assumes "pr_sent p = []" "\<forall>batch\<in>set batches. \<forall>r\<in>set batch. authority_frame r \<subseteq> A \<and> worker_frame r \<subseteq> W"
  shows "forwards A W (snd (harness_process_main ahost whost wport up down capacity cv bhost bport attempts batches p))"
proof -
  have start: "forwards A W (harness_start p [] [] cv)"
    using assms(1) by (simp add: forwards_def harness_start_def schedulers_def process.defs harness.defs split: direction.splits)
  have maps: "forwards A W (s\<lparr>hn_upstream := u, hn_downstream := d\<rparr>)"
    if "forwards A W s" "scheduler_map up capacity = Inr u" "scheduler_map down capacity = Inr d" for s u d
    using that delivery_map_ok by (auto simp: forwards_def schedulers_def split: direction.splits)
  have register: "forwards A W (snd (register_upstream bhost bport s))" if "forwards A W s" for s
    unfolding register_upstream_def using that
    by (intro forwards_then forwards_emit forwards_own_send) (auto intro!: forwarding_steps dest: new_envelope_sender)
  show ?thesis
    using start assms(2) unfolding harness_process_main_def Let_def
    by (auto split: sum.splits intro!: forwarding_steps maps register forwards_loop)
qed

subsection \<open>The end of a worker's connection\<close>

lemma emit_frames [simp]:
  "pr_sent (snd (emit a r m d s)) = pr_sent s" "hn_worker (snd (emit a r m d s)) = hn_worker s"
  "hn_worker_pid (snd (emit a r m d s)) = hn_worker_pid s" "hn_worker_id (snd (emit a r m d s)) = hn_worker_id s"
  "hn_shutdown_expected (snd (emit a r m d s)) = hn_shutdown_expected s"
  by (simp_all add: emit_def read_clock_def Let_def)

lemma forget_worker_fields [simp]:
  "hn_worker (forget_worker s) = hn_worker s" "hn_worker_pid (forget_worker s) = JNull"
  "pr_sent (forget_worker s) = pr_sent s" "hn_shutdown_expected (forget_worker s) = False"
  by (simp_all add: forget_worker_def)

lemma emit_outcome: "emit a r m d s = (res, t) \<Longrightarrow> pr_sent t = pr_sent s \<and> hn_worker t = hn_worker s"
  using emit_frames(1,2) [of a r m d s] by simp

lemma send_envelope_sent:
  "send_envelope peer m s = (Inr u, t) \<Longrightarrow>
     \<exists>f. encode_frame m = Inr f \<and> pr_sent t = pr_sent s @ [(peer, f)]"
  by (auto simp: send_envelope_def sendall_def Let_def split: sum.splits option.splits prod.splits)

lemma send_envelope_fields:
  "send_envelope peer m s = (r, t) \<Longrightarrow> hn_worker t = hn_worker s"
  by (auto simp: send_envelope_def sendall_def Let_def split: sum.splits option.splits prod.splits)

text \<open>The message that tells the authority of a failure.\<close>

definition failure_message :: "jval \<Rightarrow> jval \<Rightarrow> string \<Rightarrow> jval dict \<Rightarrow> bool" where
  "failure_message pid worker_id reason m \<longleftrightarrow> envelope_ok m \<and>
     str_field m ''message_kind'' = ''PROCESS_FAILURE'' \<and>
     str_field m ''sender_role'' = role_value FAULT_TRANSPORT_HARNESS \<and>
     str_field m ''receiver_role'' = role_value CONTROL_PLANE_AUTHORITY \<and>
     obj_field m ''payload'' = [(''pid'', pid), (''worker_id'', worker_id), (''reason'', JStr reason)] \<and>
     (jvalid pid \<longrightarrow> jvalid worker_id \<longrightarrow> jvalid (JObj m))"

lemma report_failure_sends:
  assumes "report_failure reason s = (Inr u, t)"
  shows "\<exists>m f. failure_message (hn_worker_pid s) (hn_worker_id s) reason m \<and> encode_frame m = Inr f \<and>
    pr_sent t = pr_sent s @ [(ToAuthority, f)]" and "hn_worker t = hn_worker s"
proof -
  let ?s = "s\<lparr>hn_failures := hn_failures s + 1\<rparr>"
  obtain r v where env: "new_envelope (''harness:'' @ int_str (pr_pid ?s) @ '':failure:'' @ int_str (hn_failures ?s))
      ''PROCESS_FAILURE'' FAULT_TRANSPORT_HARNESS CONTROL_PLANE_AUTHORITY ''PROCESS'' (failure_subject ?s) FAILURE_SCHEMA
      [(''pid'', hn_worker_pid ?s), (''worker_id'', hn_worker_id ?s), (''reason'', JStr reason)] ?s = (r, v)"
    by (meson surj_pair)
  then obtain m where r: "r = Inr m" using assms by (cases r) (auto simp: report_failure_def Let_def)
  have v: "pr_sent v = pr_sent s" "hn_worker v = hn_worker s"
    using env by (auto simp: new_envelope_def read_clock_def)
  obtain w where send: "send_envelope ToAuthority m v = (Inr (), w)"
    using assms env r by (cases "send_envelope ToAuthority m v"; cases "fst (send_envelope ToAuthority m v)")
      (auto simp: report_failure_def Let_def)
  have t: "pr_sent t = pr_sent w" "hn_worker t = hn_worker w"
    using assms env r send by (auto simp: report_failure_def Let_def dest: emit_outcome)
  have "failure_message (hn_worker_pid s) (hn_worker_id s) reason m"
    using new_envelope_valid [OF env [unfolded r]] env r
    by (auto simp: failure_message_def str_field_def obj_field_def new_envelope_def make_envelope_def read_clock_def
        validate_envelope_iff field_def)
  then show "\<exists>m f. failure_message (hn_worker_pid s) (hn_worker_id s) reason m \<and> encode_frame m = Inr f \<and>
      pr_sent t = pr_sent s @ [(ToAuthority, f)]"
    using send_envelope_sent [OF send] v(1) t(1) by auto
  show "hn_worker t = hn_worker s" using t(2) send_envelope_fields [OF send] v(2) by simp
qed

lemma disconnect_outcome:
  assumes "disconnect_worker reason s = (Inr u, t)"
  shows "\<not> hn_worker t" "hn_worker_pid t = JNull"
    and "hn_worker_pid s \<noteq> JNull \<Longrightarrow> \<not> hn_shutdown_expected s \<Longrightarrow>
      \<exists>m f. failure_message (hn_worker_pid s) (hn_worker_id s) reason m \<and> encode_frame m = Inr f \<and>
        pr_sent t = pr_sent s @ [(ToAuthority, f)]"
    and "hn_shutdown_expected s \<Longrightarrow> pr_sent t = pr_sent s"
proof -
  let ?s = "s\<lparr>hn_worker := False\<rparr>"
  obtain v where t: "t = forget_worker v" and branch:
    "(if hn_shutdown_expected s then emit ''WORKER_DISCONNECTED'' ''EXPECTED_AFTER_SHUTDOWN'' None
         [(''worker_pid'', hn_worker_pid s), (''worker_id'', hn_worker_id s), (''reason'', JStr reason)] ?s
      else if hn_worker_pid s \<noteq> JNull then report_failure reason ?s else (Inr (), ?s)) = (Inr (), v)"
    using assms by (auto simp: disconnect_worker_def Let_def then_t_def split: prod.splits sum.splits if_splits)
  have "hn_worker v = False"
    using branch report_failure_sends(2) [of reason ?s] by (auto split: if_splits dest: emit_outcome)
  then show "\<not> hn_worker t" "hn_worker_pid t = JNull" by (simp_all add: t)
  show "\<exists>m f. failure_message (hn_worker_pid s) (hn_worker_id s) reason m \<and> encode_frame m = Inr f \<and>
      pr_sent t = pr_sent s @ [(ToAuthority, f)]" if "hn_worker_pid s \<noteq> JNull" "\<not> hn_shutdown_expected s"
    using branch that report_failure_sends(1) [of reason ?s] by (simp add: t)
  show "pr_sent t = pr_sent s" if "hn_shutdown_expected s"
    using branch that by (auto simp: t dest: emit_outcome)
qed

text \<open>A socket that was reported ready together with the one that ended the connection.\<close>

lemma stale_worker_socket:
  assumes "from_authority m s = (Inr u, t)" "\<not> hn_worker t"
  shows "on_batch [Authority (Inr m), Worker_Socket w] s = (Inl (BuiltinError AssertionError), t)"
  using assms by simp

end
