(* ===== verification/Proto_System.thy ===== *)
theory Proto_System
  imports Proto_Authority Proto_Worker Proto_Harness
begin

section \<open>The processes together\<close>

text \<open>What a frame of one process means to the one that receives it.\<close>

lemma envelope_keys: "jvalid (JObj m) \<Longrightarrow> distinct (keys_of m)"
  by (simp add: keys_of_def)

lemma str_field_sorted:
  "jvalid (JObj m) \<Longrightarrow> str_field (sorted_envelope m) k = str_field m k"
  by (cases "field m k") (simp_all add: str_field_def field_sorted_envelope envelope_keys)

lemma obj_field_sorted:
  assumes "jvalid (JObj m)"
  shows "obj_field (sorted_envelope m) k = sorted_envelope (obj_field m k)"
proof -
  have "field (sorted_envelope m) k = jsort (field m k)" "sorted_envelope [] = []"
    using field_sorted_envelope [OF envelope_keys [OF assms]] by (simp_all add: sorted_envelope_def)
  then show ?thesis
    by (cases "field m k") (simp_all add: obj_field_def jsort_JObj del: jsort.simps(2))
qed

lemma number_jsort: "number_value v \<noteq> None \<Longrightarrow> jsort v = v"
  by (cases v) simp_all

lemma received_sorted: "envelope_ok m \<Longrightarrow> jvalid (JObj m) \<Longrightarrow> received (sorted_envelope m)"
  using envelope_ok_sorted [of m] jvalid_jsort(1) [of "JObj m"]
  by (simp add: received_def envelope_keys jsort_JObj del: jvalid.simps jsort.simps)

lemma frames_jvalid:
  "list_all2 (\<lambda>env frame. encode_frame env = Inr frame \<and> jvalid (JObj env)) envs frames \<Longrightarrow>
     list_all (\<lambda>env. jvalid (JObj env)) envs"
  by (induction rule: list_all2_induct) simp_all

lemma frames_received:
  "list_all2 (\<lambda>env frame. encode_frame env = Inr frame \<and> jvalid (JObj env)) envs frames \<Longrightarrow>
     list_all received (map sorted_envelope envs)"
  by (induction rule: list_all2_induct) (auto elim!: encode_frame_Inr intro: received_sorted)

lemma same_but_time_sorted:
  assumes "same_but_time m m'" "jvalid (JObj m)" "jvalid (JObj m')"
  shows "same_but_time (sorted_envelope m) (sorted_envelope m')"
  using assms by (simp add: same_but_time_def field_sorted_envelope envelope_keys del: jvalid.simps)

subsection \<open>A failure reported by the harness\<close>

lemma failure_ends_registration:
  assumes m: "failure_message pid worker_id reason m" and pid: "positive_pid pid" "jvalid worker_id"
    and current: "jeq pid (au_worker_pid a)"
  shows "registration (snd (authority_message sha (sorted_envelope m) a)) =
    (au_harness_pid a, JNull, JNull, au_generation a)"
proof -
  let ?m = "sorted_envelope m"
  have valid: "jvalid (JObj m)" using m pid positive_pid_jvalid by (auto simp: failure_message_def simp del: jvalid.simps)
  have kind: "str_field ?m ''message_kind'' = ''PROCESS_FAILURE''"
    "str_field ?m ''sender_role'' = role_value FAULT_TRANSPORT_HARNESS"
    "str_field ?m ''receiver_role'' = role_value CONTROL_PLANE_AUTHORITY"
    using m by (simp_all add: str_field_sorted [OF valid] failure_message_def)
  have "payload_pid ?m = jsort pid"
    using m by (simp add: payload_pid_def obj_field_sorted [OF valid] failure_message_def field_sorted_envelope keys_of_def)
      (simp add: field_def)
  then have "payload_pid ?m = pid"
    using pid(1) by (simp add: number_jsort positive_pid_def split: option.splits)
  moreover have "registration (snd (authority_message sha ?m a)) = registration_step (registration a) ?m"
    by (rule registration_message) (simp add: kind(1))
  ultimately show ?thesis
    using current kind
    by (simp add: registration_step_def registers_harness_def registers_worker_def reports_end_def from_to_def
        registration_def [of a])
qed

subsection \<open>The work the authority hands out\<close>

lemma authority_send_sent:
  assumes "authority_send kind receiver st si ps payload s = (Inr m, t)"
  shows "envelope_ok m" "field m ''payload'' = JObj payload" "jvalid (JObj payload) \<Longrightarrow> jvalid (JObj m)"
    "\<exists>f. encode_frame m = Inr f \<and> pr_sent t = pr_sent s @ [(ToHarness, f)]"
proof -
  obtain r v where env: "new_envelope (authority_message_id (pr_pid s) (au_counter s)) kind CONTROL_PLANE_AUTHORITY
      receiver st si ps payload s = (r, v)" by (meson surj_pair)
  then obtain m' where r: "r = Inr m'" using assms by (cases r) (auto simp: authority_send_def)
  have v: "pr_sent v = pr_sent s" using env by (auto simp: new_envelope_def read_clock_def)
  have send: "send_envelope ToHarness m' v = (Inr (), t)" and m: "m' = m"
    using assms env r by (cases "send_envelope ToHarness m' v"; cases "fst (send_envelope ToHarness m' v)";
        simp add: authority_send_def)+
  show "envelope_ok m" "field m ''payload'' = JObj payload" "jvalid (JObj payload) \<Longrightarrow> jvalid (JObj m)"
    using new_envelope_valid [OF env [unfolded r]] m by simp_all
  show "\<exists>f. encode_frame m = Inr f \<and> pr_sent t = pr_sent s @ [(ToHarness, f)]"
    using send_envelope_sent [OF send] m v by simp
qed

text \<open>The worker computes what the authority expects.\<close>

lemma work_as_expected:
  assumes "send_work sha w s = (Inr u, t)"
  shows "\<exists>f m output. pr_sent t = pr_sent s @ [(ToHarness, f)] \<and> decode_frame_bytes f = Inr m \<and>
    work_result sha (obj_field m ''payload'') = (JStr ''OK'', output) \<and>
    field (obj_field m ''payload'') ''expected_output'' = output"
proof -
  let ?s = "count_up s" let ?g = "int_str (au_generation ?s)"
  let ?input = "''cadi:'' @ w @ '':'' @ ?g"
  let ?payload = "[(''operation'', JStr ''SHA256''), (''input'', JStr ?input),
    (''expected_output'', JStr (sha ?input)), (''worker_generation'', JInt (au_generation ?s))]"
  obtain m v where send: "authority_send ''WORK'' WORKER ''SYNTHETIC_WORK'' (''work:'' @ w @ '':'' @ ?g) WORK_SCHEMA
      ?payload ?s = (Inr m, v)" and t: "pr_sent t = pr_sent v"
    using assms
    by (auto simp: send_work_def Let_def then_t_def split: prod.splits sum.splits dest!: emit_outcome_sent)
  note sent = authority_send_sent [OF send]
  obtain f where f: "encode_frame m = Inr f" "pr_sent v = pr_sent s @ [(ToHarness, f)]"
    using sent(4) by (auto simp: count_up_def)
  have valid: "jvalid (JObj m)" using sent(3) by simp
  have payload: "obj_field (sorted_envelope m) ''payload'' = sorted_envelope ?payload"
    using sent(2) by (simp add: obj_field_sorted [OF valid]) (simp add: obj_field_def)
  have "field (sorted_envelope ?payload) k = jsort (field ?payload k)" for k
    by (rule field_sorted_envelope) (simp add: keys_of_def)
  then have "work_result sha (sorted_envelope ?payload) = (JStr ''OK'', JStr (sha ?input))"
    "field (sorted_envelope ?payload) ''expected_output'' = JStr (sha ?input)"
    by (simp_all add: work_result_def field_def)
  then show ?thesis
    using decode_encode_frame [OF f(1) valid] f(2) t payload by auto
qed

end
