(* ===== verification/Proto_Properties.thy ===== *)
theory Proto_Properties
  imports Proto_System "HOL-Library.Code_Target_Nat"
begin

section \<open>Properties of the prototype\<close>

text \<open>
  What the processes of the prototype promise of any stream of bytes, any schedule of ready sockets
  and any behaviour of the operating system.
\<close>

subsection \<open>Messages to try the properties on\<close>

definition demo_message :: "string \<Rightarrow> C8WireRole \<Rightarrow> C8WireRole \<Rightarrow> int \<Rightarrow> jval dict \<Rightarrow> jval dict" where
  "demo_message kind sender receiver clock payload =
     [(''schema'', JStr MESSAGE_SCHEMA), (''message_id'', JStr ''m''), (''message_kind'', JStr kind),
      (''sender_role'', JStr (role_value sender)), (''receiver_role'', JStr (role_value receiver)),
      (''subject_type'', JStr ''PROCESS''), (''subject_id'', JStr ''x''), (''payload_schema'', JStr ''y''),
      (''payload'', JObj payload), (''send_monotonic_ns'', JInt clock)]"

definition harness_register :: "int \<Rightarrow> jval dict" where
  "harness_register clock =
     demo_message ''REGISTER'' FAULT_TRANSPORT_HARNESS CONTROL_PLANE_AUTHORITY clock [(''pid'', JInt 7)]"

definition worker_register :: "int \<Rightarrow> jval dict" where
  "worker_register clock =
     demo_message ''REGISTER'' WORKER CONTROL_PLANE_AUTHORITY clock
       [(''pid'', JInt 9), (''worker_id'', JStr ''w''), (''continuity_modules_loaded'', JList [])]"

definition demo_process :: process where
  "demo_process = new_process CONTROL_PLANE_AUTHORITY 5 (\<lambda>n. int n) (\<lambda>_. None)"

definition frame_of :: "jval dict \<Rightarrow> bytes" where
  "frame_of m = (case encode_frame m of Inl _ \<Rightarrow> [] | Inr f \<Rightarrow> f)"

definition fits :: "jval dict \<Rightarrow> bool" where
  "fits m \<longleftrightarrow> validate_envelope (JObj m) = Inr m \<and> 0 < length (json_dumps (JObj m)) \<and> length (json_dumps (JObj m)) \<le> 1000"

lemma fits_encodes:
  assumes "fits m"
  shows "encode_frame m = Inr (frame_of m)" "frame_of m \<noteq> []"
proof -
  have "0 < length (canonical_json_bytes (JObj m))" "length (canonical_json_bytes (JObj m)) \<le> C8_MAX_FRAME_BYTES"
    using assms by (auto simp: fits_def canonical_json_bytes_def encode_text_def C8_MAX_FRAME_BYTES_def)
  with assms show "encode_frame m = Inr (frame_of m)" "frame_of m \<noteq> []"
    by (simp_all add: fits_def frame_of_def encode_frame_def Let_def header_pack_def)
qed

lemma demo_fits:
  "fits (harness_register 0)" "fits (harness_register 3)" "fits (worker_register 0)"
  by code_simp+

lemma demo_valid: "jvalid (JObj (harness_register c))" "jvalid (JObj (worker_register c))"
  by (simp_all add: harness_register_def worker_register_def demo_message_def)


subsection \<open>Frames\<close>

text \<open>C34. A frame is received as it was sent, however the stream is cut into pieces: the receiver gets
the message with its keys in canonical order and leaves what follows the frame. Decoding the frame gives
the same message, and no other bytes decode to it.\<close>

theorem frame_survives_segmentation:
  assumes "encode_frame env = Inr frame" "jvalid (JObj env)"
    and "concat segs = frame @ later" "[] \<notin> set segs"
  shows "(\<exists>segs'. recv_envelope (map Arrived segs @ evs) = (Inr (sorted_envelope env), map Arrived segs' @ evs) \<and>
        concat segs' = later) \<and>
    (decode_frame_bytes other = Inr (sorted_envelope env) \<longleftrightarrow> other = frame) \<and>
    field (sorted_envelope env) k = jsort (field env k)"
proof (intro conjI)
  note decoded = decode_encode_frame [OF assms(1,2)]
  show "\<exists>segs'. recv_envelope (map Arrived segs @ evs) = (Inr (sorted_envelope env), map Arrived segs' @ evs) \<and>
      concat segs' = later"
    using receive_frame [OF assms] by blast
  show "decode_frame_bytes other = Inr (sorted_envelope env) \<longleftrightarrow> other = frame"
    using decoded decode_frame_unique by (metis sum.inject(2))
  show "field (sorted_envelope env) k = jsort (field env k)"
    by (rule field_sorted_envelope [OF envelope_keys [OF assms(2)]])
qed

lemma frame_survives_segmentation_witness:
  "\<exists>segs'. recv_envelope (map Arrived (map (\<lambda>b. [b]) (frame_of (harness_register 0) @ frame_of (worker_register 0)))
      @ [EndOfStream]) = (Inr (sorted_envelope (harness_register 0)), map Arrived segs' @ [EndOfStream]) \<and>
    concat segs' = frame_of (worker_register 0)"
  by (rule frame_survives_segmentation [OF fits_encodes(1) [OF demo_fits(1)] demo_valid(1), THEN conjunct1]) auto

subsection \<open>Scripted delivery\<close>



subsection \<open>The fault harness\<close>

text \<open>C36. The harness only forwards: whatever becomes ready in whatever order, every frame it sends to a
worker is the frame of a message it received from the authority and addressed to a worker, and every
frame it sends to the authority is the frame of a message a worker sent, or one the harness wrote in its
own name. It sends to no one else.\<close>

theorem harness_only_forwards:
  fixes p :: process
  assumes "pr_sent p = []"
    and "(peer, f) \<in> set (pr_sent (snd (harness_process_main ahost whost wport up down capacity cv bhost bport
      attempts batches p)))"
  shows "peer = ToWorker \<and> (\<exists>batch m. batch \<in> set batches \<and> Authority (Inr m) \<in> set batch \<and>
        str_field m ''receiver_role'' = role_value WORKER \<and> encode_frame m = Inr f) \<or>
      peer = ToAuthority \<and> (\<exists>batch m. batch \<in> set batches \<and> Worker_Socket (Inr m) \<in> set batch \<and>
        str_field m ''sender_role'' = role_value WORKER \<and> encode_frame m = Inr f) \<or>
      peer = ToAuthority \<and> own_frame f"
proof -
  define A where "A = (\<Union>batch\<in>set batches. \<Union>(authority_frame ` set batch))"
  define W where "W = (\<Union>batch\<in>set batches. \<Union>(worker_frame ` set batch))"
  have "forwards A W (snd (harness_process_main ahost whost wport up down capacity cv bhost bport attempts batches p))"
    by (rule forwards_main [OF assms(1)]) (auto simp: A_def W_def)
  with assms(2) have "sent_from A W (peer, f)" by (auto simp: forwards_def)
  then show ?thesis
    unfolding sent_from_def by (cases peer) (auto simp: A_def W_def authority_frame_iff worker_frame_iff)
qed


definition demo_harness_run :: "process \<Rightarrow> (harness, unit) tstep" where
  "demo_harness_run p =
     harness_process_main ''localhost'' ''localhost'' (PInt 0) [] [] (PInt 4) (JInt 4) (JStr ''127.0.0.1'') 80 [True] [] p"

definition demo_registration :: "jval dict" where
  "demo_registration =
     [(''schema'', JStr MESSAGE_SCHEMA), (''message_id'', JStr ''harness:5:1''), (''message_kind'', JStr ''REGISTER''),
      (''sender_role'', JStr ''FAULT_TRANSPORT_HARNESS''), (''receiver_role'', JStr ''CONTROL_PLANE_AUTHORITY''),
      (''subject_type'', JStr ''PROCESS''), (''subject_id'', JStr ''fault-transport-harness''),
      (''payload_schema'', JStr HARNESS_REGISTER_SCHEMA),
      (''payload'', JObj [(''pid'', JInt 5), (''listen_host'', JStr ''127.0.0.1''), (''listen_port'', JInt 80)]),
      (''send_monotonic_ns'', JInt 2)]"

lemma demo_registration_fits: "fits demo_registration"
  by code_simp

lemma demo_harness_sends: "pr_sent (snd (demo_harness_run demo_process)) = [(ToAuthority, frame_of demo_registration)]"
proof -
  have i: "int_str 5 = ''5''" by code_simp
  show ?thesis
    using fits_encodes(1) [OF demo_registration_fits] demo_registration_fits [unfolded fits_def]
    unfolding demo_registration_def
    by (simp add: demo_harness_run_def harness_process_main_def loopback_def valid_port_def emit_def read_clock_def
      register_upstream_def new_envelope_def make_envelope_def connect_loopback_def send_envelope_def sendall_def i
      demo_process_def new_process_def harness_start_def process.defs harness.defs)
qed

lemma harness_only_forwards_witness: "own_frame (frame_of demo_registration)"
proof -
  have "pr_sent demo_process = []" by (simp add: demo_process_def new_process_def)
  from harness_only_forwards [OF this, of ToAuthority "frame_of demo_registration" "''localhost''" "''localhost''"
      "PInt 0" "[]" "[]" "PInt 4" "JInt 4" "JStr ''127.0.0.1''" 80 "[True]" "[]"]
  show ?thesis using demo_harness_sends by (simp add: demo_harness_run_def)
qed

subsection \<open>The authority process\<close>





text \<open>C39. The authority sends no message twice: whatever arrives on its connection, valid or not, the
frames it sends are numbered strictly upwards in their \<open>message_id\<close>, so no two of them are equal.\<close>

theorem no_message_sent_twice:
  fixes p :: process
  assumes "log_ok p" "pr_sent p = []" "loopback host" "valid_port port"
    and "authority_process_main sha host port b bh bp peer sock p = (r, t)"
  shows "(\<exists>ks. sorted_wrt (<) ks \<and> list_all2 (numbered (pr_pid t)) ks (map snd (pr_sent t))) \<and>
    distinct (map snd (pr_sent t))"
proof
  obtain s where "authority_process_main sha host port b bh bp peer sock p = authority_loop sha sock s"
    and "registration_ok s" "sent_ok s"
    using authority_main_starts [OF assms(1-4)] by metis
  with sent_ok_loop [of s sha sock] assms(5) have sent: "sent_upto (au_counter t) t" by (simp add: sent_ok_def)
  then show "\<exists>ks. sorted_wrt (<) ks \<and> list_all2 (numbered (pr_pid t)) ks (map snd (pr_sent t))"
    by (auto simp: sent_upto_def)
  show "distinct (map snd (pr_sent t))" by (rule sent_upto_distinct [OF sent])
qed

lemma no_message_sent_twice_witness:
  "distinct (map snd (pr_sent (snd (authority_process_main id ''localhost'' (PInt 0) True JNull 0 []
      (map Arrived [frame_of (harness_register 0) @ frame_of (worker_register 0)] @ [EndOfStream]) demo_process))))"
proof -
  have p: "log_ok demo_process" "pr_sent demo_process = []"
    by (simp_all add: demo_process_def new_process_log_ok) (simp add: new_process_def)
  show ?thesis
    by (rule no_message_sent_twice [OF p _ _ prod.collapse [symmetric], THEN conjunct2]) (simp_all add: loopback_def valid_port_def)
qed

subsection \<open>The processes together\<close>








end
