(* ===== verification/Serial_Values.thy ===== *)
theory Serial_Values
  imports Py_Prelude "HOL-Library.List_Lexorder" "HOL-Library.Char_ord"
begin

section \<open>Python values and their JSON form\<close>

text \<open>
  The part of \<open>continuity/serialization.py\<close> that does not depend on the core: \<open>_canonical_json\<close>,
  \<open>_encode\<close>, \<open>_decode\<close> and the runtime type check \<open>_matches_annotation\<close>.

  A value of any type \<open>_encode\<close> distinguishes is a \<open>pv\<close>: an enum member carries the names of its enum
  and of itself, an instance of a dataclass its class name and its fields in order; \<open>VOther\<close> is a value
  of any other type. A parsed JSON document is an \<open>sjson\<close>. Frozensets and dictionaries are lists
  without repetition in the order of iteration. How \<open>json.dumps\<close> writes a float (the shortest
  decimal numeral that reads back as it) is the argument \<open>rp\<close>: floats are exact rationals here.
\<close>

datatype pv =
    VNone
  | VBool bool
  | VInt int
  | VFloat rat
  | VStr string
  | VEnum string string
  | VFrozenset "pv list"
  | VTuple "pv list"
  | VList "pv list"
  | VDict "(pv \<times> pv) list"
  | VData string "(string \<times> pv) list"
  | VOther

datatype sjson =
    SNull
  | SBool bool
  | SInt int
  | SFloat rat
  | SStr string
  | SList "sjson list"
  | SObj "(string \<times> sjson) list"

type_synonym float_repr = "rat \<Rightarrow> string"

lemma map_res_cong [fundef_cong]:
  "xs = ys \<Longrightarrow> (\<And>x. x \<in> set ys \<Longrightarrow> f x = h x) \<Longrightarrow> map_res f xs = map_res h ys"
  by (induction xs arbitrary: ys) (auto intro!: bind_res_cong)

subsection \<open>Canonical text\<close>

text \<open>\<open>json.dumps(..., sort_keys=True, separators=(",", ":"), ensure_ascii=False)\<close>.\<close>

definition text_char :: "char \<Rightarrow> string" where
  "text_char c =
     (let n = of_char c :: nat in
      if n = 34 then [CHR 0x5C, CHR 0x22]
      else if n = 92 then [CHR 0x5C, CHR 0x5C]
      else if n = 8 then [CHR 0x5C, CHR ''b'']
      else if n = 12 then [CHR 0x5C, CHR ''f'']
      else if n = 10 then [CHR 0x5C, CHR ''n'']
      else if n = 13 then [CHR 0x5C, CHR ''r'']
      else if n = 9 then [CHR 0x5C, CHR ''t'']
      else if n < 32
      then [CHR 0x5C, CHR ''u'', CHR ''0'', CHR ''0'', hex_digit (n div 16), hex_digit (n mod 16)]
      else [c])"

definition text_str :: "string \<Rightarrow> string" where
  "text_str s = [CHR 0x22] @ concat (map text_char s) @ [CHR 0x22]"

fun sorted_json :: "sjson \<Rightarrow> sjson" where
  "sorted_json (SList xs) = SList (map sorted_json xs)"
| "sorted_json (SObj items) = SObj (sort_key fst (map (\<lambda>(k, v). (k, sorted_json v)) items))"
| "sorted_json v = v"

fun json_text :: "float_repr \<Rightarrow> sjson \<Rightarrow> string" where
  "json_text rp SNull = ''null''"
| "json_text rp (SBool b) = (if b then ''true'' else ''false'')"
| "json_text rp (SInt i) = int_str i"
| "json_text rp (SFloat r) = rp r"
| "json_text rp (SStr s) = text_str s"
| "json_text rp (SList xs) = ''['' @ join_with '','' (map (json_text rp) xs) @ '']''"
| "json_text rp (SObj items) =
     ''{'' @ join_with '','' (map (\<lambda>(k, v). text_str k @ '':'' @ json_text rp v) items) @ ''}''"

definition canonical_json :: "float_repr \<Rightarrow> sjson \<Rightarrow> string" where
  "canonical_json rp v = json_text rp (sorted_json v)"

subsection \<open>Encoding\<close>

function encode_value :: "float_repr \<Rightarrow> pv \<Rightarrow> sjson res" where
  "encode_value rp VNone = Inr SNull"
| "encode_value rp (VBool b) = Inr (SBool b)"
| "encode_value rp (VInt i) = Inr (SInt i)"
| "encode_value rp (VFloat r) = Inr (SFloat r)"
| "encode_value rp (VStr s) = Inr (SStr s)"
| "encode_value rp (VEnum t n) = Inr (SObj [(''$enum'', SStr t), (''name'', SStr n)])"
| "encode_value rp (VFrozenset xs) =
     bind_res (map_res (encode_value rp) xs) (\<lambda>ys.
     Inr (SObj [(''$frozenset'', SList (sort_key (canonical_json rp) ys))]))"
| "encode_value rp (VTuple xs) =
     bind_res (map_res (encode_value rp) xs) (\<lambda>ys. Inr (SObj [(''$tuple'', SList ys)]))"
| "encode_value rp (VList xs) =
     bind_res (map_res (encode_value rp) xs) (\<lambda>ys. Inr (SObj [(''$list'', SList ys)]))"
| "encode_value rp (VDict kvs) =
     bind_res (map_res (\<lambda>kv. bind_res (encode_value rp (fst kv)) (\<lambda>k.
                        bind_res (encode_value rp (snd kv)) (\<lambda>v. Inr (k, v)))) kvs) (\<lambda>entries.
     Inr (SObj [(''$dict'', SList (map (\<lambda>(k, v). SList [k, v])
       (sort_key (\<lambda>e. canonical_json rp (fst e)) entries)))]))"
| "encode_value rp (VData c fields) =
     bind_res (map_res (\<lambda>f. bind_res (encode_value rp (snd f)) (\<lambda>v. Inr (fst f, v))) fields) (\<lambda>fs.
     Inr (SObj [(''$type'', SStr c), (''fields'', SObj fs)]))"
| "encode_value rp VOther = Inl TypeError"
  by pat_completeness auto

lemma size_pv_pair:
  "kv \<in> set kvs \<Longrightarrow> size (fst kv) < Suc (size_list (size_prod size size) kvs)"
  "kv \<in> set kvs \<Longrightarrow> size (snd kv) < Suc (size_list (size_prod size size) kvs)"
  for kvs :: "(pv \<times> pv) list"
  by (induction kvs) auto

lemma size_pv_field: "f \<in> set fs \<Longrightarrow> size (snd f) < Suc (size_list (size_prod (\<lambda>_. 0) size) fs)"
  for fs :: "(string \<times> pv) list"
  by (induction fs) auto

lemma size_pv_element: "x \<in> set xs \<Longrightarrow> size x < Suc (size_list size xs)"
  for xs :: "pv list"
  by (induction xs) auto

termination encode_value
  by (relation "measure (\<lambda>(rp, v). size v)") (simp_all add: size_pv_pair size_pv_field size_pv_element)

subsection \<open>Hashing and equality of hashable values\<close>

text \<open>
  A frozenset and the keys of a dictionary hold hashable values: lists and dictionaries are not. Two
  hashable values are one element when they are equal; numbers, booleans and the members of the
  \<open>IntEnum\<close> \<open>EvidenceAuthority\<close> are equal when their values are.
\<close>

fun hashable :: "pv \<Rightarrow> bool" where
  "hashable (VList xs) = False"
| "hashable (VDict kvs) = False"
| "hashable (VTuple xs) = list_all hashable xs"
| "hashable (VData c fs) = list_all (\<lambda>f. hashable (snd f)) fs"
| "hashable v = True"

definition int_enum_value :: "string \<Rightarrow> string \<Rightarrow> rat option" where
  "int_enum_value t n =
     (if t = ''EvidenceAuthority''
      then map_of [(''ESTIMATED'', 1), (''DERIVED'', 2), (''EXACT_OBSERVATION'', 3), (''AUTHORITATIVE'', 4)] n
      else None)"

fun numeric_value :: "pv \<Rightarrow> rat option" where
  "numeric_value (VBool b) = Some (of_bool b)"
| "numeric_value (VInt i) = Some (of_int i)"
| "numeric_value (VFloat r) = Some r"
| "numeric_value (VEnum t n) = int_enum_value t n"
| "numeric_value v = None"

function (sequential) hash_eq :: "pv \<Rightarrow> pv \<Rightarrow> bool" where
  "hash_eq VNone w = (w = VNone)"
| "hash_eq (VStr s) w = (w = VStr s)"
| "hash_eq (VTuple xs) w =
     (case w of VTuple ys \<Rightarrow> length xs = length ys \<and> list_all (\<lambda>p. hash_eq (fst p) (snd p)) (zip xs ys)
      | _ \<Rightarrow> False)"
| "hash_eq (VFrozenset xs) w =
     (case w of VFrozenset ys \<Rightarrow> length xs = length ys \<and> list_all (\<lambda>x. list_ex (hash_eq x) ys) xs
      | _ \<Rightarrow> False)"
| "hash_eq (VData c fs) w =
     (case w of
        VData d es \<Rightarrow> c = d \<and> length fs = length es \<and>
          list_all (\<lambda>p. hash_eq (snd (fst p)) (snd (snd p))) (zip fs es)
      | _ \<Rightarrow> False)"
| "hash_eq v w =
     (case numeric_value v of
        Some r \<Rightarrow> numeric_value w = Some r
      | None \<Rightarrow> v = w)"
  by pat_completeness auto

lemma size_zip_element: "p \<in> set (zip xs ys) \<Longrightarrow> (case p of (v, w) \<Rightarrow> size v) < Suc (size_list size xs)"
  for xs :: "pv list"
  by (cases p) (auto dest!: set_zip_leftD intro: size_pv_element)

lemma size_zip_field: "p \<in> set (zip fs es) \<Longrightarrow> size (snd (fst p)) < Suc (size_list (size_prod (\<lambda>_. 0) size) fs)"
  for fs :: "(string \<times> pv) list"
  by (cases p) (auto dest!: set_zip_leftD dest: size_pv_field)

termination hash_eq
  by (relation "measure (\<lambda>(v, w). size v)")
     (simp_all add: size_zip_element size_zip_field size_pv_element)

text \<open>\<open>frozenset(items)\<close> keeps the first of equal items, \<open>{k: v ...}\<close> the first key and the last value.\<close>

definition hashed :: "pv \<Rightarrow> pv res" where
  "hashed v = (if hashable v then Inr v else Inl TypeError)"

definition add_element :: "pv \<Rightarrow> pv list \<Rightarrow> pv list" where
  "add_element x xs = (if list_ex (hash_eq x) xs then xs else xs @ [x])"

definition build_set :: "pv list \<Rightarrow> pv list" where
  "build_set xs = fold add_element xs []"

definition add_item :: "pv \<times> pv \<Rightarrow> (pv \<times> pv) list \<Rightarrow> (pv \<times> pv) list" where
  "add_item kv d =
     (if list_ex (\<lambda>e. hash_eq (fst kv) (fst e)) d
      then map (\<lambda>e. if hash_eq (fst kv) (fst e) then (fst e, snd kv) else e) d
      else d @ [kv])"

definition build_dict :: "(pv \<times> pv) list \<Rightarrow> (pv \<times> pv) list" where
  "build_dict kvs = fold add_item kvs []"

subsection \<open>Enums and dataclasses\<close>

text \<open>The annotations that occur in the entities and in the signatures of the core's methods.\<close>

datatype annotation =
    AnBool
  | AnInt
  | AnFloat
  | AnStr
  | AnNone
  | AnEnum string
  | AnClass string
  | AnUnion "annotation list"
  | AnFrozenset annotation
  | AnTuple "annotation list"
  | AnIterable annotation

definition enum_types :: "(string \<times> string list) list" where
  "enum_types =
     [(''ProgramStatus'', [''CREATED'', ''RUNNING'', ''COMPLETED'', ''FAILED'', ''CANCELLED'']),
      (''ContinuationLifecycle'', [''CREATED'', ''ACTIVE'', ''WAITING'', ''SPECULATIVE'', ''JOINING'',
        ''TERMINAL'', ''ABANDONED'']),
      (''RequestStatus'', [''CREATED'', ''READY'', ''RUNNING'', ''COMPLETED'', ''FAILED'', ''CANCELLED'']),
      (''ExecutionStatus'', [''CREATED'', ''DISPATCHED'', ''RUNNING'', ''SUCCEEDED'', ''FAILED'', ''CANCELLED'']),
      (''AttemptAuthority'', [''NONE'', ''CURRENT'', ''COMMITTED'', ''SUPERSEDED'']),
      (''PhaseType'', [''PREFILL'', ''DECODE'', ''STATE_PULL'', ''STATE_TRANSFER'', ''OTHER'']),
      (''PhaseStatus'', [''CREATED'', ''RUNNING'', ''COMPLETED'', ''FAILED'', ''CANCELLED'']),
      (''StateLifecycle'', [''ACTIVE'', ''WAITING'', ''SPECULATIVE'', ''TERMINAL'']),
      (''StateValidity'', [''VALID'', ''INVALID'']),
      (''ReplicaStatus'', [''MATERIALIZING'', ''VALID'', ''STALE'', ''TRANSFERRING'', ''EVICTING'', ''LOST'',
        ''INVALID'']),
      (''BindingStatus'', [''PROPOSED'', ''ACTIVE'', ''MIGRATING'', ''SUPERSEDED'', ''RELEASED'', ''INVALID'']),
      (''EvidenceAuthority'', [''ESTIMATED'', ''DERIVED'', ''EXACT_OBSERVATION'', ''AUTHORITATIVE'']),
      (''EvidenceStatus'', [''VALID'', ''STALE'', ''UNKNOWN'', ''FAILED'', ''AMBIGUOUS'']),
      (''ReconcileOutcome'', [''MATCHED'', ''WAIT'', ''RETRY'', ''RECOMPUTE'', ''MIGRATE'', ''REJECT'', ''REPAIR'',
        ''FAIL'', ''AMBIGUOUS''])]"

type_synonym class_field = "string \<times> annotation \<times> pv option"

definition optional :: "annotation \<Rightarrow> annotation" where
  "optional a = AnUnion [a, AnNone]"

definition string_pairs :: annotation where
  "string_pairs = AnFrozenset (AnTuple [AnStr, AnStr])"

definition dataclass_types :: "(string \<times> class_field list) list" where
  "dataclass_types =
     [(''Program'', [(''id'', AnStr, None),
        (''status'', AnEnum ''ProgramStatus'', Some (VEnum ''ProgramStatus'' ''CREATED''))]),
      (''Session'', [(''id'', AnStr, None), (''program_id'', AnStr, None)]),
      (''Continuation'', [(''id'', AnStr, None), (''session_id'', AnStr, None),
        (''parent_ids'', AnFrozenset AnStr, Some (VFrozenset [])),
        (''lifecycle'', AnEnum ''ContinuationLifecycle'', Some (VEnum ''ContinuationLifecycle'' ''CREATED''))]),
      (''LogicalRequest'', [(''id'', AnStr, None), (''continuation_id'', AnStr, None),
        (''status'', AnEnum ''RequestStatus'', Some (VEnum ''RequestStatus'' ''CREATED'')),
        (''current_attempt_id'', optional AnStr, Some VNone),
        (''committed_attempt_id'', optional AnStr, Some VNone),
        (''authoritative_output_id'', optional AnStr, Some VNone)]),
      (''Attempt'', [(''id'', AnStr, None), (''request_id'', AnStr, None), (''generation'', AnInt, None),
        (''execution_status'', AnEnum ''ExecutionStatus'', Some (VEnum ''ExecutionStatus'' ''CREATED'')),
        (''authority_status'', AnEnum ''AttemptAuthority'', Some (VEnum ''AttemptAuthority'' ''NONE''))]),
      (''Phase'', [(''id'', AnStr, None), (''attempt_id'', AnStr, None), (''ordinal'', AnInt, None),
        (''phase_type'', AnEnum ''PhaseType'', None),
        (''status'', AnEnum ''PhaseStatus'', Some (VEnum ''PhaseStatus'' ''CREATED''))]),
      (''ReusableState'', [(''id'', AnStr, None), (''origin_type'', AnStr, None), (''origin_id'', AnStr, None),
        (''origin_continuation_id'', AnStr, None),
        (''origin_request_id'', optional AnStr, Some VNone),
        (''producer_attempt_id'', optional AnStr, Some VNone),
        (''semantic_type'', AnStr, Some (VStr ''PREFIX'')),
        (''representation'', AnStr, Some (VStr ''OPAQUE'')),
        (''lifecycle'', AnEnum ''StateLifecycle'', Some (VEnum ''StateLifecycle'' ''TERMINAL'')),
        (''validity'', AnEnum ''StateValidity'', Some (VEnum ''StateValidity'' ''VALID'')),
        (''derived_from'', AnFrozenset AnStr, Some (VFrozenset [])),
        (''producer_phase_id'', optional AnStr, Some VNone)]),
      (''StateReplica'', [(''id'', AnStr, None), (''state_id'', AnStr, None), (''location_id'', AnStr, None),
        (''status'', AnEnum ''ReplicaStatus'', Some (VEnum ''ReplicaStatus'' ''MATERIALIZING'')),
        (''binding_id'', optional AnStr, Some VNone),
        (''binding_epoch'', optional AnInt, Some VNone)]),
      (''Binding'', [(''id'', AnStr, None), (''subject_id'', AnStr, None), (''location_id'', AnStr, None),
        (''base_epoch'', AnInt, None), (''epoch'', AnInt, None),
        (''status'', AnEnum ''BindingStatus'', Some (VEnum ''BindingStatus'' ''PROPOSED''))]),
      (''Evidence'', [(''id'', AnStr, None), (''claim'', AnStr, None), (''source'', AnStr, None),
        (''authority'', AnEnum ''EvidenceAuthority'', None), (''status'', AnEnum ''EvidenceStatus'', None),
        (''observed_at'', AnFloat, None), (''scope'', string_pairs, Some (VFrozenset [])),
        (''valid_until'', optional AnFloat, Some VNone), (''confidence'', optional AnFloat, Some VNone),
        (''derived_from'', AnFrozenset AnStr, Some (VFrozenset [])),
        (''derivation_rule'', optional AnStr, Some VNone),
        (''claim_key'', optional AnStr, Some VNone), (''claim_value'', optional AnStr, Some VNone)]),
      (''Output'', [(''id'', AnStr, None), (''attempt_id'', AnStr, None), (''terminal'', AnBool, None),
        (''evidence_ids'', AnFrozenset AnStr, Some (VFrozenset []))]),
      (''SemanticEvent'', [(''id'', AnStr, None), (''kind'', AnStr, None), (''subject_type'', AnStr, None),
        (''subject_id'', AnStr, None), (''payload'', string_pairs, Some (VFrozenset []))])]"

text \<open>
  \<open>cls(**kwargs)\<close>: an unexpected or a missing argument is a \<open>TypeError\<close>; \<open>Evidence\<close> checks its
  structured claim in \<open>__post_init__\<close>.
\<close>

fun nonempty_str :: "pv \<Rightarrow> bool" where
  "nonempty_str (VStr s) = (s \<noteq> '''')"
| "nonempty_str v = False"

definition field_of :: "(string \<times> pv) list \<Rightarrow> string \<Rightarrow> pv" where
  "field_of fields n = (case map_of fields n of None \<Rightarrow> VNone | Some v \<Rightarrow> v)"

definition post_init :: "string \<Rightarrow> (string \<times> pv) list \<Rightarrow> unit res" where
  "post_init c fields =
     (let k = field_of fields ''claim_key''; v = field_of fields ''claim_value'' in
      raise_if (c = ''Evidence'' \<and>
        ((k = VNone) \<noteq> (v = VNone) \<or> k \<noteq> VNone \<and> (\<not> nonempty_str k \<or> \<not> nonempty_str v))) ValueError)"

definition bind_field :: "(string \<times> pv) list \<Rightarrow> class_field \<Rightarrow> (string \<times> pv) res" where
  "bind_field kwargs f =
     (case f of (n, _, dflt) \<Rightarrow>
       (case map_of kwargs n of
          Some v \<Rightarrow> Inr (n, v)
        | None \<Rightarrow> (case dflt of Some v \<Rightarrow> Inr (n, v) | None \<Rightarrow> Inl TypeError)))"

definition construct :: "string \<Rightarrow> class_field list \<Rightarrow> (string \<times> pv) list \<Rightarrow> pv res" where
  "construct c fs kwargs =
     bind_res (raise_if (\<not> list_all (\<lambda>kw. List.member (map fst fs) (fst kw)) kwargs) TypeError) (\<lambda>_.
     bind_res (map_res (bind_field kwargs) fs) (\<lambda>fields.
     bind_res (post_init c fields) (\<lambda>_. Inr (VData c fields))))"

subsection \<open>Decoding\<close>

text \<open>
  Iterating over a parsed value: a string yields its characters and an object its keys. \<open>unpack2\<close> is
  the unpacking of an item into two names. A document read by \<open>json.loads\<close> has distinct keys in every
  object.
\<close>

fun iterate :: "sjson \<Rightarrow> sjson list res" where
  "iterate (SList xs) = Inr xs"
| "iterate (SStr s) = Inr (map (\<lambda>c. SStr [c]) s)"
| "iterate (SObj items) = Inr (map (\<lambda>kv. SStr (fst kv)) items)"
| "iterate v = Inl TypeError"

definition unpack2 :: "sjson \<Rightarrow> (sjson \<times> sjson) res" where
  "unpack2 v = bind_res (iterate v) (\<lambda>xs. case xs of [a, b] \<Rightarrow> Inr (a, b) | _ \<Rightarrow> Inl ValueError)"

text \<open>A value of the document, used as it is, and used as the key of a table of types.\<close>

fun raw_value :: "sjson \<Rightarrow> pv" where
  "raw_value SNull = VNone"
| "raw_value (SBool b) = VBool b"
| "raw_value (SInt i) = VInt i"
| "raw_value (SFloat r) = VFloat r"
| "raw_value (SStr s) = VStr s"
| "raw_value (SList xs) = VList (map raw_value xs)"
| "raw_value (SObj items) = VDict (map (\<lambda>(k, v). (VStr k, raw_value v)) items)"

definition table_item :: "(string \<times> 'a) list \<Rightarrow> sjson \<Rightarrow> 'a res" where
  "table_item table key =
     (case key of
        SStr s \<Rightarrow> getitem table s
      | SList _ \<Rightarrow> Inl TypeError
      | SObj _ \<Rightarrow> Inl TypeError
      | _ \<Rightarrow> Inl KeyError)"

definition decode_enum :: "sjson \<Rightarrow> (string \<times> sjson) list \<Rightarrow> pv res" where
  "decode_enum t items =
     bind_res (table_item (map (\<lambda>e. (fst e, e)) enum_types) t) (\<lambda>e.
     bind_res (getitem items ''name'') (\<lambda>n.
     table_item (map (\<lambda>m. (m, VEnum (fst e) m)) (snd e)) n))"

function decode_value :: "sjson \<Rightarrow> pv res" where
  "decode_value v =
     (case v of
        SObj items \<Rightarrow>
          (case map_of items ''$enum'' of Some t \<Rightarrow> decode_enum t items
           | None \<Rightarrow>
          (case map_of items ''$frozenset'' of Some u \<Rightarrow>
             bind_res (iterate u) (\<lambda>xs.
             bind_res (map_res (\<lambda>x. bind_res (decode_value x) hashed) xs) (\<lambda>ys. Inr (VFrozenset (build_set ys))))
           | None \<Rightarrow>
          (case map_of items ''$tuple'' of Some u \<Rightarrow>
             bind_res (iterate u) (\<lambda>xs. bind_res (map_res decode_value xs) (\<lambda>ys. Inr (VTuple ys)))
           | None \<Rightarrow>
          (case map_of items ''$list'' of Some u \<Rightarrow>
             bind_res (iterate u) (\<lambda>xs. bind_res (map_res decode_value xs) (\<lambda>ys. Inr (VList ys)))
           | None \<Rightarrow>
          (case map_of items ''$dict'' of Some u \<Rightarrow>
             bind_res (iterate u) (\<lambda>es.
             bind_res (map_res (\<lambda>e.
               bind_res (unpack2 e) (\<lambda>p.
               bind_res (decode_value (fst p)) (\<lambda>k.
               bind_res (decode_value (snd p)) (\<lambda>x.
               bind_res (hashed k) (\<lambda>k. Inr (k, x)))))) es) (\<lambda>kvs.
             Inr (VDict (build_dict kvs))))
           | None \<Rightarrow>
          (case map_of items ''$type'' of Some t \<Rightarrow>
             bind_res (table_item (map (\<lambda>c. (fst c, c)) dataclass_types) t) (\<lambda>cls.
             (case map_of items ''fields'' of
                None \<Rightarrow> Inl KeyError
              | Some u \<Rightarrow>
                  (case u of
                     SObj fs \<Rightarrow>
                       bind_res (map_res (\<lambda>f. bind_res (decode_value (snd f)) (\<lambda>x. Inr (fst f, x))) fs)
                         (construct (fst cls) (snd cls))
                   | _ \<Rightarrow> Inl AttributeError)))
           | None \<Rightarrow>
             bind_res (map_res (\<lambda>f. bind_res (decode_value (snd f)) (\<lambda>x. Inr (VStr (fst f), x))) items)
               (\<lambda>kvs. Inr (VDict kvs))))))))
      | _ \<Rightarrow> Inr (raw_value v))"
  by pat_completeness auto

lemma size_json_item: "map_of items k = Some v \<Longrightarrow> size v < size (SObj items)"
  by (induction items) (auto split: if_splits)

lemma size_json_field: "f \<in> set items \<Longrightarrow> size (snd f) < size (SObj items)"
  by (induction items) auto

lemma size_iterate: "iterate v = Inr xs \<Longrightarrow> x \<in> set xs \<Longrightarrow> size x \<le> size v"
  by (induction v rule: iterate.induct) (auto dest: size_list_estimation' [where f = size])

lemma unpack2_Inr: "unpack2 v = Inr p \<longleftrightarrow> iterate v = Inr [fst p, snd p]"
  by (cases p; cases "iterate v") (auto simp: unpack2_def split: list.splits)

lemma size_unpack2: "unpack2 v = Inr p \<Longrightarrow> size (fst p) \<le> size v \<and> size (snd p) \<le> size v"
  by (auto simp: unpack2_Inr intro: size_iterate)

lemma size_iterated: "map_of items k = Some u \<Longrightarrow> iterate u = Inr xs \<Longrightarrow> x \<in> set xs \<Longrightarrow> size x < size (SObj items)"
  using size_json_item [of items k u] size_iterate [of u xs x] by linarith

lemma size_json_subfield: "map_of items k = Some (SObj fs) \<Longrightarrow> (n, x) \<in> set fs \<Longrightarrow> size x < size (SObj items)"
  using size_json_item [of items k "SObj fs"] size_json_field [of "(n, x)" fs] by simp

termination decode_value
  by (relation "measure size")
     (auto simp del: sjson.size dest: size_json_field size_iterated size_json_item size_json_subfield
       dest!: size_unpack2 intro: le_less_trans)

declare decode_value.simps [simp del]

lemma decode_scalar [simp]:
  "decode_value SNull = Inr VNone" "decode_value (SBool b) = Inr (VBool b)"
  "decode_value (SInt i) = Inr (VInt i)" "decode_value (SFloat r) = Inr (VFloat r)"
  "decode_value (SStr s) = Inr (VStr s)"
  by (subst decode_value.simps, simp)+

lemma decode_tagged [simp]:
  "decode_value (SObj [(''$enum'', t), (''name'', n)]) = decode_enum t [(''$enum'', t), (''name'', n)]"
  "decode_value (SObj [(''$frozenset'', SList xs)]) =
     bind_res (map_res (\<lambda>x. bind_res (decode_value x) hashed) xs) (\<lambda>ys. Inr (VFrozenset (build_set ys)))"
  "decode_value (SObj [(''$tuple'', SList xs)]) = bind_res (map_res decode_value xs) (\<lambda>ys. Inr (VTuple ys))"
  "decode_value (SObj [(''$list'', SList xs)]) = bind_res (map_res decode_value xs) (\<lambda>ys. Inr (VList ys))"
  "decode_value (SObj [(''$dict'', SList es)]) =
     bind_res (map_res (\<lambda>e.
       bind_res (unpack2 e) (\<lambda>p.
       bind_res (decode_value (fst p)) (\<lambda>k.
       bind_res (decode_value (snd p)) (\<lambda>x.
       bind_res (hashed k) (\<lambda>k. Inr (k, x)))))) es) (\<lambda>kvs.
     Inr (VDict (build_dict kvs)))"
  "decode_value (SObj [(''$type'', SStr c), (''fields'', SObj fs)]) =
     bind_res (table_item (map (\<lambda>c. (fst c, c)) dataclass_types) (SStr c)) (\<lambda>cls.
     bind_res (map_res (\<lambda>f. bind_res (decode_value (snd f)) (\<lambda>x. Inr (fst f, x))) fs)
       (construct (fst cls) (snd cls)))"
  by (subst decode_value.simps, simp)+

subsection \<open>The runtime type check\<close>

text \<open>
  \<open>float(i)\<close> of an integer overflows from the midpoint between the largest double and \<open>2 ^ 1024\<close> on.
\<close>

definition int_fits_float :: "int \<Rightarrow> bool" where
  "int_fits_float i \<longleftrightarrow> \<bar>i\<bar> < 2 ^ 1024 - 2 ^ 970"

fun matches_annotation :: "annotation \<Rightarrow> pv \<Rightarrow> bool"
  and matches_all :: "annotation list \<Rightarrow> pv list \<Rightarrow> bool" where
  "matches_annotation (AnUnion as) v = list_ex (\<lambda>a. matches_annotation a v) as"
| "matches_annotation (AnFrozenset a) v =
     (case v of VFrozenset xs \<Rightarrow> list_all (matches_annotation a) xs | _ \<Rightarrow> False)"
| "matches_annotation (AnTuple as) v = (case v of VTuple xs \<Rightarrow> matches_all as xs | _ \<Rightarrow> False)"
| "matches_annotation AnBool v = (case v of VBool b \<Rightarrow> True | _ \<Rightarrow> False)"
| "matches_annotation AnInt v = (case v of VInt i \<Rightarrow> True | _ \<Rightarrow> False)"
| "matches_annotation AnFloat v = (case v of VInt i \<Rightarrow> int_fits_float i | VFloat r \<Rightarrow> True | _ \<Rightarrow> False)"
| "matches_annotation AnStr v = (case v of VStr s \<Rightarrow> True | _ \<Rightarrow> False)"
| "matches_annotation AnNone v = (v = VNone)"
| "matches_annotation (AnEnum t) v = (case v of VEnum u n \<Rightarrow> u = t | _ \<Rightarrow> False)"
| "matches_annotation (AnClass c) v = (case v of VData d fs \<Rightarrow> d = c | _ \<Rightarrow> False)"
| "matches_annotation (AnIterable a) v = False"
| "matches_all (a # as) (x # xs) = (matches_annotation a x \<and> matches_all as xs)"
| "matches_all as xs = (as = [] \<and> xs = [])"

subsection \<open>Reading back what was encoded\<close>

text \<open>
  The values the core holds: enum members that exist, instances of the dataclasses with all their
  fields, frozensets of strings and of tuples of strings, dictionaries with string keys. Encoding
  puts frozensets and dictionaries into a canonical order; \<open>normal_value\<close> is the value in that order.
\<close>

definition is_VStr :: "pv \<Rightarrow> bool" where
  "is_VStr v = (case v of VStr s \<Rightarrow> True | _ \<Rightarrow> False)"

lemma is_VStr_iff: "is_VStr v \<longleftrightarrow> (\<exists>s. v = VStr s)"
  by (cases v) (simp_all add: is_VStr_def)

lemma is_VStr_simps [simp]: "is_VStr (VStr s)"
  by (simp add: is_VStr_def)

fun flat_value :: "pv \<Rightarrow> bool" where
  "flat_value (VStr s) = True"
| "flat_value (VTuple xs) = list_all is_VStr xs"
| "flat_value v = False"

fun flat_json :: "pv \<Rightarrow> sjson" where
  "flat_json (VStr s) = SStr s"
| "flat_json (VTuple xs) = SObj [(''$tuple'', SList (map flat_json xs))]"
| "flat_json v = SNull"

definition item_key :: "pv \<Rightarrow> string" where
  "item_key v = canonical_json (\<lambda>r. []) (flat_json v)"

function serializable :: "pv \<Rightarrow> bool" where
  "serializable VNone = True"
| "serializable (VBool b) = True"
| "serializable (VInt i) = True"
| "serializable (VFloat r) = True"
| "serializable (VStr s) = True"
| "serializable (VEnum t n) = (case map_of enum_types t of None \<Rightarrow> False | Some ns \<Rightarrow> List.member ns n)"
| "serializable (VFrozenset xs) = (list_all flat_value xs \<and> distinct xs)"
| "serializable (VTuple xs) = list_all serializable xs"
| "serializable (VList xs) = list_all serializable xs"
| "serializable (VDict kvs) =
     (list_all is_VStr (map fst kvs) \<and> distinct (map fst kvs) \<and> list_all (\<lambda>kv. serializable (snd kv)) kvs)"
| "serializable (VData c fields) =
     (case map_of dataclass_types c of
        None \<Rightarrow> False
      | Some fs \<Rightarrow> map fst fields = map fst fs \<and> list_all (\<lambda>f. serializable (snd f)) fields \<and>
          post_init c fields = Inr ())"
| "serializable VOther = False"
  by pat_completeness auto

termination serializable
  by (relation "measure size") (simp_all add: size_pv_pair size_pv_field size_pv_element)

function normal_value :: "pv \<Rightarrow> pv" where
  "normal_value VNone = VNone"
| "normal_value (VBool b) = VBool b"
| "normal_value (VInt i) = VInt i"
| "normal_value (VFloat r) = VFloat r"
| "normal_value (VStr s) = VStr s"
| "normal_value (VEnum t n) = VEnum t n"
| "normal_value (VFrozenset xs) = VFrozenset (sort_key item_key xs)"
| "normal_value (VTuple xs) = VTuple (map normal_value xs)"
| "normal_value (VList xs) = VList (map normal_value xs)"
| "normal_value (VDict kvs) =
     VDict (sort_key (\<lambda>kv. item_key (fst kv)) (map (\<lambda>kv. (fst kv, normal_value (snd kv))) kvs))"
| "normal_value (VData c fields) = VData c (map (\<lambda>f. (fst f, normal_value (snd f))) fields)"
| "normal_value VOther = VOther"
  by pat_completeness auto

termination normal_value
  by (relation "measure size") (simp_all add: size_pv_pair size_pv_field size_pv_element)

definition json_of :: "float_repr \<Rightarrow> pv \<Rightarrow> sjson" where
  "json_of rp v = (case encode_value rp v of Inr j \<Rightarrow> j | Inl e \<Rightarrow> SNull)"

lemma map_res_map: "map_res f (map g xs) = map_res (\<lambda>x. f (g x)) xs"
  by (induction xs) auto

lemma insort_key_map: "insort_key f (g x) (map g xs) = map g (insort_key (\<lambda>x. f (g x)) x xs)"
  by (induction xs) auto

lemma sort_key_map: "sort_key f (map g xs) = map g (sort_key (\<lambda>x. f (g x)) xs)"
  by (induction xs) (auto simp: insort_key_map)

lemma sort_key_cong: "(\<And>x. x \<in> set xs \<Longrightarrow> f x = g x) \<Longrightarrow> sort_key f xs = sort_key g xs"
proof (induction xs)
  case (Cons a xs)
  have "insort_key f a ys = insort_key g a ys" if "\<forall>x\<in>set ys. f x = g x" for ys
    using that Cons.prems by (induction ys) auto
  with Cons show ?case by simp
qed simp

lemma map_of_sort_key: "distinct (map fst xs) \<Longrightarrow> map_of (sort_key f xs) = map_of xs"
  by (rule map_of_inject_set [THEN iffD2]) (simp_all add: distinct_map)

lemma all_VStr: "list_all is_VStr xs \<longleftrightarrow> (\<exists>ss. xs = map VStr ss)"
  by (induction xs) (auto simp: is_VStr_iff Cons_eq_map_conv)

lemma flat_cases [consumes 1, case_names str tuple]:
  assumes "flat_value x"
  obtains s where "x = VStr s" | ss where "x = VTuple (map VStr ss)"
  using assms by (cases x) (auto simp: all_VStr)

lemma encode_flat: "flat_value x \<Longrightarrow> encode_value rp x = Inr (flat_json x)"
  by (auto elim!: flat_cases simp: map_res_map map_res_Inr [where h = SStr])

lemma sorted_flat: "flat_value x \<Longrightarrow> sorted_json (flat_json x) = flat_json x"
  by (auto elim!: flat_cases)

lemma text_flat: "flat_value x \<Longrightarrow> json_text rp (flat_json x) = json_text rp' (flat_json x)"
  by (auto elim!: flat_cases simp: comp_def)

lemma item_key_flat: "flat_value x \<Longrightarrow> canonical_json rp (flat_json x) = item_key x"
  using text_flat [of x rp "\<lambda>r. []"] by (simp add: item_key_def canonical_json_def sorted_flat)

lemma decode_flat: "flat_value x \<Longrightarrow> decode_value (flat_json x) = Inr x \<and> hashable x"
  by (auto elim!: flat_cases simp: map_res_map map_res_Inr [where h = VStr] list_all_iff)

lemma hash_eq_strings:
  "length ss = length ts \<Longrightarrow>
     list_all (\<lambda>p. hash_eq (fst p) (snd p)) (zip (map VStr ss) (map VStr ts)) \<longleftrightarrow> ss = ts"
  by (induction ss ts rule: list_induct2) auto

lemma hash_eq_flat: "flat_value x \<Longrightarrow> flat_value y \<Longrightarrow> hash_eq x y \<longleftrightarrow> x = y"
  by (auto elim!: flat_cases simp: hash_eq_strings)

text \<open>Building a set or a dictionary from items that are already distinct gives them back.\<close>

lemma build_set_distinct: "list_all flat_value xs \<Longrightarrow> distinct xs \<Longrightarrow> build_set xs = xs"
proof -
  have "fold add_element xs acc = acc @ xs" if "list_all flat_value (acc @ xs)" "distinct (acc @ xs)" for acc
    using that
  proof (induction xs arbitrary: acc)
    case (Cons x xs)
    then have "\<not> list_ex (hash_eq x) acc" by (auto simp: list_ex_iff list_all_iff hash_eq_flat)
    with Cons.IH [of "acc @ [x]"] Cons.prems show ?case by (simp add: add_element_def)
  qed simp
  from this [of "[]"] show "list_all flat_value xs \<Longrightarrow> distinct xs \<Longrightarrow> build_set xs = xs"
    by (simp add: build_set_def)
qed

lemma build_dict_distinct:
  "list_all is_VStr (map fst kvs) \<Longrightarrow> distinct (map fst kvs) \<Longrightarrow> build_dict kvs = kvs"
proof -
  have "fold add_item kvs acc = acc @ kvs"
    if "list_all is_VStr (map fst (acc @ kvs))" "distinct (map fst (acc @ kvs))" for acc
    using that
  proof (induction kvs arbitrary: acc)
    case (Cons x xs)
    then have "\<not> list_ex (\<lambda>e. hash_eq (fst x) (fst e)) acc"
      by (auto simp: list_ex_iff list_all_iff is_VStr_iff image_iff)
    with Cons.IH [of "acc @ [x]"] Cons.prems show ?case by (simp add: add_item_def)
  qed simp
  from this [of "[]"]
  show "list_all is_VStr (map fst kvs) \<Longrightarrow> distinct (map fst kvs) \<Longrightarrow> build_dict kvs = kvs"
    by (simp add: build_dict_def)
qed

lemma list_all_sort_key [simp]: "list_all P (sort_key f xs) = list_all P xs"
  by (simp add: list_all_iff)

lemma sorted_tagged [simp]:
  "sorted_json (SObj [(''$enum'', t), (''name'', n)]) = SObj [(''$enum'', sorted_json t), (''name'', sorted_json n)]"
  "sorted_json (SObj [(''$type'', t), (''fields'', n)]) = SObj [(''$type'', sorted_json t), (''fields'', sorted_json n)]"
  by simp_all

lemma map_of_keyed: "map_of (map (\<lambda>x. (key x, f x)) xs) k = (case find (\<lambda>x. key x = k) xs of None \<Rightarrow> None | Some x \<Rightarrow> Some (f x))"
  by (induction xs) auto

lemma table_item_pairs: "map_of table s = Some v \<Longrightarrow> table_item (map (\<lambda>e. (fst e, e)) table) (SStr s) = Inr (s, v)"
  by (induction table) (auto simp: table_item_def split: if_splits)

lemma table_item_names: "s \<in> set ns \<Longrightarrow> table_item (map (\<lambda>m. (m, f m)) ns) (SStr s) = Inr (f s)"
  by (induction ns) (auto simp: table_item_def)

lemma decode_enum_member:
  "map_of enum_types t = Some ns \<Longrightarrow> n \<in> set ns \<Longrightarrow>
     decode_enum (SStr t) [(''$enum'', SStr t), (''name'', SStr n)] = Inr (VEnum t n)"
  by (simp add: decode_enum_def table_item_pairs table_item_names getitem_def)

lemma bind_fields:
  assumes "map fst fields = map fst fs" and "\<forall>f\<in>set fields. map_of kwargs (fst f) = Some (snd f)"
  shows "map_res (bind_field kwargs) fs = Inr fields"
  using assms
proof (induction fs arbitrary: fields)
  case (Cons f fs)
  then obtain e es where "fields = e # es" "fst e = fst f" "map fst es = map fst fs" by (cases fields) auto
  with Cons show ?case by (cases f; cases e) (auto simp: bind_field_def)
qed simp

lemma construct_fields:
  assumes "map fst fields = map fst fs" and "distinct (map fst fs)"
    and "map_of kwargs = map_of fields" and "set (map fst kwargs) \<subseteq> set (map fst fs)"
    and "post_init c fields = Inr ()"
  shows "construct c fs kwargs = Inr (VData c fields)"
proof -
  have "distinct (map fst fields)" using assms(1,2) by simp
  then have "map_of kwargs (fst f) = Some (snd f)" if "f \<in> set fields" for f
    using that by (simp add: assms(3))
  then have "map_res (bind_field kwargs) fs = Inr fields" using assms(1) by (intro bind_fields) auto
  moreover have "list_all (\<lambda>kw. List.member (map fst fs) (fst kw)) kwargs"
    using assms(4) by (auto simp: list_all_iff)
  ultimately show ?thesis using assms(5) by (simp add: construct_def)
qed

lemma dataclass_names_distinct:
  assumes "map_of dataclass_types c = Some fs"
  shows "distinct (map fst fs)"
proof -
  have "\<forall>e\<in>set dataclass_types. distinct (map fst (snd e))"
    by (simp add: dataclass_types_def)
  from bspec [OF this map_of_SomeD [OF assms]] show ?thesis by simp
qed

text \<open>Bringing the fields into normal form does not change what \<open>__post_init__\<close> looks at.\<close>

lemma normal_None [simp]: "normal_value v = VNone \<longleftrightarrow> v = VNone"
  by (cases v) simp_all

lemma normal_nonempty [simp]: "nonempty_str (normal_value v) = nonempty_str v"
  by (cases v) simp_all

lemma field_of_normal:
  "field_of (map (\<lambda>f. (fst f, normal_value (snd f))) fields) n = normal_value (field_of fields n)"
proof -
  have "map_of (map (\<lambda>f. (fst f, normal_value (snd f))) fields) n = map_option normal_value (map_of fields n)"
    by (induction fields) auto
  then show ?thesis by (simp add: field_of_def split: option.splits)
qed

lemma post_init_normal:
  "post_init c (map (\<lambda>f. (fst f, normal_value (snd f))) fields) = post_init c fields"
  by (simp add: post_init_def field_of_normal Let_def)

lemma sort_key_rep: "sort_key f (map g xs) = map g (sort_key h xs)"
  if "\<And>x. x \<in> set xs \<Longrightarrow> f (g x) = h x"
  using that by (simp add: sort_key_map cong: sort_key_cong)

lemma encode_decode:
  assumes "serializable v"
  shows "encode_value rp v = Inr (json_of rp v) \<and>
    decode_value (sorted_json (json_of rp v)) = Inr (normal_value v)"
  using assms
proof (induction rp v rule: encode_value.induct)
  case (6 rp t n)
  then obtain ns where "map_of enum_types t = Some ns" "n \<in> set ns" by (auto split: option.splits)
  then show ?case by (simp add: json_of_def decode_enum_member)
next
  case (7 rp xs)
  let ?ys = "sort_key item_key xs"
  from 7 have flat: "list_all flat_value xs" and "distinct xs" by simp_all
  have "map_res (encode_value rp) xs = Inr (map flat_json xs)"
    by (rule map_res_Inr) (use flat in \<open>simp add: list_all_iff encode_flat\<close>)
  moreover have "sort_key (canonical_json rp) (map flat_json xs) = map flat_json ?ys"
    by (rule sort_key_rep) (use flat in \<open>simp add: list_all_iff item_key_flat\<close>)
  ultimately have enc: "encode_value rp (VFrozenset xs) = Inr (SObj [(''$frozenset'', SList (map flat_json ?ys))])"
    by simp
  have flat': "list_all flat_value ?ys" using flat by simp
  have "map_res (\<lambda>y. bind_res (decode_value (sorted_json (flat_json y))) hashed) ?ys = Inr (map (\<lambda>y. y) ?ys)"
    by (rule map_res_Inr) (use flat' in \<open>auto simp: list_all_iff decode_flat hashed_def sorted_flat\<close>)
  moreover have "build_set ?ys = ?ys" using flat' \<open>distinct xs\<close> by (simp add: build_set_distinct)
  ultimately show ?case using enc by (simp add: json_of_def comp_def map_res_map)
next
  case (8 rp xs)
  then have "map_res (encode_value rp) xs = Inr (map (json_of rp) xs)"
    and "map_res (\<lambda>x. decode_value (sorted_json (json_of rp x))) xs = Inr (map normal_value xs)"
    by (auto intro!: map_res_Inr simp: list_all_iff)
  then show ?case by (simp add: json_of_def [of rp "VTuple xs"] map_res_map)
next
  case (9 rp xs)
  then have "map_res (encode_value rp) xs = Inr (map (json_of rp) xs)"
    and "map_res (\<lambda>x. decode_value (sorted_json (json_of rp x))) xs = Inr (map normal_value xs)"
    by (auto intro!: map_res_Inr simp: list_all_iff)
  then show ?case by (simp add: json_of_def [of rp "VList xs"] map_res_map)
next
  case (10 rp kvs)
  let ?js = "map (\<lambda>kv. (flat_json (fst kv), json_of rp (snd kv)))"
  let ?ks = "sort_key (\<lambda>kv. item_key (fst kv)) kvs"
  have keys: "\<forall>kv\<in>set kvs. flat_value (fst kv)" using 10 by (auto simp: list_all_iff is_VStr_iff)
  have IH: "\<forall>kv\<in>set kvs. encode_value rp (snd kv) = Inr (json_of rp (snd kv)) \<and>
      decode_value (sorted_json (json_of rp (snd kv))) = Inr (normal_value (snd kv))"
    using "10.IH"(2) "10.prems" keys by (auto simp: list_all_iff encode_flat)
  have "map_res (\<lambda>kv. bind_res (encode_value rp (fst kv)) (\<lambda>k.
                      bind_res (encode_value rp (snd kv)) (\<lambda>v. Inr (k, v)))) kvs = Inr (?js kvs)"
    using IH keys by (intro map_res_Inr) (auto simp: encode_flat)
  moreover have "sort_key (\<lambda>e. canonical_json rp (fst e)) (?js kvs) = ?js ?ks"
    using keys by (intro sort_key_rep) (simp add: item_key_flat)
  ultimately have enc: "json_of rp (VDict kvs) =
      SObj [(''$dict'', SList (map (\<lambda>kv. SList [flat_json (fst kv), json_of rp (snd kv)]) ?ks))]"
    "encode_value rp (VDict kvs) = Inr (json_of rp (VDict kvs))"
    by (simp_all add: json_of_def comp_def case_prod_unfold)
  let ?n = "\<lambda>kv. (fst kv, normal_value (snd kv))"
  have dec: "map_res (\<lambda>kv.
      bind_res (unpack2 (SList [sorted_json (flat_json (fst kv)), sorted_json (json_of rp (snd kv))])) (\<lambda>p.
      bind_res (decode_value (fst p)) (\<lambda>k.
      bind_res (decode_value (snd p)) (\<lambda>x.
      bind_res (hashed k) (\<lambda>k. Inr (k, x)))))) ?ks = Inr (map ?n ?ks)"
    using IH keys by (intro map_res_Inr) (auto simp: unpack2_def sorted_flat decode_flat hashed_def)
  have sorted: "sort_key (\<lambda>kv. item_key (fst kv)) (map ?n kvs) = map ?n ?ks"
    by (rule sort_key_rep) simp
  have "distinct (map fst ?ks)" using 10 by (simp add: distinct_map)
  then have "build_dict (map ?n ?ks) = map ?n ?ks"
    using 10 by (intro build_dict_distinct) (auto simp: comp_def list_all_iff)
  with dec sorted enc show ?case by (simp add: comp_def map_res_map)
next
  case (11 rp c fields)
  then obtain fs where fs: "map_of dataclass_types c = Some fs" "map fst fields = map fst fs"
    and ser: "\<forall>f\<in>set fields. serializable (snd f)" and init: "post_init c fields = Inr ()"
    by (auto simp: list_all_iff split: option.splits)
  let ?js = "map (\<lambda>f. (fst f, json_of rp (snd f))) fields"
  let ?n = "map (\<lambda>f. (fst f, normal_value (snd f))) fields"
  have "map_res (\<lambda>f. bind_res (encode_value rp (snd f)) (\<lambda>v. Inr (fst f, v))) fields = Inr ?js"
    using 11 ser by (intro map_res_Inr) auto
  then have enc: "json_of rp (VData c fields) = SObj [(''$type'', SStr c), (''fields'', SObj ?js)]"
    "encode_value rp (VData c fields) = Inr (json_of rp (VData c fields))"
    by (simp_all add: json_of_def)
  let ?fields = "sort_key fst fields"
  have "sort_key fst (map (\<lambda>(k, v). (k, sorted_json v)) ?js) = map (\<lambda>f. (fst f, sorted_json (json_of rp (snd f)))) ?fields"
    unfolding map_map by (simp add: comp_def sort_key_map)
  then have srt: "sorted_json (SObj ?js) = SObj (map (\<lambda>f. (fst f, sorted_json (json_of rp (snd f)))) ?fields)" by simp
  let ?kw = "map (\<lambda>f. (fst f, normal_value (snd f))) ?fields"
  have dec: "map_res (\<lambda>f. bind_res (decode_value (sorted_json (json_of rp (snd f)))) (\<lambda>x. Inr (fst f, x))) ?fields = Inr ?kw"
    using 11 ser by (intro map_res_Inr) auto
  have kw: "?kw = sort_key fst ?n" by (simp add: sort_key_map)
  have dist: "distinct (map fst fs)" by (rule dataclass_names_distinct [OF fs(1)])
  then have "distinct (map fst ?n)" using fs(2) by (simp add: comp_def)
  then have "map_of ?kw = map_of ?n" unfolding kw by (rule map_of_sort_key)
  moreover have "set (map fst ?kw) = set (map fst fields)" by (simp add: image_image)
  then have "set (map fst ?kw) \<subseteq> set (map fst fs)" using fs(2) by simp
  ultimately have "construct c fs ?kw = Inr (VData c ?n)"
    using fs(2) dist init by (intro construct_fields) (simp_all add: comp_def post_init_normal)
  with dec enc srt fs(1) show ?case
    by (simp add: map_res_map table_item_pairs del: sorted_json.simps)
       (simp add: table_item_pairs map_res_map)
qed (simp_all add: json_of_def)

end
