(* ===== verification/Serial_Entities.thy ===== *)
theory Serial_Entities
  imports Serial_Values Core_State
begin

section \<open>The entities of the core as serializable values\<close>

text \<open>
  Every entity of the core as the instance of a dataclass that \<open>_encode\<close> sees, and back: the
  components of an instance that passed the validation of \<open>restore_core\<close>. The reading functions
  are total; on a value of another shape, which validation rejects, their result means nothing.
\<close>

subsection \<open>Members of enums\<close>

definition member_name :: "(string \<times> 'a) list \<Rightarrow> 'a \<Rightarrow> string" where
  "member_name table m = (case find (\<lambda>p. snd p = m) table of Some p \<Rightarrow> fst p | None \<Rightarrow> '''')"

definition member_of :: "(string \<times> 'a) list \<Rightarrow> pv \<Rightarrow> 'a" where
  "member_of table v =
     (case v of
        VEnum t n \<Rightarrow> (case map_of table n of Some m \<Rightarrow> m | None \<Rightarrow> snd (hd table))
      | _ \<Rightarrow> snd (hd table))"

definition program_statuses :: "(string \<times> ProgramStatus) list" where
  "program_statuses =
     [(''CREATED'', ProgramStatus.CREATED), (''RUNNING'', ProgramStatus.RUNNING),
      (''COMPLETED'', ProgramStatus.COMPLETED), (''FAILED'', ProgramStatus.FAILED),
      (''CANCELLED'', ProgramStatus.CANCELLED)]"

definition continuation_lifecycles :: "(string \<times> ContinuationLifecycle) list" where
  "continuation_lifecycles =
     [(''CREATED'', ContinuationLifecycle.CREATED), (''ACTIVE'', ContinuationLifecycle.ACTIVE),
      (''WAITING'', ContinuationLifecycle.WAITING), (''SPECULATIVE'', ContinuationLifecycle.SPECULATIVE),
      (''JOINING'', JOINING), (''TERMINAL'', ContinuationLifecycle.TERMINAL), (''ABANDONED'', ABANDONED)]"

definition request_statuses :: "(string \<times> RequestStatus) list" where
  "request_statuses =
     [(''CREATED'', RequestStatus.CREATED), (''READY'', READY), (''RUNNING'', RequestStatus.RUNNING),
      (''COMPLETED'', RequestStatus.COMPLETED), (''FAILED'', RequestStatus.FAILED),
      (''CANCELLED'', RequestStatus.CANCELLED)]"

definition execution_statuses :: "(string \<times> ExecutionStatus) list" where
  "execution_statuses =
     [(''CREATED'', ExecutionStatus.CREATED), (''DISPATCHED'', DISPATCHED),
      (''RUNNING'', ExecutionStatus.RUNNING), (''SUCCEEDED'', SUCCEEDED),
      (''FAILED'', ExecutionStatus.FAILED), (''CANCELLED'', ExecutionStatus.CANCELLED)]"

definition attempt_authorities :: "(string \<times> AttemptAuthority) list" where
  "attempt_authorities =
     [(''NONE'', AttemptAuthority.NONE), (''CURRENT'', AttemptAuthority.CURRENT),
      (''COMMITTED'', AttemptAuthority.COMMITTED), (''SUPERSEDED'', AttemptAuthority.SUPERSEDED)]"

definition phase_types :: "(string \<times> PhaseType) list" where
  "phase_types =
     [(''PREFILL'', PREFILL), (''DECODE'', DECODE), (''STATE_PULL'', STATE_PULL),
      (''STATE_TRANSFER'', STATE_TRANSFER), (''OTHER'', OTHER)]"

definition phase_statuses :: "(string \<times> PhaseStatus) list" where
  "phase_statuses =
     [(''CREATED'', PhaseStatus.CREATED), (''RUNNING'', PhaseStatus.RUNNING),
      (''COMPLETED'', PhaseStatus.COMPLETED), (''FAILED'', PhaseStatus.FAILED),
      (''CANCELLED'', PhaseStatus.CANCELLED)]"

definition state_lifecycles :: "(string \<times> StateLifecycle) list" where
  "state_lifecycles =
     [(''ACTIVE'', StateLifecycle.ACTIVE), (''WAITING'', StateLifecycle.WAITING),
      (''SPECULATIVE'', StateLifecycle.SPECULATIVE), (''TERMINAL'', StateLifecycle.TERMINAL)]"

definition state_validities :: "(string \<times> StateValidity) list" where
  "state_validities = [(''VALID'', StateValidity.VALID), (''INVALID'', StateValidity.INVALID)]"

definition replica_statuses :: "(string \<times> ReplicaStatus) list" where
  "replica_statuses =
     [(''MATERIALIZING'', MATERIALIZING), (''VALID'', ReplicaStatus.VALID), (''STALE'', ReplicaStatus.STALE),
      (''TRANSFERRING'', TRANSFERRING), (''EVICTING'', EVICTING), (''LOST'', LOST),
      (''INVALID'', ReplicaStatus.INVALID)]"

definition binding_statuses :: "(string \<times> BindingStatus) list" where
  "binding_statuses =
     [(''PROPOSED'', PROPOSED), (''ACTIVE'', BindingStatus.ACTIVE), (''MIGRATING'', MIGRATING),
      (''SUPERSEDED'', BindingStatus.SUPERSEDED), (''RELEASED'', RELEASED), (''INVALID'', BindingStatus.INVALID)]"

definition evidence_authorities :: "(string \<times> EvidenceAuthority) list" where
  "evidence_authorities =
     [(''ESTIMATED'', ESTIMATED), (''DERIVED'', DERIVED), (''EXACT_OBSERVATION'', EXACT_OBSERVATION),
      (''AUTHORITATIVE'', AUTHORITATIVE)]"

definition evidence_statuses :: "(string \<times> EvidenceStatus) list" where
  "evidence_statuses =
     [(''VALID'', EvidenceStatus.VALID), (''STALE'', EvidenceStatus.STALE), (''UNKNOWN'', UNKNOWN),
      (''FAILED'', EvidenceStatus.FAILED), (''AMBIGUOUS'', EvidenceStatus.AMBIGUOUS)]"

lemmas enum_tables = program_statuses_def continuation_lifecycles_def request_statuses_def
  execution_statuses_def attempt_authorities_def phase_types_def phase_statuses_def
  state_lifecycles_def state_validities_def replica_statuses_def binding_statuses_def
  evidence_authorities_def evidence_statuses_def

lemma member_names [simp]:
  "member_of program_statuses (VEnum t (member_name program_statuses a)) = a"
  "member_of continuation_lifecycles (VEnum t (member_name continuation_lifecycles b)) = b"
  "member_of request_statuses (VEnum t (member_name request_statuses c)) = c"
  "member_of execution_statuses (VEnum t (member_name execution_statuses d)) = d"
  "member_of attempt_authorities (VEnum t (member_name attempt_authorities e)) = e"
  "member_of phase_types (VEnum t (member_name phase_types f)) = f"
  "member_of phase_statuses (VEnum t (member_name phase_statuses g)) = g"
  "member_of state_lifecycles (VEnum t (member_name state_lifecycles h)) = h"
  "member_of state_validities (VEnum t (member_name state_validities i)) = i"
  "member_of replica_statuses (VEnum t (member_name replica_statuses j)) = j"
  "member_of binding_statuses (VEnum t (member_name binding_statuses k)) = k"
  "member_of evidence_authorities (VEnum t (member_name evidence_authorities l)) = l"
  "member_of evidence_statuses (VEnum t (member_name evidence_statuses m)) = m"
  by (cases a, simp_all add: member_of_def member_name_def enum_tables)
     (cases b, simp_all add: member_of_def member_name_def enum_tables,
      cases c, simp_all add: member_of_def member_name_def enum_tables,
      cases d, simp_all add: member_of_def member_name_def enum_tables,
      cases e, simp_all add: member_of_def member_name_def enum_tables,
      cases f, simp_all add: member_of_def member_name_def enum_tables,
      cases g, simp_all add: member_of_def member_name_def enum_tables,
      cases h, simp_all add: member_of_def member_name_def enum_tables,
      cases i, simp_all add: member_of_def member_name_def enum_tables,
      cases j, simp_all add: member_of_def member_name_def enum_tables,
      cases k, simp_all add: member_of_def member_name_def enum_tables,
      cases l, simp_all add: member_of_def member_name_def enum_tables,
      cases m, simp_all add: member_of_def member_name_def enum_tables)

subsection \<open>Components of values\<close>

definition str_of :: "pv \<Rightarrow> string" where
  "str_of v = (case v of VStr s \<Rightarrow> s | _ \<Rightarrow> '''')"

definition int_of :: "pv \<Rightarrow> int" where
  "int_of v = (case v of VInt i \<Rightarrow> i | _ \<Rightarrow> 0)"

definition bool_of :: "pv \<Rightarrow> bool" where
  "bool_of v = (case v of VBool b \<Rightarrow> b | _ \<Rightarrow> False)"

definition number_of :: "pv \<Rightarrow> rat" where
  "number_of v = (case v of VInt i \<Rightarrow> of_int i | VFloat r \<Rightarrow> r | _ \<Rightarrow> 0)"

definition option_of :: "(pv \<Rightarrow> 'a) \<Rightarrow> pv \<Rightarrow> 'a option" where
  "option_of f v = (if v = VNone then None else Some (f v))"

definition set_of :: "(pv \<Rightarrow> 'a) \<Rightarrow> pv \<Rightarrow> 'a list" where
  "set_of f v = (case v of VFrozenset xs \<Rightarrow> map f xs | _ \<Rightarrow> [])"

definition pair_of :: "pv \<Rightarrow> string \<times> string" where
  "pair_of v = (case v of VTuple [x, y] \<Rightarrow> (str_of x, str_of y) | _ \<Rightarrow> ('''', ''''))"

definition option_value :: "('a \<Rightarrow> pv) \<Rightarrow> 'a option \<Rightarrow> pv" where
  "option_value f x = (case x of None \<Rightarrow> VNone | Some y \<Rightarrow> f y)"

definition pair_pv :: "string \<times> string \<Rightarrow> pv" where
  "pair_pv p = VTuple [VStr (fst p), VStr (snd p)]"

text \<open>A list that stands for a frozenset is the frozenset of its elements.\<close>

definition set_value :: "('a \<Rightarrow> pv) \<Rightarrow> 'a list \<Rightarrow> pv" where
  "set_value f xs = VFrozenset (map f (remdups xs))"

definition enum_value :: "string \<Rightarrow> (string \<times> 'a) list \<Rightarrow> 'a \<Rightarrow> pv" where
  "enum_value t table m = VEnum t (member_name table m)"

subsection \<open>Entities as instances of their dataclasses\<close>

definition program_fields :: "Program \<Rightarrow> (string \<times> pv) list" where
  "program_fields p =
     [(''id'', VStr (prog_id p)), (''status'', enum_value ''ProgramStatus'' program_statuses (prog_status p))]"

definition session_fields :: "Session \<Rightarrow> (string \<times> pv) list" where
  "session_fields s = [(''id'', VStr (sess_id s)), (''program_id'', VStr (sess_program_id s))]"

definition continuation_fields :: "Continuation \<Rightarrow> (string \<times> pv) list" where
  "continuation_fields c =
     [(''id'', VStr (cont_id c)), (''session_id'', VStr (cont_session_id c)),
      (''parent_ids'', set_value VStr (cont_parent_ids c)),
      (''lifecycle'', enum_value ''ContinuationLifecycle'' continuation_lifecycles (cont_lifecycle c))]"

definition request_fields :: "LogicalRequest \<Rightarrow> (string \<times> pv) list" where
  "request_fields r =
     [(''id'', VStr (req_id r)), (''continuation_id'', VStr (req_continuation_id r)),
      (''status'', enum_value ''RequestStatus'' request_statuses (req_status r)),
      (''current_attempt_id'', option_value VStr (req_current_attempt_id r)),
      (''committed_attempt_id'', option_value VStr (req_committed_attempt_id r)),
      (''authoritative_output_id'', option_value VStr (req_authoritative_output_id r))]"

definition attempt_fields :: "Attempt \<Rightarrow> (string \<times> pv) list" where
  "attempt_fields a =
     [(''id'', VStr (att_id a)), (''request_id'', VStr (att_request_id a)),
      (''generation'', VInt (att_generation a)),
      (''execution_status'', enum_value ''ExecutionStatus'' execution_statuses (att_execution_status a)),
      (''authority_status'', enum_value ''AttemptAuthority'' attempt_authorities (att_authority_status a))]"

definition phase_fields :: "Phase \<Rightarrow> (string \<times> pv) list" where
  "phase_fields p =
     [(''id'', VStr (ph_id p)), (''attempt_id'', VStr (ph_attempt_id p)), (''ordinal'', VInt (ph_ordinal p)),
      (''phase_type'', enum_value ''PhaseType'' phase_types (ph_type p)),
      (''status'', enum_value ''PhaseStatus'' phase_statuses (ph_status p))]"

definition state_fields :: "ReusableState \<Rightarrow> (string \<times> pv) list" where
  "state_fields x =
     [(''id'', VStr (st_id x)), (''origin_type'', VStr (st_origin_type x)), (''origin_id'', VStr (st_origin_id x)),
      (''origin_continuation_id'', VStr (st_origin_continuation_id x)),
      (''origin_request_id'', option_value VStr (st_origin_request_id x)),
      (''producer_attempt_id'', option_value VStr (st_producer_attempt_id x)),
      (''semantic_type'', VStr (st_semantic_type x)), (''representation'', VStr (st_representation x)),
      (''lifecycle'', enum_value ''StateLifecycle'' state_lifecycles (st_lifecycle x)),
      (''validity'', enum_value ''StateValidity'' state_validities (st_validity x)),
      (''derived_from'', set_value VStr (st_derived_from x)),
      (''producer_phase_id'', option_value VStr (st_producer_phase_id x))]"

definition replica_fields :: "StateReplica \<Rightarrow> (string \<times> pv) list" where
  "replica_fields r =
     [(''id'', VStr (rep_id r)), (''state_id'', VStr (rep_state_id r)), (''location_id'', VStr (rep_location_id r)),
      (''status'', enum_value ''ReplicaStatus'' replica_statuses (rep_status r)),
      (''binding_id'', option_value VStr (rep_binding_id r)),
      (''binding_epoch'', option_value VInt (rep_binding_epoch r))]"

definition binding_fields :: "Binding \<Rightarrow> (string \<times> pv) list" where
  "binding_fields b =
     [(''id'', VStr (bnd_id b)), (''subject_id'', VStr (bnd_subject_id b)),
      (''location_id'', VStr (bnd_location_id b)), (''base_epoch'', VInt (bnd_base_epoch b)),
      (''epoch'', VInt (bnd_epoch b)),
      (''status'', enum_value ''BindingStatus'' binding_statuses (bnd_status b))]"

definition evidence_fields :: "Evidence \<Rightarrow> (string \<times> pv) list" where
  "evidence_fields e =
     [(''id'', VStr (ev_id e)), (''claim'', VStr (ev_claim e)), (''source'', VStr (ev_source e)),
      (''authority'', enum_value ''EvidenceAuthority'' evidence_authorities (ev_authority e)),
      (''status'', enum_value ''EvidenceStatus'' evidence_statuses (ev_status e)),
      (''observed_at'', VFloat (ev_observed_at e)), (''scope'', set_value pair_pv (ev_scope e)),
      (''valid_until'', option_value VFloat (ev_valid_until e)),
      (''confidence'', option_value VFloat (ev_confidence e)),
      (''derived_from'', set_value VStr (ev_derived_from e)),
      (''derivation_rule'', option_value VStr (ev_derivation_rule e)),
      (''claim_key'', option_value VStr (ev_claim_key e)),
      (''claim_value'', option_value VStr (ev_claim_value e))]"

definition output_fields :: "Output \<Rightarrow> (string \<times> pv) list" where
  "output_fields out =
     [(''id'', VStr (out_id out)), (''attempt_id'', VStr (out_attempt_id out)),
      (''terminal'', VBool (out_terminal out)), (''evidence_ids'', set_value VStr (out_evidence_ids out))]"

definition event_fields :: "SemanticEvent \<Rightarrow> (string \<times> pv) list" where
  "event_fields e =
     [(''id'', VStr (sev_id e)), (''kind'', VStr (sev_kind e)), (''subject_type'', VStr (sev_subject_type e)),
      (''subject_id'', VStr (sev_subject_id e)), (''payload'', set_value pair_pv (sev_payload e))]"

subsection \<open>Entities from validated instances\<close>

definition program_of :: "(string \<times> pv) list \<Rightarrow> Program" where
  "program_of fs =
     \<lparr>prog_id = str_of (field_of fs ''id''), prog_status = member_of program_statuses (field_of fs ''status'')\<rparr>"

definition session_of :: "(string \<times> pv) list \<Rightarrow> Session" where
  "session_of fs = \<lparr>sess_id = str_of (field_of fs ''id''), sess_program_id = str_of (field_of fs ''program_id'')\<rparr>"

definition continuation_of :: "(string \<times> pv) list \<Rightarrow> Continuation" where
  "continuation_of fs =
     \<lparr>cont_id = str_of (field_of fs ''id''), cont_session_id = str_of (field_of fs ''session_id''),
      cont_parent_ids = set_of str_of (field_of fs ''parent_ids''),
      cont_lifecycle = member_of continuation_lifecycles (field_of fs ''lifecycle'')\<rparr>"

definition request_of :: "(string \<times> pv) list \<Rightarrow> LogicalRequest" where
  "request_of fs =
     \<lparr>req_id = str_of (field_of fs ''id''), req_continuation_id = str_of (field_of fs ''continuation_id''),
      req_status = member_of request_statuses (field_of fs ''status''),
      req_current_attempt_id = option_of str_of (field_of fs ''current_attempt_id''),
      req_committed_attempt_id = option_of str_of (field_of fs ''committed_attempt_id''),
      req_authoritative_output_id = option_of str_of (field_of fs ''authoritative_output_id'')\<rparr>"

definition attempt_of :: "(string \<times> pv) list \<Rightarrow> Attempt" where
  "attempt_of fs =
     \<lparr>att_id = str_of (field_of fs ''id''), att_request_id = str_of (field_of fs ''request_id''),
      att_generation = int_of (field_of fs ''generation''),
      att_execution_status = member_of execution_statuses (field_of fs ''execution_status''),
      att_authority_status = member_of attempt_authorities (field_of fs ''authority_status'')\<rparr>"

definition phase_of :: "(string \<times> pv) list \<Rightarrow> Phase" where
  "phase_of fs =
     \<lparr>ph_id = str_of (field_of fs ''id''), ph_attempt_id = str_of (field_of fs ''attempt_id''),
      ph_ordinal = int_of (field_of fs ''ordinal''), ph_type = member_of phase_types (field_of fs ''phase_type''),
      ph_status = member_of phase_statuses (field_of fs ''status'')\<rparr>"

definition state_of :: "(string \<times> pv) list \<Rightarrow> ReusableState" where
  "state_of fs =
     \<lparr>st_id = str_of (field_of fs ''id''), st_origin_type = str_of (field_of fs ''origin_type''),
      st_origin_id = str_of (field_of fs ''origin_id''),
      st_origin_continuation_id = str_of (field_of fs ''origin_continuation_id''),
      st_origin_request_id = option_of str_of (field_of fs ''origin_request_id''),
      st_producer_attempt_id = option_of str_of (field_of fs ''producer_attempt_id''),
      st_semantic_type = str_of (field_of fs ''semantic_type''),
      st_representation = str_of (field_of fs ''representation''),
      st_lifecycle = member_of state_lifecycles (field_of fs ''lifecycle''),
      st_validity = member_of state_validities (field_of fs ''validity''),
      st_derived_from = set_of str_of (field_of fs ''derived_from''),
      st_producer_phase_id = option_of str_of (field_of fs ''producer_phase_id'')\<rparr>"

definition replica_of :: "(string \<times> pv) list \<Rightarrow> StateReplica" where
  "replica_of fs =
     \<lparr>rep_id = str_of (field_of fs ''id''), rep_state_id = str_of (field_of fs ''state_id''),
      rep_location_id = str_of (field_of fs ''location_id''),
      rep_status = member_of replica_statuses (field_of fs ''status''),
      rep_binding_id = option_of str_of (field_of fs ''binding_id''),
      rep_binding_epoch = option_of int_of (field_of fs ''binding_epoch'')\<rparr>"

definition binding_of :: "(string \<times> pv) list \<Rightarrow> Binding" where
  "binding_of fs =
     \<lparr>bnd_id = str_of (field_of fs ''id''), bnd_subject_id = str_of (field_of fs ''subject_id''),
      bnd_location_id = str_of (field_of fs ''location_id''), bnd_base_epoch = int_of (field_of fs ''base_epoch''),
      bnd_epoch = int_of (field_of fs ''epoch''), bnd_status = member_of binding_statuses (field_of fs ''status'')\<rparr>"

definition evidence_of :: "(string \<times> pv) list \<Rightarrow> Evidence" where
  "evidence_of fs =
     \<lparr>ev_id = str_of (field_of fs ''id''), ev_claim = str_of (field_of fs ''claim''),
      ev_source = str_of (field_of fs ''source''),
      ev_authority = member_of evidence_authorities (field_of fs ''authority''),
      ev_status = member_of evidence_statuses (field_of fs ''status''),
      ev_observed_at = number_of (field_of fs ''observed_at''),
      ev_scope = set_of pair_of (field_of fs ''scope''),
      ev_valid_until = option_of number_of (field_of fs ''valid_until''),
      ev_confidence = option_of number_of (field_of fs ''confidence''),
      ev_derived_from = set_of str_of (field_of fs ''derived_from''),
      ev_derivation_rule = option_of str_of (field_of fs ''derivation_rule''),
      ev_claim_key = option_of str_of (field_of fs ''claim_key''),
      ev_claim_value = option_of str_of (field_of fs ''claim_value'')\<rparr>"

definition output_of :: "(string \<times> pv) list \<Rightarrow> Output" where
  "output_of fs =
     \<lparr>out_id = str_of (field_of fs ''id''), out_attempt_id = str_of (field_of fs ''attempt_id''),
      out_terminal = bool_of (field_of fs ''terminal''),
      out_evidence_ids = set_of str_of (field_of fs ''evidence_ids'')\<rparr>"

definition event_of :: "(string \<times> pv) list \<Rightarrow> SemanticEvent" where
  "event_of fs =
     \<lparr>sev_id = str_of (field_of fs ''id''), sev_kind = str_of (field_of fs ''kind''),
      sev_subject_type = str_of (field_of fs ''subject_type''),
      sev_subject_id = str_of (field_of fs ''subject_id''),
      sev_payload = set_of pair_of (field_of fs ''payload'')\<rparr>"

subsection \<open>Validation of an instance\<close>

text \<open>\<open>_validate_entity\<close>: the class, and the runtime type of every field.\<close>

definition validate_fields :: "class_field list \<Rightarrow> (string \<times> pv) list \<Rightarrow> unit res" where
  "validate_fields cls fs =
     for_each cls (\<lambda>(n, a, _). raise_if (\<not> matches_annotation a (field_of fs n)) ValueError)"

definition validate_entity :: "string \<Rightarrow> pv \<Rightarrow> unit res" where
  "validate_entity c v =
     (case v of
        VData d fs \<Rightarrow>
          (if d \<noteq> c then Inl ValueError
           else bind_res (getitem dataclass_types c) (\<lambda>cls. validate_fields cls fs))
      | _ \<Rightarrow> Inl ValueError)"

subsection \<open>The instances the core holds are serializable and valid\<close>

definition sorted_set :: "('a \<Rightarrow> pv) \<Rightarrow> 'a list \<Rightarrow> 'a list" where
  "sorted_set f xs = sort_key (\<lambda>x. item_key (f x)) (remdups xs)"

lemma set_sorted_set [simp]: "set (sorted_set f xs) = set xs"
  by (simp add: sorted_set_def)

definition normal_fields :: "(string \<times> pv) list \<Rightarrow> (string \<times> pv) list" where
  "normal_fields fs = map (\<lambda>f. (fst f, normal_value (snd f))) fs"

lemma field_normal [simp]: "field_of (normal_fields fs) n = normal_value (field_of fs n)"
  by (simp add: normal_fields_def field_of_normal)

lemma field_of_Cons [simp]:
  "field_of ((m, v) # fs) n = (if n = m then v else field_of fs n)"
  by (simp add: field_of_def)

lemma component_simps [simp]:
  "str_of (VStr s) = s" "int_of (VInt i) = i" "bool_of (VBool b) = b" "number_of (VFloat r) = r"
  "pair_of (pair_pv p) = p"
  by (simp_all add: str_of_def int_of_def bool_of_def number_of_def pair_of_def pair_pv_def)

lemma option_components [simp]:
  "option_of str_of (normal_value (option_value VStr x)) = x"
  "option_of int_of (normal_value (option_value VInt i)) = i"
  "option_of number_of (normal_value (option_value VFloat r)) = r"
  by (cases x; cases i; cases r; simp add: option_of_def option_value_def)+

lemma normal_enum [simp]: "normal_value (enum_value t table m) = VEnum t (member_name table m)"
  by (simp add: enum_value_def)

lemma normal_set: "normal_value (set_value f xs) = VFrozenset (map f (sorted_set f xs))"
  by (simp add: set_value_def sorted_set_def sort_key_map)

lemma set_components [simp]:
  "set_of str_of (normal_value (set_value VStr xs)) = sorted_set VStr xs"
  "set_of pair_of (normal_value (set_value pair_pv ps)) = sorted_set pair_pv ps"
  by (simp_all add: set_of_def normal_set comp_def)

lemmas entity_fields = program_fields_def session_fields_def continuation_fields_def request_fields_def
  attempt_fields_def phase_fields_def state_fields_def replica_fields_def binding_fields_def
  evidence_fields_def output_fields_def event_fields_def

text \<open>Reading an encoded entity back gives the entity, with its sets in canonical order.\<close>

lemma entities_read_back [simp]:
  "program_of (normal_fields (program_fields p)) = p"
  "session_of (normal_fields (session_fields s)) = s"
  "continuation_of (normal_fields (continuation_fields c)) =
     c\<lparr>cont_parent_ids := sorted_set VStr (cont_parent_ids c)\<rparr>"
  "request_of (normal_fields (request_fields r)) = r"
  "attempt_of (normal_fields (attempt_fields a)) = a"
  "phase_of (normal_fields (phase_fields ph)) = ph"
  "state_of (normal_fields (state_fields x)) = x\<lparr>st_derived_from := sorted_set VStr (st_derived_from x)\<rparr>"
  "replica_of (normal_fields (replica_fields rp)) = rp"
  "binding_of (normal_fields (binding_fields b)) = b"
  "evidence_of (normal_fields (evidence_fields e)) =
     e\<lparr>ev_scope := sorted_set pair_pv (ev_scope e), ev_derived_from := sorted_set VStr (ev_derived_from e)\<rparr>"
  "output_of (normal_fields (output_fields out)) =
     out\<lparr>out_evidence_ids := sorted_set VStr (out_evidence_ids out)\<rparr>"
  "event_of (normal_fields (event_fields ev)) = ev\<lparr>sev_payload := sorted_set pair_pv (sev_payload ev)\<rparr>"
  by (simp_all add: entity_fields program_of_def session_of_def continuation_of_def request_of_def
        attempt_of_def phase_of_def state_of_def replica_of_def binding_of_def evidence_of_def output_of_def event_of_def)

lemma serializable_set [simp]: "serializable (set_value VStr xs)" "serializable (set_value pair_pv ps)"
  by (auto simp: set_value_def list_all_iff distinct_map inj_on_def pair_pv_def)

lemma serializable_option [simp]:
  "serializable (option_value VStr x)" "serializable (option_value VInt i)" "serializable (option_value VFloat r)"
  by (cases x; cases i; cases r; simp add: option_value_def)+

lemma enum_member:
  assumes "map_of enum_types t = Some (map fst table)" and "\<exists>n. (n, m) \<in> set table"
  shows "serializable (enum_value t table m)"
proof -
  from assms(2) obtain p where "find (\<lambda>p. snd p = m) table = Some p"
    by (metis (mono_tags, lifting) find_None_iff not_None_eq snd_conv)
  moreover from this have "p \<in> set table" by (auto simp: find_Some_iff)
  ultimately have "member_name table m \<in> set (map fst table)" by (simp add: member_name_def)
  with assms(1) show ?thesis by (simp add: enum_value_def)
qed

lemma serializable_enum [simp]:
  "serializable (enum_value ''ProgramStatus'' program_statuses a)"
  "serializable (enum_value ''ContinuationLifecycle'' continuation_lifecycles b)"
  "serializable (enum_value ''RequestStatus'' request_statuses c)"
  "serializable (enum_value ''ExecutionStatus'' execution_statuses d)"
  "serializable (enum_value ''AttemptAuthority'' attempt_authorities e)"
  "serializable (enum_value ''PhaseType'' phase_types f)"
  "serializable (enum_value ''PhaseStatus'' phase_statuses g)"
  "serializable (enum_value ''StateLifecycle'' state_lifecycles h)"
  "serializable (enum_value ''StateValidity'' state_validities i)"
  "serializable (enum_value ''ReplicaStatus'' replica_statuses j)"
  "serializable (enum_value ''BindingStatus'' binding_statuses k)"
  "serializable (enum_value ''EvidenceAuthority'' evidence_authorities l)"
  "serializable (enum_value ''EvidenceStatus'' evidence_statuses m)"
  by (rule enum_member, simp add: enum_types_def enum_tables, cases a, simp_all add: enum_tables)
     (rule enum_member, simp add: enum_types_def enum_tables, cases b, simp_all add: enum_tables,
      rule enum_member, simp add: enum_types_def enum_tables, cases c, simp_all add: enum_tables,
      rule enum_member, simp add: enum_types_def enum_tables, cases d, simp_all add: enum_tables,
      rule enum_member, simp add: enum_types_def enum_tables, cases e, simp_all add: enum_tables,
      rule enum_member, simp add: enum_types_def enum_tables, cases f, simp_all add: enum_tables,
      rule enum_member, simp add: enum_types_def enum_tables, cases g, simp_all add: enum_tables,
      rule enum_member, simp add: enum_types_def enum_tables, cases h, simp_all add: enum_tables,
      rule enum_member, simp add: enum_types_def enum_tables, cases i, simp_all add: enum_tables,
      rule enum_member, simp add: enum_types_def enum_tables, cases j, simp_all add: enum_tables,
      rule enum_member, simp add: enum_types_def enum_tables, cases k, simp_all add: enum_tables,
      rule enum_member, simp add: enum_types_def enum_tables, cases l, simp_all add: enum_tables,
      rule enum_member, simp add: enum_types_def enum_tables, cases m, simp_all add: enum_tables)

lemma serializable_data:
  assumes "map_of dataclass_types c = Some cls" and "map fst fs = map fst cls"
    and "list_all (\<lambda>f. serializable (snd f)) fs" and "post_init c fs = Inr ()"
  shows "serializable (VData c fs)"
  using assms by simp

lemma post_init_other [simp]: "c \<noteq> ''Evidence'' \<Longrightarrow> post_init c fs = Inr ()"
  by (simp add: post_init_def Let_def)

lemma option_value_None [simp]: "option_value f x = VNone \<longleftrightarrow> x = None" if "\<And>y. f y \<noteq> VNone"
  using that by (cases x) (simp_all add: option_value_def)

lemma nonempty_option [simp]: "nonempty_str (option_value VStr x) = truthy x"
  by (cases x) (simp_all add: option_value_def)

lemma post_init_evidence: "post_init ''Evidence'' (evidence_fields e) = Inr () \<longleftrightarrow> evidence_post_init e = Inr e"
  by (auto simp: post_init_def evidence_post_init_def evidence_fields_def Let_def raise_if_def)

lemma entities_serializable:
  "serializable (VData ''Program'' (program_fields p))"
  "serializable (VData ''Session'' (session_fields s))"
  "serializable (VData ''Continuation'' (continuation_fields c))"
  "serializable (VData ''LogicalRequest'' (request_fields r))"
  "serializable (VData ''Attempt'' (attempt_fields a))"
  "serializable (VData ''Phase'' (phase_fields ph))"
  "serializable (VData ''ReusableState'' (state_fields x))"
  "serializable (VData ''StateReplica'' (replica_fields rp))"
  "serializable (VData ''Binding'' (binding_fields b))"
  "evidence_post_init e = Inr e \<Longrightarrow> serializable (VData ''Evidence'' (evidence_fields e))"
  "serializable (VData ''Output'' (output_fields out))"
  "serializable (VData ''SemanticEvent'' (event_fields ev))"
  by (rule serializable_data, simp add: dataclass_types_def, simp add: entity_fields,
      simp add: entity_fields, simp add: post_init_evidence)+

lemma valid_set [simp]:
  "list_all (matches_annotation AnStr) (map VStr xs)"
  "matches_annotation string_pairs (normal_value (set_value pair_pv ps))"
  by (simp_all add: normal_set list_all_iff pair_pv_def string_pairs_def)

lemma valid_option [simp]:
  "matches_annotation (optional AnStr) (normal_value (option_value VStr x))"
  "matches_annotation (optional AnInt) (normal_value (option_value VInt i))"
  "matches_annotation (optional AnFloat) (normal_value (option_value VFloat r))"
  by (cases x; cases i; cases r; simp add: option_value_def optional_def)+

lemma validate_data:
  assumes "map_of dataclass_types c = Some cls"
    and "list_all (\<lambda>(n, a, _). matches_annotation a (field_of fs n)) cls"
  shows "validate_entity c (VData c fs) = Inr ()"
  using assms by (auto simp: validate_entity_def validate_fields_def bind_res_Inr for_each_Inr list_all_iff)

lemma entities_valid:
  "validate_entity ''Program'' (VData ''Program'' (normal_fields (program_fields p))) = Inr ()"
  "validate_entity ''Session'' (VData ''Session'' (normal_fields (session_fields s))) = Inr ()"
  "validate_entity ''Continuation'' (VData ''Continuation'' (normal_fields (continuation_fields c))) = Inr ()"
  "validate_entity ''LogicalRequest'' (VData ''LogicalRequest'' (normal_fields (request_fields r))) = Inr ()"
  "validate_entity ''Attempt'' (VData ''Attempt'' (normal_fields (attempt_fields a))) = Inr ()"
  "validate_entity ''Phase'' (VData ''Phase'' (normal_fields (phase_fields ph))) = Inr ()"
  "validate_entity ''ReusableState'' (VData ''ReusableState'' (normal_fields (state_fields x))) = Inr ()"
  "validate_entity ''StateReplica'' (VData ''StateReplica'' (normal_fields (replica_fields rp))) = Inr ()"
  "validate_entity ''Binding'' (VData ''Binding'' (normal_fields (binding_fields b))) = Inr ()"
  "validate_entity ''Evidence'' (VData ''Evidence'' (normal_fields (evidence_fields e))) = Inr ()"
  "validate_entity ''Output'' (VData ''Output'' (normal_fields (output_fields out))) = Inr ()"
  "validate_entity ''SemanticEvent'' (VData ''SemanticEvent'' (normal_fields (event_fields ev))) = Inr ()"
  by (rule validate_data, simp add: dataclass_types_def,
      simp add: entity_fields normal_set [of VStr])+

end
