(* ===== verification/Serial_Snapshot.thy ===== *)
theory Serial_Snapshot
  imports Serial_Entities Oracle
begin

section \<open>Snapshots of the core\<close>

text \<open>
  \<open>snapshot_core\<close>, \<open>restore_core\<close> and \<open>snapshot_fingerprint\<close> of \<open>continuity/serialization.py\<close>. A
  snapshot is the canonical JSON of the sixteen attributes of the core. Restoring takes the parsed
  document: \<open>sorted_json\<close> of what was written is what a JSON parser reads back, the items of every
  object in the order of their keys. The document is rejected unless it has exactly the known
  attributes, every entity has its runtime types and sits under its own identifier, no identifier is
  used twice, and the oracle accepts the core. The SHA-256 digest is the argument \<open>sha\<close>.
\<close>

definition snapshot_schema :: string where
  "snapshot_schema = ''cadi.core.snapshot.v1''"

definition entity_dict :: "string \<Rightarrow> ('v \<Rightarrow> (string \<times> pv) list) \<Rightarrow> 'v dict \<Rightarrow> pv" where
  "entity_dict c f d = VDict (map (\<lambda>kx. (VStr (fst kx), VData c (f (snd kx)))) d)"

definition plain_dict :: "('v \<Rightarrow> pv) \<Rightarrow> 'v dict \<Rightarrow> pv" where
  "plain_dict f d = VDict (map (\<lambda>kx. (VStr (fst kx), f (snd kx))) d)"

text \<open>\<open>getattr(core, name)\<close> for the names of \<open>_CORE_FIELDS\<close>.\<close>

definition core_attributes :: "core \<Rightarrow> (string \<times> pv) list" where
  "core_attributes g =
     [(''programs'', entity_dict ''Program'' program_fields (programs g)),
      (''sessions'', entity_dict ''Session'' session_fields (sessions g)),
      (''continuations'', entity_dict ''Continuation'' continuation_fields (continuations g)),
      (''requests'', entity_dict ''LogicalRequest'' request_fields (requests g)),
      (''attempts'', entity_dict ''Attempt'' attempt_fields (attempts g)),
      (''phases'', entity_dict ''Phase'' phase_fields (phases g)),
      (''states'', entity_dict ''ReusableState'' state_fields (states g)),
      (''replicas'', entity_dict ''StateReplica'' replica_fields (replicas g)),
      (''bindings'', entity_dict ''Binding'' binding_fields (bindings g)),
      (''evidence'', entity_dict ''Evidence'' evidence_fields (evidence g)),
      (''outputs'', entity_dict ''Output'' output_fields (outputs g)),
      (''events'', entity_dict ''SemanticEvent'' event_fields (events g)),
      (''event_order'', VList (map VStr (event_order g))),
      (''current_binding_by_subject'', plain_dict VStr (current_binding_by_subject g)),
      (''current_epoch_by_subject'', plain_dict VInt (current_epoch_by_subject g)),
      (''last_allocated_epoch_by_subject'', plain_dict VInt (last_allocated_epoch_by_subject g))]"

definition core_field_names :: "string list" where
  "core_field_names = map fst (core_attributes empty_core)"

definition encode_items :: "float_repr \<Rightarrow> (string \<times> pv) list \<Rightarrow> (string \<times> sjson) list res" where
  "encode_items rp items = map_res (\<lambda>f. bind_res (encode_value rp (snd f)) (\<lambda>j. Inr (fst f, j))) items"

definition snapshot_payload :: "float_repr \<Rightarrow> core \<Rightarrow> sjson res" where
  "snapshot_payload rp g =
     bind_res (encode_items rp (core_attributes g)) (\<lambda>state.
     Inr (SObj [(''schema'', SStr snapshot_schema), (''state'', SObj state)]))"

definition snapshot_core :: "float_repr \<Rightarrow> core \<Rightarrow> string res" where
  "snapshot_core rp g = bind_res (snapshot_payload rp g) (\<lambda>p. Inr (canonical_json rp p))"

definition snapshot_fingerprint :: "float_repr \<Rightarrow> (string \<Rightarrow> string) \<Rightarrow> core \<Rightarrow> string res" where
  "snapshot_fingerprint rp sha g = bind_res (snapshot_core rp g) (\<lambda>t. Inr (sha t))"

subsection \<open>Validation of the decoded attributes\<close>

definition collection_types :: "(string \<times> string) list" where
  "collection_types =
     [(''programs'', ''Program''), (''sessions'', ''Session''), (''continuations'', ''Continuation''),
      (''requests'', ''LogicalRequest''), (''attempts'', ''Attempt''), (''phases'', ''Phase''),
      (''states'', ''ReusableState''), (''replicas'', ''StateReplica''), (''bindings'', ''Binding''),
      (''evidence'', ''Evidence''), (''outputs'', ''Output''), (''events'', ''SemanticEvent'')]"

definition entity_components :: "pv \<Rightarrow> (string \<times> pv) list" where
  "entity_components v = (case v of VData c fs \<Rightarrow> fs | _ \<Rightarrow> [])"

fun validate_items :: "string \<Rightarrow> string list \<Rightarrow> (pv \<times> pv) list \<Rightarrow> string list res" where
  "validate_items c seen [] = Inr seen"
| "validate_items c seen ((key, entity) # rest) =
     bind_res (raise_if (\<not> is_VStr key) ValueError) (\<lambda>_.
     bind_res (validate_entity c entity) (\<lambda>_.
     bind_res (raise_if (field_of (entity_components entity) ''id'' \<noteq> key) ValueError) (\<lambda>_.
     bind_res (raise_if (List.member seen (str_of key)) ValueError) (\<lambda>_.
     validate_items c (str_of key # seen) rest))))"

fun validate_collections :: "string list \<Rightarrow> (string \<times> string) list \<Rightarrow> (string \<times> pv) list \<Rightarrow> unit res" where
  "validate_collections seen [] st = Inr ()"
| "validate_collections seen ((name, c) # rest) st =
     bind_res (getitem st name) (\<lambda>collection.
     case collection of
       VDict items \<Rightarrow> bind_res (validate_items c seen items) (\<lambda>seen'. validate_collections seen' rest st)
     | _ \<Rightarrow> Inl ValueError)"

definition dict_matches :: "(pv \<Rightarrow> bool) \<Rightarrow> pv \<Rightarrow> bool" where
  "dict_matches ok v = (case v of VDict items \<Rightarrow> list_all (\<lambda>e. is_VStr (fst e) \<and> ok (snd e)) items | _ \<Rightarrow> False)"

definition list_matches :: "(pv \<Rightarrow> bool) \<Rightarrow> pv \<Rightarrow> bool" where
  "list_matches ok v = (case v of VList xs \<Rightarrow> list_all ok xs | _ \<Rightarrow> False)"

definition validate_decoded_state :: "(string \<times> pv) list \<Rightarrow> unit res" where
  "validate_decoded_state st =
     bind_res (validate_collections [] collection_types st) (\<lambda>_.
     bind_res (getitem st ''event_order'') (\<lambda>v.
     bind_res (raise_if (\<not> list_matches is_VStr v) ValueError) (\<lambda>_.
     bind_res (getitem st ''current_binding_by_subject'') (\<lambda>v.
     bind_res (raise_if (\<not> dict_matches is_VStr v) ValueError) (\<lambda>_.
     for_each [''current_epoch_by_subject'', ''last_allocated_epoch_by_subject''] (\<lambda>name.
       bind_res (getitem st name) (\<lambda>v.
       raise_if (\<not> dict_matches (matches_annotation AnInt) v) ValueError)))))))"

subsection \<open>Restoring\<close>

definition dict_of_value :: "(pv \<Rightarrow> 'v) \<Rightarrow> pv \<Rightarrow> 'v dict" where
  "dict_of_value f v = (case v of VDict items \<Rightarrow> map (\<lambda>e. (str_of (fst e), f (snd e))) items | _ \<Rightarrow> [])"

definition entities_of :: "((string \<times> pv) list \<Rightarrow> 'v) \<Rightarrow> pv \<Rightarrow> 'v dict" where
  "entities_of f v = dict_of_value (\<lambda>e. f (entity_components e)) v"

definition core_of_state :: "(string \<times> pv) list \<Rightarrow> core" where
  "core_of_state st =
     \<lparr>programs = entities_of program_of (field_of st ''programs''),
      sessions = entities_of session_of (field_of st ''sessions''),
      continuations = entities_of continuation_of (field_of st ''continuations''),
      requests = entities_of request_of (field_of st ''requests''),
      attempts = entities_of attempt_of (field_of st ''attempts''),
      phases = entities_of phase_of (field_of st ''phases''),
      states = entities_of state_of (field_of st ''states''),
      replicas = entities_of replica_of (field_of st ''replicas''),
      bindings = entities_of binding_of (field_of st ''bindings''),
      evidence = entities_of evidence_of (field_of st ''evidence''),
      outputs = entities_of output_of (field_of st ''outputs''),
      events = entities_of event_of (field_of st ''events''),
      event_order = (case field_of st ''event_order'' of VList xs \<Rightarrow> map str_of xs | _ \<Rightarrow> []),
      current_binding_by_subject = dict_of_value str_of (field_of st ''current_binding_by_subject''),
      current_epoch_by_subject = dict_of_value int_of (field_of st ''current_epoch_by_subject''),
      last_allocated_epoch_by_subject = dict_of_value int_of (field_of st ''last_allocated_epoch_by_subject'')\<rparr>"

definition decode_state :: "(string \<times> sjson) list \<Rightarrow> (string \<times> pv) list res" where
  "decode_state raw =
     map_res (\<lambda>n. bind_res (getitem raw n) (\<lambda>j. bind_res (decode_value j) (\<lambda>v. Inr (n, v)))) core_field_names"

text \<open>\<open>except (...) as exc: raise ValueError(...) from exc\<close>.\<close>

definition as_value_error :: "py_error list \<Rightarrow> 'a res \<Rightarrow> 'a res" where
  "as_value_error caught m = (case m of Inl e \<Rightarrow> Inl (if List.member caught e then ValueError else e) | Inr x \<Rightarrow> Inr x)"

definition restore_core :: "semantic_validity \<Rightarrow> sjson \<Rightarrow> core res" where
  "restore_core sv payload =
     (case payload of
        SObj items \<Rightarrow>
          if map_of items ''schema'' \<noteq> Some (SStr snapshot_schema) then Inl ValueError
          else
            (case map_of items ''state'' of
               Some (SObj raw) \<Rightarrow>
                 if \<not> list_all (has_key raw) core_field_names then Inl ValueError
                 else if \<not> list_all (List.member core_field_names) (keys_of raw) then Inl ValueError
                 else
                   bind_res (as_value_error [KeyError, TypeError, AttributeError, ValueError]
                     (bind_res (decode_state raw) (\<lambda>st.
                      bind_res (validate_decoded_state st) (\<lambda>_. Inr st)))) (\<lambda>st.
                   let g = core_of_state st in
                   bind_res (as_value_error [AssertionError, KeyError, TypeError, AttributeError, ValueError]
                     (assert_all sv g)) (\<lambda>_. Inr g))
             | _ \<Rightarrow> Inl ValueError)
      | _ \<Rightarrow> Inl ValueError)"

end
