(* ===== verification/Core_Same.thy ===== *)
theory Core_Same
  imports Core_History
begin

section \<open>Cores that hold the same entities\<close>

text \<open>
  Python compares dictionaries and frozensets without regard to the order of their elements. Two cores
  are the same if their dictionaries hold equal entities under equal keys and their event orders agree.
  The invariant does not tell such cores apart.
\<close>

definition continuation_same :: "Continuation \<Rightarrow> Continuation \<Rightarrow> bool" where
  "continuation_same c d \<longleftrightarrow> (\<exists>ps. d = c\<lparr>cont_parent_ids := ps\<rparr> \<and> set ps = set (cont_parent_ids c))"

definition state_same :: "ReusableState \<Rightarrow> ReusableState \<Rightarrow> bool" where
  "state_same x y \<longleftrightarrow> (\<exists>ds. y = x\<lparr>st_derived_from := ds\<rparr> \<and> set ds = set (st_derived_from x))"

definition dict_same :: "('v \<Rightarrow> 'v \<Rightarrow> bool) \<Rightarrow> 'v dict \<Rightarrow> 'v dict \<Rightarrow> bool" where
  "dict_same E d d' \<longleftrightarrow> distinct (keys_of d') \<and> (\<forall>k. rel_option E (map_of d k) (map_of d' k))"

definition core_same :: "core \<Rightarrow> core \<Rightarrow> bool" where
  "core_same g h \<longleftrightarrow>
     dict_same (=) (programs g) (programs h) \<and> dict_same (=) (sessions g) (sessions h) \<and>
     dict_same continuation_same (continuations g) (continuations h) \<and>
     dict_same (=) (requests g) (requests h) \<and> dict_same (=) (attempts g) (attempts h) \<and>
     dict_same (=) (phases g) (phases h) \<and> dict_same state_same (states g) (states h) \<and>
     dict_same (=) (replicas g) (replicas h) \<and> dict_same (=) (bindings g) (bindings h) \<and>
     dict_same evidence_eq (evidence g) (evidence h) \<and> dict_same output_eq (outputs g) (outputs h) \<and>
     dict_same event_eq (events g) (events h) \<and> event_order h = event_order g \<and>
     dict_same (=) (current_binding_by_subject g) (current_binding_by_subject h) \<and>
     dict_same (=) (current_epoch_by_subject g) (current_epoch_by_subject h) \<and>
     dict_same (=) (last_allocated_epoch_by_subject g) (last_allocated_epoch_by_subject h)"

lemma dict_same_distinct: "dict_same E d d' \<Longrightarrow> distinct (keys_of d')"
  by (simp add: dict_same_def)

lemma dict_same_eq: "dict_same (=) d d' \<Longrightarrow> map_of d' = map_of d"
  by (auto simp: dict_same_def option.rel_eq)

lemma dict_sameD: "dict_same E d d' \<Longrightarrow> map_of d k = Some v \<Longrightarrow> \<exists>w. map_of d' k = Some w \<and> E v w"
  by (auto simp: dict_same_def option_rel_Some1 dest!: spec [of _ k])

lemma dict_sameE: "dict_same E d d' \<Longrightarrow> map_of d' k = Some w \<Longrightarrow> \<exists>v. map_of d k = Some v \<and> E v w"
  by (auto simp: dict_same_def option_rel_Some2 dest!: spec [of _ k])

lemma dict_same_keys: "dict_same E d d' \<Longrightarrow> set (keys_of d') = set (keys_of d)"
  by (meson dict_sameD dict_sameE map_of_in_keys map_of_keys_of subsetI subset_antisym)

lemma dict_same_keys_mset:
  "dict_same E d d' \<Longrightarrow> distinct (keys_of d) \<Longrightarrow> mset (keys_of d') = mset (keys_of d)"
  by (metis dict_same_keys dict_same_distinct set_eq_iff_mset_eq_distinct)

lemma dict_same_mset:
  assumes "dict_same (=) d d'" and "distinct (keys_of d)"
  shows "mset d' = mset d"
proof -
  have "set d' = set d"
    using dict_same_eq [OF assms(1)] assms(2) dict_same_distinct [OF assms(1)]
    by (metis (no_types, lifting) items_iff subrelI subset_antisym)
  moreover have "distinct d" "distinct d'"
    using assms(2) dict_same_distinct [OF assms(1)] by (simp_all add: keys_of_def distinct_map)
  ultimately show ?thesis by (metis set_eq_iff_mset_eq_distinct)
qed

lemma dict_same_values:
  assumes "dict_same (=) d d'" and "distinct (keys_of d)"
  shows "mset (map f (filter P (values_of d'))) = mset (map f (filter P (values_of d)))"
proof -
  have "mset (values_of d') = mset (values_of d)"
    using dict_same_mset [OF assms] by (simp add: values_of_def)
  then show ?thesis by (simp add: mset_map mset_filter)
qed

text \<open>The graphs and the lifecycles derived from them.\<close>

lemma same_parents:
  assumes "dict_same continuation_same cs cs'"
  shows "parents_rel cs' = parents_rel cs"
proof -
  have "(\<exists>c. map_of cs' x = Some c \<and> p \<in> set (cont_parent_ids c)) \<longleftrightarrow>
      (\<exists>c. map_of cs x = Some c \<and> p \<in> set (cont_parent_ids c))" for x p
    using dict_sameD [OF assms, of x] dict_sameE [OF assms, of x] by (fastforce simp: continuation_same_def)
  then show ?thesis by (auto simp: parents_rel_iff)
qed

lemma same_descends: "dict_same continuation_same cs cs' \<Longrightarrow> descends cs' = descends cs"
  by (intro ext) (simp add: descends_def same_parents)

lemma same_live: "dict_same continuation_same cs cs' \<Longrightarrow> live_below cs' = live_below cs"
  by (intro ext) (fastforce simp: live_below_def same_descends continuation_same_def dest: dict_sameD dict_sameE)

lemma same_lifecycle: "dict_same continuation_same cs cs' \<Longrightarrow> derived_lifecycle cs' = derived_lifecycle cs"
  by (intro ext) (simp add: derived_lifecycle_def same_live)

lemma same_exists: "dict_same E d d' \<Longrightarrow> (\<exists>v. map_of d' k = Some v) \<longleftrightarrow> (\<exists>v. map_of d k = Some v)"
  by (meson dict_sameD dict_sameE)

lemma same_graph:
  assumes "dict_same (=) ss ss'" and same: "dict_same continuation_same cs cs'" and ok: "graph_ok ss cs"
  shows "graph_ok ss' cs'"
proof -
  have "(\<exists>s. map_of ss' (cont_session_id d) = Some s) \<and>
      (\<forall>p\<in>set (cont_parent_ids d). \<exists>q. map_of cs' p = Some q \<and> cont_session_id q = cont_session_id d)"
    if "map_of cs' k = Some d" for k d
  proof -
    from dict_sameE [OF same that] obtain c where c: "map_of cs k = Some c" "continuation_same c d" by blast
    have "\<exists>q'. map_of cs' p = Some q' \<and> cont_session_id q' = cont_session_id q" if "map_of cs p = Some q" for p q
      using dict_sameD [OF same that] by (auto simp: continuation_same_def)
    with ok c show ?thesis
      unfolding graph_ok_def by (auto simp: dict_same_eq [OF assms(1)] continuation_same_def) metis
  qed
  with ok show ?thesis by (auto simp: graph_ok_def same_parents [OF same])
qed

lemma same_attempts:
  assumes cs: "dict_same continuation_same cs cs'" and rs: "dict_same (=) rs rs'"
    and ats: "dict_same (=) ats ats'" "distinct (keys_of ats)" and outs: "dict_same output_eq outs outs'"
    and ok: "attempts_ok cs rs ats outs"
  shows "attempts_ok cs' rs' ats' outs'"
proof -
  have out: "\<exists>out'. map_of outs' k = Some out' \<and> out_attempt_id out' = out_attempt_id out \<and> out_terminal out' = out_terminal out"
    if "map_of outs k = Some out" for k out
    using dict_sameD [OF outs that] by (auto simp: output_eq_def)
  have "request_ok cs' ats' outs' rid r" if "map_of rs rid = Some r" for rid r
    using attempts_okD(1) [OF ok that] same_exists [OF cs] out
    unfolding request_ok_def dict_same_eq [OF ats(1)] by (auto split: if_splits dest!: out)
  moreover have "mset (map att_generation (attempts_of ats' rid)) = mset (map att_generation (attempts_of ats rid))" for rid
    unfolding attempts_of_def by (rule dict_same_values [OF ats])
  then have "generations_ok ats'" using attempts_okD(3) [OF ok] by (simp add: generations_ok_def del: mset_map)
  ultimately show ?thesis
    using ok by (simp add: attempts_ok_def attempt_ok_def dict_same_eq [OF rs] dict_same_eq [OF ats(1)])
qed

lemma same_phases:
  assumes "dict_same (=) ats ats'" and phs: "dict_same (=) phs phs'" "distinct (keys_of phs)" and ok: "phases_ok ats phs"
  shows "phases_ok ats' phs'"
proof -
  have "mset (map ph_ordinal (phases_of phs' aid)) = mset (map ph_ordinal (phases_of phs aid))" for aid
    unfolding phases_of_def by (rule dict_same_values [OF phs])
  with ok show ?thesis
    by (simp add: phases_ok_def dict_same_eq [OF assms(1)] dict_same_eq [OF phs(1)] del: mset_map)
qed

lemma same_states:
  assumes cs: "dict_same continuation_same cs cs'" and rs: "dict_same (=) rs rs'"
    and ats: "dict_same (=) ats ats'" and phs: "dict_same (=) phs phs'" and sts: "dict_same state_same sts sts'"
    and ok: "states_ok cs rs ats phs sts"
  shows "states_ok cs' rs' ats' phs' sts'"
proof -
  note eqs = dict_same_eq [OF rs] dict_same_eq [OF ats] dict_same_eq [OF phs]
  have "origin_ok cs' rs' ats' phs' y \<and> deps_ok cs' phs' sts' y \<and>
      st_lifecycle y = derived_lifecycle cs' (st_origin_continuation_id y)" if y: "map_of sts' k = Some y" for k y
  proof -
    from dict_sameE [OF sts y] obtain x ds where x: "map_of sts k = Some x"
      and y: "y = x\<lparr>st_derived_from := ds\<rparr>" and ds: "set ds = set (st_derived_from x)"
      by (auto simp: state_same_def)
    have "origin_ok cs' rs' ats' phs' y"
      using states_okD(1) [OF ok x] same_exists [OF cs] by (simp add: origin_ok_def eqs y)
    moreover have "deps_ok cs' phs' sts' y"
      unfolding deps_ok_def
    proof
      fix d assume "d \<in> set (st_derived_from y)"
      then have "d \<in> set (st_derived_from x)" by (simp add: y ds)
      with states_okD(2) [OF ok x] obtain z where z: "map_of sts d = Some z"
        "descends cs (st_origin_continuation_id x) (st_origin_continuation_id z)" "phase_precedes phs z x"
        unfolding deps_ok_def by blast
      from dict_sameD [OF sts z(1)] obtain es where "map_of sts' d = Some (z\<lparr>st_derived_from := es\<rparr>)"
        by (auto simp: state_same_def)
      with z(2,3) show "\<exists>z. map_of sts' d = Some z \<and>
          descends cs' (st_origin_continuation_id y) (st_origin_continuation_id z) \<and> phase_precedes phs' z y"
        by (intro exI [of _ "z\<lparr>st_derived_from := es\<rparr>"])
           (simp add: y same_descends [OF cs] phase_precedes_def eqs)
    qed
    moreover have "st_lifecycle y = derived_lifecycle cs' (st_origin_continuation_id y)"
      using ok x by (simp add: states_ok_def fresh_lifecycles_def same_lifecycle [OF cs] y)
    ultimately show ?thesis by blast
  qed
  moreover have "deps_rel sts' = deps_rel sts"
  proof -
    have "(\<exists>s. map_of sts' x = Some s \<and> p \<in> set (st_derived_from s)) \<longleftrightarrow>
        (\<exists>s. map_of sts x = Some s \<and> p \<in> set (st_derived_from s))" for x p
      using dict_sameD [OF sts, of x] dict_sameE [OF sts, of x] by (fastforce simp: state_same_def)
    then show ?thesis by (auto simp: deps_rel_iff)
  qed
  ultimately show ?thesis using ok by (simp add: states_ok_def fresh_lifecycles_def)
qed

lemma evidence_eqD:
  assumes "evidence_eq e f"
  shows "ev_id f = ev_id e" "ev_authority f = ev_authority e" "ev_status f = ev_status e"
    "set (ev_scope f) = set (ev_scope e)" "set (ev_derived_from f) = set (ev_derived_from e)"
    "ev_derived_from f = [] \<longleftrightarrow> ev_derived_from e = []" "ev_derivation_rule f = ev_derivation_rule e"
  using assms by (auto simp: evidence_eq_def same_set_iff)

lemma same_evidence:
  assumes same: "dict_same evidence_eq evd evd'" and ok: "evidence_ok evd"
  shows "evidence_ok evd'"
proof -
  have "check_derivation_fields f = Inr () \<and> supported evd' f" if f: "map_of evd' i = Some f" for i f
  proof -
    from dict_sameE [OF same f] obtain e where e: "map_of evd i = Some e" "evidence_eq e f" by blast
    note eq = evidence_eqD [OF e(2)]
    have chk: "check_derivation_fields e = Inr ()" and sup: "supported evd e"
      using ok e(1) by (auto simp: evidence_ok_def)
    have get: "\<exists>s'. map_of evd' k = Some s' \<and> ev_status s' = ev_status s \<and> set (ev_scope s') = set (ev_scope s)"
      if "map_of evd k = Some s" for k s
      using dict_sameD [OF same that] by (auto dest: evidence_eqD)
    have "check_derivation_fields f = check_derivation_fields e"
      by (simp add: check_derivation_fields_def has_derivation_def eq)
    moreover have "\<exists>s'. map_of evd' s = Some s' \<and> (ev_status e = EvidenceStatus.VALID \<longrightarrow> ev_status s' = EvidenceStatus.VALID)"
      if "s \<in> set (ev_derived_from e)" for s
      using sup that get unfolding supported_def by metis
    moreover have "\<exists>s\<in>set (ev_derived_from e). \<exists>s'. map_of evd' s = Some s' \<and> c \<in> set (ev_scope s')"
      if "ev_derived_from e \<noteq> []" "c \<in> set (ev_scope e)" for c
      using sup that get unfolding supported_def by metis
    ultimately show ?thesis using chk by (simp add: supported_def eq)
  qed
  then show ?thesis by (auto simp: evidence_ok_def)
qed

lemma same_outputs:
  assumes ats: "dict_same (=) ats ats'" and evd: "dict_same E evd evd'" and outs: "dict_same output_eq outs outs'"
    and ok: "outputs_ok ats evd outs"
  shows "outputs_ok ats' evd' outs'"
  unfolding outputs_ok_def
proof (intro allI impI)
  fix k out' assume "map_of outs' k = Some out'"
  from dict_sameE [OF outs this] obtain out where "map_of outs k = Some out" "output_eq out out'" by blast
  with ok show "(\<exists>a. map_of ats' (out_attempt_id out') = Some a) \<and>
      (\<forall>e\<in>set (out_evidence_ids out'). \<exists>x. map_of evd' e = Some x)"
    unfolding outputs_ok_def output_eq_def same_set_iff dict_same_eq [OF ats] same_exists [OF evd] by metis
qed

lemma same_bindings:
  assumes bs: "dict_same (=) bs bs'" and cb: "dict_same (=) cb cb'" and ce: "dict_same (=) ce ce'"
    and la: "dict_same (=) la la'" and ok: "bindings_ok bs cb ce la"
  shows "bindings_ok bs' cb' ce' la'"
  using ok dict_same_distinct [OF cb] dict_same_distinct [OF ce] dict_same_distinct [OF la]
  by (simp add: bindings_ok_def binding_ok_def subject_ok_def epochs_distinct_def dict_get_def
        dict_same_eq [OF bs] dict_same_eq [OF cb] dict_same_eq [OF ce] dict_same_eq [OF la])

lemma core_sameD:
  assumes "core_same g h"
  shows "dict_same (=) (programs g) (programs h)" "dict_same (=) (sessions g) (sessions h)"
    "dict_same continuation_same (continuations g) (continuations h)"
    "dict_same (=) (requests g) (requests h)" "dict_same (=) (attempts g) (attempts h)"
    "dict_same (=) (phases g) (phases h)" "dict_same state_same (states g) (states h)"
    "dict_same (=) (replicas g) (replicas h)" "dict_same (=) (bindings g) (bindings h)"
    "dict_same evidence_eq (evidence g) (evidence h)" "dict_same output_eq (outputs g) (outputs h)"
    "dict_same event_eq (events g) (events h)" "event_order h = event_order g"
    "dict_same (=) (current_binding_by_subject g) (current_binding_by_subject h)"
    "dict_same (=) (current_epoch_by_subject g) (current_epoch_by_subject h)"
    "dict_same (=) (last_allocated_epoch_by_subject g) (last_allocated_epoch_by_subject h)"
  using assms by (simp_all add: core_same_def)

lemma same_entity_ids:
  "continuation_same c d \<Longrightarrow> cont_id d = cont_id c" "state_same x y \<Longrightarrow> st_id y = st_id x"
  "evidence_eq e f \<Longrightarrow> ev_id f = ev_id e" "output_eq o1 o2 \<Longrightarrow> out_id o2 = out_id o1"
  "event_eq e1 e2 \<Longrightarrow> sev_id e2 = sev_id e1"
  by (auto simp: continuation_same_def state_same_def evidence_eq_def output_eq_def event_eq_def)

lemma same_keyed:
  assumes "dict_same E d d'" and "keyed f d" and "\<And>v w. E v w \<Longrightarrow> f w = f v"
  shows "keyed f d'"
  using assms unfolding keyed_def by (metis dict_sameE)

lemma same_ids:
  assumes same: "core_same g h" and ids: "ids_ok g"
  shows "ids_ok h"
proof -
  note d = core_sameD [OF same] and k = ids_okD [OF ids]
  have "mset (all_ids h) = mset (all_ids g)"
    by (simp add: all_ids_def dict_same_keys_mset [OF d(1) k(1)] dict_same_keys_mset [OF d(2) k(2)]
        dict_same_keys_mset [OF d(3) k(3)] dict_same_keys_mset [OF d(4) k(4)] dict_same_keys_mset [OF d(5) k(5)]
        dict_same_keys_mset [OF d(6) k(6)] dict_same_keys_mset [OF d(7) k(7)] dict_same_keys_mset [OF d(8) k(8)]
        dict_same_keys_mset [OF d(9) k(9)] dict_same_keys_mset [OF d(10) k(10)]
        dict_same_keys_mset [OF d(11) k(11)] dict_same_keys_mset [OF d(12) k(12)])
  then have "distinct (all_ids h)" using ids mset_eq_imp_distinct_iff by (auto simp: ids_ok_def)
  moreover note same_keyed [OF d(1) k(13)] same_keyed [OF d(2) k(14)] same_keyed [OF d(3) k(15) same_entity_ids(1)]
    same_keyed [OF d(4) k(16)] same_keyed [OF d(5) k(17)] same_keyed [OF d(6) k(18)] same_keyed [OF d(7) k(19) same_entity_ids(2)]
    same_keyed [OF d(8) k(20)] same_keyed [OF d(9) k(21)] same_keyed [OF d(10) k(22) same_entity_ids(3)]
    same_keyed [OF d(11) k(23) same_entity_ids(4)] same_keyed [OF d(12) k(24) same_entity_ids(5)]
  ultimately show ?thesis
    by (simp add: ids_ok_def)
qed

theorem same_inv:
  assumes same: "core_same g h" and inv: "inv g"
  shows "inv h"
proof -
  note d = core_sameD [OF same] and ri = reuse_invD [OF invD(1) [OF inv]]
  note ids = same_ids [OF same ri(2)] and k = ids_okD [OF ri(2)]
  have "id_taken h '''' = id_taken g ''''"
    by (simp add: id_taken_def has_key_iff dict_same_keys [OF d(1)] dict_same_keys [OF d(2)]
        dict_same_keys [OF d(3)] dict_same_keys [OF d(4)] dict_same_keys [OF d(5)] dict_same_keys [OF d(6)]
        dict_same_keys [OF d(7)] dict_same_keys [OF d(8)] dict_same_keys [OF d(9)] dict_same_keys [OF d(10)]
        dict_same_keys [OF d(11)] dict_same_keys [OF d(12)])
  moreover have "graph_ok (sessions h) (continuations h)"
    by (rule same_graph [OF d(2,3) graph_invD(1) [OF ri(1)]])
  moreover have "attempts_ok (continuations h) (requests h) (attempts h) (outputs h)"
    by (rule same_attempts [OF d(3,4,5) k(5) d(11) ri(4)])
  moreover have "phases_ok (attempts h) (phases h)" by (rule same_phases [OF d(5,6) k(6) ri(5)])
  moreover have "states_ok (continuations h) (requests h) (attempts h) (phases h) (states h)"
    by (rule same_states [OF d(3,4,5,6,7) ri(6)])
  moreover have "sessions_ok (programs h) (sessions h)"
    using invD(2) [OF inv] by (simp add: sessions_ok_def dict_same_eq [OF d(1)] dict_same_eq [OF d(2)])
  moreover have "outputs_ok (attempts h) (evidence h) (outputs h)"
    by (rule same_outputs [OF d(5,10,11) invD(3) [OF inv]])
  moreover have "evidence_ok (evidence h)" by (rule same_evidence [OF d(10) invD(4) [OF inv]])
  moreover have "replicas_ok (states h) (replicas h)"
    using invD(5) [OF inv] by (simp add: replicas_ok_def dict_same_eq [OF d(8)] same_exists [OF d(7)])
  moreover have "bindings_ok (bindings h) (current_binding_by_subject h) (current_epoch_by_subject h)
      (last_allocated_epoch_by_subject h)"
    by (rule same_bindings [OF d(9,14,15,16) invD(6) [OF inv]])
  moreover have "events_ok (events h) (event_order h)"
    using invD(7) [OF inv] dict_same_keys_mset [OF d(12) k(12)] by (simp add: events_ok_def d(13))
  ultimately show ?thesis using inv ids by (simp add: inv_parts)
qed

end
