(* ===== verification/Serial_Restore.thy ===== *)
theory Serial_Restore
  imports Serial_Snapshot Core_Same
begin

section \<open>Restoring what a snapshot wrote\<close>

text \<open>
  A restored core holds the entities of the core it was taken from, in canonical order:
  \<open>normal_core\<close>. It is the same core in the sense of \<open>core_same\<close>, satisfies the invariant, and is
  accepted by the oracle; and the text of a snapshot does not depend on the order in which a core
  holds its entities.
\<close>

definition dict_normal :: "('v \<Rightarrow> 'w) \<Rightarrow> 'v dict \<Rightarrow> 'w dict" where
  "dict_normal f d = map (\<lambda>kx. (fst kx, f (snd kx))) (sort_key (\<lambda>kx. item_key (VStr (fst kx))) d)"

definition normal_core :: "core \<Rightarrow> core" where
  "normal_core g =
     \<lparr>programs = dict_normal (\<lambda>p. p) (programs g),
      sessions = dict_normal (\<lambda>s. s) (sessions g),
      continuations =
        dict_normal (\<lambda>c. c\<lparr>cont_parent_ids := sorted_set VStr (cont_parent_ids c)\<rparr>) (continuations g),
      requests = dict_normal (\<lambda>r. r) (requests g),
      attempts = dict_normal (\<lambda>a. a) (attempts g),
      phases = dict_normal (\<lambda>p. p) (phases g),
      states = dict_normal (\<lambda>x. x\<lparr>st_derived_from := sorted_set VStr (st_derived_from x)\<rparr>) (states g),
      replicas = dict_normal (\<lambda>r. r) (replicas g),
      bindings = dict_normal (\<lambda>b. b) (bindings g),
      evidence =
        dict_normal (\<lambda>e. e\<lparr>ev_scope := sorted_set pair_pv (ev_scope e),
          ev_derived_from := sorted_set VStr (ev_derived_from e)\<rparr>) (evidence g),
      outputs =
        dict_normal (\<lambda>out. out\<lparr>out_evidence_ids := sorted_set VStr (out_evidence_ids out)\<rparr>) (outputs g),
      events = dict_normal (\<lambda>e. e\<lparr>sev_payload := sorted_set pair_pv (sev_payload e)\<rparr>) (events g),
      event_order = event_order g,
      current_binding_by_subject = dict_normal (\<lambda>b. b) (current_binding_by_subject g),
      current_epoch_by_subject = dict_normal (\<lambda>e. e) (current_epoch_by_subject g),
      last_allocated_epoch_by_subject = dict_normal (\<lambda>e. e) (last_allocated_epoch_by_subject g)\<rparr>"

text \<open>The \<open>Evidence\<close> objects of a core were constructed, so they passed \<open>__post_init__\<close>.\<close>

definition constructed :: "core \<Rightarrow> bool" where
  "constructed g \<longleftrightarrow> list_all (\<lambda>e. evidence_post_init e = Inr e) (values_of (evidence g))"

subsection \<open>It is the same core\<close>

lemma map_of_dict_normal: "distinct (keys_of d) \<Longrightarrow> map_of (dict_normal f d) k = map_option f (map_of d k)"
proof -
  have "map_of (map (\<lambda>kx. (fst kx, f (snd kx))) l) k = map_option f (map_of l k)" for l
    by (induction l) auto
  then show "distinct (keys_of d) \<Longrightarrow> map_of (dict_normal f d) k = map_option f (map_of d k)"
    by (simp add: dict_normal_def keys_of_def map_of_sort_key)
qed

lemma distinct_dict_normal: "distinct (keys_of d) \<Longrightarrow> distinct (keys_of (dict_normal f d))"
  by (simp add: dict_normal_def keys_of_def comp_def distinct_map)

lemma dict_normal_same:
  "distinct (keys_of d) \<Longrightarrow> (\<And>v. E v (f v)) \<Longrightarrow> dict_same E d (dict_normal f d)"
  by (simp add: dict_same_def map_of_dict_normal distinct_dict_normal option_rel_Some1 rel_option_iff
      split: option.split)

lemma normal_core_same:
  assumes "inv g"
  shows "core_same g (normal_core g)"
proof -
  note k = ids_okD [OF inv_ids(1) [OF assms]]
  have b: "distinct (keys_of (current_binding_by_subject g))" "distinct (keys_of (current_epoch_by_subject g))"
    "distinct (keys_of (last_allocated_epoch_by_subject g))"
    using invD(6) [OF assms] by (simp_all add: bindings_ok_def)
  have c: "continuation_same c (c\<lparr>cont_parent_ids := sorted_set VStr (cont_parent_ids c)\<rparr>)" for c
    unfolding continuation_same_def by (intro exI conjI, rule refl) simp
  have x: "state_same x (x\<lparr>st_derived_from := sorted_set VStr (st_derived_from x)\<rparr>)" for x
    unfolding state_same_def by (intro exI conjI, rule refl) simp
  have e: "evidence_eq e (e\<lparr>ev_scope := sorted_set pair_pv (ev_scope e),
      ev_derived_from := sorted_set VStr (ev_derived_from e)\<rparr>)" for e
    unfolding evidence_eq_def same_set_iff by (intro conjI) simp_all
  have out: "output_eq out (out\<lparr>out_evidence_ids := sorted_set VStr (out_evidence_ids out)\<rparr>)" for out
    by (simp add: output_eq_def same_set_iff)
  have ev: "event_eq e (e\<lparr>sev_payload := sorted_set pair_pv (sev_payload e)\<rparr>)" for e
    by (simp add: event_eq_def same_set_iff)
  show ?thesis
    unfolding core_same_def normal_core_def core.select_convs
    by (intro conjI refl dict_normal_same k b) (rule refl c x e out ev)+
qed

subsection \<open>Encoding and decoding the attributes\<close>

lemma serializable_entity_dict:
  assumes "distinct (keys_of d)" and "\<And>x. x \<in> set (values_of d) \<Longrightarrow> serializable (VData c (f x))"
  shows "serializable (entity_dict c f d)"
  using assms by (auto simp: entity_dict_def keys_of_def values_of_def comp_def distinct_map inj_on_def
      list_all_iff simp del: serializable.simps(11))

lemma serializable_plain_dict:
  "distinct (keys_of d) \<Longrightarrow> (\<And>x. serializable (f x)) \<Longrightarrow> serializable (plain_dict f d)"
  by (auto simp: plain_dict_def keys_of_def comp_def distinct_map inj_on_def list_all_iff)

lemma normal_entity_dict:
  "normal_value (entity_dict c f d) =
     VDict (map (\<lambda>kx. (VStr (fst kx), VData c (snd kx))) (dict_normal (\<lambda>x. normal_fields (f x)) d))"
  by (simp add: entity_dict_def dict_normal_def comp_def sort_key_map normal_fields_def)

lemma normal_plain_dict:
  "(\<And>x. normal_value (f x) = f x) \<Longrightarrow>
     normal_value (plain_dict f d) = VDict (map (\<lambda>kx. (VStr (fst kx), f (snd kx))) (dict_normal (\<lambda>x. x) d))"
  by (simp add: plain_dict_def dict_normal_def comp_def sort_key_map)

lemma attributes_serializable:
  assumes inv: "inv g" and "constructed g"
  shows "list_all (\<lambda>f. serializable (snd f)) (core_attributes g)"
proof -
  note k = ids_okD [OF inv_ids(1) [OF inv]]
  have b: "distinct (keys_of (current_binding_by_subject g))" "distinct (keys_of (current_epoch_by_subject g))"
    "distinct (keys_of (last_allocated_epoch_by_subject g))"
    using invD(6) [OF inv] by (simp_all add: bindings_ok_def)
  have ev: "serializable (entity_dict ''Evidence'' evidence_fields (evidence g))"
    by (rule serializable_entity_dict [OF k(10)])
       (use assms(2) in \<open>simp add: constructed_def list_all_iff entities_serializable(10) del: serializable.simps\<close>)
  have ord: "serializable (VList (map VStr xs))" for xs by (simp add: list_all_iff)
  show ?thesis
    unfolding core_attributes_def list.pred_inject snd_conv
    by (intro conjI TrueI; (rule ev ord | rule serializable_entity_dict, rule k, rule entities_serializable
          | rule serializable_plain_dict, rule b, simp | simp))
qed

lemma attribute_names: "map fst (core_attributes g) = core_field_names"
  by (simp add: core_field_names_def core_attributes_def)

lemma attribute_names_distinct: "distinct core_field_names"
  by (simp add: core_field_names_def core_attributes_def)

lemma encode_items_ok:
  "list_all (\<lambda>f. serializable (snd f)) items \<Longrightarrow>
     encode_items rp items = Inr (map (\<lambda>f. (fst f, json_of rp (snd f))) items)"
  unfolding encode_items_def by (rule map_res_Inr) (auto simp: list_all_iff encode_decode)

lemma decode_items:
  assumes ser: "list_all (\<lambda>f. serializable (snd f)) items" and "distinct (map fst items)"
    and raw: "map_of raw = map_of (map (\<lambda>f. (fst f, sorted_json (json_of rp (snd f)))) items)"
  shows "map_res (\<lambda>n. bind_res (getitem raw n) (\<lambda>j. bind_res (decode_value j) (\<lambda>v. Inr (n, v)))) (map fst items) =
    Inr (normal_fields items)"
  unfolding normal_fields_def map_res_map
proof (rule map_res_Inr)
  fix f assume f: "f \<in> set items"
  have "map_of (map (\<lambda>f. (fst f, sorted_json (json_of rp (snd f)))) items) (fst f) =
      Some (sorted_json (json_of rp (snd f)))"
    by (rule map_of_is_SomeI) (use f assms(2) in \<open>auto simp: comp_def\<close>)
  then have get: "getitem raw (fst f) = Inr (sorted_json (json_of rp (snd f)))" using raw by simp
  have dec: "decode_value (sorted_json (json_of rp (snd f))) = Inr (normal_value (snd f))"
    using ser f by (simp add: list_all_iff encode_decode)
  show "bind_res (getitem raw (fst f)) (\<lambda>j. bind_res (decode_value j) (\<lambda>v. Inr (fst f, v))) =
      Inr (fst f, normal_value (snd f))" by (simp only: get dec bind_res_simps)
qed

subsection \<open>The decoded attributes are valid\<close>

definition valid_items :: "string \<Rightarrow> (string \<times> pv) list dict \<Rightarrow> bool" where
  "valid_items c d \<longleftrightarrow>
     list_all (\<lambda>kx. validate_entity c (VData c (snd kx)) = Inr () \<and> field_of (snd kx) ''id'' = VStr (fst kx)) d"

definition items_value :: "string \<Rightarrow> (string \<times> pv) list dict \<Rightarrow> pv" where
  "items_value c d = VDict (map (\<lambda>kx. (VStr (fst kx), VData c (snd kx))) d)"

lemma validate_items_ok:
  assumes "valid_items c d" and "distinct (seen @ keys_of d)"
  shows "validate_items c seen (map (\<lambda>kx. (VStr (fst kx), VData c (snd kx))) d) = Inr (rev (keys_of d) @ seen)"
  using assms
proof (induction d arbitrary: seen)
  case (Cons kx d)
  then have "validate_items c (fst kx # seen) (map (\<lambda>kx. (VStr (fst kx), VData c (snd kx))) d) =
      Inr (rev (keys_of d) @ fst kx # seen)"
    by (intro Cons.IH) (auto simp: valid_items_def keys_of_def)
  with Cons.prems show ?case
    by (auto simp: valid_items_def keys_of_def entity_components_def)
qed (simp add: keys_of_def)

lemma validate_collections_ok:
  assumes "\<forall>(n, c)\<in>set cts. getitem st n = Inr (items_value c (D n)) \<and> valid_items c (D n)"
    and "distinct (seen @ concat (map (\<lambda>nc. keys_of (D (fst nc))) cts))"
  shows "validate_collections seen cts st = Inr ()"
  using assms
proof (induction cts arbitrary: seen)
  case (Cons nc cts)
  obtain n c where nc: "nc = (n, c)" by (cases nc)
  from Cons.prems nc have get: "getitem st n = Inr (items_value c (D n))" and val: "valid_items c (D n)"
    and "distinct (seen @ keys_of (D n))" by auto
  note step = validate_items_ok [OF val this(3)]
  have "validate_collections (rev (keys_of (D n)) @ seen) cts st = Inr ()"
    by (rule Cons.IH) (use Cons.prems nc in auto)
  with step show ?case
    by (simp only: nc validate_collections.simps get bind_res_simps items_value_def pv.case)
qed simp

lemma valid_items_normal:
  assumes "keyed ident d" and "distinct (keys_of d)"
    and "\<And>x. validate_entity c (VData c (normal_fields (f x))) = Inr ()" and "\<And>x. field_of (f x) ''id'' = VStr (ident x)"
  shows "valid_items c (dict_normal (\<lambda>x. normal_fields (f x)) d)"
  using assms by (auto simp: valid_items_def dict_normal_def list_all_iff keyed_def items_iff [symmetric])

lemma keys_dict_normal: "keys_of (dict_normal f d) = keys_of (dict_normal (\<lambda>x. x) d)"
  by (simp add: keys_of_def dict_normal_def comp_def)

definition component_items :: "core \<Rightarrow> string \<Rightarrow> (string \<times> pv) list dict" where
  "component_items g n =
     (case field_of (normal_fields (core_attributes g)) n of
        VDict items \<Rightarrow> map (\<lambda>e. (str_of (fst e), entity_components (snd e))) items
      | _ \<Rightarrow> [])"

lemma items_components:
  "map (\<lambda>e. (str_of (fst e), entity_components (snd e))) (map (\<lambda>kx. (VStr (fst kx), VData c (snd kx))) d) = d"
  by (simp add: comp_def entity_components_def)

lemma map_of_normal_fields: "map_of (normal_fields fs) n = map_option normal_value (map_of fs n)"
  by (induction fs) (auto simp: normal_fields_def)

lemma normal_attribute:
  assumes "(n, v) \<in> set (core_attributes g)"
  shows "getitem (normal_fields (core_attributes g)) n = Inr (normal_value v)"
    and "field_of (normal_fields (core_attributes g)) n = normal_value v"
proof -
  have "distinct (map fst (core_attributes g))" by (simp add: attribute_names attribute_names_distinct)
  then have "map_of (core_attributes g) n = Some v" using assms by (simp add: map_of_is_SomeI)
  then show "getitem (normal_fields (core_attributes g)) n = Inr (normal_value v)"
    and "field_of (normal_fields (core_attributes g)) n = normal_value v"
    by (simp_all add: field_of_def getitem_def map_of_normal_fields)
qed

lemma normal_entity_attribute:
  assumes "(n, entity_dict c f d) \<in> set (core_attributes g)"
  shows "getitem (normal_fields (core_attributes g)) n = Inr (items_value c (component_items g n))"
    and "component_items g n = dict_normal (\<lambda>x. normal_fields (f x)) d"
proof -
  note norm = normal_attribute [OF assms, unfolded normal_entity_dict]
  show items: "component_items g n = dict_normal (\<lambda>x. normal_fields (f x)) d"
    unfolding component_items_def norm(2) pv.case by (rule items_components)
  show "getitem (normal_fields (core_attributes g)) n = Inr (items_value c (component_items g n))"
    unfolding items norm(1) items_value_def ..
qed

lemma attribute_values:
  "(''programs'', entity_dict ''Program'' program_fields (programs g)) \<in> set (core_attributes g)"
  "(''sessions'', entity_dict ''Session'' session_fields (sessions g)) \<in> set (core_attributes g)"
  "(''continuations'', entity_dict ''Continuation'' continuation_fields (continuations g)) \<in> set (core_attributes g)"
  "(''requests'', entity_dict ''LogicalRequest'' request_fields (requests g)) \<in> set (core_attributes g)"
  "(''attempts'', entity_dict ''Attempt'' attempt_fields (attempts g)) \<in> set (core_attributes g)"
  "(''phases'', entity_dict ''Phase'' phase_fields (phases g)) \<in> set (core_attributes g)"
  "(''states'', entity_dict ''ReusableState'' state_fields (states g)) \<in> set (core_attributes g)"
  "(''replicas'', entity_dict ''StateReplica'' replica_fields (replicas g)) \<in> set (core_attributes g)"
  "(''bindings'', entity_dict ''Binding'' binding_fields (bindings g)) \<in> set (core_attributes g)"
  "(''evidence'', entity_dict ''Evidence'' evidence_fields (evidence g)) \<in> set (core_attributes g)"
  "(''outputs'', entity_dict ''Output'' output_fields (outputs g)) \<in> set (core_attributes g)"
  "(''events'', entity_dict ''SemanticEvent'' event_fields (events g)) \<in> set (core_attributes g)"
  "(''event_order'', VList (map VStr (event_order g))) \<in> set (core_attributes g)"
  "(''current_binding_by_subject'', plain_dict VStr (current_binding_by_subject g)) \<in> set (core_attributes g)"
  "(''current_epoch_by_subject'', plain_dict VInt (current_epoch_by_subject g)) \<in> set (core_attributes g)"
  "(''last_allocated_epoch_by_subject'', plain_dict VInt (last_allocated_epoch_by_subject g)) \<in> set (core_attributes g)"
  by (simp_all add: core_attributes_def)

lemmas entity_getitem = attribute_values(1-12) [THEN normal_entity_attribute(1)]
lemmas entity_items = attribute_values(1-12) [THEN normal_entity_attribute(2)]

lemma components_valid:
  assumes "inv g"
  shows "list_all (\<lambda>(n, c). getitem (normal_fields (core_attributes g)) n = Inr (items_value c (component_items g n)) \<and>
    valid_items c (component_items g n)) collection_types"
proof -
  note k = ids_okD [OF inv_ids(1) [OF assms]]
  have ident: "field_of (program_fields p) ''id'' = VStr (prog_id p)" "field_of (session_fields s) ''id'' = VStr (sess_id s)"
    "field_of (continuation_fields c) ''id'' = VStr (cont_id c)" "field_of (request_fields r) ''id'' = VStr (req_id r)"
    "field_of (attempt_fields a) ''id'' = VStr (att_id a)" "field_of (phase_fields ph) ''id'' = VStr (ph_id ph)"
    "field_of (state_fields x) ''id'' = VStr (st_id x)" "field_of (replica_fields rp) ''id'' = VStr (rep_id rp)"
    "field_of (binding_fields b) ''id'' = VStr (bnd_id b)" "field_of (evidence_fields e) ''id'' = VStr (ev_id e)"
    "field_of (output_fields out) ''id'' = VStr (out_id out)" "field_of (event_fields ev) ''id'' = VStr (sev_id ev)"
    for p s c r a ph x rp b e out ev
    by (simp_all add: entity_fields)
  show ?thesis
    unfolding collection_types_def list.pred_inject case_prod_conv
    by (intro conjI TrueI; (rule entity_getitem)?)
       (simp_all only: entity_items, (rule valid_items_normal, rule k, rule k, rule entities_valid, rule ident)+, simp)
qed

lemma component_keys:
  "concat (map (\<lambda>nc. keys_of (component_items g (fst nc))) collection_types) = all_ids (normal_core g)"
  unfolding collection_types_def list.map concat.simps fst_conv append_Nil2 entity_items
  by (simp add: all_ids_def normal_core_def core.select_convs keys_dict_normal [of "\<lambda>x. normal_fields (f x)" for f]
      keys_dict_normal [of "\<lambda>c. c\<lparr>cont_parent_ids := f c\<rparr>" for f] keys_dict_normal [of "\<lambda>c. c\<lparr>st_derived_from := f c\<rparr>" for f]
      keys_dict_normal [of "\<lambda>e. e\<lparr>ev_scope := f e, ev_derived_from := f' e\<rparr>" for f f']
      keys_dict_normal [of "\<lambda>c. c\<lparr>out_evidence_ids := f c\<rparr>" for f] keys_dict_normal [of "\<lambda>c. c\<lparr>sev_payload := f c\<rparr>" for f])

lemma strings_match [simp]: "list_matches is_VStr (normal_value (VList (map VStr xs)))"
  by (simp add: list_matches_def list_all_iff)

lemma plain_match [simp]:
  "dict_matches is_VStr (normal_value (plain_dict VStr d))"
  "dict_matches (matches_annotation AnInt) (normal_value (plain_dict VInt e))"
  by (simp_all add: normal_plain_dict dict_matches_def list_all_iff)

lemma normal_state_valid:
  assumes "inv g"
  shows "validate_decoded_state (normal_fields (core_attributes g)) = Inr ()"
proof -
  have "distinct (all_ids (normal_core g))"
    using same_ids [OF normal_core_same [OF assms] inv_ids(1) [OF assms]] by (simp add: ids_ok_def)
  then have "validate_collections [] collection_types (normal_fields (core_attributes g)) = Inr ()"
    using components_valid [OF assms]
    by (intro validate_collections_ok [where D = "component_items g"])
       (auto simp: list_all_iff component_keys)
  moreover note rest = attribute_values(13-16) [THEN normal_attribute(1)]
  ultimately show ?thesis
    unfolding validate_decoded_state_def by (simp only: rest bind_res_simps for_each.simps strings_match plain_match)
       simp
qed

lemma dict_read_back:
  "dict_of_value f (VDict (map (\<lambda>kx. (VStr (fst kx), h (snd kx))) d)) = map (\<lambda>kx. (fst kx, f (h (snd kx)))) d"
  by (simp add: dict_of_value_def comp_def)

lemma entities_read:
  "entities_of r (normal_value (entity_dict c f d)) = dict_normal (\<lambda>x. r (normal_fields (f x))) d"
  by (simp add: entities_of_def normal_entity_dict dict_of_value_def entity_components_def dict_normal_def comp_def)

lemma plain_read:
  "dict_of_value str_of (normal_value (plain_dict VStr d)) = dict_normal (\<lambda>x. x) d"
  "dict_of_value int_of (normal_value (plain_dict VInt e)) = dict_normal (\<lambda>x. x) e"
  by (simp_all add: normal_plain_dict dict_of_value_def comp_def)

lemma normal_state_core: "core_of_state (normal_fields (core_attributes g)) = normal_core g"
  unfolding core_of_state_def attribute_values [THEN normal_attribute(2)] normal_core_def
    entities_read entities_read_back plain_read
  by (simp add: comp_def)

subsection \<open>The round trip\<close>

definition snapshot_document :: "float_repr \<Rightarrow> core \<Rightarrow> sjson" where
  "snapshot_document rp g =
     SObj [(''schema'', SStr snapshot_schema),
       (''state'', SObj (map (\<lambda>f. (fst f, json_of rp (snd f))) (core_attributes g)))]"

lemma snapshot_payload_ok:
  assumes "inv g" and "constructed g"
  shows "snapshot_payload rp g = Inr (snapshot_document rp g)"
  by (simp add: snapshot_payload_def snapshot_document_def encode_items_ok attributes_serializable assms)

lemma restore_document:
  assumes inv: "inv g" and con: "constructed g"
  shows "restore_core sv (sorted_json (snapshot_document rp g)) = Inr (normal_core g)"
proof -
  let ?items = "map (\<lambda>f. (fst f, sorted_json (json_of rp (snd f)))) (core_attributes g)"
  let ?raw = "sort_key fst ?items"
  have names: "map fst ?items = core_field_names" by (simp add: comp_def attribute_names)
  have "sorted_json (SObj (map (\<lambda>f. (fst f, json_of rp (snd f))) (core_attributes g))) = SObj ?raw"
    by (simp add: comp_def)
  then have doc: "sorted_json (snapshot_document rp g) =
      SObj [(''schema'', SStr snapshot_schema), (''state'', SObj ?raw)]"
    by (simp add: snapshot_document_def)
  have raw: "map_of ?raw = map_of ?items"
    by (rule map_of_sort_key) (simp only: names attribute_names_distinct)
  have keys: "set (keys_of ?raw) = set core_field_names"
    by (simp add: keys_of_def image_image flip: attribute_names [of g])
  have "decode_state ?raw = Inr (normal_fields (core_attributes g))"
    unfolding decode_state_def attribute_names [of g, symmetric]
    by (rule decode_items [OF attributes_serializable [OF inv con] _ raw])
       (simp add: attribute_names attribute_names_distinct)
  moreover have "list_all (has_key ?raw) core_field_names" "list_all (List.member core_field_names) (keys_of ?raw)"
    by (auto simp: list_all_iff has_key_iff keys)
  moreover have "assert_all sv (normal_core g) = Inr ()"
    by (rule assert_all_ok [OF same_inv [OF normal_core_same [OF inv] inv]])
  ultimately show ?thesis
    unfolding doc restore_core_def
    by (simp add: normal_state_valid [OF inv] normal_state_core as_value_error_def)
qed

end
