(* ===== verification/Serial_Canonical.thy ===== *)
theory Serial_Canonical
  imports Serial_Restore
begin

section \<open>Snapshots are canonical\<close>

text \<open>
  The text of a snapshot is determined by the entities a core holds, not by the order in which it
  holds them: the keys the sets and dictionaries are sorted by are distinct for distinct elements.
  Conversely, cores whose snapshots agree hold the same entities.
\<close>

subsection \<open>The text of a string determines the string\<close>

lemma hex_digit_inj: "m < 16 \<Longrightarrow> n < 16 \<Longrightarrow> hex_digit m = hex_digit n \<Longrightarrow> m = n"
  by (auto simp: hex_digit_def split: if_splits)

lemma control_char_inj:
  assumes "m < 32" and "n < 32" and "hex_digit (m div 16) = hex_digit (n div 16)"
    and "hex_digit (m mod 16) = hex_digit (n mod 16)"
  shows "m = n"
proof -
  from assms(1,2) have "m div 16 < 16" "n div 16 < 16" by simp_all
  with assms(3) have "m div 16 = n div 16" by (rule hex_digit_inj [rotated 2])
  moreover have "m mod 16 = n mod 16" using assms(4) by (rule hex_digit_inj [rotated 2]) simp_all
  ultimately show ?thesis by (metis div_mult_mod_eq)
qed

text \<open>The character after a backslash tells which character was escaped.\<close>

definition escapes :: "(nat \<times> char) list" where
  "escapes = [(34, CHR 0x22), (92, CHR 0x5C), (8, CHR ''b''), (12, CHR ''f''), (10, CHR ''n''), (13, CHR ''r''),
     (9, CHR ''t'')]"

lemma text_char_escape:
  "text_char c =
     (case map_of escapes (of_char c) of
        Some e \<Rightarrow> [CHR 0x5C, e]
      | None \<Rightarrow>
          if of_char c < (32 :: nat)
          then [CHR 0x5C, CHR ''u'', CHR ''0'', CHR ''0'', hex_digit (of_char c div 16), hex_digit (of_char c mod 16)]
          else [c])"
  by (simp add: text_char_def escapes_def Let_def)

lemma escapes_inj: "map_of escapes m = Some e \<Longrightarrow> map_of escapes n = Some e \<Longrightarrow> m = n"
  by (auto simp: escapes_def split: if_splits)

lemma escape_not_u: "map_of escapes m = Some e \<Longrightarrow> e \<noteq> CHR ''u''"
  by (auto simp: escapes_def split: if_splits)

lemma escaped [simp]: "map_of escapes 92 = Some CHR 0x5C" "map_of escapes 34 = Some CHR 0x22"
  by (simp_all add: escapes_def)

lemma unescaped:
  assumes "map_of escapes (of_char c) = None"
  shows "c \<noteq> CHR 0x5C" "c \<noteq> CHR 0x22"
  using assms by auto

lemma text_char_prefix:
  assumes "text_char c @ xs = text_char d @ ys"
  shows "c = d \<and> xs = ys"
proof (cases "map_of escapes (of_char c)"; cases "map_of escapes (of_char d)")
  fix e f assume *: "map_of escapes (of_char c) = Some e" "map_of escapes (of_char d) = Some f"
  with assms have "e = f" "xs = ys" by (simp_all add: text_char_escape)
  with * escapes_inj [of "of_char c" e "of_char d"] show ?thesis by simp
next
  fix e assume "map_of escapes (of_char c) = Some e" "map_of escapes (of_char d) = None"
  with assms show ?thesis by (auto simp: text_char_escape dest: escape_not_u unescaped split: if_splits)
next
  fix e assume "map_of escapes (of_char c) = None" "map_of escapes (of_char d) = Some e"
  with assms show ?thesis by (auto simp: text_char_escape dest: escape_not_u unescaped split: if_splits)
next
  assume "map_of escapes (of_char c) = None" "map_of escapes (of_char d) = None"
  with assms control_char_inj [of "of_char c" "of_char d"] unescaped [of c] unescaped [of d] show ?thesis
    by (auto simp: text_char_escape split: if_splits)
qed

lemma text_char_start: "text_char c \<noteq> [] \<and> hd (text_char c) \<noteq> CHR 0x22"
  by (auto simp: text_char_escape dest: unescaped split: option.split)

lemma text_chars_prefix:
  "concat (map text_char s) @ CHR 0x22 # xs = concat (map text_char t) @ CHR 0x22 # ys \<Longrightarrow> s = t \<and> xs = ys"
proof (induction s arbitrary: t)
  case Nil
  show ?case
  proof (cases t)
    case (Cons d t')
    with Nil text_char_start [of d] show ?thesis by (cases "text_char d") auto
  qed (use Nil in simp)
next
  case (Cons c s)
  show ?case
  proof (cases t)
    case Nil
    with Cons.prems text_char_start [of c] show ?thesis by (cases "text_char c") auto
  next
    case (Cons d t')
    with Cons.prems have "text_char c @ (concat (map text_char s) @ CHR 0x22 # xs) =
        text_char d @ (concat (map text_char t') @ CHR 0x22 # ys)" by simp
    from text_char_prefix [OF this] Cons.IH Cons show ?thesis by auto
  qed
qed

lemma text_str_prefix: "text_str s @ xs = text_str t @ ys \<Longrightarrow> s = t \<and> xs = ys"
  by (auto simp: text_str_def dest: text_chars_prefix)

lemma key_string_inj: "item_key (VStr s) = item_key (VStr t) \<longleftrightarrow> s = t"
  using text_str_prefix [of s "[]" t "[]"] by (auto simp: item_key_def canonical_json_def)

lemma key_pair_inj: "item_key (pair_pv p) = item_key (pair_pv q) \<longleftrightarrow> p = q"
proof
  have parts: "item_key (pair_pv p) = ''{'' @ text_str ''$tuple'' @ '':['' @ text_str (fst p) @ '','' @ text_str (snd p) @ '']}''" for p
    by (simp add: item_key_def canonical_json_def pair_pv_def)
  assume "item_key (pair_pv p) = item_key (pair_pv q)"
  then have "text_str (fst p) @ '','' @ text_str (snd p) @ '']}'' = text_str (fst q) @ '','' @ text_str (snd q) @ '']}''"
    unfolding parts by simp
  from text_str_prefix [OF this] text_str_prefix [of "snd p" "'']}''" "snd q" "'']}''"]
  show "p = q" by (auto simp: prod_eq_iff)
qed simp

subsection \<open>Sorting by an injective key\<close>

lemma sort_key_unique:
  assumes "set xs = set ys" and "distinct xs" and "distinct ys" and "inj_on k (set xs)"
  shows "sort_key k xs = sort_key k ys"
proof (rule sort_key_inj_key_eq)
  show "mset xs = mset (sort_key k ys)" using assms(1-3) by (simp add: set_eq_iff_mset_eq_distinct)
qed (use assms in simp_all)

lemma sorted_set_same:
  "set xs = set ys \<Longrightarrow> sorted_set VStr xs = sorted_set VStr ys"
  "set ps = set qs \<Longrightarrow> sorted_set pair_pv ps = sorted_set pair_pv qs"
  unfolding sorted_set_def by (rule sort_key_unique; simp add: inj_on_def key_string_inj key_pair_inj)+

lemma dict_normal_items: "dict_normal F d = sort_key (\<lambda>kx. item_key (VStr (fst kx))) (map (\<lambda>kx. (fst kx, F (snd kx))) d)"
  by (simp add: dict_normal_def sort_key_map)

lemma dict_normal_eq:
  assumes same: "dict_same E d d'" and dist: "distinct (keys_of d)" and eq: "\<And>x y. E x y \<Longrightarrow> F x = F y"
  shows "dict_normal F d = dict_normal F d'"
  unfolding dict_normal_items
proof (rule sort_key_unique)
  let ?F = "map (\<lambda>kx. (fst kx, F (snd kx)))"
  have dist': "distinct (keys_of d')" using same by (rule dict_same_distinct)
  show "distinct (?F d)" "distinct (?F d')" using dist dist' by (simp_all add: keys_of_def distinct_map inj_on_def)
  show "inj_on (\<lambda>kx. item_key (VStr (fst kx))) (set (?F d))"
    using dist by (auto simp: inj_on_def key_string_inj keys_of_def distinct_map)
  show "set (?F d) = set (?F d')"
    using dict_sameD [OF same] dict_sameE [OF same] eq dist dist'
    by (fastforce simp: image_iff items_iff [symmetric] intro: rev_bexI)
qed

subsection \<open>Equal entities have equal documents\<close>

lemma json_of_encoded: "serializable v \<Longrightarrow> encode_value rp v = Inr (json_of rp v)"
  by (simp add: encode_decode)

lemma json_of_data:
  assumes "list_all (\<lambda>f. serializable (snd f)) fs"
  shows "json_of rp (VData c fs) =
    SObj [(''$type'', SStr c), (''fields'', SObj (map (\<lambda>f. (fst f, json_of rp (snd f))) fs))]"
proof -
  have "map_res (\<lambda>f. bind_res (encode_value rp (snd f)) (\<lambda>v. Inr (fst f, v))) fs =
      Inr (map (\<lambda>f. (fst f, json_of rp (snd f))) fs)"
    by (rule map_res_Inr) (use assms in \<open>simp add: json_of_encoded list_all_iff\<close>)
  then show ?thesis by (simp add: json_of_def)
qed

lemma json_of_set:
  assumes "serializable (set_value f xs)" and "list_all flat_value (map f xs)"
  shows "json_of rp (set_value f xs) = SObj [(''$frozenset'', SList (map (\<lambda>x. flat_json (f x)) (sorted_set f xs)))]"
proof -
  have flat: "\<forall>x\<in>set xs. flat_value (f x)" using assms(2) by (simp add: list_all_iff)
  have "map_res (encode_value rp) (map f (remdups xs)) = Inr (map (\<lambda>x. flat_json (f x)) (remdups xs))"
    unfolding map_res_map by (rule map_res_Inr) (use flat in \<open>simp add: encode_flat\<close>)
  moreover have "sort_key (canonical_json rp) (map (\<lambda>x. flat_json (f x)) (remdups xs)) =
      map (\<lambda>x. flat_json (f x)) (sorted_set f xs)"
    unfolding sorted_set_def by (rule sort_key_rep) (use flat in \<open>simp add: item_key_flat\<close>)
  ultimately show ?thesis by (simp add: json_of_def set_value_def)
qed

lemma json_sets:
  "set xs = set ys \<Longrightarrow> json_of rp (set_value VStr xs) = json_of rp (set_value VStr ys)"
  "set ps = set qs \<Longrightarrow> json_of rp (set_value pair_pv ps) = json_of rp (set_value pair_pv qs)"
proof -
  have "flat_value (pair_pv p)" for p by (simp add: pair_pv_def)
  then show "set ps = set qs \<Longrightarrow> json_of rp (set_value pair_pv ps) = json_of rp (set_value pair_pv qs)"
    by (simp add: json_of_set list_all_iff sorted_set_same(2) [of ps qs])
qed (simp add: json_of_set list_all_iff sorted_set_same(1) [of xs ys])

lemma json_of_dict:
  assumes "serializable (VDict (map (\<lambda>kx. (VStr (fst kx), f (snd kx))) d))"
  shows "json_of rp (VDict (map (\<lambda>kx. (VStr (fst kx), f (snd kx))) d)) =
    SObj [(''$dict'', SList (map (\<lambda>kx. SList [SStr (fst kx), snd kx]) (dict_normal (\<lambda>x. json_of rp (f x)) d)))]"
proof -
  have ser: "\<forall>kx\<in>set d. serializable (f (snd kx))" using assms by (auto simp: list_all_iff)
  have "map_res (\<lambda>kv. bind_res (encode_value rp (fst kv)) (\<lambda>k. bind_res (encode_value rp (snd kv)) (\<lambda>v. Inr (k, v))))
      (map (\<lambda>kx. (VStr (fst kx), f (snd kx))) d) = Inr (map (\<lambda>kx. (SStr (fst kx), json_of rp (f (snd kx)))) d)"
    unfolding map_res_map by (rule map_res_Inr) (use ser in \<open>simp add: json_of_encoded\<close>)
  moreover have "sort_key (\<lambda>e. canonical_json rp (fst e)) (map (\<lambda>kx. (SStr (fst kx), json_of rp (f (snd kx)))) d) =
      map (\<lambda>kx. (SStr (fst kx), json_of rp (f (snd kx)))) (sort_key (\<lambda>kx. item_key (VStr (fst kx))) d)"
    by (rule sort_key_rep) (simp add: item_key_flat flip: flat_json.simps)
  ultimately show ?thesis by (simp add: json_of_def dict_normal_def comp_def)
qed

lemma data_json_eq:
  assumes "list_all (\<lambda>f. serializable (snd f)) fs" and "list_all (\<lambda>f. serializable (snd f)) fs'"
    and "list_all2 (\<lambda>f f'. fst f = fst f' \<and> json_of rp (snd f) = json_of rp (snd f')) fs fs'"
  shows "json_of rp (VData c fs) = json_of rp (VData c fs')"
proof -
  from assms(3) have "map (\<lambda>f. (fst f, json_of rp (snd f))) fs = map (\<lambda>f. (fst f, json_of rp (snd f))) fs'"
    by (induction rule: list_all2_induct) auto
  then show ?thesis by (simp only: json_of_data assms(1,2))
qed

lemma same_entity_json:
  "continuation_same x1 y1 \<Longrightarrow>
     json_of rp (VData ''Continuation'' (continuation_fields x1)) = json_of rp (VData ''Continuation'' (continuation_fields y1))"
  "state_same x2 y2 \<Longrightarrow>
     json_of rp (VData ''ReusableState'' (state_fields x2)) = json_of rp (VData ''ReusableState'' (state_fields y2))"
  "evidence_eq x3 y3 \<Longrightarrow>
     json_of rp (VData ''Evidence'' (evidence_fields x3)) = json_of rp (VData ''Evidence'' (evidence_fields y3))"
  "output_eq x4 y4 \<Longrightarrow>
     json_of rp (VData ''Output'' (output_fields x4)) = json_of rp (VData ''Output'' (output_fields y4))"
  "event_eq x5 y5 \<Longrightarrow>
     json_of rp (VData ''SemanticEvent'' (event_fields x5)) = json_of rp (VData ''SemanticEvent'' (event_fields y5))"
  by (rule data_json_eq, simp add: entity_fields, simp add: entity_fields,
      fastforce simp: entity_fields continuation_same_def state_same_def evidence_eq_def output_eq_def event_eq_def same_set_iff
        intro: json_sets)+

lemma entity_dict_json:
  assumes "serializable (entity_dict c f d)" and "serializable (entity_dict c f d')"
    and "dict_same E d d'" and "distinct (keys_of d)"
    and "\<And>x y. E x y \<Longrightarrow> json_of rp (VData c (f x)) = json_of rp (VData c (f y))"
  shows "json_of rp (entity_dict c f d) = json_of rp (entity_dict c f d')"
proof -
  have "dict_normal (\<lambda>x. json_of rp (VData c (f x))) d = dict_normal (\<lambda>x. json_of rp (VData c (f x))) d'"
    by (rule dict_normal_eq [OF assms(3,4)]) (rule assms(5))
  with assms(1,2) show ?thesis
    unfolding entity_dict_def by (simp only: json_of_dict [of "\<lambda>x. VData c (f x)"])
qed

lemma plain_dict_json:
  assumes "dict_same (=) d d'" and "distinct (keys_of d)" and "\<And>x. serializable (f x)"
  shows "json_of rp (plain_dict f d) = json_of rp (plain_dict f d')"
proof -
  have "serializable (plain_dict f d)" "serializable (plain_dict f d')"
    using assms(2,3) dict_same_distinct [OF assms(1)] by (auto intro: serializable_plain_dict)
  moreover have "dict_normal (\<lambda>x. json_of rp (f x)) d = dict_normal (\<lambda>x. json_of rp (f x)) d'"
    by (rule dict_normal_eq [OF assms(1,2)]) simp
  ultimately show ?thesis unfolding plain_dict_def by (simp only: json_of_dict)
qed

lemma same_constructed:
  assumes same: "core_same g h" and "distinct (keys_of (evidence g))" and "constructed g"
  shows "constructed h"
  unfolding constructed_def list_all_iff
proof
  note d = core_sameD(10) [OF same]
  fix e assume "e \<in> set (values_of (evidence h))"
  then obtain k where "map_of (evidence h) k = Some e" using values_of_in [OF dict_same_distinct [OF d]] by blast
  from dict_sameE [OF d this] obtain x where "map_of (evidence g) k = Some x" "evidence_eq x e" by blast
  then have "evidence_post_init x = Inr x" using assms(3) in_values_of by (fastforce simp: constructed_def list_all_iff)
  with \<open>evidence_eq x e\<close> show "evidence_post_init e = Inr e"
    by (auto simp: evidence_post_init_def evidence_eq_def split: if_splits)
qed

lemma document_same:
  assumes inv: "inv g" and con: "constructed g" and same: "core_same g h"
  shows "snapshot_document rp g = snapshot_document rp h"
proof -
  note d = core_sameD [OF same] and k = ids_okD [OF inv_ids(1) [OF inv]]
  have b: "distinct (keys_of (current_binding_by_subject g))" "distinct (keys_of (current_epoch_by_subject g))"
    "distinct (keys_of (last_allocated_epoch_by_subject g))"
    using invD(6) [OF inv] by (simp_all add: bindings_ok_def)
  have "constructed h" by (rule same_constructed [OF same k(10) con])
  note ser = attributes_serializable [OF inv con, unfolded list_all_iff, THEN bspec, unfolded snd_conv]
    attributes_serializable [OF same_inv [OF same inv] this, unfolded list_all_iff, THEN bspec]
  note ser1 = attribute_values(1-12) [of g, THEN ser(1), unfolded snd_conv]
    and ser2 = attribute_values(1-12) [of h, THEN ser(2), unfolded snd_conv]
  have "map (\<lambda>f. (fst f, json_of rp (snd f))) (core_attributes g) =
      map (\<lambda>f. (fst f, json_of rp (snd f))) (core_attributes h)"
    unfolding core_attributes_def list.map fst_conv snd_conv d(13) list.inject prod.inject
    by (intro conjI refl; (rule plain_dict_json, rule d, rule b, simp
         | rule entity_dict_json, rule ser1, rule ser2, rule d, rule k, (erule same_entity_json | simp)))
  then show ?thesis by (simp only: snapshot_document_def)
qed

subsection \<open>Equal documents are documents of the same core\<close>

lemma dict_same_join:
  assumes "dict_same E d n" and "dict_same E d' n" and "distinct (keys_of d')"
    and join: "\<And>x y z. E x z \<Longrightarrow> E y z \<Longrightarrow> E x y"
  shows "dict_same E d d'"
  unfolding dict_same_def
proof (intro conjI allI assms(3))
  fix k
  from assms(1,2) have "rel_option E (map_of d k) (map_of n k)" "rel_option E (map_of d' k) (map_of n k)"
    by (simp_all add: dict_same_def)
  then show "rel_option E (map_of d k) (map_of d' k)"
    by (cases "map_of n k") (auto simp: option_rel_Some2 intro: join)
qed

lemma entity_joins:
  "continuation_same x1 z1 \<Longrightarrow> continuation_same y1 z1 \<Longrightarrow> continuation_same x1 y1"
  "state_same x2 z2 \<Longrightarrow> state_same y2 z2 \<Longrightarrow> state_same x2 y2"
  "evidence_eq x3 z3 \<Longrightarrow> evidence_eq y3 z3 \<Longrightarrow> evidence_eq x3 y3"
  "output_eq x4 z4 \<Longrightarrow> output_eq y4 z4 \<Longrightarrow> output_eq x4 y4"
  "event_eq x5 z5 \<Longrightarrow> event_eq y5 z5 \<Longrightarrow> event_eq x5 y5"
proof -
  show "continuation_same x1 z1 \<Longrightarrow> continuation_same y1 z1 \<Longrightarrow> continuation_same x1 y1"
    unfolding continuation_same_def by (intro exI [of _ "cont_parent_ids y1"]) (cases x1; cases y1; auto)
  show "state_same x2 z2 \<Longrightarrow> state_same y2 z2 \<Longrightarrow> state_same x2 y2"
    unfolding state_same_def by (intro exI [of _ "st_derived_from y2"]) (cases x2; cases y2; auto)
qed (auto simp: evidence_eq_def output_eq_def event_eq_def same_set_iff)

lemma core_same_join:
  assumes g: "core_same g n" and h: "core_same h n" and inv: "inv h"
  shows "core_same g h"
proof -
  note a = core_sameD [OF g] and b = core_sameD [OF h] and k = ids_okD [OF inv_ids(1) [OF inv]]
  have c: "distinct (keys_of (current_binding_by_subject h))" "distinct (keys_of (current_epoch_by_subject h))"
    "distinct (keys_of (last_allocated_epoch_by_subject h))"
    using invD(6) [OF inv] by (simp_all add: bindings_ok_def)
  have ord: "event_order h = event_order g" using a(13) b(13) by simp
  show ?thesis
    unfolding core_same_def
    by (intro conjI; (rule ord | rule dict_same_join, rule a, rule b, rule k c, (erule (1) entity_joins | simp)))
qed

lemma same_document:
  assumes "inv g" and "constructed g" and "inv h" and "constructed h"
    and "snapshot_document rp g = snapshot_document rp h"
  shows "core_same g h"
proof -
  have "normal_core g = normal_core h"
    using restore_document [OF assms(1,2), of "\<lambda>_ _. True" rp] restore_document [OF assms(3,4), of "\<lambda>_ _. True" rp]
    by (simp add: assms(5))
  with normal_core_same [OF assms(1)] normal_core_same [OF assms(3)] assms(3) show ?thesis
    by (metis core_same_join)
qed

end
