(* ===== verification/Serial_Errors.thy ===== *)
theory Serial_Errors
  imports Serial_Canonical
begin

section \<open>The exceptions of decoding and of the oracle\<close>

text \<open>
  Whatever document \<open>restore_core\<close> is given, decoding, the validation and the oracle raise only
  exceptions that it converts: a snapshot that is not accepted is a \<open>ValueError\<close>.
\<close>

definition raises :: "py_error set \<Rightarrow> 'a res \<Rightarrow> bool" where
  "raises es m \<longleftrightarrow> (\<forall>e. m = Inl e \<longrightarrow> e \<in> es)"

lemma raises_simps [simp]:
  "raises es (Inr x)" "raises es (Inl e) \<longleftrightarrow> e \<in> es"
  "raises es (raise_if c e) \<longleftrightarrow> (c \<longrightarrow> e \<in> es)" "raises es (require b) \<longleftrightarrow> (\<not> b \<longrightarrow> AssertionError \<in> es)"
  by (auto simp: raises_def raise_if_def require_def)

lemma raises_bind: "raises es m \<Longrightarrow> (\<And>x. m = Inr x \<Longrightarrow> raises es (f x)) \<Longrightarrow> raises es (bind_res m f)"
  by (cases m) auto

lemma raises_getitem [simp]: "KeyError \<in> es \<Longrightarrow> raises es (getitem d k)"
  by (auto simp: raises_def getitem_def split: option.splits)

lemma raises_map_res: "(\<And>x. x \<in> set xs \<Longrightarrow> raises es (f x)) \<Longrightarrow> raises es (map_res f xs)"
  by (induction xs) (auto intro!: raises_bind)

lemma raises_all_res: "(\<And>x. x \<in> set xs \<Longrightarrow> raises es (f x)) \<Longrightarrow> raises es (all_res f xs)"
  by (induction xs) (auto intro!: raises_bind)

lemma raises_for_each: "(\<And>x. x \<in> set xs \<Longrightarrow> raises es (f x)) \<Longrightarrow> raises es (for_each xs f)"
  by (induction xs) (auto intro!: raises_bind)

lemma raises_checks: "list_all (raises es) ms \<Longrightarrow> raises es (checks ms)"
  unfolding checks_def by (rule raises_for_each) (simp add: list_all_iff)

lemmas raises_intros = raises_bind raises_map_res raises_all_res raises_for_each raises_checks

subsection \<open>Decoding\<close>

abbreviation decode_errors :: "py_error set" where
  "decode_errors \<equiv> {KeyError, TypeError, AttributeError, ValueError}"

lemma raises_iterate [simp]: "TypeError \<in> es \<Longrightarrow> raises es (iterate u)"
  by (cases u) auto

lemma raises_unpack2 [simp]: "raises decode_errors (unpack2 e)"
  by (auto simp: unpack2_def intro!: raises_bind split: list.splits)

lemma raises_hashed [simp]: "TypeError \<in> es \<Longrightarrow> raises es (hashed v)"
  by (simp add: hashed_def)

lemma raises_table_item [simp]: "raises decode_errors (table_item t k)"
  by (cases k) (simp_all add: table_item_def)

lemma raises_decode_enum [simp]: "raises decode_errors (decode_enum t items)"
  by (auto simp: decode_enum_def intro!: raises_bind)

lemma raises_construct [simp]: "raises decode_errors (construct c fs kwargs)"
  by (auto simp: construct_def bind_field_def post_init_def Let_def intro!: raises_intros split: option.splits prod.splits)

lemma raises_decode_value: "raises decode_errors (decode_value v)"
proof (induction v rule: decode_value.induct)
  case (1 v)
  show ?case
    by (subst decode_value.simps)
       (auto split: sjson.split option.split intro!: raises_intros dest: 1)
qed

lemma raises_decode_state: "raises decode_errors (decode_state raw)"
  by (auto simp: decode_state_def intro!: raises_intros raises_decode_value)

lemma raises_validate_entity: "raises decode_errors (validate_entity c v)"
  by (auto simp: validate_entity_def validate_fields_def intro!: raises_intros split: pv.splits)

lemma raises_validate_items: "raises decode_errors (validate_items c seen items)"
  by (induction c seen items rule: validate_items.induct) (auto intro!: raises_bind raises_validate_entity)

lemma raises_validate_collections: "raises decode_errors (validate_collections seen cts st)"
  by (induction seen cts st rule: validate_collections.induct)
     (auto intro!: raises_bind raises_validate_items split: pv.splits)

lemma raises_validate_state: "raises decode_errors (validate_decoded_state st)"
  by (auto simp: validate_decoded_state_def intro!: raises_bind raises_validate_collections)

subsection \<open>The oracle\<close>

abbreviation oracle_errors :: "py_error set" where
  "oracle_errors \<equiv> {AssertionError, KeyError}"

lemma raises_dfs:
  "raises oracle_errors (dfs_node adj vis ved n)" "raises oracle_errors (dfs_any adj vis ved ps)"
proof (induction adj vis ved n and adj vis ved ps rule: dfs_node_dfs_any.induct)
  case (1 adj vis ved n)
  then show ?case
    by (auto simp: raises_def dfs_node.simps [of adj vis ved n] split: if_splits option.splits sum.splits)
next
  case (3 adj vis ved p ps)
  then show ?case by (auto simp: raises_def split: option.splits sum.splits)
qed simp

lemma raises_cycles [simp]: "raises oracle_errors (has_cycle g s)" "raises oracle_errors (state_cycle g)"
  by (auto simp: has_cycle_def state_cycle_def finds_cycle_def intro!: raises_bind raises_dfs)

lemma raises_ancestor_loop: "raises oracle_errors (ancestor_loop adj a todo seen)"
  by (induction adj a todo seen rule: ancestor_loop.induct) (auto split: option.splits)

lemma raises_is_ancestor [simp]: "raises oracle_errors (is_ancestor g a d)"
  by (auto simp: is_ancestor_def reaches_def intro!: raises_bind raises_ancestor_loop)

lemma raises_compatible_recursive: "raises oracle_errors (state_compatible_recursive sv g ctx vis sid)"
proof (induction sv g ctx vis sid rule: state_compatible_recursive.induct)
  case (1 sv g ctx vis sid)
  then show ?case
    by (auto simp: state_compatible_recursive.simps [of sv g ctx vis sid] producer_ok_def phase_order_ok_def
        intro!: raises_intros split: option.splits)
qed

lemma raises_compatible [simp]: "raises oracle_errors (state_compatible sv g i ctx)"
  by (simp add: state_compatible_def raises_compatible_recursive)

lemma raises_identity_loop: "raises oracle_errors (identity_loop seen names)"
  by (induction seen names rule: identity_loop.induct) (auto intro!: raises_bind)

lemma raises_group_bindings: "raises oracle_errors (group_bindings by bs)"
  by (induction "by" bs rule: group_bindings.induct) (auto simp: Let_def intro!: raises_bind)

lemma raises_oracle_checks:
  "raises oracle_errors (global_identity_uniqueness g)" "raises oracle_errors (parent_scopes g)"
  "raises oracle_errors (attempt_authority g)" "raises oracle_errors (attempt_generations g)"
  "raises oracle_errors (request_commit_consistency g)" "raises oracle_errors (continuation_dags g)"
  "raises oracle_errors (phase_ordering g)" "raises oracle_errors (replica_integrity g)"
  "raises oracle_errors (binding_authority g)" "raises oracle_errors (binding_generations g)"
  "raises oracle_errors (evidence_derivation g)" "raises oracle_errors (event_identity g)"
  "raises oracle_errors (output_integrity g)"
  by (auto simp: global_identity_uniqueness_def parent_scopes_def attempt_authority_def attempt_generations_def
      request_commit_consistency_def continuation_dags_def phase_ordering_def replica_integrity_def
      binding_authority_def binding_generations_def evidence_derivation_def event_identity_def output_integrity_def
      pointer_ok_def Let_def intro!: raises_intros raises_identity_loop raises_group_bindings split: option.splits)

lemma raises_state_checks:
  "raises oracle_errors (state_provenance g)" "raises oracle_errors (state_validity sv g)"
  by (auto simp: state_provenance_def declared_state_origin_def dependency_provenance_def producer_provenance_def
      state_validity_def Let_def intro!: raises_intros)

lemma raises_assert_all: "raises oracle_errors (assert_all sv g)"
  by (simp add: assert_all_def raises_checks raises_oracle_checks raises_state_checks)

subsection \<open>Restoring any document\<close>

lemma as_value_error_Inl:
  "raises es m \<Longrightarrow> es \<subseteq> set caught \<Longrightarrow> as_value_error caught m = Inl e \<Longrightarrow> e = ValueError"
  by (cases m) (auto simp: as_value_error_def)

lemma as_value_error_Inr [simp]: "as_value_error caught m = Inr x \<longleftrightarrow> m = Inr x"
  by (cases m) (simp_all add: as_value_error_def)

lemma restore_error:
  assumes "restore_core sv d = Inl e"
  shows "e = ValueError"
proof -
  have dec: "raises decode_errors (bind_res (decode_state raw) (\<lambda>st. bind_res (validate_decoded_state st) (\<lambda>_. Inr st)))"
    for raw by (intro raises_bind raises_decode_state raises_validate_state) simp
  show ?thesis
    using assms as_value_error_Inl [OF dec, of "[KeyError, TypeError, AttributeError, ValueError]"]
      as_value_error_Inl [OF raises_assert_all, of "[AssertionError, KeyError, TypeError, AttributeError, ValueError]"]
    unfolding restore_core_def by (auto simp: bind_res_Inl Let_def split: sjson.splits option.splits if_splits)
qed

lemma restore_accepted:
  assumes "restore_core sv d = Inr g"
  shows "assert_all sv g = Inr () \<and> (\<exists>st. validate_decoded_state st = Inr () \<and> g = core_of_state st)"
  using assms unfolding restore_core_def
  by (auto simp: bind_res_Inr Let_def split: sjson.splits option.splits if_splits)

end
