(* ===== verification/Serial_Events.thy ===== *)
theory Serial_Events
  imports Serial_Errors
begin

section \<open>The event log as text\<close>

text \<open>
  \<open>event_to_record\<close>, \<open>events_to_jsonl\<close>, \<open>export_event_log\<close>, \<open>event_from_record\<close> and
  \<open>replay_event_log\<close> of \<open>continuity/serialization.py\<close>: one line of canonical JSON for each event, in
  the order of recording. The text is cut by \<open>str.splitlines\<close>, which breaks lines at more characters
  than the line feed; lines of white space are skipped. As for snapshots, reading starts from the
  parsed documents.
\<close>

definition event_trace_schema :: string where
  "event_trace_schema = ''cadi.semantic-event.v1''"

definition event_to_record :: "float_repr \<Rightarrow> SemanticEvent \<Rightarrow> sjson res" where
  "event_to_record rp e =
     bind_res (validate_entity ''SemanticEvent'' (VData ''SemanticEvent'' (event_fields e))) (\<lambda>_.
     bind_res (encode_value rp (VData ''SemanticEvent'' (event_fields e))) (\<lambda>j.
     Inr (SObj [(''schema'', SStr event_trace_schema), (''event'', j)])))"

definition event_from_record :: "sjson \<Rightarrow> SemanticEvent res" where
  "event_from_record r =
     (case r of
        SObj items \<Rightarrow>
          if map_of items ''schema'' \<noteq> Some (SStr event_trace_schema) then Inl ValueError
          else
            bind_res (getitem items ''event'') (\<lambda>j.
            bind_res (decode_value j) (\<lambda>v.
            bind_res (validate_entity ''SemanticEvent'' v) (\<lambda>_. Inr (event_of (entity_components v)))))
      | _ \<Rightarrow> Inl ValueError)"

definition jsonl_text :: "string list \<Rightarrow> string" where
  "jsonl_text ls = join_with [CHR 0x0A] ls @ (if ls = [] then [] else [CHR 0x0A])"

definition events_to_jsonl :: "float_repr \<Rightarrow> SemanticEvent res list \<Rightarrow> string res" where
  "events_to_jsonl rp evs =
     bind_res (map_res (\<lambda>m. bind_res m (\<lambda>e. bind_res (event_to_record rp e) (\<lambda>r. Inr (canonical_json rp r)))) evs)
       (\<lambda>ls. Inr (jsonl_text ls))"

definition export_event_log :: "float_repr \<Rightarrow> core \<Rightarrow> string res" where
  "export_event_log rp g = events_to_jsonl rp (map (getitem (events g)) (event_order g))"

subsection \<open>Reading the log\<close>

text \<open>Characters at which \<open>str.splitlines\<close> breaks, and those that \<open>str.strip\<close> removes, up to \<open>0xFF\<close>.\<close>

definition line_break :: "char \<Rightarrow> bool" where
  "line_break c \<longleftrightarrow> List.member [10, 11, 12, 13, 28, 29, 30, 133] (of_char c :: nat)"

definition white_space :: "char \<Rightarrow> bool" where
  "white_space c \<longleftrightarrow> List.member [9, 10, 11, 12, 13, 28, 29, 30, 31, 32, 133, 160] (of_char c :: nat)"

fun split_lines :: "string \<Rightarrow> string \<Rightarrow> string list" where
  "split_lines line [] = (if line = [] then [] else [line])"
| "split_lines line (c # cs) =
     (if c = CHR 0x0D \<and> cs \<noteq> [] \<and> hd cs = CHR 0x0A then line # split_lines [] (tl cs)
      else if line_break c then line # split_lines [] cs
      else split_lines (line @ [c]) cs)"

definition jsonl_lines :: "string \<Rightarrow> string list" where
  "jsonl_lines t = filter (\<lambda>l. \<not> list_all white_space l) (split_lines [] t)"

fun record_all :: "core \<Rightarrow> SemanticEvent list \<Rightarrow> (core, unit) outcome" where
  "record_all g [] = (Inr (), g)"
| "record_all g (e # es) = calls (record_event g e) (\<lambda>_ g'. record_all g' es)"

definition replay_event_log :: "core \<Rightarrow> sjson list \<Rightarrow> (core, unit) outcome" where
  "replay_event_log g docs = reads g (map_res event_from_record docs) (\<lambda>evs. record_all g evs)"

subsection \<open>Canonical text has no line breaks\<close>

definition clean :: "string \<Rightarrow> bool" where
  "clean s \<longleftrightarrow> list_all (\<lambda>c. of_char c \<noteq> (133 :: nat)) s"

abbreviation one_line :: "string \<Rightarrow> bool" where
  "one_line s \<equiv> list_all (\<lambda>c. \<not> line_break c) s"

fun clean_json :: "sjson \<Rightarrow> bool" where
  "clean_json (SFloat r) = False"
| "clean_json (SStr s) = clean s"
| "clean_json (SList xs) = list_all clean_json xs"
| "clean_json (SObj items) = list_all (\<lambda>kv. clean (fst kv) \<and> clean_json (snd kv)) items"
| "clean_json v = True"

lemma one_line_char:
  assumes "of_char c \<noteq> (133 :: nat)"
  shows "one_line (text_char c)"
proof -
  have hex: "\<not> line_break (hex_digit d)" if "d < 16" for d
    using that by (auto simp: hex_digit_def line_break_def)
  have esc: "\<not> line_break e" if "map_of escapes n = Some e" for n e
    using that by (auto simp: escapes_def line_break_def split: if_splits)
  have other: "\<not> line_break c" if "\<not> of_char c < (32 :: nat)" using assms that by (auto simp: line_break_def)
  have "\<not> line_break CHR 0x5C" "\<not> line_break CHR ''u''" "\<not> line_break CHR ''0''" by (simp_all add: line_break_def)
  then show ?thesis by (auto simp: text_char_escape hex esc other split: option.split)
qed

lemma one_line_str: "clean s \<Longrightarrow> one_line (text_str s)"
proof -
  have "clean s \<Longrightarrow> one_line (concat (map text_char s))"
    by (induction s) (simp_all add: clean_def one_line_char)
  moreover have "\<not> line_break (CHR 0x22)" by (simp add: line_break_def)
  ultimately show "clean s \<Longrightarrow> one_line (text_str s)" by (simp add: text_str_def)
qed

lemma one_line_join: "one_line sep \<Longrightarrow> list_all one_line xs \<Longrightarrow> one_line (join_with sep xs)"
  by (induction sep xs rule: join_with.induct) simp_all

lemma one_line_nat: "one_line (nat_str n)"
proof (induction n rule: nat_str.induct)
  case (1 n)
  have "\<not> line_break (digit_char d)" if "d < 10" for d
    using that by (auto simp: digit_char_def line_break_def)
  with 1 show ?case by (subst nat_str.simps) simp
qed

lemma break_simps [simp]:
  "\<not> line_break CHR ''{''" "\<not> line_break CHR ''}''" "\<not> line_break CHR ''[''" "\<not> line_break CHR '']''"
  "\<not> line_break CHR '':''" "\<not> line_break CHR '',''" "\<not> line_break CHR ''-''"
  "one_line ''nultrefas''" "line_break CHR 0x0A"
  by (simp_all add: line_break_def)

lemma one_line_json: "clean_json j \<Longrightarrow> one_line (json_text rp j)"
proof (induction rp j rule: json_text.induct)
  case (6 rp xs)
  then have "list_all one_line (map (json_text rp) xs)" by (simp add: list_all_iff)
  then show ?case by (simp add: one_line_join)
next
  case (7 rp items)
  then have "list_all one_line (map (\<lambda>(k, v). text_str k @ '':'' @ json_text rp v) items)"
    by (force simp: list_all_iff [of one_line] list_all_iff [of "\<lambda>kv. clean (fst kv) \<and> clean_json (snd kv)"] one_line_str)
  then show ?case by (simp add: one_line_join)
qed (use break_simps(8) in \<open>simp_all add: one_line_str one_line_nat int_str_def\<close>)

lemma clean_sorted: "clean_json j \<Longrightarrow> clean_json (sorted_json j)"
  by (induction j rule: sorted_json.induct) (auto simp: list_all_iff)

lemma one_line_canonical: "clean_json j \<Longrightarrow> one_line (canonical_json rp j)"
  by (simp add: canonical_json_def one_line_json clean_sorted)

lemma split_line: "one_line l \<Longrightarrow> split_lines cur (l @ CHR 0x0A # rest) = (cur @ l) # split_lines [] rest"
proof (induction l arbitrary: cur)
  case (Cons c l)
  then have "c \<noteq> CHR 0x0D" by (auto simp: line_break_def)
  with Cons show ?case by simp
qed simp

lemma jsonl_text_Cons: "jsonl_text (l # ls) = l @ CHR 0x0A # jsonl_text ls"
  by (cases ls) (simp_all add: jsonl_text_def)

lemma split_jsonl: "list_all one_line ls \<Longrightarrow> split_lines [] (jsonl_text ls) = ls"
  by (induction ls) (simp_all add: jsonl_text_Cons split_line, simp add: jsonl_text_def)

lemma jsonl_lines_text:
  "list_all (\<lambda>l. one_line l \<and> \<not> list_all white_space l) ls \<Longrightarrow> jsonl_lines (jsonl_text ls) = ls"
  by (simp add: jsonl_lines_def split_jsonl list_all_iff)

subsection \<open>The documents of events\<close>

definition event_document :: "float_repr \<Rightarrow> SemanticEvent \<Rightarrow> sjson" where
  "event_document rp e =
     SObj [(''schema'', SStr event_trace_schema), (''event'', json_of rp (VData ''SemanticEvent'' (event_fields e)))]"

definition normal_event :: "SemanticEvent \<Rightarrow> SemanticEvent" where
  "normal_event e = e\<lparr>sev_payload := sorted_set pair_pv (sev_payload e)\<rparr>"

lemma normal_event_same [simp]: "event_eq e (normal_event e)" "sev_id (normal_event e) = sev_id e"
  by (simp_all add: normal_event_def event_eq_def same_set_iff)

lemma event_to_record_ok: "event_to_record rp e = Inr (event_document rp e)"
proof -
  have "matches_annotation string_pairs (set_value pair_pv ps)" for ps
    by (simp add: set_value_def list_all_iff pair_pv_def string_pairs_def)
  then have "validate_entity ''SemanticEvent'' (VData ''SemanticEvent'' (event_fields e)) = Inr ()"
    by (intro validate_data, simp add: dataclass_types_def) (simp add: event_fields_def)
  then show ?thesis
    by (simp add: event_to_record_def event_document_def json_of_encoded entities_serializable(12)
        del: serializable.simps encode_value.simps)
qed

lemma event_from_document: "event_from_record (sorted_json (event_document rp e)) = Inr (normal_event e)"
proof -
  have "sorted_json (event_document rp e) =
      SObj [(''event'', sorted_json (json_of rp (VData ''SemanticEvent'' (event_fields e)))),
        (''schema'', SStr event_trace_schema)]"
    by (simp add: event_document_def)
  moreover have "decode_value (sorted_json (json_of rp (VData ''SemanticEvent'' (event_fields e)))) =
      Inr (VData ''SemanticEvent'' (normal_fields (event_fields e)))"
    by (simp add: encode_decode entities_serializable(12) normal_fields_def del: serializable.simps)
  ultimately show ?thesis
    by (simp add: event_from_record_def getitem_def entities_valid(12) entity_components_def normal_event_def)
qed

definition clean_event :: "SemanticEvent \<Rightarrow> bool" where
  "clean_event e \<longleftrightarrow>
     list_all clean [sev_id e, sev_kind e, sev_subject_type e, sev_subject_id e] \<and>
     list_all (\<lambda>p. clean (fst p) \<and> clean (snd p)) (sev_payload e)"

lemma clean_document: "clean_event e \<Longrightarrow> clean_json (event_document rp e)"
proof -
  assume e: "clean_event e"
  have "json_of rp (set_value pair_pv ps) = SObj [(''$frozenset'', SList (map (\<lambda>p. flat_json (pair_pv p)) (sorted_set pair_pv ps)))]"
    for ps by (rule json_of_set) (simp_all add: list_all_iff pair_pv_def)
  then have "clean_json (json_of rp (set_value pair_pv (sev_payload e)))"
    using e by (auto simp: list_all_iff pair_pv_def clean_event_def clean_def)
  moreover have "json_of rp (VStr s) = SStr s" for s by (simp add: json_of_def)
  moreover have "json_of rp (VData ''SemanticEvent'' (event_fields e)) =
      SObj [(''$type'', SStr ''SemanticEvent''), (''fields'', SObj (map (\<lambda>f. (fst f, json_of rp (snd f))) (event_fields e)))]"
    by (rule json_of_data) (simp add: event_fields_def)
  ultimately show ?thesis
    using e by (simp add: event_document_def event_fields_def clean_event_def clean_def event_trace_schema_def)
qed

lemma document_line:
  assumes "clean_event e"
  shows "one_line (canonical_json rp (event_document rp e)) \<and> \<not> list_all white_space (canonical_json rp (event_document rp e))"
proof
  show "one_line (canonical_json rp (event_document rp e))" by (simp add: one_line_canonical clean_document assms)
  have "\<not> white_space CHR ''{''" by (simp add: white_space_def)
  then show "\<not> list_all white_space (canonical_json rp (event_document rp e))"
    by (simp add: canonical_json_def event_document_def)
qed

subsection \<open>Replaying the log\<close>

text \<open>The recorded events, in the order of recording.\<close>

definition event_log :: "core \<Rightarrow> SemanticEvent list" where
  "event_log g = map (\<lambda>i. the (map_of (events g) i)) (event_order g)"

lemma event_orderD:
  assumes "inv g"
  shows "set (event_order g) = set (keys_of (events g))" "distinct (event_order g)"
proof -
  have "mset (event_order g) = mset (keys_of (events g))" using invD(7) [OF assms] by (simp add: events_ok_def)
  then show "set (event_order g) = set (keys_of (events g))" "distinct (event_order g)"
    using ids_okD(12) [OF inv_ids(1) [OF assms]] by (auto dest: mset_eq_setD mset_eq_imp_distinct_iff)
qed

lemma logged:
  assumes "inv g" and "i \<in> set (event_order g)"
  shows "\<exists>e. map_of (events g) i = Some e \<and> sev_id e = i"
proof -
  have "i \<in> set (keys_of (events g))" using event_orderD(1) [OF assms(1)] assms(2) by simp
  then obtain e where "map_of (events g) i = Some e" by (auto dest: map_of_keys_of)
  with ids_okD(24) [OF inv_ids(1) [OF assms(1)]] show ?thesis by (auto simp: keyed_def)
qed

lemma export_ok:
  assumes "inv g"
  shows "export_event_log rp g = Inr (jsonl_text (map (\<lambda>e. canonical_json rp (event_document rp e)) (event_log g)))"
proof -
  have "map_res (\<lambda>i. bind_res (getitem (events g) i) (\<lambda>e. bind_res (event_to_record rp e) (\<lambda>r. Inr (canonical_json rp r))))
      (event_order g) = Inr (map (\<lambda>i. canonical_json rp (event_document rp (the (map_of (events g) i)))) (event_order g))"
    by (rule map_res_Inr) (use logged [OF assms] in \<open>fastforce simp: getitem_def event_to_record_ok\<close>)
  then show ?thesis by (simp add: export_event_log_def events_to_jsonl_def map_res_map event_log_def comp_def)
qed

lemma records_read: "map_res event_from_record (map (\<lambda>e. sorted_json (event_document rp e)) es) = Inr (map normal_event es)"
  unfolding map_res_map by (rule map_res_Inr) (rule event_from_document)

text \<open>Into the core it was taken from the log brings nothing new.\<close>

lemma record_again:
  assumes "\<forall>e\<in>set es. \<exists>x. map_of (events g) (sev_id e) = Some x \<and> event_eq x e"
  shows "record_all g es = (Inr (), g)"
  using assms by (induction es) (auto simp: record_event_def)

text \<open>Into a core that knows none of the identifiers it brings exactly the events of the log.\<close>

lemma record_new:
  assumes "distinct (map sev_id es)" and "\<forall>e\<in>set es. \<not> id_taken g (sev_id e)"
  shows "record_all g es =
    (Inr (), g\<lparr>events := events g @ map (\<lambda>e. (sev_id e, e)) es, event_order := event_order g @ map sev_id es\<rparr>)"
  using assms
proof (induction es arbitrary: g)
  case (Cons e es)
  let ?g = "g\<lparr>events := events g @ [(sev_id e, e)], event_order := event_order g @ [sev_id e]\<rparr>"
  have new: "map_of (events g) (sev_id e) = None" using not_id_taken(12) Cons.prems(2) by simp
  then have "record_event g e = (Inr e, ?g)"
    using Cons.prems(2) by (simp add: record_event_def setitem_new unique_def)
  moreover have "record_all ?g es = (Inr (), ?g\<lparr>events := events ?g @ map (\<lambda>e. (sev_id e, e)) es,
      event_order := event_order ?g @ map sev_id es\<rparr>)"
  proof (rule Cons.IH)
    show "distinct (map sev_id es)" using Cons.prems(1) by simp
    have "sev_id e \<notin> sev_id ` set es" using Cons.prems(1) by simp
    then have "\<forall>x\<in>set es. sev_id x \<noteq> sev_id e" by (metis imageI)
    then show "\<forall>x\<in>set es. \<not> id_taken ?g (sev_id x)"
      using Cons.prems(2) by (simp add: id_taken_def has_key_iff keys_of_def)
  qed
  ultimately show ?case by simp
qed simp

lemma event_log_ids: "inv g \<Longrightarrow> map sev_id (event_log g) = event_order g"
  unfolding event_log_def map_map by (rule map_idI) (auto dest: logged)

lemma replay_same:
  assumes "inv g"
  shows "replay_event_log g (map (\<lambda>e. sorted_json (event_document rp e)) (event_log g)) = (Inr (), g)"
  unfolding replay_event_log_def records_read reads_simps
proof (rule record_again, rule ballI)
  fix e assume "e \<in> set (map normal_event (event_log g))"
  then obtain i where "i \<in> set (event_order g)" "e = normal_event (the (map_of (events g) i))"
    by (auto simp: event_log_def)
  with logged [OF assms] show "\<exists>x. map_of (events g) (sev_id e) = Some x \<and> event_eq x e" by force
qed

lemma replay_new:
  assumes inv: "inv g" and new: "\<forall>i\<in>set (event_order g). \<not> id_taken h i" and h: "events h = []" "event_order h = []"
  shows "\<exists>es. replay_event_log h (map (\<lambda>e. sorted_json (event_document rp e)) (event_log g)) =
      (Inr (), h\<lparr>events := es, event_order := event_order g\<rparr>) \<and> dict_same event_eq (events g) es"
proof -
  let ?es = "map normal_event (event_log g)"
  let ?d = "map (\<lambda>e. (sev_id e, e)) ?es"
  have ids: "map sev_id ?es = event_order g" using event_log_ids [OF inv] by (simp add: comp_def)
  have keys: "keys_of ?d = event_order g" using ids by (simp add: keys_of_def comp_def)
  have "record_all h ?es = (Inr (), h\<lparr>events := ?d, event_order := event_order g\<rparr>)"
  proof -
    have "\<forall>e\<in>set ?es. \<not> id_taken h (sev_id e)"
      using new unfolding ids [symmetric] by simp
    moreover have "distinct (map sev_id ?es)" unfolding ids by (rule event_orderD(2) [OF inv])
    ultimately show ?thesis using record_new [of ?es h] by (simp only: ids h append_Nil)
  qed
  moreover have "dict_same event_eq (events g) ?d"
    unfolding dict_same_def
  proof (intro conjI allI)
    show "distinct (keys_of ?d)" unfolding keys by (rule event_orderD(2) [OF inv])
    fix k
    show "rel_option event_eq (map_of (events g) k) (map_of ?d k)"
    proof (cases "k \<in> set (event_order g)")
      case True
      from logged [OF inv True] obtain e where e: "map_of (events g) k = Some e" "sev_id e = k" by blast
      then have "(k, normal_event e) \<in> set ?d"
        using True by (auto simp: event_log_def image_iff intro!: bexI [of _ k])
      then have "map_of ?d k = Some (normal_event e)"
        using event_orderD(2) [OF inv] keys by (metis items_iff)
      with e show ?thesis by simp
    next
      case False
      then have "map_of ?d k = None" "map_of (events g) k = None"
        using arg_cong [OF keys, of set] event_orderD(1) [OF inv] by (simp_all add: keys_of_def map_of_eq_None_iff image_image)
      then show ?thesis by simp
    qed
  qed
  ultimately show ?thesis unfolding replay_event_log_def records_read reads_simps by blast
qed

end
