(* ===== verification/Core_Replay.thy ===== *)
theory Core_Replay
  imports Serial_Events
begin

section \<open>Semantic operation traces\<close>

text \<open>
  \<open>continuity/replay.py\<close>: a trace is a list of operations, each an identifier, the name of a method of
  the core and its keyword arguments. Traces are not trusted: names, signatures and the runtime type of
  every argument are checked before a method is called, and a method that would read the clock must be
  given the time. \<open>operation_signatures\<close> is what \<open>inspect.signature\<close> and \<open>get_type_hints\<close> find in the
  methods of \<open>ContinuityCore\<close>.
\<close>

definition allowed_actions :: "string list" where
  "allowed_actions =
     [''create_program'', ''set_program_status'', ''create_session'', ''create_continuation'',
      ''set_continuation_lifecycle'', ''resume_after_wait'', ''create_request'', ''start_attempt'',
      ''set_attempt_execution'', ''complete_attempt'', ''create_phase'', ''set_phase_status'',
      ''complete_phase'', ''create_output'', ''finalize_request'', ''create_state'', ''set_state_validity'',
      ''add_replica'', ''set_replica_status'', ''propose_binding'', ''activate_initial_binding'',
      ''begin_migration'', ''commit_migration'', ''record_evidence'', ''record_event'']"

definition operation_signatures :: "(string \<times> class_field list) list" where
  "operation_signatures =
     [(''create_program'', [(''id_'', AnStr, None)]),
      (''set_program_status'', [(''program_id'', AnStr, None), (''status'', AnEnum ''ProgramStatus'', None)]),
      (''create_session'', [(''id_'', AnStr, None), (''program_id'', AnStr, None)]),
      (''create_continuation'', [(''id_'', AnStr, None), (''session_id'', AnStr, None),
        (''parent_ids'', AnIterable AnStr, Some (VTuple [])),
        (''lifecycle'', AnEnum ''ContinuationLifecycle'', Some (VEnum ''ContinuationLifecycle'' ''ACTIVE''))]),
      (''set_continuation_lifecycle'', [(''continuation_id'', AnStr, None),
        (''lifecycle'', AnEnum ''ContinuationLifecycle'', None)]),
      (''resume_after_wait'', [(''waiting_id'', AnStr, None), (''child_id'', AnStr, None)]),
      (''create_request'', [(''id_'', AnStr, None), (''continuation_id'', AnStr, None)]),
      (''start_attempt'', [(''id_'', AnStr, None), (''request_id'', AnStr, None)]),
      (''set_attempt_execution'', [(''attempt_id'', AnStr, None), (''status'', AnEnum ''ExecutionStatus'', None)]),
      (''complete_attempt'', [(''attempt_id'', AnStr, None), (''succeeded'', AnBool, Some (VBool True))]),
      (''create_phase'', [(''id_'', AnStr, None), (''attempt_id'', AnStr, None),
        (''phase_type'', AnEnum ''PhaseType'', None), (''ordinal'', optional AnInt, Some VNone)]),
      (''set_phase_status'', [(''phase_id'', AnStr, None), (''status'', AnEnum ''PhaseStatus'', None)]),
      (''complete_phase'', [(''phase_id'', AnStr, None)]),
      (''create_output'', [(''id_'', AnStr, None), (''attempt_id'', AnStr, None), (''terminal'', AnBool, None),
        (''evidence_ids'', AnIterable AnStr, Some (VTuple []))]),
      (''finalize_request'', [(''request_id'', AnStr, None), (''output_id'', AnStr, None),
        (''now'', optional AnFloat, Some VNone)]),
      (''create_state'', [(''id_'', AnStr, None), (''origin_type'', AnStr, None), (''origin_id'', AnStr, None),
        (''semantic_type'', AnStr, Some (VStr ''PREFIX'')), (''representation'', AnStr, Some (VStr ''OPAQUE'')),
        (''derived_from'', AnIterable AnStr, Some (VTuple []))]),
      (''set_state_validity'', [(''state_id'', AnStr, None), (''validity'', AnEnum ''StateValidity'', None)]),
      (''add_replica'', [(''id_'', AnStr, None), (''state_id'', AnStr, None), (''location_id'', AnStr, None),
        (''status'', AnEnum ''ReplicaStatus'', Some (VEnum ''ReplicaStatus'' ''VALID''))]),
      (''set_replica_status'', [(''replica_id'', AnStr, None), (''status'', AnEnum ''ReplicaStatus'', None)]),
      (''propose_binding'', [(''id_'', AnStr, None), (''subject_id'', AnStr, None), (''location_id'', AnStr, None)]),
      (''activate_initial_binding'', [(''id_'', AnStr, None), (''subject_id'', AnStr, None),
        (''location_id'', AnStr, None)]),
      (''begin_migration'', [(''binding_id'', AnStr, None)]),
      (''commit_migration'', [(''binding_id'', AnStr, None), (''evidence_ids'', AnIterable AnStr, None),
        (''now'', optional AnFloat, Some VNone)]),
      (''record_evidence'', [(''e'', AnClass ''Evidence'', None)]),
      (''record_event'', [(''event'', AnClass ''SemanticEvent'', None)])]"

subsection \<open>Checking the arguments\<close>

definition require_explicit_replay_time :: "string \<Rightarrow> (string \<times> pv) list \<Rightarrow> unit res" where
  "require_explicit_replay_time action args =
     raise_if (List.member [''finalize_request'', ''commit_migration''] action \<and>
       (\<not> has_key args ''now'' \<or> field_of args ''now'' = VNone)) ValueError"

text \<open>
  \<open>_matches_operation_annotation\<close>: unlike the check of a snapshot it admits the stable iterables and
  looks into the fields of an instance.
\<close>

function (sequential) matches_operation :: "annotation \<Rightarrow> pv \<Rightarrow> bool" where
  "matches_operation (AnUnion as) v = list_ex (\<lambda>a. matches_operation a v) as"
| "matches_operation (AnIterable a) v =
     (case v of
        VList xs \<Rightarrow> list_all (matches_operation a) xs
      | VTuple xs \<Rightarrow> list_all (matches_operation a) xs
      | VFrozenset xs \<Rightarrow> list_all (matches_operation a) xs
      | _ \<Rightarrow> False)"
| "matches_operation (AnFrozenset a) v =
     (case v of VFrozenset xs \<Rightarrow> list_all (matches_operation a) xs | _ \<Rightarrow> False)"
| "matches_operation (AnTuple as) v =
     (case v of
        VTuple xs \<Rightarrow> length xs = length as \<and> list_all (\<lambda>p. matches_operation (snd p) (fst p)) (zip xs as)
      | _ \<Rightarrow> False)"
| "matches_operation (AnClass c) v =
     (case v of
        VData d fs \<Rightarrow> d = c \<and>
          (case map_of dataclass_types c of
             None \<Rightarrow> False
           | Some hints \<Rightarrow> list_all (\<lambda>f.
               (case map_of hints (fst f) of None \<Rightarrow> False | Some h \<Rightarrow> matches_operation (fst h) (snd f))) fs)
      | _ \<Rightarrow> False)"
| "matches_operation a v = matches_annotation a v"
  by pat_completeness auto

lemma size_annotation_element: "a \<in> set as \<Longrightarrow> size a < Suc (size_list size as)"
  for as :: "annotation list"
  by (induction as) auto

termination matches_operation
  by (relation "measures [\<lambda>(a, v). size v, \<lambda>(a, v). size a]")
     (auto simp: size_annotation_element size_pv_element size_pv_field dest!: set_zip_leftD)

definition validate_operation_arguments :: "string \<Rightarrow> (string \<times> pv) list \<Rightarrow> unit res" where
  "validate_operation_arguments action args =
     bind_res (raise_if (\<not> List.member allowed_actions action) ValueError) (\<lambda>_.
     bind_res (getitem operation_signatures action) (\<lambda>ps.
     bind_res (as_value_error [TypeError]
       (bind_res (raise_if (\<not> list_all (\<lambda>kv. List.member (map fst ps) (fst kv)) args) TypeError) (\<lambda>_.
        map_res (bind_field args) ps))) (\<lambda>_.
     for_each ps (\<lambda>(n, a, _).
       case map_of args n of
         None \<Rightarrow> Inr ()
       | Some v \<Rightarrow> raise_if (\<not> matches_operation a v) ValueError))))"

subsection \<open>Operations\<close>

text \<open>
  The fields of a \<open>SemanticOperation\<close> that was not made by \<open>build\<close> may hold anything; its arguments are
  pairs of a name and a value.
\<close>

record SemanticOperation =
  op_id :: pv
  op_action :: pv
  op_arguments :: "(pv \<times> pv) list"

definition build_operation :: "pv \<Rightarrow> string \<Rightarrow> (string \<times> pv) list \<Rightarrow> SemanticOperation res" where
  "build_operation i action args =
     bind_res (raise_if (\<not> nonempty_str i) ValueError) (\<lambda>_.
     bind_res (require_explicit_replay_time action args) (\<lambda>_.
     bind_res (validate_operation_arguments action args) (\<lambda>_.
     Inr \<lparr>op_id = i, op_action = VStr action,
          op_arguments = map (\<lambda>kv. (VStr (fst kv), snd kv)) (sort_key fst args)\<rparr>)))"

definition op_kwargs :: "SemanticOperation \<Rightarrow> (pv \<times> pv) list res" where
  "op_kwargs o1 =
     bind_res (map_res (\<lambda>kv. bind_res (hashed (fst kv)) (\<lambda>k. Inr (k, snd kv))) (op_arguments o1)) (\<lambda>kvs.
     Inr (build_dict kvs))"

definition named_arguments :: "(pv \<times> pv) list \<Rightarrow> (string \<times> pv) list" where
  "named_arguments kvs = map (\<lambda>kv. (str_of (fst kv), snd kv)) kvs"

definition validated_operation_arguments :: "SemanticOperation \<Rightarrow> (string \<times> pv) list res" where
  "validated_operation_arguments o1 =
     bind_res (raise_if (\<not> nonempty_str (op_id o1)) ValueError) (\<lambda>_.
     bind_res (raise_if (\<not> is_VStr (op_action o1) \<or> \<not> List.member allowed_actions (str_of (op_action o1))) ValueError) (\<lambda>_.
     bind_res (as_value_error [TypeError, ValueError] (op_kwargs o1)) (\<lambda>kvs.
     bind_res (raise_if (length kvs \<noteq> length (op_arguments o1)) ValueError) (\<lambda>_.
     bind_res (raise_if (\<not> list_all (\<lambda>kv. is_VStr (fst kv)) kvs) ValueError) (\<lambda>_.
     let args = named_arguments kvs in
     bind_res (require_explicit_replay_time (str_of (op_action o1)) args) (\<lambda>_.
     bind_res (validate_operation_arguments (str_of (op_action o1)) args) (\<lambda>_. Inr args)))))))"

subsection \<open>Calling the method\<close>

text \<open>The arguments a method receives: those given, and the defaults of its signature.\<close>

definition bound_arguments :: "string \<Rightarrow> (string \<times> pv) list \<Rightarrow> (string \<times> pv) list" where
  "bound_arguments action args =
     (case map_of operation_signatures action of
        None \<Rightarrow> []
      | Some ps \<Rightarrow> map (\<lambda>(n, _, d). (n, case map_of args n of Some v \<Rightarrow> v | None \<Rightarrow> option_value (\<lambda>v. v) d)) ps)"

definition strings_of :: "pv \<Rightarrow> string list" where
  "strings_of v =
     (case v of VList xs \<Rightarrow> map str_of xs | VTuple xs \<Rightarrow> map str_of xs | VFrozenset xs \<Rightarrow> map str_of xs | _ \<Rightarrow> [])"

definition operation_of :: "string \<Rightarrow> (string \<times> pv) list \<Rightarrow> operation" where
  "operation_of action args =
     (let str = (\<lambda>n. str_of (field_of args n)); strs = (\<lambda>n. strings_of (field_of args n)) in
      if action = ''create_program'' then create_program_op (str ''id_'')
      else if action = ''set_program_status'' then
        set_program_status_op (str ''program_id'') (member_of program_statuses (field_of args ''status''))
      else if action = ''create_session'' then create_session_op (str ''id_'') (str ''program_id'')
      else if action = ''create_continuation'' then
        create_continuation_op (str ''id_'') (str ''session_id'') (strs ''parent_ids'')
          (member_of continuation_lifecycles (field_of args ''lifecycle''))
      else if action = ''set_continuation_lifecycle'' then
        set_continuation_lifecycle_op (str ''continuation_id'')
          (member_of continuation_lifecycles (field_of args ''lifecycle''))
      else if action = ''resume_after_wait'' then resume_after_wait_op (str ''waiting_id'') (str ''child_id'')
      else if action = ''create_request'' then create_request_op (str ''id_'') (str ''continuation_id'')
      else if action = ''start_attempt'' then start_attempt_op (str ''id_'') (str ''request_id'')
      else if action = ''set_attempt_execution'' then
        set_attempt_execution_op (str ''attempt_id'') (member_of execution_statuses (field_of args ''status''))
      else if action = ''complete_attempt'' then
        complete_attempt_op (str ''attempt_id'') (bool_of (field_of args ''succeeded''))
      else if action = ''create_phase'' then
        create_phase_op (str ''id_'') (str ''attempt_id'') (member_of phase_types (field_of args ''phase_type''))
          (option_of int_of (field_of args ''ordinal''))
      else if action = ''set_phase_status'' then
        set_phase_status_op (str ''phase_id'') (member_of phase_statuses (field_of args ''status''))
      else if action = ''complete_phase'' then complete_phase_op (str ''phase_id'')
      else if action = ''create_output'' then
        create_output_op (str ''id_'') (str ''attempt_id'') (bool_of (field_of args ''terminal'')) (strs ''evidence_ids'')
      else if action = ''finalize_request'' then
        finalize_request_op (str ''request_id'') (str ''output_id'') (option_of number_of (field_of args ''now''))
      else if action = ''create_state'' then
        create_state_op (str ''id_'') (str ''origin_type'') (str ''origin_id'') (str ''semantic_type'')
          (str ''representation'') (strs ''derived_from'')
      else if action = ''set_state_validity'' then
        set_state_validity_op (str ''state_id'') (member_of state_validities (field_of args ''validity''))
      else if action = ''add_replica'' then
        add_replica_op (str ''id_'') (str ''state_id'') (str ''location_id'')
          (member_of replica_statuses (field_of args ''status''))
      else if action = ''set_replica_status'' then
        set_replica_status_op (str ''replica_id'') (member_of replica_statuses (field_of args ''status''))
      else if action = ''propose_binding'' then
        propose_binding_op (str ''id_'') (str ''subject_id'') (str ''location_id'')
      else if action = ''activate_initial_binding'' then
        activate_initial_binding_op (str ''id_'') (str ''subject_id'') (str ''location_id'')
      else if action = ''begin_migration'' then begin_migration_op (str ''binding_id'')
      else if action = ''commit_migration'' then
        commit_migration_op (str ''binding_id'') (strs ''evidence_ids'') (option_of number_of (field_of args ''now''))
      else if action = ''record_evidence'' then
        record_evidence_op (evidence_of (entity_components (field_of args ''e'')))
      else record_event_op (event_of (entity_components (field_of args ''event''))))"

definition called_operation :: "SemanticOperation \<Rightarrow> (string \<times> pv) list \<Rightarrow> operation" where
  "called_operation o1 args = operation_of (str_of (op_action o1)) (bound_arguments (str_of (op_action o1)) args)"

definition apply_operation :: "rat \<Rightarrow> core \<Rightarrow> SemanticOperation \<Rightarrow> (core, unit) outcome" where
  "apply_operation clk g o1 =
     reads g (validated_operation_arguments o1) (\<lambda>args. exec clk g (called_operation o1 args))"

text \<open>
  \<open>operation.id in seen\<close> hashes the identifier, before it was validated; \<open>seen\<close> holds those of the
  operations that were applied.
\<close>

fun replay_loop :: "rat \<Rightarrow> pv list \<Rightarrow> core \<Rightarrow> SemanticOperation list \<Rightarrow> (core, unit) outcome" where
  "replay_loop clk seen g [] = (Inr (), g)"
| "replay_loop clk seen g (o1 # os) =
     reads g (hashed (op_id o1)) (\<lambda>i.
     reads g (raise_if (list_ex (hash_eq i) seen) ValueError) (\<lambda>_.
     calls (apply_operation clk g o1) (\<lambda>_ g'. replay_loop clk (i # seen) g' os)))"

definition replay_operations :: "rat \<Rightarrow> core \<Rightarrow> SemanticOperation list \<Rightarrow> (core, unit) outcome" where
  "replay_operations clk g os = replay_loop clk [] g os"

subsection \<open>Records\<close>

definition operation_trace_schema :: string where
  "operation_trace_schema = ''cadi.semantic-operation.v1''"

definition operation_to_record :: "float_repr \<Rightarrow> SemanticOperation \<Rightarrow> sjson res" where
  "operation_to_record rp o1 =
     bind_res (validated_operation_arguments o1) (\<lambda>args.
     bind_res (encode_value rp (VDict (map (\<lambda>kv. (VStr (fst kv), snd kv)) args))) (\<lambda>j.
     Inr (SObj [(''schema'', SStr operation_trace_schema), (''operation_id'', SStr (str_of (op_id o1))),
       (''action'', SStr (str_of (op_action o1))), (''arguments'', j)])))"

definition decode_operation_arguments :: "(string \<times> sjson) list \<Rightarrow> (string \<times> pv) list res" where
  "decode_operation_arguments items =
     bind_res (as_value_error [KeyError, TypeError, ValueError]
       (decode_value (case map_of items ''arguments'' of Some j \<Rightarrow> j | None \<Rightarrow> SObj [(''$dict'', SList [])]))) (\<lambda>v.
     case v of
       VDict kvs \<Rightarrow>
         if list_all (\<lambda>kv. is_VStr (fst kv)) kvs then Inr (named_arguments kvs) else Inl ValueError
     | _ \<Rightarrow> Inl ValueError)"

definition operation_from_record :: "sjson \<Rightarrow> SemanticOperation res" where
  "operation_from_record d =
     (case d of
        SObj items \<Rightarrow>
          if map_of items ''schema'' \<noteq> Some (SStr operation_trace_schema) then Inl ValueError
          else
            (case map_of items ''operation_id'' of
               Some (SStr i) \<Rightarrow>
                 if i = '''' then Inl ValueError
                 else
                   (case map_of items ''action'' of
                      Some (SStr action) \<Rightarrow>
                        if \<not> List.member allowed_actions action then Inl ValueError
                        else
                          bind_res (decode_operation_arguments items) (\<lambda>args.
                          bind_res (require_explicit_replay_time action args) (\<lambda>_.
                          bind_res (validate_operation_arguments action args) (\<lambda>_.
                          build_operation (VStr i) action args)))
                    | _ \<Rightarrow> Inl ValueError)
             | _ \<Rightarrow> Inl ValueError)
      | _ \<Rightarrow> Inl ValueError)"

text \<open>The identities of a trace are compared as they are read.\<close>

fun operations_from_documents :: "string list \<Rightarrow> sjson list \<Rightarrow> SemanticOperation list res" where
  "operations_from_documents seen [] = Inr []"
| "operations_from_documents seen (d # ds) =
     bind_res (operation_from_record d) (\<lambda>o1.
     bind_res (raise_if (List.member seen (str_of (op_id o1))) ValueError) (\<lambda>_.
     bind_res (operations_from_documents (str_of (op_id o1) # seen) ds) (\<lambda>os. Inr (o1 # os))))"

definition operations_to_jsonl :: "float_repr \<Rightarrow> SemanticOperation list \<Rightarrow> string res" where
  "operations_to_jsonl rp os =
     bind_res (map_res (\<lambda>o1. bind_res (operation_to_record rp o1) (\<lambda>r. Inr (canonical_json rp r))) os)
       (\<lambda>ls. Inr (jsonl_text ls))"

text \<open>\<open>replay_operation_jsonl\<close>, from the documents of the lines of the text.\<close>

definition replay_operation_documents :: "rat \<Rightarrow> core \<Rightarrow> sjson list \<Rightarrow> (core, unit) outcome" where
  "replay_operation_documents clk g ds =
     reads g (operations_from_documents [] ds) (\<lambda>os. replay_operations clk g os)"

subsection \<open>Replay does not read the clock\<close>

fun timed :: "operation \<Rightarrow> bool" where
  "timed (finalize_request_op r out now) = (now \<noteq> None)"
| "timed (commit_migration_op i es now) = (now \<noteq> None)"
| "timed op = True"

lemma require_timed: "require_evidence clk g a ids (Some n) sc m = require_evidence 0 g a ids (Some n) sc m"
  by (simp add: require_evidence_def resolve_now_def)

lemma methods_timed:
  "finalize_request clk g r out (Some n) = finalize_request 0 g r out (Some n)"
  "commit_migration clk g i es (Some n) = commit_migration 0 g i es (Some n)"
  unfolding finalize_request_def commit_migration_def require_timed [of clk] by (rule refl)+

lemma exec_timed: "timed op \<Longrightarrow> exec clk g op = exec clk' g op"
proof -
  have "timed op \<Longrightarrow> exec clk g op = exec 0 g op" for clk
    by (cases op) (auto simp: methods_timed [of clk])
  from this [of clk] this [of clk'] show "timed op \<Longrightarrow> exec clk g op = exec clk' g op" by simp
qed

lemma operation_of_timed:
  assumes "action \<in> {''finalize_request'', ''commit_migration''} \<Longrightarrow> field_of args ''now'' \<noteq> VNone"
  shows "timed (operation_of action args)"
proof (cases "action \<in> {''finalize_request'', ''commit_migration''}")
  case True
  with assms have "field_of args ''now'' \<noteq> VNone" by simp
  with True show ?thesis by (elim insertE emptyE) (simp_all add: operation_of_def option_of_def)
next
  case False
  then show ?thesis by (simp add: operation_of_def Let_def if_distrib [of timed])
qed

lemma timed_signatures:
  "map_of operation_signatures ''finalize_request'' =
     Some [(''request_id'', AnStr, None), (''output_id'', AnStr, None), (''now'', optional AnFloat, Some VNone)]"
  "map_of operation_signatures ''commit_migration'' =
     Some [(''binding_id'', AnStr, None), (''evidence_ids'', AnIterable AnStr, None), (''now'', optional AnFloat, Some VNone)]"
  by (simp_all add: operation_signatures_def)

lemma bound_now:
  assumes "action \<in> {''finalize_request'', ''commit_migration''}" and "map_of args ''now'' = Some v"
  shows "field_of (bound_arguments action args) ''now'' = v"
  using assms(1)
  by (elim insertE emptyE) (simp_all add: bound_arguments_def timed_signatures assms(2))

lemma validated_Inr:
  assumes "validated_operation_arguments o1 = Inr args"
  shows "require_explicit_replay_time (str_of (op_action o1)) args = Inr ()"
    and "validate_operation_arguments (str_of (op_action o1)) args = Inr ()"
  using assms by (auto simp: validated_operation_arguments_def bind_res_Inr Let_def)

lemma called_timed:
  assumes "validated_operation_arguments o1 = Inr args"
  shows "timed (called_operation o1 args)"
  unfolding called_operation_def
proof (rule operation_of_timed)
  assume action: "str_of (op_action o1) \<in> {''finalize_request'', ''commit_migration''}"
  with validated_Inr(1) [OF assms] have "has_key args ''now''" "field_of args ''now'' \<noteq> VNone"
    by (auto simp: require_explicit_replay_time_def has_key_Some)
  then obtain v where "map_of args ''now'' = Some v" "v \<noteq> VNone" by (auto simp: has_key_Some field_of_def)
  with bound_now [OF action] show "field_of (bound_arguments (str_of (op_action o1)) args) ''now'' \<noteq> VNone" by simp
qed

lemma apply_timed: "apply_operation clk g o1 = apply_operation clk' g o1"
proof (cases "validated_operation_arguments o1")
  case (Inr args)
  with exec_timed [OF called_timed [OF Inr]] show ?thesis by (simp add: apply_operation_def)
qed (simp add: apply_operation_def)

lemma replay_timed: "replay_loop clk seen g os = replay_loop clk' seen g os"
proof (induction os arbitrary: seen g)
  case (Cons o1 os)
  then show ?case by (simp only: replay_loop.simps apply_timed [of clk g o1 clk'])
qed simp

subsection \<open>Replay keeps the core sound\<close>

definition names_operation :: "SemanticOperation \<Rightarrow> bool" where
  "names_operation o1 \<longleftrightarrow>
     (case validated_operation_arguments o1 of Inl e \<Rightarrow> True | Inr args \<Rightarrow> names_ok (called_operation o1 args))"

lemma apply_reachable:
  assumes "reachable g" and "names_operation o1"
  shows "reachable (snd (apply_operation clk g o1))"
proof (cases "validated_operation_arguments o1")
  case (Inr args)
  then have "reachable (snd (exec clk g (called_operation o1 args)))"
    using assms by (auto simp: names_operation_def intro: reachable_step [OF _ _ surjective_pairing])
  with Inr show ?thesis by (simp add: apply_operation_def)
qed (use assms(1) in \<open>simp add: apply_operation_def\<close>)

lemma replay_reachable:
  "reachable g \<Longrightarrow> list_all names_operation os \<Longrightarrow> reachable (snd (replay_loop clk seen g os))"
proof (induction os arbitrary: seen g)
  case (Cons o1 os)
  have step: "reachable (snd (apply_operation clk g o1))" using Cons.prems by (intro apply_reachable) simp_all
  then have "reachable (snd (calls (apply_operation clk g o1) (\<lambda>_ g'. replay_loop clk (i # seen) g' os)))" for i
    using Cons.IH Cons.prems(2) by (cases "apply_operation clk g o1"; cases "fst (apply_operation clk g o1)") auto
  with Cons.prems(1) show ?case by (auto simp: reads_def raise_if_def split: sum.splits)
qed simp

subsection \<open>The round trip of a record\<close>

lemma matches_normal: "matches_operation a (normal_value v) = matches_operation a v"
proof (induction a v rule: matches_operation.induct)
  case (2 a v)
  then show ?case by (cases v) (auto simp: list_all_iff)
next
  case (3 a v)
  then show ?case by (cases v) auto
next
  case (4 as v)
  show ?case
  proof (cases v)
    case (VTuple xs)
    have "\<forall>p\<in>set (zip xs as). matches_operation (snd p) (normal_value (fst p)) = matches_operation (snd p) (fst p)"
      using 4 VTuple by simp
    with VTuple show ?thesis by (simp add: zip_map1 list_all_iff case_prod_beta)
  qed simp_all
next
  case (5 c v)
  show ?case
  proof (cases v)
    case (VData d fs)
    with 5 show ?thesis by (auto simp: list_all_iff split: option.splits)
  qed simp_all
qed ((case_tac v; auto simp: list_ex_iff)+)

text \<open>The checks look at the arguments as a mapping, and not at the order of their elements.\<close>

definition same_arguments :: "(string \<times> pv) list \<Rightarrow> (string \<times> pv) list \<Rightarrow> bool" where
  "same_arguments args args' \<longleftrightarrow>
     set (map fst args') = set (map fst args) \<and> (\<forall>n. map_of args' n = map_option normal_value (map_of args n))"

lemma same_time:
  "same_arguments args args' \<Longrightarrow> require_explicit_replay_time action args' = require_explicit_replay_time action args"
  by (auto simp: same_arguments_def require_explicit_replay_time_def field_of_def has_key_Some has_key_iff
      keys_of_def split: option.splits)

lemma bind_field_same:
  assumes "same_arguments args args'"
  shows "(case map_res (bind_field args') ps of Inl e \<Rightarrow> Some e | Inr _ \<Rightarrow> None) =
    (case map_res (bind_field args) ps of Inl e \<Rightarrow> Some e | Inr _ \<Rightarrow> None)"
proof (induction ps)
  case (Cons p ps)
  obtain n a d where "p = (n, a, d)" by (cases p)
  with Cons assms show ?case
    by (cases "map_of args n"; cases d) (auto simp: same_arguments_def bind_field_def bind_res_def split: sum.splits)
qed simp

lemma same_validated:
  assumes "same_arguments args args'" and ok: "validate_operation_arguments action args = Inr ()"
  shows "validate_operation_arguments action args' = Inr ()"
proof -
  from ok obtain ps fields where ps: "getitem operation_signatures action = Inr ps"
    and action: "List.member allowed_actions action"
    and known: "list_all (\<lambda>kv. List.member (map fst ps) (fst kv)) args"
    and bound: "map_res (bind_field args) ps = Inr fields"
    and types: "\<forall>(n, a, _)\<in>set ps. \<forall>v. map_of args n = Some v \<longrightarrow> matches_operation a v"
    by (auto simp: validate_operation_arguments_def bind_res_Inr for_each_Inr split: option.splits)
      (fastforce split: option.splits)
  from bind_field_same [OF assms(1), of ps] bound obtain fields' where "map_res (bind_field args') ps = Inr fields'"
    by (auto split: sum.splits)
  moreover have "list_all (\<lambda>kv. List.member (map fst ps) (fst kv)) args'"
  proof -
    have "fst ` set args' = fst ` set args" using assms(1) by (simp add: same_arguments_def)
    with known show ?thesis by (auto simp: list_all_iff) (metis fst_conv image_eqI imageE)
  qed
  moreover have "\<forall>(n, a, _)\<in>set ps. \<forall>v. map_of args' n = Some v \<longrightarrow> matches_operation a v"
    using types assms(1) by (auto simp: same_arguments_def matches_normal)
  ultimately show ?thesis
    using ps action by (auto simp: validate_operation_arguments_def bind_res_Inr for_each_Inr split: option.splits)
qed

lemma arguments_cong:
  assumes "map_of args' = map_of args"
  shows "validate_operation_arguments action args' = validate_operation_arguments action args"
    and "require_explicit_replay_time action args' = require_explicit_replay_time action args"
proof -
  have "fst ` set args' = fst ` set args" using assms by (metis dom_map_of_conv_image_fst)
  then have "list_all (\<lambda>kv. List.member ns (fst kv)) args' = list_all (\<lambda>kv. List.member ns (fst kv)) args" for ns
    by (auto simp: list_all_iff) (metis fst_conv image_eqI imageE)+
  moreover have "bind_field args' = bind_field args" using assms by (simp add: fun_eq_iff bind_field_def)
  ultimately show "validate_operation_arguments action args' = validate_operation_arguments action args"
    by (simp only: validate_operation_arguments_def assms)
  show "require_explicit_replay_time action args' = require_explicit_replay_time action args"
    by (simp add: require_explicit_replay_time_def field_of_def has_key_Some assms)
qed

abbreviation as_kwargs :: "(string \<times> pv) list \<Rightarrow> (pv \<times> pv) list" where
  "as_kwargs args \<equiv> map (\<lambda>kv. (VStr (fst kv), snd kv)) args"

lemma named_as_kwargs [simp]: "named_arguments (as_kwargs args) = args"
  by (simp add: named_arguments_def comp_def)

lemma distinct_as_kwargs: "distinct (map fst (as_kwargs args)) \<longleftrightarrow> distinct (map fst args)"
proof -
  have "map fst (as_kwargs args) = map VStr (map fst args)" by simp
  then show ?thesis by (simp only: distinct_map) (simp add: inj_on_def)
qed

lemma op_kwargs_ok:
  assumes "op_arguments o1 = as_kwargs args" and "distinct (map fst args)"
  shows "op_kwargs o1 = Inr (as_kwargs args)"
proof -
  have "map_res (\<lambda>kv. bind_res (hashed (fst kv)) (\<lambda>k. Inr (k, snd kv))) (as_kwargs args) = Inr (as_kwargs args)"
    unfolding map_res_map by (rule map_res_Inr) (simp add: hashed_def)
  moreover have "build_dict (as_kwargs args) = as_kwargs args"
    by (rule build_dict_distinct) (use assms(2) distinct_as_kwargs in \<open>simp_all add: list_all_iff\<close>)
  ultimately show ?thesis by (simp add: op_kwargs_def assms(1))
qed

lemma build_Inr:
  assumes "build_operation i action args = Inr o1" and "distinct (map fst args)"
  shows "validated_operation_arguments o1 = Inr (sort_key fst args)"
    and "nonempty_str i" "List.member allowed_actions action"
    and "o1 = \<lparr>op_id = i, op_action = VStr action, op_arguments = as_kwargs (sort_key fst args)\<rparr>"
proof -
  from assms(1) show i: "nonempty_str i" and o1: "o1 = \<lparr>op_id = i, op_action = VStr action, op_arguments = as_kwargs (sort_key fst args)\<rparr>"
    and action: "List.member allowed_actions action"
    by (auto simp: build_operation_def validate_operation_arguments_def bind_res_Inr)
  from assms(1) have "require_explicit_replay_time action args = Inr ()" "validate_operation_arguments action args = Inr ()"
    by (auto simp: build_operation_def bind_res_Inr)
  moreover have "op_kwargs o1 = Inr (as_kwargs (sort_key fst args))"
    by (rule op_kwargs_ok) (use assms(2) in \<open>simp_all add: o1 distinct_map\<close>)
  ultimately show "validated_operation_arguments o1 = Inr (sort_key fst args)"
    using i action arguments_cong [OF map_of_sort_key [OF assms(2), of fst], of action]
    by (simp add: validated_operation_arguments_def o1 as_value_error_def list_all_iff Let_def del: named_arguments_def)
qed

definition normal_operation :: "SemanticOperation \<Rightarrow> SemanticOperation" where
  "normal_operation o1 = o1\<lparr>op_arguments := map (\<lambda>kv. (fst kv, normal_value (snd kv))) (op_arguments o1)\<rparr>"

lemma operation_round_trip:
  assumes build: "build_operation i action args = Inr o1" and ser: "serializable (VDict (as_kwargs args))"
  shows "\<exists>r. operation_to_record rp o1 = Inr r \<and> operation_from_record (sorted_json r) = Inr (normal_operation o1)"
proof -
  have dist: "distinct (map fst args)" using ser distinct_as_kwargs by simp
  note o1 = build_Inr [OF build dist]
  from o1(2) obtain s where i: "i = VStr s" "s \<noteq> ''''" by (cases i) auto
  let ?sorted = "sort_key fst args"
  let ?v = "VDict (as_kwargs ?sorted)"
  have ser': "serializable ?v" using ser dist distinct_as_kwargs [of ?sorted] by (simp add: list_all_iff distinct_map)
  let ?r = "SObj [(''schema'', SStr operation_trace_schema), (''operation_id'', SStr s), (''action'', SStr action), (''arguments'', json_of rp ?v)]"
  have rec: "operation_to_record rp o1 = Inr ?r"
    using json_of_encoded [OF ser'] o1(1) by (simp add: operation_to_record_def o1(4) i del: encode_value.simps)
  let ?normal = "sort_key (\<lambda>kv. item_key (VStr (fst kv))) (map (\<lambda>kv. (fst kv, normal_value (snd kv))) ?sorted)"
  have "normal_value ?v = VDict (as_kwargs ?normal)"
    by (simp add: comp_def sort_key_map)
  then have dec: "decode_value (sorted_json (json_of rp ?v)) = Inr (VDict (as_kwargs ?normal))"
    using encode_decode [OF ser', of rp] by simp
  have dist': "distinct (map fst ?sorted)" using dist by (simp add: distinct_map)
  have map: "map_of (map (\<lambda>kv. (fst kv, normal_value (snd kv))) l) n = map_option normal_value (map_of l n)"
    for l :: "(string \<times> pv) list" and n by (induction l) auto
  have "map_of ?normal = map_of (map (\<lambda>kv. (fst kv, normal_value (snd kv))) ?sorted)"
    by (rule map_of_sort_key) (use dist' in \<open>simp add: comp_def\<close>)
  then have same: "same_arguments args ?normal"
    by (simp add: same_arguments_def map map_of_sort_key [OF dist] image_image)
  have "sort_key fst ?normal = map (\<lambda>kv. (fst kv, normal_value (snd kv))) ?sorted"
  proof (rule sort_key_inj_key_eq)
    show "inj_on fst (set ?normal)" using dist by (auto simp: inj_on_def distinct_map)
    have "map fst (map (\<lambda>kv. (fst kv, normal_value (snd kv))) ?sorted) = map fst ?sorted" by simp
    then show "sorted (map fst (map (\<lambda>kv. (fst kv, normal_value (snd kv))) ?sorted))"
      by (simp only: sorted_sort_key)
  qed simp
  then have norm: "\<lparr>op_id = VStr s, op_action = VStr action, op_arguments = as_kwargs (sort_key fst ?normal)\<rparr> = normal_operation o1"
    by (simp add: normal_operation_def o1(4) i comp_def)
  from build have time: "require_explicit_replay_time action args = Inr ()"
    and valid: "validate_operation_arguments action args = Inr ()"
    by (auto simp: build_operation_def bind_res_Inr)
  have "build_operation (VStr s) action ?normal = Inr (normal_operation o1)"
    using i(2) time same_time [OF same, of action] same_validated [OF same valid] norm
    by (simp add: build_operation_def)
  moreover have "sorted_json ?r = SObj [(''action'', SStr action), (''arguments'', sorted_json (json_of rp ?v)),
      (''operation_id'', SStr s), (''schema'', SStr operation_trace_schema)]"
    by simp
  moreover have "decode_operation_arguments [(''action'', SStr action), (''arguments'', sorted_json (json_of rp ?v)),
      (''operation_id'', SStr s), (''schema'', SStr operation_trace_schema)] = Inr ?normal"
    by (simp add: decode_operation_arguments_def dec as_value_error_def list_all_iff del: sorted_json.simps normal_value.simps)
  ultimately have "operation_from_record (sorted_json ?r) = Inr (normal_operation o1)"
    using i(2) o1(3) time same_time [OF same, of action] same_validated [OF same valid]
    by (simp add: operation_from_record_def)
  with rec show ?thesis by blast
qed

subsection \<open>Traces\<close>

text \<open>An operation that \<open>build\<close> gives back when it is called with its parts, which Python can hold.\<close>

definition built :: "SemanticOperation \<Rightarrow> bool" where
  "built o1 \<longleftrightarrow>
     build_operation (op_id o1) (str_of (op_action o1)) (named_arguments (op_arguments o1)) = Inr o1 \<and>
     serializable (VDict (as_kwargs (named_arguments (op_arguments o1))))"

lemma built_by_build:
  assumes build: "build_operation i action args = Inr o1" and ser: "serializable (VDict (as_kwargs args))"
  shows "built o1"
proof -
  have dist: "distinct (map fst args)" using ser distinct_as_kwargs by simp
  note o1 = build_Inr [OF build dist]
  have named: "named_arguments (op_arguments o1) = sort_key fst args" by (simp add: o1(4) del: named_arguments_def)
  have "serializable (VDict (as_kwargs (sort_key fst args)))"
    using ser dist distinct_as_kwargs [of "sort_key fst args"] by (simp add: list_all_iff distinct_map)
  moreover have "build_operation (op_id o1) (str_of (op_action o1)) (sort_key fst args) = Inr o1"
    using build arguments_cong [OF map_of_sort_key [OF dist, of fst], of action]
    by (simp add: build_operation_def bind_res_Inr o1(4) sort_key_id_if_sorted)
  ultimately show ?thesis by (simp only: built_def named)
qed

lemma built_round_trip:
  "built o1 \<Longrightarrow> \<exists>r. operation_to_record rp o1 = Inr r \<and> operation_from_record (sorted_json r) = Inr (normal_operation o1)"
  unfolding built_def using operation_round_trip by blast

lemma built_id: "built o1 \<Longrightarrow> \<exists>s. op_id o1 = VStr s"
proof -
  assume "built o1"
  then have "nonempty_str (op_id o1)" by (auto simp: built_def build_operation_def bind_res_Inr)
  then show ?thesis by (cases "op_id o1") auto
qed

lemma normal_operation_id [simp]: "op_id (normal_operation o1) = op_id o1"
  by (simp add: normal_operation_def)

lemma trace_read:
  assumes "list_all built os" and "distinct (map op_id os)" and "\<forall>o1\<in>set os. str_of (op_id o1) \<notin> set seen"
  shows "\<exists>docs. map_res (operation_to_record rp) os = Inr docs \<and>
    operations_from_documents seen (map sorted_json docs) = Inr (map normal_operation os)"
  using assms
proof (induction os arbitrary: seen)
  case (Cons o1 os)
  from Cons.prems(1) obtain r where r: "operation_to_record rp o1 = Inr r"
    "operation_from_record (sorted_json r) = Inr (normal_operation o1)" using built_round_trip by fastforce
  have "str_of (op_id o2) \<noteq> str_of (op_id o1)" if "o2 \<in> set os" for o2
  proof -
    have "op_id o2 \<noteq> op_id o1" using Cons.prems(2) that by (auto simp: image_iff)
    moreover have "built o1" "built o2" using Cons.prems(1) that by (auto simp: list_all_iff)
    ultimately show ?thesis using built_id [of o1] built_id [of o2] by auto
  qed
  with Cons obtain docs where "map_res (operation_to_record rp) os = Inr docs"
    "operations_from_documents (str_of (op_id o1) # seen) (map sorted_json docs) = Inr (map normal_operation os)"
    by (auto dest!: Cons.IH [of "str_of (op_id o1) # seen"])
  with r Cons.prems(3) show ?case by (intro exI [of _ "r # docs"]) simp
qed simp

text \<open>
  \<open>_decode_operation_arguments\<close> converts \<open>KeyError\<close>, \<open>TypeError\<close> and \<open>ValueError\<close>; an instance whose
  fields are not an object raises \<open>AttributeError\<close>, which escapes.
\<close>

lemma malformed_fields_escape:
  "operation_from_record (SObj [(''schema'', SStr operation_trace_schema), (''operation_id'', SStr ''op''),
     (''action'', SStr ''record_event''),
     (''arguments'', SObj [(''$dict'', SList [SList [SStr ''event'',
        SObj [(''$type'', SStr ''SemanticEvent''), (''fields'', SList [])]]])])]) = Inl AttributeError"
  by code_simp

end
