(* ===== verification/Serial_Properties.thy ===== *)
theory Serial_Properties
  imports Core_Properties Core_Replay
begin

section \<open>Properties of snapshots and event logs\<close>








definition witness_event :: "string \<Rightarrow> string \<Rightarrow> SemanticEvent" where
  "witness_event i k = \<lparr>sev_id = i, sev_kind = k, sev_subject_type = ''request'',
     sev_subject_id = ''r'', sev_payload = [(''x'', ''1''), (''w'', ''2'')]\<rparr>"



text \<open>C32. Restoring is safe on any document whatsoever: it either raises \<open>ValueError\<close> and nothing else, or
  returns a core the oracle accepts, in which every entity sits under its own identifier and no identifier is
  used twice.\<close>

theorem restore_rejects_or_accepts:
  "case restore_core sv d of
     Inl e \<Rightarrow> e = ValueError
   | Inr g \<Rightarrow> assert_all sv g = Inr () \<and> ids_ok g"
proof (cases "restore_core sv d")
  case (Inr g)
  then have "assert_all sv g = Inr ()" using restore_accepted by blast
  moreover from this have "ids_ok g" by (simp add: assert_all_def global_identity_uniqueness_iff)
  ultimately show ?thesis using Inr by simp
qed (use restore_error in simp)

text \<open>A character that \<open>json.dumps\<close> leaves in a string and \<open>str.splitlines\<close> breaks at: a log that holds it is
  written as one line and read as two.\<close>

lemma next_line_breaks_record:
  "case events_to_jsonl (\<lambda>r. '''') [Inr (witness_event ''a'' [CHR ''x'', CHR 0x85, CHR ''y''])] of
     Inr t \<Rightarrow> length (jsonl_lines t) = 2
   | Inl e \<Rightarrow> False"
  by code_simp

subsection \<open>Operation traces\<close>


definition trace_operation :: "string \<Rightarrow> string \<Rightarrow> (string \<times> pv) list \<Rightarrow> SemanticOperation" where
  "trace_operation i action args = \<lparr>op_id = VStr i, op_action = VStr action, op_arguments = as_kwargs args\<rparr>"

definition witness_trace :: "SemanticOperation list" where
  "witness_trace =
     [trace_operation ''o1'' ''create_program'' [(''id_'', VStr ''p'')],
      trace_operation ''o2'' ''create_session'' [(''id_'', VStr ''s''), (''program_id'', VStr ''p'')],
      trace_operation ''o3'' ''create_continuation''
        [(''id_'', VStr ''c''), (''parent_ids'', VFrozenset []), (''session_id'', VStr ''s'')],
      trace_operation ''o4'' ''record_event''
        [(''event'', VData ''SemanticEvent'' (event_fields (witness_event ''e'' ''done'')))]]"


text \<open>Replaying does not read the clock: the outcome of any trace is the same whatever the clock says.\<close>

theorem replay_ignores_clock:
  "replay_operations clk g os = replay_operations clk' g os"
  unfolding replay_operations_def by (rule replay_timed)

text \<open>C25. A trace survives as records: the records of operations that were built, with distinct identities,
  are written without failure, and reading them back gives the same operations with the same arguments, sets
  and dictionaries in canonical order.\<close>

theorem trace_round_trip:
  assumes "list_all built os" and "distinct (map op_id os)"
  shows "\<exists>docs. map_res (operation_to_record rp) os = Inr docs \<and>
    operations_from_documents [] (map sorted_json docs) = Inr (map normal_operation os)"
  by (rule trace_read [OF assms]) simp

lemma trace_round_trip_witness:
  "\<exists>docs. map_res (operation_to_record (\<lambda>r. '''')) witness_trace = Inr docs \<and> length docs = 4 \<and>
     operations_from_documents [] (map sorted_json docs) = Inr (map normal_operation witness_trace)"
proof -
  have "list_all built witness_trace" by code_simp
  moreover have "distinct (map op_id witness_trace)" by code_simp
  ultimately obtain docs where docs: "map_res (operation_to_record (\<lambda>r. '''')) witness_trace = Inr docs"
    "operations_from_documents [] (map sorted_json docs) = Inr (map normal_operation witness_trace)"
    using trace_round_trip by blast
  have "case map_res (operation_to_record (\<lambda>r. '''')) witness_trace of Inr ds \<Rightarrow> length ds = 4 | Inl e \<Rightarrow> False" by code_simp
  with docs show ?thesis by auto
qed

end
