(* ===== verification/Sim_Adapter.thy ===== *)
theory Sim_Adapter
  imports Serial_Errors Sim_Resources
begin

section \<open>The semantic adapter: the core driven by simulated deliveries\<close>

text \<open>
  \<open>simulator/semantic_adapter.py\<close>. The adapter registers handlers for nine kinds of events on the
  engine; each delivers what the event reports to the semantic core through its public methods, runs
  the oracle, compares the fingerprints before and after, and writes a record. Its state is the core,
  the records, the retries it scheduled and the times of success; what it is given besides is the
  user's validity predicate, the decimal form of floats and the digest (\<open>adapter_env\<close>).
\<close>

datatype AdapterOutcome = APPLIED | IDEMPOTENT | REJECTED | IGNORED

record SemanticActionRecord =
  sar_sim_time :: rat
  sar_event_id :: string
  sar_event_kind :: EventKind
  sar_operation :: string
  sar_outcome :: AdapterOutcome
  sar_result_id :: "string option"
  sar_error_type :: "py_error option"
  sar_fingerprint :: string

record adapter =
  ad_core :: core
  ad_records :: "SemanticActionRecord list"
  ad_scheduled_retries :: "string list"
  ad_success_times :: "rat dict"

record adapter_env =
  env_validity :: semantic_validity
  env_repr :: float_repr
  env_digest :: "string \<Rightarrow> string"

type_synonym 'h astate = "'h sim \<times> adapter"

subsection \<open>Records\<close>

definition fingerprint :: "adapter_env \<Rightarrow> core \<Rightarrow> string res" where
  "fingerprint V g = snapshot_fingerprint (env_repr V) (env_digest V) g"

definition append_record ::
  "SimEvent \<Rightarrow> string \<Rightarrow> AdapterOutcome \<Rightarrow> string option \<Rightarrow> py_error option \<Rightarrow> string \<Rightarrow> 'h astate \<Rightarrow> 'h astate" where
  "append_record ev operation result result_id error fp st =
     (fst st, (snd st)\<lparr>ad_records := ad_records (snd st) @
       [\<lparr>sar_sim_time = sim_now (fst st), sar_event_id = SimEvent.ev_id ev, sar_event_kind = ev_kind ev,
         sar_operation = operation, sar_outcome = result, sar_result_id = result_id, sar_error_type = error,
         sar_fingerprint = fp\<rparr>]\<rparr>)"

definition note_action ::
  "adapter_env \<Rightarrow> SimEvent \<Rightarrow> string \<Rightarrow> AdapterOutcome \<Rightarrow> string option \<Rightarrow> py_error option \<Rightarrow> 'h astate \<Rightarrow>
   ('h astate, unit) outcome" where
  "note_action V ev operation result result_id error st =
     reads st (assert_all (env_validity V) (ad_core (snd st))) (\<lambda>_.
     reads st (fingerprint V (ad_core (snd st))) (\<lambda>fp.
     (Inr (), append_record ev operation result result_id error fp st)))"

definition put_core :: "core \<Rightarrow> 'h astate \<Rightarrow> 'h astate" where
  "put_core g st = (fst st, (snd st)\<lparr>ad_core := g\<rparr>)"

definition continuity_error :: "py_error \<Rightarrow> bool" where
  "continuity_error e \<longleftrightarrow> List.member [InvalidTransition, InsufficientEvidence, SemanticViolation] e"

text \<open>\<open>_apply\<close>: the result is the identifier of what the call returned, or \<open>None\<close> if it was rejected.\<close>

definition apply_call ::
  "adapter_env \<Rightarrow> SimEvent \<Rightarrow> string \<Rightarrow> (core \<Rightarrow> (core, string) outcome) \<Rightarrow> 'h astate \<Rightarrow>
   ('h astate, string option) outcome" where
  "apply_call V ev operation call st =
     reads st (fingerprint V (ad_core (snd st))) (\<lambda>before.
     case call (ad_core (snd st)) of
       (r, g) \<Rightarrow>
         let st1 = put_core g st in
         (case r of
            Inl e \<Rightarrow>
              if continuity_error e \<or> e = KeyError then
                reads st1 (assert_all (env_validity V) g) (\<lambda>_.
                reads st1 (fingerprint V g) (\<lambda>after.
                if after \<noteq> before then (Inl AssertionError, st1)
                else (Inr None, append_record ev operation REJECTED None (Some e) after st1)))
              else (Inl e, st1)
          | Inr i \<Rightarrow>
              reads st1 (assert_all (env_validity V) g) (\<lambda>_.
              reads st1 (fingerprint V g) (\<lambda>after.
              (Inr (Some i),
               append_record ev operation (if after = before then IDEMPOTENT else APPLIED) (Some i) None after st1)))))"

definition result_of :: "('v \<Rightarrow> string) \<Rightarrow> (core, 'v) outcome \<Rightarrow> (core, string) outcome" where
  "result_of f out = calls out (\<lambda>x g. (Inr (f x), g))"

subsection \<open>Payloads\<close>

text \<open>\<open>_payload\<close>: the fields a handler needs, each a string that is not empty.\<close>

definition payload_strings :: "SimEvent \<Rightarrow> string list \<Rightarrow> string dict res" where
  "payload_strings ev required =
     bind_res (raise_if (\<not> list_all (has_key (ev_payload ev)) required) AdapterInputError) (\<lambda>_.
     map_res (\<lambda>n. case map_of (ev_payload ev) n of
                   Some (PStr s) \<Rightarrow> if s = '''' then Inl AdapterInputError else Inr (n, s)
                 | _ \<Rightarrow> Inl AdapterInputError) required)"

definition item :: "string dict \<Rightarrow> string \<Rightarrow> string" where
  "item p n = (case map_of p n of Some s \<Rightarrow> s | None \<Rightarrow> '''')"

definition adapter_number :: "pyval \<Rightarrow> rat res" where
  "adapter_number v =
     (case finite_number v of Inl _ \<Rightarrow> Inl ValueError | Inr r \<Rightarrow> if r < 0 then Inl ValueError else Inr r)"

definition event_nonnegative_float :: "SimEvent \<Rightarrow> string \<Rightarrow> rat res" where
  "event_nonnegative_float ev n =
     (case map_of (ev_payload ev) n of
        None \<Rightarrow> Inl AdapterInputError
      | Some v \<Rightarrow> (case adapter_number v of Inl _ \<Rightarrow> Inl AdapterInputError | Inr r \<Rightarrow> Inr r))"

subsection \<open>Deliveries\<close>

definition on_request_created :: "adapter_env \<Rightarrow> SimEvent \<Rightarrow> 'h astate \<Rightarrow> ('h astate, unit) outcome" where
  "on_request_created V ev st =
     reads st (payload_strings ev [''request_id'', ''continuation_id'']) (\<lambda>p.
     calls (apply_call V ev ''create_request''
       (\<lambda>g. result_of req_id (create_request g (item p ''request_id'') (item p ''continuation_id''))) st) (\<lambda>_ st1.
     (Inr (), st1)))"

text \<open>The two calls by which an attempt begins, in \<open>_on_attempt_started\<close> and \<open>_on_retry_started\<close>.\<close>

definition begin_attempt :: "adapter_env \<Rightarrow> SimEvent \<Rightarrow> string \<Rightarrow> string \<Rightarrow> 'h astate \<Rightarrow> ('h astate, unit) outcome" where
  "begin_attempt V ev attempt_id request_id st =
     calls (apply_call V ev ''start_attempt'' (\<lambda>g. result_of att_id (start_attempt g attempt_id request_id)) st) (\<lambda>attempt st1.
     if attempt = None then (Inr (), st1)
     else
       calls (apply_call V ev ''set_attempt_execution:RUNNING''
         (\<lambda>g. result_of att_id (set_attempt_execution g attempt_id ExecutionStatus.RUNNING)) st1) (\<lambda>_ st2. (Inr (), st2)))"

definition on_attempt_started :: "adapter_env \<Rightarrow> SimEvent \<Rightarrow> 'h astate \<Rightarrow> ('h astate, unit) outcome" where
  "on_attempt_started V ev st =
     reads st (payload_strings ev [''request_id'', ''attempt_id'']) (\<lambda>p.
     begin_attempt V ev (item p ''attempt_id'') (item p ''request_id'') st)"

text \<open>Whether a timeout or a retry still concerns the request's current attempt.\<close>

definition when_current ::
  "adapter_env \<Rightarrow> SimEvent \<Rightarrow> string \<Rightarrow> string \<Rightarrow> string \<Rightarrow> ('h astate \<Rightarrow> ('h astate, unit) outcome) \<Rightarrow> 'h astate \<Rightarrow>
   ('h astate, unit) outcome" where
  "when_current V ev operation request_id attempt_id go st =
     (case map_of (requests (ad_core (snd st))) request_id of
        None \<Rightarrow> note_action V ev operation REJECTED None (Some AdapterInputError) st
      | Some r \<Rightarrow>
          if req_status r \<in> {RequestStatus.COMPLETED, RequestStatus.FAILED, RequestStatus.CANCELLED}
          then note_action V ev operation IGNORED None None st
          else if req_current_attempt_id r \<noteq> Some attempt_id
          then note_action V ev operation IGNORED None None st
          else go st)"

definition put_retries :: "string list \<Rightarrow> 'h astate \<Rightarrow> 'h astate" where
  "put_retries rs st = (fst st, (snd st)\<lparr>ad_scheduled_retries := rs\<rparr>)"

definition schedule_retry :: "adapter_env \<Rightarrow> SimEvent \<Rightarrow> string dict \<Rightarrow> 'h astate \<Rightarrow> ('h astate, unit) outcome" where
  "schedule_retry V ev p st =
     (let retry = item p ''retry_attempt_id''; rs = ad_scheduled_retries (snd st) in
      if List.member rs retry then note_action V ev ''timeout_retry_eligibility'' IGNORED None None st
      else
        (case sched (put_retries (retry # rs) st) RETRY_STARTED (PInt 0)
                (PStr (''retry-start:'' @ retry @ '':from:'' @ SimEvent.ev_id ev))
                (str_payload [(''request_id'', item p ''request_id''),
                  (''superseded_attempt_id'', item p ''timed_out_attempt_id''), (''retry_attempt_id'', retry)]) of
           (Inl e, st1) \<Rightarrow> (Inl e, put_retries (removeAll retry (ad_scheduled_retries (snd st1))) st1)
         | (Inr _, st1) \<Rightarrow> note_action V ev ''schedule_retry'' APPLIED None None st1))"

definition on_attempt_timeout :: "adapter_env \<Rightarrow> SimEvent \<Rightarrow> 'h astate \<Rightarrow> ('h astate, unit) outcome" where
  "on_attempt_timeout V ev st =
     reads st (payload_strings ev [''request_id'', ''timed_out_attempt_id'', ''retry_attempt_id'']) (\<lambda>p.
     when_current V ev ''timeout_retry_eligibility'' (item p ''request_id'') (item p ''timed_out_attempt_id'')
       (schedule_retry V ev p) st)"

definition on_retry_started :: "adapter_env \<Rightarrow> SimEvent \<Rightarrow> 'h astate \<Rightarrow> ('h astate, unit) outcome" where
  "on_retry_started V ev st =
     reads st (payload_strings ev [''request_id'', ''superseded_attempt_id'', ''retry_attempt_id'']) (\<lambda>p.
     when_current V ev ''retry_eligibility'' (item p ''request_id'') (item p ''superseded_attempt_id'')
       (begin_attempt V ev (item p ''retry_attempt_id'') (item p ''request_id'')) st)"

text \<open>\<open>setdefault\<close>: the first delivered success of an attempt is its time of success.\<close>

definition note_success :: "string \<Rightarrow> 'h astate \<Rightarrow> 'h astate" where
  "note_success i st =
     (if has_key (ad_success_times (snd st)) i then st
      else (fst st, (snd st)\<lparr>ad_success_times := setitem i (sim_now (fst st)) (ad_success_times (snd st))\<rparr>))"

definition on_attempt_completed :: "adapter_env \<Rightarrow> SimEvent \<Rightarrow> 'h astate \<Rightarrow> ('h astate, unit) outcome" where
  "on_attempt_completed V ev st =
     reads st (payload_strings ev [''attempt_id'']) (\<lambda>p.
     let i = item p ''attempt_id'';
         already = (case map_of (attempts (ad_core (snd st))) i of
                      None \<Rightarrow> False | Some a \<Rightarrow> att_execution_status a = ExecutionStatus.SUCCEEDED) in
     calls (apply_call V ev ''complete_attempt:SUCCEEDED'' (\<lambda>g. result_of att_id (complete_attempt g i True)) st)
       (\<lambda>result st1. (Inr (), if result \<noteq> None \<and> \<not> already then note_success i st1 else st1)))"

definition on_attempt_failed :: "adapter_env \<Rightarrow> SimEvent \<Rightarrow> 'h astate \<Rightarrow> ('h astate, unit) outcome" where
  "on_attempt_failed V ev st =
     reads st (payload_strings ev [''attempt_id'']) (\<lambda>p.
     calls (apply_call V ev ''complete_attempt:FAILED''
       (\<lambda>g. result_of att_id (complete_attempt g (item p ''attempt_id'') False)) st) (\<lambda>_ st1. (Inr (), st1)))"

definition terminal_evidence :: "string \<Rightarrow> string \<Rightarrow> rat \<Rightarrow> Evidence" where
  "terminal_evidence attempt_id evidence_id observed_at =
     \<lparr>Evidence.ev_id = evidence_id, ev_claim = ''terminal_attempt_success'', ev_source = ''c2.semantic_adapter'',
      ev_authority = EXACT_OBSERVATION, ev_status = EvidenceStatus.VALID, ev_observed_at = observed_at,
      ev_scope = [(''attempt'', attempt_id)], ev_valid_until = None, ev_confidence = None, ev_derived_from = [],
      ev_derivation_rule = None, ev_claim_key = None, ev_claim_value = None\<rparr>"

definition ensure_terminal_evidence ::
  "adapter_env \<Rightarrow> SimEvent \<Rightarrow> string \<Rightarrow> string \<Rightarrow> rat \<Rightarrow> 'h astate \<Rightarrow> ('h astate, unit) outcome" where
  "ensure_terminal_evidence V ev attempt_id evidence_id observed_at st =
     reads st (evidence_post_init (terminal_evidence attempt_id evidence_id observed_at)) (\<lambda>expected.
     case map_of (evidence (ad_core (snd st))) evidence_id of
       Some existing \<Rightarrow>
         if \<not> evidence_eq existing expected then (Inl SemanticViolation, st)
         else note_action V ev ''record_evidence'' IDEMPOTENT (Some evidence_id) None st
     | None \<Rightarrow>
         calls (apply_call V ev ''record_evidence'' (\<lambda>g. result_of Evidence.ev_id (record_evidence g expected)) st)
           (\<lambda>_ st1. (Inr (), st1)))"

definition ensure_terminal_output ::
  "adapter_env \<Rightarrow> SimEvent \<Rightarrow> string \<Rightarrow> string \<Rightarrow> string \<Rightarrow> 'h astate \<Rightarrow> ('h astate, unit) outcome" where
  "ensure_terminal_output V ev attempt_id evidence_id output_id st =
     (case map_of (outputs (ad_core (snd st))) output_id of
       Some existing \<Rightarrow>
         if \<not> output_eq existing \<lparr>out_id = output_id, out_attempt_id = attempt_id, out_terminal = True,
              out_evidence_ids = [evidence_id]\<rparr>
         then (Inl SemanticViolation, st)
         else note_action V ev ''create_output'' IDEMPOTENT (Some output_id) None st
     | None \<Rightarrow>
         calls (apply_call V ev ''create_output''
           (\<lambda>g. result_of out_id (create_output g output_id attempt_id True [evidence_id])) st) (\<lambda>_ st1. (Inr (), st1)))"

text \<open>
  The guards of \<open>_on_observation\<close>, in their order: the operation that is recorded as rejected, with the
  type of the error, or \<open>None\<close> if the observation is to be used.
\<close>

definition observation_refused :: "string dict \<Rightarrow> rat \<Rightarrow> 'h astate \<Rightarrow> (string \<times> py_error) option" where
  "observation_refused p observed_at st =
     (if observed_at > sim_now (fst st) then Some (''observation_timestamp'', AdapterInputError)
      else
        case map_of (attempts (ad_core (snd st))) (item p ''attempt_id'') of
          None \<Rightarrow> Some (''observe_terminal_attempt'', AdapterInputError)
        | Some a \<Rightarrow>
            if att_request_id a \<noteq> item p ''request_id'' then Some (''observe_terminal_attempt'', AdapterInputError)
            else if att_execution_status a \<noteq> ExecutionStatus.SUCCEEDED
            then Some (''observe_terminal_attempt'', SemanticViolation)
            else
              case map_of (ad_success_times (snd st)) (item p ''attempt_id'') of
                None \<Rightarrow> None
              | Some t \<Rightarrow> if observed_at < t then Some (''observation_timestamp'', AdapterInputError) else None)"

text \<open>
  What an accepted observation does. \<open>finalize_request\<close> is given the time, so it does not read the
  clock, for which any number may stand.
\<close>

definition use_observation ::
  "adapter_env \<Rightarrow> SimEvent \<Rightarrow> string dict \<Rightarrow> rat \<Rightarrow> 'h astate \<Rightarrow> ('h astate, unit) outcome" where
  "use_observation V ev p observed_at st =
     (case calls (ensure_terminal_evidence V ev (item p ''attempt_id'') (item p ''evidence_id'') observed_at st)
             (\<lambda>_. ensure_terminal_output V ev (item p ''attempt_id'') (item p ''evidence_id'') (item p ''output_id'')) of
        (Inl e, st1) \<Rightarrow>
          if continuity_error e then note_action V ev ''observation_identity'' REJECTED None (Some e) st1
          else (Inl e, st1)
      | (Inr _, st1) \<Rightarrow>
          calls (apply_call V ev ''finalize_request''
            (\<lambda>g. result_of req_id (finalize_request 0 g (item p ''request_id'') (item p ''output_id'')
                (Some (sim_now (fst st1))))) st1) (\<lambda>_ st2. (Inr (), st2)))"

definition on_observation :: "adapter_env \<Rightarrow> SimEvent \<Rightarrow> 'h astate \<Rightarrow> ('h astate, unit) outcome" where
  "on_observation V ev st =
     reads st (payload_strings ev [''request_id'', ''attempt_id'', ''evidence_id'', ''output_id'']) (\<lambda>p.
     reads st (event_nonnegative_float ev ''observed_at'') (\<lambda>observed_at.
     case observation_refused p observed_at st of
       Some (operation, e) \<Rightarrow> note_action V ev operation REJECTED None (Some e) st
     | None \<Rightarrow> use_observation V ev p observed_at st))"

subsection \<open>Registration\<close>

datatype adapter_handler =
    OnRequestCreated | OnAttemptStarted | OnAttemptTimeout | OnRetryStarted | OnAttemptCompleted
  | OnAttemptFailed | OnObservation

fun adapter_handle :: "adapter_env \<Rightarrow> adapter_handler \<Rightarrow> SimEvent \<Rightarrow> 'h astate \<Rightarrow> ('h astate, unit) outcome" where
  "adapter_handle V OnRequestCreated = on_request_created V"
| "adapter_handle V OnAttemptStarted = on_attempt_started V"
| "adapter_handle V OnAttemptTimeout = on_attempt_timeout V"
| "adapter_handle V OnRetryStarted = on_retry_started V"
| "adapter_handle V OnAttemptCompleted = on_attempt_completed V"
| "adapter_handle V OnAttemptFailed = on_attempt_failed V"
| "adapter_handle V OnObservation = on_observation V"

text \<open>\<open>deliver\<close>, the closure that is registered: input errors are recorded, not raised.\<close>

definition deliver :: "adapter_env \<Rightarrow> adapter_handler \<Rightarrow> SimEvent \<Rightarrow> 'h astate \<Rightarrow> ('h astate, unit) outcome" where
  "deliver V h ev st =
     (case adapter_handle V h ev st of
        (Inl e, st1) \<Rightarrow>
          if e = AdapterInputError then note_action V ev ''event_validation'' REJECTED None (Some e) st1
          else (Inl e, st1)
      | (Inr _, st1) \<Rightarrow> (Inr (), st1))"

definition adapter_registrations :: "(EventKind \<times> adapter_handler) list" where
  "adapter_registrations =
     [(REQUEST_CREATED, OnRequestCreated), (ATTEMPT_STARTED, OnAttemptStarted),
      (ATTEMPT_TIMEOUT, OnAttemptTimeout), (RETRY_STARTED, OnRetryStarted),
      (ATTEMPT_COMPLETED, OnAttemptCompleted), (LATE_RESULT, OnAttemptCompleted),
      (ATTEMPT_FAILED, OnAttemptFailed), (OBSERVATION_CREATED, OnObservation),
      (OBSERVATION_DUPLICATED, OnObservation)]"

definition new_adapter ::
  "adapter_env \<Rightarrow> adapter_handler sim \<Rightarrow> core \<Rightarrow> (adapter_handler astate, unit) outcome" where
  "new_adapter V s g =
     (let st = (fold (\<lambda>(k, h) t. register_handler t k h) adapter_registrations s,
                \<lparr>ad_core = g, ad_records = [], ad_scheduled_retries = [], ad_success_times = []\<rparr>) in
      reads st (assert_all (env_validity V) g) (\<lambda>_. (Inr (), st)))"

subsection \<open>Scheduling deliveries\<close>

definition adapter_id :: "pyval \<Rightarrow> string res" where
  "adapter_id v = (case v of PStr s \<Rightarrow> if s = '''' then Inl ValueError else Inr s | _ \<Rightarrow> Inl ValueError)"

text \<open>\<open>event_id or f"..."\<close>, and the call of \<open>simulator.schedule\<close> all the methods end with.\<close>

definition event_id_or :: "string option \<Rightarrow> string \<Rightarrow> pyval" where
  "event_id_or i generated = PStr (case i of None \<Rightarrow> generated | Some t \<Rightarrow> if t = '''' then generated else t)"

definition sched_at ::
  "'h astate \<Rightarrow> EventKind \<Rightarrow> pyval \<Rightarrow> pyval \<Rightarrow> pyval \<Rightarrow> ('h astate, SimEvent) outcome" where
  "sched_at st kind at_time i p =
     (case schedule (fst st) kind at_time PNone i p of (r, s) \<Rightarrow> (r, (s, snd st)))"

definition schedule_request ::
  "pyval \<Rightarrow> pyval \<Rightarrow> pyval \<Rightarrow> string option \<Rightarrow> 'h astate \<Rightarrow> ('h astate, SimEvent) outcome" where
  "schedule_request request_id continuation_id at_time event_id st =
     reads st (adapter_id request_id) (\<lambda>r.
     reads st (adapter_id continuation_id) (\<lambda>c.
     sched_at st REQUEST_CREATED at_time (event_id_or event_id (''request:'' @ r))
       (str_payload [(''request_id'', r), (''continuation_id'', c)])))"

definition schedule_attempt_start ::
  "pyval \<Rightarrow> pyval \<Rightarrow> pyval \<Rightarrow> string option \<Rightarrow> 'h astate \<Rightarrow> ('h astate, SimEvent) outcome" where
  "schedule_attempt_start request_id attempt_id at_time event_id st =
     reads st (adapter_id request_id) (\<lambda>r.
     reads st (adapter_id attempt_id) (\<lambda>a.
     sched_at st ATTEMPT_STARTED at_time (event_id_or event_id (''attempt-start:'' @ a))
       (str_payload [(''request_id'', r), (''attempt_id'', a)])))"

definition schedule_timeout ::
  "pyval \<Rightarrow> pyval \<Rightarrow> pyval \<Rightarrow> pyval \<Rightarrow> string option \<Rightarrow> 'h astate \<Rightarrow> ('h astate, SimEvent) outcome" where
  "schedule_timeout request_id timed_out_attempt_id retry_attempt_id at_time event_id st =
     reads st (map_res adapter_id [request_id, timed_out_attempt_id, retry_attempt_id]) (\<lambda>is.
     let r = is ! 0; t = is ! 1; a = is ! 2 in
     reads st (raise_if (a = t) ValueError) (\<lambda>_.
     sched_at st ATTEMPT_TIMEOUT at_time (event_id_or event_id (''attempt-timeout:'' @ t @ '':'' @ a))
       (str_payload [(''request_id'', r), (''timed_out_attempt_id'', t), (''retry_attempt_id'', a)])))"

definition schedule_retry_start ::
  "pyval \<Rightarrow> pyval \<Rightarrow> pyval \<Rightarrow> pyval \<Rightarrow> string option \<Rightarrow> 'h astate \<Rightarrow> ('h astate, SimEvent) outcome" where
  "schedule_retry_start request_id superseded_attempt_id retry_attempt_id at_time event_id st =
     reads st (map_res adapter_id [request_id, superseded_attempt_id, retry_attempt_id]) (\<lambda>is.
     let r = is ! 0; t = is ! 1; a = is ! 2 in
     reads st (raise_if (a = t) ValueError) (\<lambda>_.
     sched_at st RETRY_STARTED at_time (event_id_or event_id (''retry-start:'' @ a))
       (str_payload [(''request_id'', r), (''superseded_attempt_id'', t), (''retry_attempt_id'', a)])))"

definition schedule_attempt_completion ::
  "pyval \<Rightarrow> pyval \<Rightarrow> bool \<Rightarrow> string option \<Rightarrow> 'h astate \<Rightarrow> ('h astate, SimEvent) outcome" where
  "schedule_attempt_completion attempt_id at_time late event_id st =
     reads st (adapter_id attempt_id) (\<lambda>a.
     sched_at st (if late then LATE_RESULT else ATTEMPT_COMPLETED) at_time
       (event_id_or event_id ((if late then ''late-result'' else ''attempt-complete'') @ '':'' @ a))
       (str_payload [(''attempt_id'', a)]))"

definition schedule_attempt_failure ::
  "pyval \<Rightarrow> pyval \<Rightarrow> string option \<Rightarrow> 'h astate \<Rightarrow> ('h astate, SimEvent) outcome" where
  "schedule_attempt_failure attempt_id at_time event_id st =
     reads st (adapter_id attempt_id) (\<lambda>a.
     sched_at st ATTEMPT_FAILED at_time (event_id_or event_id (''attempt-failed:'' @ a))
       (str_payload [(''attempt_id'', a)]))"

definition schedule_observation ::
  "pyval \<Rightarrow> pyval \<Rightarrow> pyval \<Rightarrow> pyval \<Rightarrow> pyval \<Rightarrow> pyval \<Rightarrow> bool \<Rightarrow> string option \<Rightarrow> 'h astate \<Rightarrow>
   ('h astate, SimEvent) outcome" where
  "schedule_observation request_id attempt_id evidence_id output_id at_time observed_at duplicated event_id st =
     reads st (map_res adapter_id [request_id, attempt_id, evidence_id, output_id]) (\<lambda>is.
     let r = is ! 0; a = is ! 1; e = is ! 2; out = is ! 3 in
     reads st (adapter_number at_time) (\<lambda>delivery.
     reads st (if observed_at = PNone then Inr delivery else adapter_number observed_at) (\<lambda>observation.
     reads st (raise_if (observation > delivery) ValueError) (\<lambda>_.
     sched_at st (if duplicated then OBSERVATION_DUPLICATED else OBSERVATION_CREATED) (PFloat (Fin delivery))
       (event_id_or event_id ((if duplicated then ''observation-duplicate'' else ''observation'') @ '':'' @ e @ '':'' @ out))
       (PDict [(PStr ''request_id'', PStr r), (PStr ''attempt_id'', PStr a), (PStr ''evidence_id'', PStr e),
          (PStr ''output_id'', PStr out), (PStr ''observed_at'', PFloat (Fin observation))])))))"

subsection \<open>Authoritative outcomes\<close>

record AttemptProjection =
  ap_id :: string
  ap_generation :: int
  ap_execution_status :: string
  ap_authority_status :: string

record AuthoritativeOutcome =
  ao_request_id :: string
  ao_request_status :: string
  ao_current_attempt_id :: "string option"
  ao_committed_attempt_id :: "string option"
  ao_authoritative_output_id :: "string option"
  ao_authoritative_evidence_ids :: "string list"
  ao_attempts :: "AttemptProjection list"

definition attempt_projection :: "Attempt \<Rightarrow> AttemptProjection" where
  "attempt_projection a =
     \<lparr>ap_id = att_id a, ap_generation = att_generation a,
      ap_execution_status = member_name execution_statuses (att_execution_status a),
      ap_authority_status = member_name attempt_authorities (att_authority_status a)\<rparr>"

definition authoritative_outcome :: "semantic_validity \<Rightarrow> core \<Rightarrow> string \<Rightarrow> AuthoritativeOutcome res" where
  "authoritative_outcome sv g request_id =
     bind_res (assert_all sv g) (\<lambda>_.
     bind_res (getitem (requests g) request_id) (\<lambda>r.
     let ats = map attempt_projection
                 (sort_key att_generation (filter (\<lambda>a. att_request_id a = request_id) (values_of (attempts g)))) in
     bind_res (case req_authoritative_output_id r of
                 None \<Rightarrow> Inr []
               | Some i \<Rightarrow> bind_res (getitem (outputs g) i) (\<lambda>out. Inr (sort (remdups (out_evidence_ids out))))) (\<lambda>evidence_ids.
     Inr \<lparr>ao_request_id = req_id r, ao_request_status = member_name request_statuses (req_status r),
          ao_current_attempt_id = req_current_attempt_id r, ao_committed_attempt_id = req_committed_attempt_id r,
          ao_authoritative_output_id = req_authoritative_output_id r,
          ao_authoritative_evidence_ids = evidence_ids, ao_attempts = ats\<rparr>)))"

definition assert_authoritative_equivalent ::
  "semantic_validity \<Rightarrow> core \<Rightarrow> core \<Rightarrow> string \<Rightarrow> AuthoritativeOutcome res" where
  "assert_authoritative_equivalent sv reference candidate request_id =
     bind_res (authoritative_outcome sv reference request_id) (\<lambda>expected.
     bind_res (authoritative_outcome sv candidate request_id) (\<lambda>actual.
     if actual \<noteq> expected then Inl AssertionError else Inr actual))"

end
