(* ===== verification/Sim_Adapter_Inv.thy ===== *)
theory Sim_Adapter_Inv
  imports Sim_Adapter Sim_Termination
begin

section \<open>What deliveries keep, record, cost and raise\<close>

text \<open>
  Every handler of the adapter keeps the core reachable, moves it only forward, writes records which
  form an audit chain, schedules at most one event for a timeout and none for others, and raises
  nothing but the \<open>ValueError\<close> of the simulator for a retry whose event identifier is taken.
\<close>

subsection \<open>The operations the adapter calls\<close>

fun adapter_operation :: "operation \<Rightarrow> bool" where
  "adapter_operation (create_request_op i c) = True"
| "adapter_operation (start_attempt_op i r) = True"
| "adapter_operation (set_attempt_execution_op i s) = True"
| "adapter_operation (complete_attempt_op i b) = True"
| "adapter_operation (create_output_op i a t es) = True"
| "adapter_operation (finalize_request_op r out now) = True"
| "adapter_operation (record_evidence_op e) = (evidence_post_init e = Inr e)"
| "adapter_operation _ = False"

abbreviation core_errors :: "py_error set" where
  "core_errors \<equiv> {InvalidTransition, InsufficientEvidence, SemanticViolation, KeyError}"

lemma core_errors_caught: "e \<in> core_errors \<Longrightarrow> continuity_error e \<or> e = KeyError"
  by (auto simp: continuity_error_def)

lemma raises_require_evidence: "raises core_errors (require_evidence clk g a es now sc ma)"
  by (auto simp: require_evidence_def has_conflicting_structured_claims_def Let_def intro!: raises_bind)

lemma raises_lookup_support: "raises core_errors (lookup_support g i)"
  by (simp add: lookup_support_def split: option.split)

lemma raises_record_checks:
  "raises core_errors (check_derivation_fields e)" "raises core_errors (check_supports g e)"
  by (auto simp: check_derivation_fields_def check_supports_def intro!: raises_bind raises_map_res raises_lookup_support)

lemma raises_outcome_reads: "raises es m \<Longrightarrow> (\<And>x. m = Inr x \<Longrightarrow> raises es (fst (k x))) \<Longrightarrow> raises es (fst (reads s m k))"
  by (cases m) simp_all

lemma raises_outcome_calls:
  "raises es (fst out) \<Longrightarrow> (\<And>x s. raises es (fst (k x s))) \<Longrightarrow> raises es (fst (calls out k))"
  by (cases out; cases "fst out") simp_all

lemma raises_unique: "raises core_errors (unique g i)"
  by (simp add: unique_def)

lemma adapter_operation_raises:
  "adapter_operation op \<Longrightarrow> raises core_errors (fst (exec clk g op))"
  by (cases op)
     (auto simp: discard_def create_request_def start_attempt_def supersede_current_def set_attempt_execution_def
       complete_attempt_def create_output_def finalize_request_def record_evidence_def Let_def
       intro!: raises_outcome_reads raises_outcome_calls raises_unique raises_require_evidence raises_record_checks
       split: option.splits)

lemma constructed_frame:
  "evidence g' = evidence g \<Longrightarrow> constructed g' = constructed g"
  by (simp add: constructed_def)

lemma values_of_setitem: "x \<in> set (values_of (setitem k v d)) \<Longrightarrow> x = v \<or> x \<in> set (values_of d)"
  by (induction d) (auto simp: values_of_def split: if_splits)

lemma evidence_kept:
  "create_request g i c = (Inr r, g') \<Longrightarrow> evidence g' = evidence g"
  "start_attempt g i c = (Inr a, g') \<Longrightarrow> evidence g' = evidence g"
  "set_attempt_execution g i s = (Inr a, g') \<Longrightarrow> evidence g' = evidence g"
  "create_output g i c t es = (Inr out, g') \<Longrightarrow> evidence g' = evidence g"
  "finalize_request clk g i c now = (Inr r, g') \<Longrightarrow> evidence g' = evidence g"
proof -
  show "create_request g i c = (Inr r, g') \<Longrightarrow> evidence g' = evidence g" using create_request_Inr by fastforce
  have "supersede_current g x = (Inr (), g1) \<Longrightarrow> evidence g1 = evidence g" for x g1
    by (auto simp: supersede_current_def reads_Inr split: if_splits)
  then show "start_attempt g i c = (Inr a, g') \<Longrightarrow> evidence g' = evidence g" using start_attempt_Inr by fastforce
  show "set_attempt_execution g i s = (Inr a, g') \<Longrightarrow> evidence g' = evidence g" using set_attempt_execution_Inr by fastforce
  show "create_output g i c t es = (Inr out, g') \<Longrightarrow> evidence g' = evidence g" using create_output_Inr by fastforce
  show "finalize_request clk g i c now = (Inr r, g') \<Longrightarrow> evidence g' = evidence g"
    by (erule finalize_request_Inr) simp_all
qed

lemma adapter_operation_constructed:
  assumes "adapter_operation op" and "exec clk g op = (Inr u, g')" and "constructed g"
  shows "constructed g'"
proof (cases "\<exists>e. op = record_evidence_op e")
  case True
  then obtain e where e: "op = record_evidence_op e" by blast
  with assms(2) obtain r where "record_evidence g e = (Inr r, g')" by auto
  from record_evidence_Inr [OF this] e assms(1,3) show ?thesis
    by (auto simp: constructed_def list_all_iff dest!: values_of_setitem)
next
  case False
  have "evidence g' = evidence g"
    using assms(1,2) False
    by (cases op; simp add: complete_attempt_def; blast intro: evidence_kept)
  then show ?thesis using assms(3) by (rule constructed_frame [THEN iffD2])
qed

subsection \<open>The audit chain\<close>

text \<open>
  Every record holds the fingerprint of the core after its action: a new one exactly if the action was
  applied to the core, and else that of the record before.
\<close>

definition audit_step :: "string res \<Rightarrow> SemanticActionRecord \<Rightarrow> bool" where
  "audit_step fp x \<longleftrightarrow>
     (if sar_outcome x = APPLIED \<and> sar_operation x \<noteq> ''schedule_retry''
      then Inr (sar_fingerprint x) \<noteq> fp else Inr (sar_fingerprint x) = fp)"

fun audit_chain :: "string res \<Rightarrow> SemanticActionRecord list \<Rightarrow> string res \<Rightarrow> bool" where
  "audit_chain fp [] fp' \<longleftrightarrow> fp = fp'"
| "audit_chain fp (x # xs) fp' \<longleftrightarrow> audit_step fp x \<and> audit_chain (Inr (sar_fingerprint x)) xs fp'"

lemma audit_chain_append: "audit_chain a xs b \<Longrightarrow> audit_chain b ys c \<Longrightarrow> audit_chain a (xs @ ys) c"
  by (induction a xs b rule: audit_chain.induct) auto

subsection \<open>The world of the adapter\<close>

definition adapter_ok :: "adapter \<Rightarrow> bool" where
  "adapter_ok ad \<longleftrightarrow> reachable (ad_core ad) \<and> constructed (ad_core ad)"

definition adapter_evolves :: "adapter_env \<Rightarrow> adapter \<Rightarrow> adapter \<Rightarrow> bool" where
  "adapter_evolves V ad ad' \<longleftrightarrow>
     core_evolves (ad_core ad) (ad_core ad') \<and>
     dict_evolves (=) (ad_success_times ad) (ad_success_times ad') \<and>
     (\<exists>rs. ad_records ad' = ad_records ad @ rs \<and>
       audit_chain (fingerprint V (ad_core ad)) rs (fingerprint V (ad_core ad')))"

lemma adapter_evolves_refl: "adapter_evolves V ad ad"
  by (simp add: adapter_evolves_def dict_evolves_refl)

lemma adapter_evolves_trans:
  assumes "adapter_evolves V a b" and "adapter_evolves V b c"
  shows "adapter_evolves V a c"
proof -
  have "dict_evolves (=) (ad_success_times a) (ad_success_times c)"
    using assms unfolding adapter_evolves_def by (blast intro: dict_evolves_trans)
  moreover have "core_evolves (ad_core a) (ad_core c)"
    using assms unfolding adapter_evolves_def by (blast intro: core_evolves_trans)
  ultimately show ?thesis
    using assms audit_chain_append unfolding adapter_evolves_def by (metis append.assoc)
qed

interpretation adapter_world: event_world adapter_ok "\<lambda>_ _. True" "adapter_evolves V" for V
  by unfold_locales (blast intro: adapter_evolves_refl adapter_evolves_trans)+

abbreviation adapter_good :: "'h astate \<Rightarrow> bool" where
  "adapter_good \<equiv> world_ok adapter_ok (\<lambda>_ _. True)"

lemma adapter_core_facts:
  assumes "adapter_ok ad"
  shows "assert_all sv (ad_core ad) = Inr ()" and "\<exists>fp. fingerprint V (ad_core ad) = Inr fp"
proof -
  from assms have inv: "inv (ad_core ad)" and con: "constructed (ad_core ad)"
    by (simp_all add: adapter_ok_def reachable_inv)
  from inv show "assert_all sv (ad_core ad) = Inr ()" by (rule assert_all_ok)
  show "\<exists>fp. fingerprint V (ad_core ad) = Inr fp"
    by (simp add: fingerprint_def snapshot_fingerprint_def snapshot_core_def snapshot_payload_ok [OF inv con])
qed

text \<open>The credit of an event: a timeout may schedule a retry.\<close>

definition delivery_credit :: "EventKind \<Rightarrow> nat" where
  "delivery_credit k = (if k = ATTEMPT_TIMEOUT then 2 else 1)"

definition delivery_budget :: "'h astate \<Rightarrow> nat" where
  "delivery_budget st = sum_list (map (delivery_credit \<circ> ev_kind) (sim_queue (fst st)))"

lemma delivery_budget_frame [simp]:
  "delivery_budget (put_core g st) = delivery_budget st"
  "delivery_budget (put_retries rs st) = delivery_budget st"
  "delivery_budget (note_success i st) = delivery_budget st"
  "delivery_budget (append_record ev operation result ri e fp st) = delivery_budget st"
  by (simp_all add: delivery_budget_def put_core_def put_retries_def note_success_def append_record_def)

text \<open>
  \<open>fits V es b st out\<close>: the outcome \<open>out\<close> is a good state that evolved from \<open>st\<close>, whose pending
  events have at most the credit \<open>b\<close>, and raises only errors in \<open>es\<close>.
\<close>

definition fits :: "adapter_env \<Rightarrow> py_error set \<Rightarrow> nat \<Rightarrow> 'h astate \<Rightarrow> ('h astate, 'a) outcome \<Rightarrow> bool" where
  "fits V es b st out \<longleftrightarrow>
     adapter_world.safe V st out \<and> delivery_budget (snd out) \<le> b \<and> raises es (fst out)"

lemma fits_return:
  "adapter_good st \<Longrightarrow> delivery_budget st \<le> b \<Longrightarrow> fits V es b st (Inr x, st)"
  "adapter_good st \<Longrightarrow> delivery_budget st \<le> b \<Longrightarrow> e \<in> es \<Longrightarrow> fits V es b st (Inl e, st)"
  by (simp_all add: fits_def adapter_world.evolves_refl)

lemma fits_reads:
  assumes "adapter_good st" and "delivery_budget st \<le> b" and "raises es m" and "\<And>x. m = Inr x \<Longrightarrow> fits V es b st (k x)"
  shows "fits V es b st (reads st m k)"
  using assms by (cases m) (simp_all add: fits_return)

lemma fits_calls:
  assumes "fits V es b st out"
    and "\<And>x st1. out = (Inr x, st1) \<Longrightarrow> adapter_good st1 \<Longrightarrow> delivery_budget st1 \<le> b \<Longrightarrow> fits V es b st1 (k x st1)"
  shows "fits V es b st (calls out k)"
proof -
  obtain r st1 where out: "out = (r, st1)" by (cases out)
  show ?thesis
  proof (cases r)
    case (Inl e)
    with assms(1) out show ?thesis by (simp add: fits_def)
  next
    case (Inr x)
    with assms out have "fits V es b st1 (k x st1)" and "world_evolves (adapter_evolves V) st st1"
      by (simp_all add: fits_def)
    with out Inr show ?thesis by (auto simp: fits_def intro: adapter_world.safe_from)
  qed
qed

lemma fits_done:
  "fits V es b st out \<Longrightarrow> fits V es b st (calls out (\<lambda>_ st1. (Inr (), st1)))"
  by (rule fits_calls) (auto intro: fits_return)

lemma fits_mono: "fits V es b st out \<Longrightarrow> es \<subseteq> es' \<Longrightarrow> b \<le> b' \<Longrightarrow> fits V es' b' st out"
  by (auto simp: fits_def raises_def)

text \<open>A change of the adapter's own state.\<close>

lemma fits_put:
  assumes "adapter_good st" and "fst st' = fst st" and "adapter_ok (snd st')" and "adapter_evolves V (snd st) (snd st')"
    and "delivery_budget st \<le> b"
  shows "fits V es b st (Inr x, st')"
  using adapter_world.put_ok [OF assms(1,3,4)] assms(2,5) by (cases st') (simp add: fits_def delivery_budget_def)

subsection \<open>Records and calls\<close>

lemma append_record_simps [simp]:
  "fst (append_record ev operation result ri e fp st) = fst st"
  "ad_core (snd (append_record ev operation result ri e fp st)) = ad_core (snd st)"
  "ad_success_times (snd (append_record ev operation result ri e fp st)) = ad_success_times (snd st)"
  "adapter_ok (snd (append_record ev operation result ri e fp st)) = adapter_ok (snd st)"
  by (simp_all add: append_record_def adapter_ok_def)

lemma put_adapter_simps [simp]:
  "fst (put_core g st) = fst st" "ad_core (snd (put_core g st)) = g" "ad_records (snd (put_core g st)) = ad_records (snd st)"
  "ad_success_times (snd (put_core g st)) = ad_success_times (snd st)"
  "fst (put_retries rs st) = fst st" "adapter_ok (snd (put_retries rs st)) = adapter_ok (snd st)"
  "fst (note_success i st) = fst st" "adapter_ok (snd (note_success i st)) = adapter_ok (snd st)"
  by (simp_all add: put_core_def put_retries_def note_success_def adapter_ok_def)

lemma record_evolves:
  assumes "fingerprint V (ad_core (snd st)) = Inr fp" and "result \<noteq> APPLIED \<or> operation = ''schedule_retry''"
  shows "adapter_evolves V (snd st) (snd (append_record ev operation result ri e fp st))"
  using assms
  by (auto simp: adapter_evolves_def append_record_def audit_step_def intro!: exI [of _ "[_]"])

lemma note_action_fits:
  assumes "adapter_good st" and "delivery_budget st \<le> b" and "result \<noteq> APPLIED \<or> operation = ''schedule_retry''"
  shows "fits V es b st (note_action V ev operation result ri e st)"
proof -
  have ok: "adapter_ok (snd st)" using assms(1) by (simp add: world_ok_def)
  obtain fp where fp: "fingerprint V (ad_core (snd st)) = Inr fp" using adapter_core_facts(2) [OF ok] by blast
  then have "fits V es b st (Inr (), append_record ev operation result ri e fp st)"
    using assms ok by (intro fits_put record_evolves) simp_all
  then show ?thesis by (simp add: note_action_def adapter_core_facts(1) [OF ok] fp)
qed

lemma exec_cases:
  assumes "reachable g" "constructed g" "adapter_operation op" "names_ok op" "exec clk g op = (r, g')"
  shows "reachable g' \<and> constructed g' \<and> core_evolves g g' \<and> raises core_errors r \<and> (\<forall>e. r = Inl e \<longrightarrow> g' = g)"
proof (intro conjI allI impI)
  note inv = reachable_inv [OF assms(1)]
  show same: "g' = g" if "r = Inl e" for e using exec_atomic [OF inv] assms(5) that by blast
  show "reachable g'" using assms reachable_step by blast
  show "constructed g'" using assms adapter_operation_constructed same by (cases r) blast+
  show "core_evolves g g'" using exec_any [OF inv assms(4,5)] by blast
  show "raises core_errors r" using adapter_operation_raises [OF assms(3), of clk g] assms(5) by simp
qed

lemma discard_result [simp]: "discard (result_of f out) = discard out"
  by (cases out; cases "fst out") (simp_all add: discard_def result_of_def)

lemma apply_call_fits:
  assumes good: "adapter_good st" and b: "delivery_budget st \<le> b" and retry: "operation \<noteq> ''schedule_retry''"
    and op: "adapter_operation op" "names_ok op"
    and call: "discard (call (ad_core (snd st))) = exec clk (ad_core (snd st)) op"
  shows "fits V es b st (apply_call V ev operation call st)"
proof -
  let ?g = "ad_core (snd st)"
  have ok: "adapter_ok (snd st)" using good by (simp add: world_ok_def)
  obtain r g where c: "call ?g = (r, g)" by (cases "call ?g")
  have run: "exec clk ?g op = (map_sum id (\<lambda>_. ()) r, g)"
    using call c by (cases r) (simp_all add: discard_def)
  have core: "reachable g" "constructed g" "core_evolves ?g g" and err: "raises core_errors r" "\<forall>e. r = Inl e \<longrightarrow> g = ?g"
    using exec_cases [OF _ _ op run] ok by (auto simp: adapter_ok_def raises_def)
  have ok1: "adapter_ok (snd (put_core g st))" using core by (simp add: adapter_ok_def)
  obtain before where before: "fingerprint V ?g = Inr before" using adapter_core_facts(2) [OF ok] by blast
  obtain after where after: "fingerprint V g = Inr after" using adapter_core_facts(2) [OF ok1] by auto
  have sound: "assert_all (env_validity V) g = Inr ()" using adapter_core_facts(1) [OF ok1] by simp
  have recorded: "fits V es b st (Inr x, append_record ev operation result ri e after (put_core g st))"
    if "result = APPLIED \<longleftrightarrow> after \<noteq> before" for x :: "string option" and result ri e
  proof (rule fits_put [OF good])
    have "audit_step (Inr before) x = (result = APPLIED \<longleftrightarrow> sar_fingerprint x \<noteq> before)"
      if "sar_outcome x = result" "sar_operation x = operation" for x
      using that retry by (auto simp: audit_step_def)
    then show "adapter_evolves V (snd st) (snd (append_record ev operation result ri e after (put_core g st)))"
      using that before after core(3) by (auto simp: adapter_evolves_def append_record_def dict_evolves_refl put_core_def
          intro!: exI [of _ "[_]"])
  qed (use b ok1 in simp_all)
  show ?thesis
  proof (cases r)
    case (Inl e)
    have "continuity_error e \<or> e = KeyError" by (rule core_errors_caught) (use err(1) Inl in simp)
    moreover have "after = before" using err(2) Inl before after by simp
    ultimately show ?thesis
      using recorded [of REJECTED] Inl c before after sound by (simp add: apply_call_def)
  next
    case (Inr i)
    then show ?thesis
      using recorded [of "if after = before then IDEMPOTENT else APPLIED"] c before after sound by (simp add: apply_call_def)
  qed
qed

subsection \<open>The handlers\<close>

lemma payload_strings_facts:
  assumes "payload_strings ev required = Inr p" and "n \<in> set required"
  shows "item p n \<noteq> ''''"
proof -
  have "item ps n \<noteq> ''''"
    if "map_res (\<lambda>n. case map_of (ev_payload ev) n of
          Some (PStr s) \<Rightarrow> if s = '''' then Inl AdapterInputError else Inr (n, s)
        | _ \<Rightarrow> Inl AdapterInputError) ns = Inr ps" and "n \<in> set ns" for ns ps
    using that
    by (induction ns arbitrary: ps)
       (auto simp: bind_res_Inr item_def split: option.splits pyval.splits if_splits)
  with assms show ?thesis by (auto simp: payload_strings_def bind_res_Inr)
qed

abbreviation input_errors :: "py_error set" where
  "input_errors \<equiv> {ValueError, AdapterInputError}"

lemma raises_payload [simp]:
  "raises input_errors (payload_strings ev required)" "raises input_errors (event_nonnegative_float ev n)"
  by (auto simp: payload_strings_def event_nonnegative_float_def intro!: raises_bind raises_map_res
      split: option.splits pyval.splits sum.splits)

lemma begin_attempt_fits:
  assumes "adapter_good st" "delivery_budget st \<le> b" "attempt_id \<noteq> ''''"
  shows "fits V es b st (begin_attempt V ev attempt_id request_id st)"
proof -
  have one: "fits V es b st (apply_call V ev ''start_attempt'' (\<lambda>g. result_of att_id (start_attempt g attempt_id request_id)) st)"
    by (rule apply_call_fits [OF assms(1,2), where op = "start_attempt_op attempt_id request_id"])
       (use assms(3) in \<open>simp_all add: names_ok_def\<close>)
  have two: "fits V es b st1 (apply_call V ev ''set_attempt_execution:RUNNING''
      (\<lambda>g. result_of att_id (set_attempt_execution g attempt_id ExecutionStatus.RUNNING)) st1)"
    if "adapter_good st1" "delivery_budget st1 \<le> b" for st1 :: "'a astate"
    by (rule apply_call_fits [OF that, where op = "set_attempt_execution_op attempt_id ExecutionStatus.RUNNING"])
       (simp_all add: names_ok_def)
  show ?thesis
    unfolding begin_attempt_def
    by (rule fits_calls [OF one]) (auto intro: fits_return fits_done [OF two])
qed

lemma when_current_fits:
  assumes "adapter_good st" "delivery_budget st \<le> b" "fits V es b st (go st)"
  shows "fits V es b st (when_current V ev operation request_id attempt_id go st)"
  using assms by (auto simp: when_current_def intro!: note_action_fits split: option.split)

lemma on_request_created_fits:
  assumes "adapter_good st"
  shows "fits V input_errors (delivery_budget st) st (on_request_created V ev st)"
  unfolding on_request_created_def
proof (rule fits_reads [OF assms order_refl raises_payload(1)], rule fits_done)
  fix p assume p: "payload_strings ev [''request_id'', ''continuation_id''] = Inr p"
  have "item p ''request_id'' \<noteq> ''''" by (rule payload_strings_facts [OF p]) simp
  then show "fits V input_errors (delivery_budget st) st (apply_call V ev ''create_request''
      (\<lambda>g. result_of req_id (create_request g (item p ''request_id'') (item p ''continuation_id''))) st)"
    by (intro apply_call_fits [OF assms order_refl, where op = "create_request_op (item p ''request_id'') (item p ''continuation_id'')"])
       (simp_all add: names_ok_def)
qed

lemma on_attempt_started_fits:
  assumes "adapter_good st"
  shows "fits V input_errors (delivery_budget st) st (on_attempt_started V ev st)"
  unfolding on_attempt_started_def
  by (rule fits_reads [OF assms order_refl raises_payload(1)]) (simp add: begin_attempt_fits [OF assms] payload_strings_facts)

lemma on_retry_started_fits:
  assumes "adapter_good st"
  shows "fits V input_errors (delivery_budget st) st (on_retry_started V ev st)"
  unfolding on_retry_started_def
  by (rule fits_reads [OF assms order_refl raises_payload(1)], rule when_current_fits [OF assms order_refl])
     (simp add: begin_attempt_fits [OF assms] payload_strings_facts)

lemma complete_attempt_fits:
  assumes "adapter_good st"
  shows "operation \<noteq> ''schedule_retry'' \<Longrightarrow> fits V es (delivery_budget st) st
    (apply_call V ev operation (\<lambda>g. result_of att_id (complete_attempt g i b)) st)"
  by (rule apply_call_fits [OF assms order_refl, where op = "complete_attempt_op i b"]) (simp_all add: names_ok_def)

lemma on_attempt_failed_fits:
  assumes "adapter_good st"
  shows "fits V input_errors (delivery_budget st) st (on_attempt_failed V ev st)"
  unfolding on_attempt_failed_def
  by (rule fits_reads [OF assms order_refl raises_payload(1)], rule fits_done) (simp add: complete_attempt_fits [OF assms])

lemma note_success_evolves: "adapter_evolves V (snd st) (snd (note_success i st))"
  by (auto simp: adapter_evolves_def note_success_def dict_evolves_def has_key_def
      intro!: dict_evolves_refl split: if_splits)

lemma on_attempt_completed_fits:
  assumes "adapter_good st"
  shows "fits V input_errors (delivery_budget st) st (on_attempt_completed V ev st)"
  unfolding on_attempt_completed_def Let_def
proof (rule fits_reads [OF assms order_refl raises_payload(1)], rule fits_calls [OF complete_attempt_fits [OF assms]])
  fix p result and st1 :: "'a astate"
  assume st1: "adapter_good st1" "delivery_budget st1 \<le> delivery_budget st"
  then have "adapter_ok (snd st1)" by (simp add: world_ok_def)
  with st1 have "fits V input_errors (delivery_budget st) st1 (Inr (), note_success i st1)" for i
    by (intro fits_put note_success_evolves) simp_all
  with st1 show "fits V input_errors (delivery_budget st) st1 (Inr (),
      if result \<noteq> None \<and> \<not> (case map_of (attempts (ad_core (snd st))) (item p ''attempt_id'') of
          None \<Rightarrow> False | Some a \<Rightarrow> att_execution_status a = ExecutionStatus.SUCCEEDED)
      then note_success (item p ''attempt_id'') st1 else st1)"
    by (simp add: fits_return)
qed simp

text \<open>Scheduling a retry costs the credit of one event, and may only find its identifier taken.\<close>

lemma freeze_str_payload: "\<exists>p. freeze_payload (str_payload kvs) = Inr p"
proof -
  have "freeze_items (map (\<lambda>(k, v). (PStr k, PStr v)) kvs) = Inr (map (\<lambda>(k, v). (k, PStr v)) kvs)"
    by (induction kvs) (auto simp: str_key_def)
  then show ?thesis by (simp add: freeze_payload_def str_payload_def)
qed

lemma sched_retry_fits:
  assumes "adapter_good st"
  shows "fits V {ValueError} (Suc (delivery_budget st)) st (sched st RETRY_STARTED (PInt 0) (PStr i) (str_payload kvs))"
proof -
  obtain p where p: "freeze_payload (str_payload kvs) = Inr p" using freeze_str_payload by blast
  have now: "0 \<le> sim_now (fst st)" using assms by (simp add: world_ok_def sim_ok_def)
  have time: "event_time_of (fst st) PNone (PInt 0) = Inr (sim_now (fst st))"
    by (simp add: event_time_of_def finite_nonnegative_def)
  have sch: "schedule (fst st) RETRY_STARTED PNone (PInt 0) (PStr i) (str_payload kvs) =
      reads (fst st) (event_id_of (fst st) (PStr i)) (\<lambda>t.
        (Inr \<lparr>ev_time = sim_now (fst st), ev_sequence = sim_next_sequence (fst st), ev_id = t, ev_kind = RETRY_STARTED, ev_payload = p\<rparr>,
         (fst st)\<lparr>sim_next_sequence := sim_next_sequence (fst st) + 1, sim_known_ids := insert t (sim_known_ids (fst st)),
           sim_pending_ids := insert t (sim_pending_ids (fst st)),
           sim_queue := insort_key ev_key \<lparr>ev_time = sim_now (fst st), ev_sequence = sim_next_sequence (fst st), ev_id = t,
             ev_kind = RETRY_STARTED, ev_payload = p\<rparr> (sim_queue (fst st))\<rparr>))"
    by (cases "event_id_of (fst st) (PStr i)")
       (use event_id_of_Inr [of "fst st" "PStr i"] now in \<open>simp_all add: schedule_def time p\<close>)
  have "adapter_world.safe V st (sched st RETRY_STARTED (PInt 0) (PStr i) (str_payload kvs))"
    by (rule adapter_world.sched_safe [OF assms]) simp
  moreover have "raises {ValueError} (event_id_of (fst st) (PStr i))"
    by (auto simp: event_id_of_def)
  ultimately show ?thesis
    unfolding fits_def sched_def sch
    by (cases "event_id_of (fst st) (PStr i)") (simp_all add: delivery_budget_def sum_insort delivery_credit_def)
qed

lemma put_retries_evolves: "adapter_evolves V (snd st) (snd (put_retries rs st))"
  by (simp add: adapter_evolves_def put_retries_def dict_evolves_refl)

lemma put_retries_good:
  "adapter_good st \<Longrightarrow> adapter_good (put_retries rs st)"
  "adapter_good st \<Longrightarrow> world_evolves (adapter_evolves V) st (put_retries rs st)"
  using put_retries_evolves [of V st rs]
  by (simp_all add: world_ok_def world_evolves_def sim_evolves_refl)

lemma on_attempt_timeout_fits:
  assumes "adapter_good st"
  shows "fits V input_errors (Suc (delivery_budget st)) st (on_attempt_timeout V ev st)"
  unfolding on_attempt_timeout_def
proof (rule fits_reads [OF assms _ raises_payload(1)], simp, rule when_current_fits [OF assms], simp)
  fix p
  let ?retry = "item p ''retry_attempt_id''" and ?rs = "ad_scheduled_retries (snd st)"
  let ?st0 = "put_retries (?retry # ?rs) st"
  let ?out = "sched ?st0 RETRY_STARTED (PInt 0) (PStr (''retry-start:'' @ ?retry @ '':from:'' @ SimEvent.ev_id ev))
      (str_payload [(''request_id'', item p ''request_id''), (''superseded_attempt_id'', item p ''timed_out_attempt_id''),
        (''retry_attempt_id'', ?retry)])"
  obtain r st1 where out: "?out = (r, st1)" by (cases ?out)
  have "fits V {ValueError} (Suc (delivery_budget st)) ?st0 ?out"
    using sched_retry_fits [OF put_retries_good(1) [OF assms]] by (simp del: append.simps)
  with out have st1: "adapter_good st1" "world_evolves (adapter_evolves V) ?st0 st1"
    "delivery_budget st1 \<le> Suc (delivery_budget st)" "raises {ValueError} r"
    by (simp_all add: fits_def)
  have ev: "world_evolves (adapter_evolves V) st st1"
    using put_retries_good(2) [OF assms] st1(2) by (rule adapter_world.evolves_trans)
  have restored: "adapter_good (put_retries rs st1)" "world_evolves (adapter_evolves V) st (put_retries rs st1)" for rs
    using put_retries_good [OF st1(1)] ev adapter_world.evolves_trans by blast+
  have "fits V input_errors (Suc (delivery_budget st)) st (note_action V ev ''schedule_retry'' APPLIED None None st1)"
    using note_action_fits [OF st1(1,3), of APPLIED "''schedule_retry''" V input_errors ev None None] ev
    by (auto simp: fits_def intro: adapter_world.safe_from)
  with out st1(3,4) restored show "fits V input_errors (Suc (delivery_budget st)) st (schedule_retry V ev p st)"
    using note_action_fits [OF assms, of "Suc (delivery_budget st)" IGNORED]
    unfolding schedule_retry_def Let_def out by (cases r) (auto simp: fits_def)
qed

subsection \<open>Observations\<close>

lemma terminal_evidence_ok [simp]:
  "evidence_post_init (terminal_evidence a e t) = Inr (terminal_evidence a e t)" "Evidence.ev_id (terminal_evidence a e t) = e"
  by (simp_all add: evidence_post_init_def terminal_evidence_def)

lemma ensure_terminal_evidence_fits:
  assumes "adapter_good st" "delivery_budget st \<le> b" "e \<noteq> ''''"
  shows "fits V {SemanticViolation} b st (ensure_terminal_evidence V ev a e t st)"
proof -
  have "fits V {SemanticViolation} b st (apply_call V ev ''record_evidence''
      (\<lambda>g. result_of Evidence.ev_id (record_evidence g (terminal_evidence a e t))) st)"
    by (rule apply_call_fits [OF assms(1,2), where op = "record_evidence_op (terminal_evidence a e t)"])
       (use assms(3) in \<open>simp_all add: names_ok_def\<close>)
  with assms(1,2) show ?thesis
    by (auto simp: ensure_terminal_evidence_def intro!: fits_return note_action_fits fits_done split: option.split)
qed

lemma ensure_terminal_output_fits:
  assumes "adapter_good st" "delivery_budget st \<le> b" "out \<noteq> ''''"
  shows "fits V {SemanticViolation} b st (ensure_terminal_output V ev a e out st)"
proof -
  have "fits V {SemanticViolation} b st (apply_call V ev ''create_output''
      (\<lambda>g. result_of out_id (create_output g out a True [e])) st)"
    by (rule apply_call_fits [OF assms(1,2), where op = "create_output_op out a True [e]"])
       (use assms(3) in \<open>simp_all add: names_ok_def\<close>)
  with assms(1,2) show ?thesis
    by (auto simp: ensure_terminal_output_def intro!: fits_return note_action_fits fits_done split: option.split)
qed

lemma fits_handled:
  assumes "fits V es b st (r, st1)" and "adapter_good st1 \<Longrightarrow> delivery_budget st1 \<le> b \<Longrightarrow> raises es r \<Longrightarrow> fits V es' b st1 out"
  shows "fits V es' b st out"
  using assms by (auto simp: fits_def intro: adapter_world.safe_from)

lemma use_observation_fits:
  assumes good: "adapter_good st" and "item p ''evidence_id'' \<noteq> ''''" "item p ''output_id'' \<noteq> ''''"
  shows "fits V {} (delivery_budget st) st (use_observation V ev p t st)"
proof -
  let ?out = "calls (ensure_terminal_evidence V ev (item p ''attempt_id'') (item p ''evidence_id'') t st)
      (\<lambda>_. ensure_terminal_output V ev (item p ''attempt_id'') (item p ''evidence_id'') (item p ''output_id''))"
  obtain r st1 where out: "?out = (r, st1)" by (cases ?out)
  have first: "fits V {SemanticViolation} (delivery_budget st) st (r, st1)"
    unfolding out [symmetric]
    by (rule fits_calls [OF ensure_terminal_evidence_fits [OF good order_refl assms(2)]])
       (rule ensure_terminal_output_fits [OF _ _ assms(3)])
  show ?thesis
    unfolding use_observation_def out prod.case
  proof (rule fits_handled [OF first])
    assume st1: "adapter_good st1" "delivery_budget st1 \<le> delivery_budget st" and r: "raises {SemanticViolation} r"
    have "fits V {} (delivery_budget st) st1 (apply_call V ev ''finalize_request''
        (\<lambda>g. result_of req_id (finalize_request 0 g (item p ''request_id'') (item p ''output_id'') (Some (sim_now (fst st1))))) st1)"
      by (rule apply_call_fits [OF st1, where clk = 0 and
            op = "finalize_request_op (item p ''request_id'') (item p ''output_id'') (Some (sim_now (fst st1)))"])
         (simp_all add: names_ok_def)
    with st1 r show "fits V {} (delivery_budget st) st1 (case r of
        Inl e \<Rightarrow> if continuity_error e then note_action V ev ''observation_identity'' REJECTED None (Some e) st1 else (Inl e, st1)
      | Inr _ \<Rightarrow> calls (apply_call V ev ''finalize_request''
          (\<lambda>g. result_of req_id (finalize_request 0 g (item p ''request_id'') (item p ''output_id'')
              (Some (sim_now (fst st1))))) st1) (\<lambda>_ st2. (Inr (), st2)))"
      by (cases r) (auto simp: continuity_error_def intro: note_action_fits fits_done)
  qed
qed

lemma on_observation_fits:
  assumes "adapter_good st"
  shows "fits V input_errors (delivery_budget st) st (on_observation V ev st)"
  unfolding on_observation_def
proof (intro fits_reads [OF assms order_refl raises_payload(1)] fits_reads [OF assms order_refl raises_payload(2)])
  fix p t assume p: "payload_strings ev [''request_id'', ''attempt_id'', ''evidence_id'', ''output_id''] = Inr p"
  have "item p ''evidence_id'' \<noteq> ''''" "item p ''output_id'' \<noteq> ''''" by (rule payload_strings_facts [OF p], simp)+
  with use_observation_fits [OF assms] have "fits V input_errors (delivery_budget st) st (use_observation V ev p t st)"
    by (blast intro: fits_mono)
  then show "fits V input_errors (delivery_budget st) st (case observation_refused p t st of
      Some (operation, e) \<Rightarrow> note_action V ev operation REJECTED None (Some e) st | None \<Rightarrow> use_observation V ev p t st)"
    by (auto intro: note_action_fits [OF assms] split: option.split)
qed

subsection \<open>Deliveries\<close>

definition may_deliver :: "EventKind \<Rightarrow> adapter_handler \<Rightarrow> bool" where
  "may_deliver k h \<longleftrightarrow> (k, h) \<in> set adapter_registrations"

lemma adapter_handle_fits:
  assumes "adapter_good st" and "may_deliver (ev_kind ev) h"
  shows "fits V input_errors (delivery_budget st + (delivery_credit (ev_kind ev) - 1)) st (adapter_handle V h ev st)"
proof (cases "h = OnAttemptTimeout")
  case True
  with assms on_attempt_timeout_fits [OF assms(1), of V ev] show ?thesis
    by (simp add: may_deliver_def adapter_registrations_def delivery_credit_def)
next
  case False
  then have "fits V input_errors (delivery_budget st) st (adapter_handle V h ev st)"
    using on_request_created_fits [OF assms(1)] on_attempt_started_fits [OF assms(1)] on_retry_started_fits [OF assms(1)]
      on_attempt_completed_fits [OF assms(1)] on_attempt_failed_fits [OF assms(1)] on_observation_fits [OF assms(1)]
    by (cases h) simp_all
  then show ?thesis by (rule fits_mono) simp_all
qed

lemma deliver_fits:
  assumes "adapter_good st" and "may_deliver (ev_kind ev) h"
  shows "fits V {ValueError} (delivery_budget st + (delivery_credit (ev_kind ev) - 1)) st (deliver V h ev st)"
proof -
  obtain r st1 where out: "adapter_handle V h ev st = (r, st1)" by (cases "adapter_handle V h ev st")
  show ?thesis
    unfolding deliver_def out prod.case
    by (rule fits_handled [OF adapter_handle_fits [OF assms, of V, unfolded out]])
       (auto intro: note_action_fits fits_return split: sum.split)
qed

interpretation adapter_events: event_handlers adapter_ok "\<lambda>_ _. True" "adapter_evolves V" "deliver V" may_deliver for V
proof
  show "adapter_world.safe V st (deliver V h ev st)" if "adapter_good st" "may_deliver (ev_kind ev) h"
    for st :: "adapter_handler astate" and ev h
    using deliver_fits [OF that] by (simp add: fits_def)
qed

interpretation adapter_runs: bounded_handlers adapter_ok "\<lambda>_ _. True" "adapter_evolves V" "deliver V" may_deliver
  delivery_budget delivery_credit for V
proof
  show "0 < delivery_credit k" for k by (simp add: delivery_credit_def)
  show "sim_queue (fst st) = ev # sim_queue s \<Longrightarrow> delivery_budget (s, snd st) + delivery_credit (ev_kind ev) = delivery_budget st"
    for st :: "adapter_handler astate" and ev s by (simp add: delivery_budget_def)
  show "delivery_budget (snd (deliver V h ev st)) \<le> delivery_budget st + (delivery_credit (ev_kind ev) - 1)"
    if "adapter_good st" "may_deliver (ev_kind ev) h" for st :: "adapter_handler astate" and ev h
    using deliver_fits [OF that, of V] by (simp add: fits_def)
qed

interpretation adapter_errors: raising_handlers adapter_ok "\<lambda>_ _. True" "adapter_evolves V" "deliver V" may_deliver
  "{ValueError}" for V
proof
  show "e \<in> {ValueError}" if "adapter_good st" "may_deliver (ev_kind ev) h" "deliver V h ev st = (Inl e, st')"
    for st :: "adapter_handler astate" and ev h e st'
    using deliver_fits [OF that(1,2), of V] that(3) by (simp add: fits_def)
qed

subsection \<open>Adapters and their deliveries\<close>

definition adapter_model_ok :: "adapter_handler astate \<Rightarrow> bool" where
  "adapter_model_ok st \<longleftrightarrow> adapter_good st \<and> registered may_deliver (fst st) \<and> one_handler (fst st)"

lemma new_adapter_ok:
  assumes "new_simulator seed = Inr s" and "reachable g" and "constructed g" and "new_adapter V s g = (Inr (), st)"
  shows "adapter_model_ok st \<and> snd st = \<lparr>ad_core = g, ad_records = [], ad_scheduled_retries = [], ad_success_times = []\<rparr>"
proof -
  have st: "st = (fold (\<lambda>(k, h) t. register_handler t k h) adapter_registrations s,
      \<lparr>ad_core = g, ad_records = [], ad_scheduled_retries = [], ad_success_times = []\<rparr>)"
    using assms(4) by (auto simp: new_adapter_def Let_def reads_Inr)
  have folded: "sim_ok (fold (\<lambda>(k, h) t. register_handler t k h) rs s')" if "sim_ok s'" for rs s'
    using that by (induction rs arbitrary: s') (auto simp: register_handler_ok)
  have none: "handlers_for s k = []" for k
    using assms(1) by (auto simp: new_simulator_def handlers_for_def split: pyval.splits)
  have handlers: "handlers_for (fst st) k = map snd (filter (\<lambda>r. fst r = k) adapter_registrations)" for k
    unfolding st adapter_registrations_def by (cases k) (simp_all add: handlers_for_register none)
  have "length (handlers_for (fst st) k) \<le> 1" for k
    unfolding handlers by (cases k) (simp_all add: adapter_registrations_def)
  moreover have "may_deliver k h" if "h \<in> set (handlers_for (fst st) k)" for k h
    using that unfolding handlers by (auto simp: may_deliver_def)
  moreover have "sim_ok (fst st)" unfolding st by (simp add: folded new_simulator_ok [OF assms(1)])
  ultimately show ?thesis
    using st assms(2,3) by (simp add: adapter_model_ok_def world_ok_def adapter_ok_def registered_def one_handler_def)
qed

text \<open>
  Whatever a user of the adapter and its simulator does next: schedule any event, by the adapter's
  methods or directly and with any payload, cancel, and run.
\<close>

inductive deliveries :: "adapter_env \<Rightarrow> adapter_handler astate \<Rightarrow> adapter_handler astate \<Rightarrow> bool" for V where
  stay: "deliveries V st st"
| scheduled: "deliveries V st st1 \<Longrightarrow> schedule (fst st1) kind at_time d i p = (r, s) \<Longrightarrow> deliveries V st (s, snd st1)"
| cancelled: "deliveries V st st1 \<Longrightarrow> cancel (fst st1) i = (b, s) \<Longrightarrow> deliveries V st (s, snd st1)"
| run: "deliveries V st st1 \<Longrightarrow> run_sim (deliver V) st1 until max_events = Some (q, st') \<Longrightarrow> deliveries V st st'"

lemma adapter_model_evolves:
  assumes "adapter_model_ok st" and "adapter_good st'" and "world_evolves (adapter_evolves V) st st'"
  shows "adapter_model_ok st'"
  using assms registered_evolves one_handler_evolves unfolding adapter_model_ok_def world_evolves_def by blast

lemma other_sim_ok:
  assumes "adapter_good st" and "sim_ok s" and "sim_evolves (fst st) s"
  shows "adapter_good (s, snd st)" and "world_evolves (adapter_evolves V) st (s, snd st)"
  using assms by (simp_all add: world_ok_def world_evolves_def adapter_evolves_refl)

lemma deliveries_ok:
  assumes "deliveries V st st'" and "adapter_model_ok st"
  shows "adapter_model_ok st' \<and> world_evolves (adapter_evolves V) st st'"
  using assms
proof (induction rule: deliveries.induct)
  case (stay st)
  then show ?case by (simp add: adapter_world.evolves_refl)
next
  case (scheduled st st1 kind at_time d i p r s)
  then have good: "adapter_good st1" and ok: "sim_ok (fst st1)" by (simp_all add: adapter_model_ok_def world_ok_def)
  from schedule_ok [OF ok scheduled.hyps(2)] have "sim_ok s" "sim_evolves (fst st1) s" by simp_all
  with other_sim_ok [OF good this] scheduled adapter_model_evolves adapter_world.evolves_trans show ?case by blast
next
  case (cancelled st st1 i b s)
  then have good: "adapter_good st1" and ok: "sim_ok (fst st1)" by (simp_all add: adapter_model_ok_def world_ok_def)
  from cancel_ok [OF ok cancelled.hyps(2)] have "sim_ok s" "sim_evolves (fst st1) s" by blast+
  with other_sim_ok [OF good this] cancelled adapter_model_evolves adapter_world.evolves_trans show ?case by blast
next
  case (run st st1 until max_events q st')
  then have "adapter_good st' \<and> world_evolves (adapter_evolves V) st1 st'"
    using adapter_events.run_sim_ok [OF run.hyps(2)] by (simp add: adapter_model_ok_def)
  with run adapter_model_evolves adapter_world.evolves_trans show ?case by blast
qed

subsection \<open>What an observation achieves\<close>

lemma apply_call_core:
  assumes ok: "adapter_ok (snd st)" and op: "adapter_operation op" "names_ok op"
    and c: "call (ad_core (snd st)) = (Inr x, g)" "exec clk (ad_core (snd st)) op = (Inr (), g)"
  obtains st' where "apply_call V ev operation (\<lambda>g. result_of f (call g)) st = (Inr (Some (f x)), st')"
    and "fst st' = fst st" and "ad_core (snd st') = g" and "adapter_ok (snd st')"
proof -
  from exec_cases [OF _ _ op c(2)] ok have g: "reachable g" "constructed g" by (simp_all add: adapter_ok_def)
  then have ok1: "adapter_ok (snd (put_core g st))" by (simp add: adapter_ok_def)
  obtain before where before: "fingerprint V (ad_core (snd st)) = Inr before" using adapter_core_facts(2) [OF ok] by blast
  obtain after where after: "fingerprint V g = Inr after" using adapter_core_facts(2) [OF ok1] by auto
  let ?st' = "append_record ev operation (if after = before then IDEMPOTENT else APPLIED) (Some (f x)) None after (put_core g st)"
  have "assert_all (env_validity V) g = Inr ()" using adapter_core_facts(1) [OF ok1] by simp
  with before after c have "apply_call V ev operation (\<lambda>g. result_of f (call g)) st = (Inr (Some (f x)), ?st')"
    by (simp add: apply_call_def result_of_def split del: if_split)
  then show thesis by (rule that) (use ok1 in simp_all)
qed

text \<open>The three operations by which a fresh observation of a current success finalizes its request.\<close>

definition with_evidence :: "core \<Rightarrow> string \<Rightarrow> string \<Rightarrow> rat \<Rightarrow> core" where
  "with_evidence g a e t = g\<lparr>evidence := setitem e (terminal_evidence a e t) (evidence g)\<rparr>"

definition with_output :: "core \<Rightarrow> string \<Rightarrow> string \<Rightarrow> string \<Rightarrow> core" where
  "with_output g a e i =
     g\<lparr>outputs := setitem i \<lparr>out_id = i, out_attempt_id = a, out_terminal = True, out_evidence_ids = [e]\<rparr> (outputs g)\<rparr>"

lemma record_terminal_evidence:
  assumes "\<not> id_taken g e"
  shows "record_evidence g (terminal_evidence a e t) = (Inr (terminal_evidence a e t), with_evidence g a e t)"
  using assms not_id_taken(10) [OF assms]
  by (simp add: record_evidence_def with_evidence_def check_derivation_fields_def check_supports_def has_derivation_def
      terminal_evidence_def unique_def)

lemma create_terminal_output:
  assumes "\<not> id_taken g i" and "map_of (attempts g) a = Some x" and "map_of (evidence g) e = Some y"
  shows "create_output g i a True [e] =
    (Inr \<lparr>out_id = i, out_attempt_id = a, out_terminal = True, out_evidence_ids = [e]\<rparr>, with_output g a e i)"
  using assms by (simp add: create_output_def with_output_def unique_def getitem_def has_key_def frozenset_def Let_def)

lemma finalize_terminal_output:
  assumes "map_of (requests g) r = Some req" and "\<not> terminal_request req" and "req_current_attempt_id req = Some a"
    and "map_of (attempts g) a = Some x" and "att_id x = a" and "att_authority_status x = AttemptAuthority.CURRENT"
    and "att_execution_status x = ExecutionStatus.SUCCEEDED"
    and "map_of (outputs g) i = Some \<lparr>out_id = i, out_attempt_id = a, out_terminal = True, out_evidence_ids = [e]\<rparr>"
    and "map_of (evidence g) e = Some (terminal_evidence a e t)" and "t \<le> now"
  shows "\<exists>req' g'. finalize_request clk g r i (Some now) = (Inr req', g') \<and> map_of (requests g') r = Some req' \<and>
    req_status req' = RequestStatus.COMPLETED \<and> req_committed_attempt_id req' = Some a \<and>
    req_authoritative_output_id req' = Some i"
proof -
  have "require_evidence clk g ''finalize'' [e] (Some now) (Some [(''attempt'', a)]) None = Inr [terminal_evidence a e t]"
    using assms(9,10)
    by (simp add: require_evidence_def resolve_now_def REQUIRED_AUTHORITY_def getitem_def known_evidence_def
        has_conflicting_structured_claims_def usable_def scope_ok_def terminal_evidence_def subset_list_iff Let_def)
  with assms show ?thesis
    by (auto simp: finalize_request_def getitem_def terminal_request_def Let_def)
qed

text \<open>
  \<open>observation_due st r a e i t\<close>: the observation with evidence \<open>e\<close> and output \<open>i\<close>, made at \<open>t\<close>, of the
  attempt \<open>a\<close> of the request \<open>r\<close> is one that should decide the request.
\<close>

definition observation_due :: "'h astate \<Rightarrow> string \<Rightarrow> string \<Rightarrow> string \<Rightarrow> string \<Rightarrow> rat \<Rightarrow> bool" where
  "observation_due st r a e i t \<longleftrightarrow>
     (case (map_of (requests (ad_core (snd st))) r, map_of (attempts (ad_core (snd st))) a) of
        (Some req, Some x) \<Rightarrow>
          \<not> terminal_request req \<and> req_current_attempt_id req = Some a \<and> att_execution_status x = ExecutionStatus.SUCCEEDED
      | _ \<Rightarrow> False) \<and>
     (case map_of (ad_success_times (snd st)) a of None \<Rightarrow> True | Some u \<Rightarrow> u \<le> t) \<and> t \<le> sim_now (fst st) \<and>
     \<not> id_taken (ad_core (snd st)) e \<and> \<not> id_taken (ad_core (snd st)) i \<and> e \<noteq> i"

lemma use_observation_finalizes:
  assumes ok: "adapter_ok (snd st)" and due: "observation_due st (item p ''request_id'') (item p ''attempt_id'')
      (item p ''evidence_id'') (item p ''output_id'') t"
    and ne: "item p ''evidence_id'' \<noteq> ''''" "item p ''output_id'' \<noteq> ''''"
  shows "\<exists>st' req. use_observation V ev p t st = (Inr (), st') \<and>
    map_of (requests (ad_core (snd st'))) (item p ''request_id'') = Some req \<and>
    req_status req = RequestStatus.COMPLETED \<and> req_committed_attempt_id req = Some (item p ''attempt_id'') \<and>
    req_authoritative_output_id req = Some (item p ''output_id'')"
proof -
  define r a e i where n: "r = item p ''request_id''" "a = item p ''attempt_id''" "e = item p ''evidence_id''" "i = item p ''output_id''"
  have ne': "e \<noteq> ''''" "i \<noteq> ''''" using ne by (simp_all add: n)
  let ?g = "ad_core (snd st)" and ?E = "terminal_evidence a e t"
  let ?g1 = "with_evidence ?g a e t" let ?g2 = "with_output ?g1 a e i"
  from due obtain req x where req: "map_of (requests ?g) r = Some req" "\<not> terminal_request req" "req_current_attempt_id req = Some a"
    and x: "map_of (attempts ?g) a = Some x" "att_execution_status x = ExecutionStatus.SUCCEEDED"
    and new: "\<not> id_taken ?g e" "\<not> id_taken ?g i" "e \<noteq> i" and t: "t \<le> sim_now (fst st)"
    by (auto simp: observation_due_def n split: option.splits)
  have inv: "inv ?g" using ok by (simp add: adapter_ok_def reachable_inv)
  have cur: "att_authority_status x = AttemptAuthority.CURRENT"
    using request_current [OF reuse_invD(4) [OF invD(1) [OF inv]] req(1,3)] x(1) by auto
  have id: "att_id x = a" by (rule keyedD [OF ids_okD(17) [OF inv_ids(1) [OF inv]] x(1)])
  have none: "map_of (evidence ?g) e = None" "map_of (outputs ?g) i = None"
    using not_id_taken(10) [OF new(1)] not_id_taken(11) [OF new(2)] by simp_all
  note recorded = record_terminal_evidence [OF new(1)]
  obtain st1 where one: "apply_call V ev ''record_evidence'' (\<lambda>g. result_of Evidence.ev_id (record_evidence g ?E)) st = (Inr (Some e), st1)"
    and st1: "fst st1 = fst st" "ad_core (snd st1) = ?g1" "adapter_ok (snd st1)"
    by (rule apply_call_core [OF ok, where op = "record_evidence_op ?E" and call = "\<lambda>g. record_evidence g ?E" and clk = 0 and
          V = V and ev = ev and operation = "''record_evidence''" and f = Evidence.ev_id and x = ?E and g = ?g1])
       (use ne' in \<open>simp_all add: recorded names_ok_def\<close>)
  have new1: "\<not> id_taken ?g1 i" "map_of (attempts ?g1) a = Some x" "map_of (evidence ?g1) e = Some ?E"
    using new x by (simp_all add: with_evidence_def)
  note created = create_terminal_output [OF new1]
  obtain st2 where two: "apply_call V ev ''create_output'' (\<lambda>g. result_of out_id (create_output g i a True [e])) st1 = (Inr (Some i), st2)"
    and st2: "fst st2 = fst st" "ad_core (snd st2) = ?g2" "adapter_ok (snd st2)"
    by (rule apply_call_core [OF st1(3), where op = "create_output_op i a True [e]" and call = "\<lambda>g. create_output g i a True [e]" and clk = 0 and
          V = V and ev = ev and operation = "''create_output''" and f = out_id and g = ?g2 and
          x = "\<lparr>out_id = i, out_attempt_id = a, out_terminal = True, out_evidence_ids = [e]\<rparr>"])
       (use ne' st1 in \<open>simp_all add: created names_ok_def\<close>)
  have g2: "map_of (requests ?g2) r = Some req" "map_of (attempts ?g2) a = Some x"
    "map_of (outputs ?g2) i = Some \<lparr>out_id = i, out_attempt_id = a, out_terminal = True, out_evidence_ids = [e]\<rparr>"
    "map_of (evidence ?g2) e = Some ?E"
    using req x by (simp_all add: with_evidence_def with_output_def)
  obtain req' g3 where fin: "finalize_request 0 ?g2 r i (Some (sim_now (fst st))) = (Inr req', g3)"
    and req': "map_of (requests g3) r = Some req'" "req_status req' = RequestStatus.COMPLETED"
      "req_committed_attempt_id req' = Some a" "req_authoritative_output_id req' = Some i"
    using finalize_terminal_output [OF g2(1) req(2,3) g2(2) id cur x(2) g2(3,4) t] by blast
  obtain st3 where three: "apply_call V ev ''finalize_request''
      (\<lambda>g. result_of req_id (finalize_request 0 g r i (Some (sim_now (fst st))))) st2 = (Inr (Some (req_id req')), st3)"
    and st3: "ad_core (snd st3) = g3"
    by (rule apply_call_core [OF st2(3), where op = "finalize_request_op r i (Some (sim_now (fst st)))" and
          call = "\<lambda>g. finalize_request 0 g r i (Some (sim_now (fst st)))" and clk = 0 and
          V = V and ev = ev and operation = "''finalize_request''" and f = req_id and g = g3 and x = req'])
       (use st2 in \<open>simp_all add: fin names_ok_def\<close>)
  have evid: "ensure_terminal_evidence V ev a e t st = (Inr (), st1)"
    using none(1) one by (simp add: ensure_terminal_evidence_def)
  have "ensure_terminal_output V ev a e i st1 = (Inr (), st2)"
    using none(2) two st1(2) by (simp add: ensure_terminal_output_def with_evidence_def)
  with evid three st2(1) have "use_observation V ev p t st = (Inr (), st3)"
    by (simp add: use_observation_def n [symmetric])
  with req' st3 show ?thesis by (auto simp: n [symmetric])
qed

subsection \<open>Runs\<close>

lemma deliveries_trans: "deliveries V st1 st2 \<Longrightarrow> deliveries V st st1 \<Longrightarrow> deliveries V st st2"
  by (induction rule: deliveries.induct) (auto intro: deliveries.intros)

lemma adapter_run_exists:
  assumes "new_simulator seed = Inr s" and "reachable g" and "constructed g"
    and "new_adapter V s g = (Inr (), st0)" and "deliveries V st0 st"
  shows "\<exists>r st'. run_sim (deliver V) st until max_events = Some (r, st')"
  using deliveries_ok [OF assms(5)] new_adapter_ok [OF assms(1-4)] adapter_runs.run_sim_terminates
  by (auto simp: adapter_model_ok_def)

subsection \<open>Outcomes\<close>

lemma due_not_refused:
  assumes "adapter_ok (snd st)" and "observation_due st (item p ''request_id'') (item p ''attempt_id'') e i t"
  shows "observation_refused p t st = None"
proof -
  have at: "attempts_ok (continuations (ad_core (snd st))) (requests (ad_core (snd st))) (attempts (ad_core (snd st)))
      (outputs (ad_core (snd st)))"
    using reuse_invD(4) [OF invD(1) [OF reachable_inv]] assms(1) by (simp add: adapter_ok_def)
  from assms(2) obtain req x where
    req: "map_of (requests (ad_core (snd st))) (item p ''request_id'') = Some req" "req_current_attempt_id req = Some (item p ''attempt_id'')"
    and x: "map_of (attempts (ad_core (snd st))) (item p ''attempt_id'') = Some x" "att_execution_status x = ExecutionStatus.SUCCEEDED"
    by (auto simp: observation_due_def split: option.splits)
  from request_current [OF at req] x(1) have "att_request_id x = item p ''request_id''" by auto
  with assms(2) x show ?thesis by (simp add: observation_due_def observation_refused_def split: option.splits)
qed

lemma attempts_projected:
  assumes "ids_ok g"
  shows "(i, n) \<in> (\<lambda>a. (att_id a, att_generation a)) ` {a \<in> set (values_of (attempts g)). att_request_id a = r} \<longleftrightarrow>
    (\<exists>a. map_of (attempts g) i = Some a \<and> att_generation a = n \<and> att_request_id a = r)"
proof -
  have "a \<in> set (values_of (attempts g)) \<longleftrightarrow> map_of (attempts g) (att_id a) = Some a" for a
    using values_of_iff [OF ids_okD(5) [OF assms]] keyedD [OF ids_okD(17) [OF assms]] by metis
  moreover have "map_of (attempts g) i = Some a \<Longrightarrow> att_id a = i" for a
    by (rule keyedD [OF ids_okD(17) [OF assms]])
  ultimately have "(\<exists>a. map_of (attempts g) i = Some a \<and> att_generation a = n \<and> att_request_id a = r) \<longleftrightarrow>
      (\<exists>a. a \<in> set (values_of (attempts g)) \<and> att_request_id a = r \<and> att_id a = i \<and> att_generation a = n)" by metis
  then show ?thesis by (auto simp: image_iff)
qed

lemma authoritative_outcome_Inr:
  assumes "inv g" and "map_of (requests g) r = Some req" and "req_authoritative_output_id req = Some i"
    and "map_of (outputs g) i = Some out"
  shows "authoritative_outcome sv g r = Inr
    \<lparr>ao_request_id = req_id req, ao_request_status = member_name request_statuses (req_status req),
     ao_current_attempt_id = req_current_attempt_id req, ao_committed_attempt_id = req_committed_attempt_id req,
     ao_authoritative_output_id = Some i, ao_authoritative_evidence_ids = sort (remdups (out_evidence_ids out)),
     ao_attempts = map attempt_projection
       (sort_key att_generation (filter (\<lambda>a. att_request_id a = r) (values_of (attempts g))))\<rparr>"
  using assms by (simp add: authoritative_outcome_def assert_all_ok getitem_def)

lemma outcome_kept:
  assumes inv: "inv g" "inv g'" and ev: "core_evolves g g'"
    and req: "map_of (requests g) r = Some req" "req_status req = RequestStatus.COMPLETED"
  shows "\<exists>x y. authoritative_outcome sv g r = Inr x \<and> authoritative_outcome sv g' r = Inr y \<and>
    y\<lparr>ao_attempts := []\<rparr> = x\<lparr>ao_attempts := []\<rparr> \<and>
    set (map (\<lambda>a. (ap_id a, ap_generation a)) (ao_attempts x)) \<subseteq> set (map (\<lambda>a. (ap_id a, ap_generation a)) (ao_attempts y))"
proof -
  have "request_ok (continuations g) (attempts g) (outputs g) r req"
    using reuse_invD(4) [OF invD(1) [OF inv(1)]] req(1) by (simp add: attempts_ok_def)
  then obtain i out where i: "req_authoritative_output_id req = Some i" and out: "map_of (outputs g) i = Some out"
    using req(2) by (auto simp: request_ok_def)
  have "dict_evolves request_step (requests g) (requests g')" "dict_evolves (=) (outputs g) (outputs g')"
    and ats: "dict_evolves attempt_step (attempts g) (attempts g')" using ev by (simp_all add: core_evolves_def)
  with req out have req': "map_of (requests g') r = Some req" and out': "map_of (outputs g') i = Some out"
    using dict_evolvesD by (fastforce simp: request_step_def terminal_request_def)+
  have set: "set (map (\<lambda>a. (ap_id a, ap_generation a)) (map attempt_projection
      (sort_key att_generation (filter (\<lambda>a. att_request_id a = r) (values_of (attempts h)))))) =
    (\<lambda>a. (att_id a, att_generation a)) ` {a \<in> set (values_of (attempts h)). att_request_id a = r}" for h
    by (force simp: attempt_projection_def)
  have kept: "(\<lambda>a. (att_id a, att_generation a)) ` {a \<in> set (values_of (attempts g)). att_request_id a = r} \<subseteq>
      (\<lambda>a. (att_id a, att_generation a)) ` {a \<in> set (values_of (attempts g')). att_request_id a = r}"
  proof (rule subrelI)
    fix k n assume "(k, n) \<in> (\<lambda>a. (att_id a, att_generation a)) ` {a \<in> set (values_of (attempts g)). att_request_id a = r}"
    then show "(k, n) \<in> (\<lambda>a. (att_id a, att_generation a)) ` {a \<in> set (values_of (attempts g')). att_request_id a = r}"
      unfolding attempts_projected [OF inv_ids(1) [OF inv(1)]] attempts_projected [OF inv_ids(1) [OF inv(2)]]
      using dict_evolvesD [OF ats] by (fastforce simp: attempt_step_def)
  qed
  show ?thesis
    unfolding authoritative_outcome_Inr [OF inv(1) req(1) i out] authoritative_outcome_Inr [OF inv(2) req' i out']
    by (rule exI, rule exI, rule conjI [OF refl conjI [OF refl]]) (use kept in \<open>simp only: AuthoritativeOutcome.simps set simp_thms\<close>)
qed

end
