(* ===== verification/Adapter_Properties.thy ===== *)
theory Adapter_Properties
  imports Core_Properties Sim_Adapter_Inv
begin

section \<open>Properties of the semantic adapter\<close>

text \<open>
  An adapter is built on a fresh simulator and a reachable core; then its user schedules, cancels and
  runs as \<open>deliveries\<close> says. The environment \<open>V\<close> (the validity predicate, the decimal form of floats and
  the digest) is any.
\<close>

subsection \<open>The methods that schedule\<close>

lemma sched_at_delivers: "sched_at st kind at_time i p = (r, st') \<Longrightarrow> deliveries V st st'"
  by (auto simp: sched_at_def intro: deliveries.scheduled [OF deliveries.stay] split: prod.splits)

lemma reads_delivers:
  "reads st m k = (r, st') \<Longrightarrow> (\<And>x. k x = (r, st') \<Longrightarrow> deliveries V st st') \<Longrightarrow> deliveries V st st'"
  by (cases m) (auto intro: deliveries.stay)

lemma schedule_methods_deliver:
  "schedule_request a b t i st = (r, st') \<Longrightarrow> deliveries V st st'"
  "schedule_attempt_start a b t i st = (r, st') \<Longrightarrow> deliveries V st st'"
  "schedule_timeout a b c t i st = (r, st') \<Longrightarrow> deliveries V st st'"
  "schedule_retry_start a b c t i st = (r, st') \<Longrightarrow> deliveries V st st'"
  "schedule_attempt_completion a t late i st = (r, st') \<Longrightarrow> deliveries V st st'"
  "schedule_attempt_failure a t i st = (r, st') \<Longrightarrow> deliveries V st st'"
  "schedule_observation a b c d t u dup i st = (r, st') \<Longrightarrow> deliveries V st st'"
  unfolding schedule_request_def schedule_attempt_start_def schedule_timeout_def schedule_retry_start_def
    schedule_attempt_completion_def schedule_attempt_failure_def schedule_observation_def Let_def
  by (elim reads_delivers sched_at_delivers)+

subsection \<open>Adapters to try the properties on\<close>

text \<open>
  Adapters on three cores: one with a continuation only, one with a request whose current attempt has
  succeeded, and one in which that request has been finalized. On the first a whole timeline is
  scheduled: a request whose first attempt times out, a retry that succeeds and is observed, then the
  late completion of the first attempt and the same observation again.
\<close>

definition demo_env :: adapter_env where
  "demo_env = \<lparr>env_validity = (\<lambda>_ _. True), env_repr = (\<lambda>_. ''0.0''), env_digest = (\<lambda>t. t)\<rparr>"

definition context_ops :: "operation list" where
  "context_ops = [create_program_op ''p'', create_session_op ''s'' ''p'',
     create_continuation_op ''c'' ''s'' [] ContinuationLifecycle.ACTIVE]"

definition succeeded_ops :: "operation list" where
  "succeeded_ops = context_ops @ [create_request_op ''r'' ''c'', start_attempt_op ''a'' ''r'', complete_attempt_op ''a'' True]"

definition finalized_ops :: "operation list" where
  "finalized_ops = succeeded_ops @ [record_evidence_op (terminal_evidence ''a'' ''e'' 0),
     create_output_op ''o'' ''a'' True [''e''], finalize_request_op ''r'' ''o'' (Some 0)]"

definition fresh_sim :: "adapter_handler sim" where
  "fresh_sim = \<lparr>sim_seed = 0, sim_now = 0, sim_queue = [], sim_handlers = [], sim_cancelled = {}, sim_pending_ids = {},
     sim_known_ids = {}, sim_trace = [], sim_next_sequence = 0\<rparr>"

definition adapter_on :: "operation list \<Rightarrow> adapter_handler astate" where
  "adapter_on ops = snd (new_adapter demo_env fresh_sim (run_demo ops))"

definition timeline :: "(adapter_handler astate \<Rightarrow> (adapter_handler astate, SimEvent) outcome) list" where
  "timeline =
     [schedule_request (PStr ''r'') (PStr ''c'') (PInt 0) None,
      schedule_attempt_start (PStr ''r'') (PStr ''a'') (PInt 1) None,
      schedule_timeout (PStr ''r'') (PStr ''a'') (PStr ''b'') (PInt 2) None,
      schedule_attempt_completion (PStr ''b'') (PInt 3) False None,
      schedule_observation (PStr ''r'') (PStr ''b'') (PStr ''e'') (PStr ''o'') (PInt 4) PNone False None,
      schedule_attempt_completion (PStr ''a'') (PInt 5) True None,
      schedule_observation (PStr ''r'') (PStr ''b'') (PStr ''e'') (PStr ''o'') (PInt 6) (PInt 4) True None]"

definition after_scheduling :: "operation list \<Rightarrow> adapter_handler astate" where
  "after_scheduling ops = fold (\<lambda>f st. snd (f st)) timeline (adapter_on ops)"

lemma demo_cores:
  "reachable (run_demo context_ops)" "constructed (run_demo context_ops)"
  "reachable (run_demo succeeded_ops)" "constructed (run_demo succeeded_ops)"
  "reachable (run_demo finalized_ops)" "constructed (run_demo finalized_ops)"
  by (rule run_demo_reachable, code_simp | code_simp)+

lemma fresh_sim_new: "new_simulator (PInt 0) = Inr fresh_sim"
  by (simp add: new_simulator_def fresh_sim_def)

lemma adapter_on_new:
  assumes "reachable (run_demo ops)"
  shows "new_adapter demo_env fresh_sim (run_demo ops) = (Inr (), adapter_on ops)"
  by (simp add: adapter_on_def new_adapter_def Let_def assert_all_ok [OF reachable_inv [OF assms]])

lemma adapter_on_parts:
  assumes "reachable (run_demo ops)"
  shows "fst (adapter_on ops) = fold (\<lambda>(k, h) t. register_handler t k h) adapter_registrations fresh_sim"
    and "snd (adapter_on ops) = \<lparr>ad_core = run_demo ops, ad_records = [], ad_scheduled_retries = [], ad_success_times = []\<rparr>"
  by (simp_all add: adapter_on_def new_adapter_def Let_def assert_all_ok [OF reachable_inv [OF assms]])

lemma fold_delivers:
  "\<forall>f\<in>set fs. \<forall>x. deliveries V x (snd (f x)) \<Longrightarrow> deliveries V st x \<Longrightarrow>
     deliveries V st (fold (\<lambda>f st. snd (f st)) fs x)"
proof (induction fs arbitrary: x)
  case (Cons f fs)
  have "deliveries V x (snd (f x))" using Cons.prems(1) by (simp del: split_paired_All)
  then have "deliveries V st (snd (f x))" using Cons.prems(2) by (rule deliveries_trans)
  with Cons.IH [of "snd (f x)"] Cons.prems(1) show ?case by (simp del: split_paired_All)
qed simp

lemma after_scheduling_delivers: "deliveries V (adapter_on ops) (after_scheduling ops)"
proof -
  note deliver = schedule_methods_deliver [OF prod.collapse [symmetric]]
  have "\<forall>f\<in>set timeline. \<forall>x. deliveries V x (snd (f x))"
    by (simp add: timeline_def deliver del: split_paired_All)
  then show ?thesis unfolding after_scheduling_def by (rule fold_delivers) (rule deliveries.stay)
qed

subsection \<open>The properties\<close>

text \<open>C16. Whatever is delivered, in whatever order and with whatever payload, the adapter keeps the core
reachable and accepted by the oracle and only moves it forward, and its records are an audit chain from the
core it was given to the core as it is: each record holds the fingerprint after its action, which differs
from that of the record before exactly if the record says that the core was changed.\<close>

theorem deliveries_are_sound_and_audited:
  assumes "new_simulator seed = Inr s" and "reachable g" and "constructed g"
    and "new_adapter V s g = (Inr (), st0)" and "deliveries V st0 st"
  shows "reachable (ad_core (snd st)) \<and> assert_all sv (ad_core (snd st)) = Inr () \<and> core_evolves g (ad_core (snd st)) \<and>
    audit_chain (fingerprint V g) (ad_records (snd st)) (fingerprint V (ad_core (snd st)))"
proof -
  note new = new_adapter_ok [OF assms(1-4)]
  from deliveries_ok [OF assms(5) conjunct1 [OF new]] have ok: "adapter_ok (snd st)" and ev: "adapter_evolves V (snd st0) (snd st)"
    by (simp_all add: adapter_model_ok_def world_ok_def world_evolves_def)
  show ?thesis
    using adapter_core_facts(1) [OF ok] ok ev new by (auto simp: adapter_ok_def adapter_evolves_def)
qed

lemma deliveries_are_sound_and_audited_witness:
  "\<exists>r st. run_sim (deliver demo_env) (after_scheduling context_ops) PNone PNone = Some (r, st) \<and>
     assert_all (\<lambda>_ _. True) (ad_core (snd st)) = Inr () \<and>
     audit_chain (fingerprint demo_env (run_demo context_ops)) (ad_records (snd st)) (fingerprint demo_env (ad_core (snd st)))"
proof -
  note new = adapter_on_new [OF demo_cores(1)]
  from adapter_run_exists [OF fresh_sim_new demo_cores(1,2) new after_scheduling_delivers] obtain r st where
    run: "run_sim (deliver demo_env) (after_scheduling context_ops) PNone PNone = Some (r, st)" by blast
  from deliveries_are_sound_and_audited [OF fresh_sim_new demo_cores(1,2) new deliveries.run [OF after_scheduling_delivers run]]
  show ?thesis using run by blast
qed



text \<open>C21. An observation decides its request: whatever was delivered before, if an attempt that is current and has
succeeded is observed, not before its success and not in the future, under new identifiers, then delivering
that observation raises nothing and leaves the request \<open>COMPLETED\<close>, committed to this attempt and output.\<close>

theorem observation_finalizes_request:
  assumes "new_simulator seed = Inr s" and "reachable g" and "constructed g"
    and "new_adapter V s g = (Inr (), st0)" and "deliveries V st0 st"
    and p: "payload_strings ev [''request_id'', ''attempt_id'', ''evidence_id'', ''output_id''] = Inr p"
    and t: "event_nonnegative_float ev ''observed_at'' = Inr t"
    and due: "observation_due st (item p ''request_id'') (item p ''attempt_id'') (item p ''evidence_id'') (item p ''output_id'') t"
  shows "\<exists>st' req. deliver V OnObservation ev st = (Inr (), st') \<and>
    map_of (requests (ad_core (snd st'))) (item p ''request_id'') = Some req \<and>
    req_status req = RequestStatus.COMPLETED \<and> req_committed_attempt_id req = Some (item p ''attempt_id'') \<and>
    req_authoritative_output_id req = Some (item p ''output_id'')"
proof -
  note new = new_adapter_ok [OF assms(1-4)]
  from deliveries_ok [OF assms(5) conjunct1 [OF new]] have ok: "adapter_ok (snd st)"
    by (simp add: adapter_model_ok_def world_ok_def)
  have "item p ''evidence_id'' \<noteq> ''''" "item p ''output_id'' \<noteq> ''''" by (rule payload_strings_facts [OF p], simp)+
  note use_observation_finalizes [OF ok due this, of V ev]
  moreover have "observation_refused p t st = None" by (rule due_not_refused [OF ok due])
  then have "deliver V OnObservation ev st = (case use_observation V ev p t st of
      (Inl e, st1) \<Rightarrow> if e = AdapterInputError
        then note_action V ev ''event_validation'' REJECTED None (Some e) st1 else (Inl e, st1)
    | (Inr _, st1) \<Rightarrow> (Inr (), st1))"
    by (simp add: deliver_def on_observation_def p t)
  ultimately show ?thesis by auto
qed

definition demo_observation :: SimEvent where
  "demo_observation = \<lparr>ev_time = 0, ev_sequence = 0, ev_id = ''observation:e:o'', ev_kind = OBSERVATION_CREATED,
     ev_payload = [(''attempt_id'', PStr ''a''), (''evidence_id'', PStr ''e''), (''observed_at'', PFloat (Fin 0)),
       (''output_id'', PStr ''o''), (''request_id'', PStr ''r'')]\<rparr>"

lemma observation_finalizes_request_witness:
  "\<exists>st' req. deliver demo_env OnObservation demo_observation (adapter_on succeeded_ops) = (Inr (), st') \<and>
     map_of (requests (ad_core (snd st'))) ''r'' = Some req \<and> req_status req = RequestStatus.COMPLETED \<and>
     req_authoritative_output_id req = Some ''o''"
proof -
  let ?p = "[(''request_id'', ''r''), (''attempt_id'', ''a''), (''evidence_id'', ''e''), (''output_id'', ''o'')]"
  have p: "payload_strings demo_observation [''request_id'', ''attempt_id'', ''evidence_id'', ''output_id''] = Inr ?p"
    by code_simp
  have t: "event_nonnegative_float demo_observation ''observed_at'' = Inr 0" by code_simp
  have items: "item ?p ''request_id'' = ''r''" "item ?p ''attempt_id'' = ''a''" "item ?p ''evidence_id'' = ''e''"
    "item ?p ''output_id'' = ''o''" by code_simp+
  note new = adapter_on_new [OF demo_cores(3)]
  have "fst (adapter_on succeeded_ops) = fst (adapter_on context_ops)" and now: "sim_now (fst (adapter_on context_ops)) = 0"
    by (simp_all add: adapter_on_parts demo_cores) (simp add: adapter_registrations_def register_handler_def fresh_sim_def)
  moreover have "observation_due (fresh_sim, snd (adapter_on succeeded_ops)) ''r'' ''a'' ''e'' ''o'' 0"
    unfolding adapter_on_parts [OF demo_cores(3)] by code_simp
  ultimately have "observation_due (adapter_on succeeded_ops) ''r'' ''a'' ''e'' ''o'' 0"
    by (simp add: observation_due_def fresh_sim_def)
  then show ?thesis
    using observation_finalizes_request [OF fresh_sim_new demo_cores(3,4) new deliveries.stay p t] unfolding items by blast
qed

text \<open>C28. Nothing that is delivered late, twice or out of order changes a decided request: once it is
\<open>COMPLETED\<close>, its authoritative outcome (status, committed attempt, output and evidence) is the same after any
further deliveries, and each of its attempts is still projected with its identity and generation.\<close>

theorem late_deliveries_change_nothing:
  assumes "new_simulator seed = Inr s" and "reachable g" and "constructed g"
    and "new_adapter V s g = (Inr (), st0)" and "deliveries V st0 st"
    and r: "map_of (requests (ad_core (snd st))) r = Some req" and completed: "req_status req = RequestStatus.COMPLETED"
    and later: "deliveries V st st'"
  shows "\<exists>x y. authoritative_outcome sv (ad_core (snd st)) r = Inr x \<and> authoritative_outcome sv (ad_core (snd st')) r = Inr y \<and>
    y\<lparr>ao_attempts := []\<rparr> = x\<lparr>ao_attempts := []\<rparr> \<and>
    set (map (\<lambda>a. (ap_id a, ap_generation a)) (ao_attempts x)) \<subseteq> set (map (\<lambda>a. (ap_id a, ap_generation a)) (ao_attempts y))"
proof -
  note new = new_adapter_ok [OF assms(1-4)]
  have model: "adapter_model_ok st" using deliveries_ok [OF assms(5) conjunct1 [OF new]] by blast
  then have "inv (ad_core (snd st))" by (simp add: adapter_model_ok_def world_ok_def adapter_ok_def reachable_inv)
  moreover from deliveries_ok [OF later model]
  have "inv (ad_core (snd st'))" "core_evolves (ad_core (snd st)) (ad_core (snd st'))"
    by (simp_all add: adapter_model_ok_def world_ok_def world_evolves_def adapter_ok_def adapter_evolves_def reachable_inv)
  ultimately show ?thesis using r completed by (rule outcome_kept)
qed

lemma late_deliveries_change_nothing_witness:
  "\<exists>q st' y. run_sim (deliver demo_env) (after_scheduling finalized_ops) PNone PNone = Some (q, st') \<and>
     authoritative_outcome (\<lambda>_ _. True) (ad_core (snd st')) ''r'' = Inr y \<and>
     ao_request_status y = ''COMPLETED'' \<and> ao_authoritative_output_id y = Some ''o''"
proof -
  note new = adapter_on_new [OF demo_cores(5)]
  from adapter_run_exists [OF fresh_sim_new demo_cores(5,6) new after_scheduling_delivers] obtain q st' where
    run: "run_sim (deliver demo_env) (after_scheduling finalized_ops) PNone PNone = Some (q, st')" by blast
  have core: "ad_core (snd (adapter_on finalized_ops)) = run_demo finalized_ops"
    by (simp add: adapter_on_parts [OF demo_cores(5)])
  have "map_option req_status (map_of (requests (run_demo finalized_ops)) ''r'') = Some RequestStatus.COMPLETED" by code_simp
  then obtain req where req: "map_of (requests (ad_core (snd (adapter_on finalized_ops)))) ''r'' = Some req"
    "req_status req = RequestStatus.COMPLETED" unfolding core by auto
  have "(case authoritative_outcome (\<lambda>_ _. True) (run_demo finalized_ops) ''r'' of
      Inr x \<Rightarrow> ao_request_status x = ''COMPLETED'' \<and> ao_authoritative_output_id x = Some ''o'' | Inl _ \<Rightarrow> False)" by code_simp
  moreover from late_deliveries_change_nothing [OF fresh_sim_new demo_cores(5,6) new deliveries.stay req
      deliveries.run [OF after_scheduling_delivers run], of "\<lambda>_ _. True"]
  obtain x y where xy: "authoritative_outcome (\<lambda>_ _. True) (run_demo finalized_ops) ''r'' = Inr x"
    "authoritative_outcome (\<lambda>_ _. True) (ad_core (snd st')) ''r'' = Inr y" "y\<lparr>ao_attempts := []\<rparr> = x\<lparr>ao_attempts := []\<rparr>"
    unfolding core by blast
  moreover from xy(3) have "ao_request_status y = ao_request_status x" "ao_authoritative_output_id y = ao_authoritative_output_id x"
    by (cases x; cases y; simp)+
  ultimately show ?thesis using run by auto
qed

end
