(* ===== verification/Spec2Isabelle.thy ===== *)
theory Spec2Isabelle
  imports Core_Properties Sim_Properties Policy_Properties Proto_Properties Serial_Properties Adapter_Properties
begin

section \<open>Continuity-aware distributed inference\<close>

text \<open>
  A verification library for CADI. The repository has a semantic core (\<open>continuity/\<close>), which keeps what
  an inference program means independently of where it runs; a deterministic simulator of the physical
  side (\<open>simulator/\<close>) with placement policies that consult the core; a prototype of three processes
  that talk over sockets (\<open>prototype/\<close>); and the experiments that drive them (\<open>experiments/\<close>).

  \<^bold>\<open>The parts and their theories.\<close>

  \<^item> Python: \<open>Py_Prelude\<close> has what every part shares. An exception is a value \<open>Inl e\<close> of the class
    \<open>e\<close>; a method is a function on the state it may change whose result is the pair of a value or
    exception and the state it leaves (\<open>outcome\<close>), so that an exception in the middle of a method
    leaves what had already been changed. A dictionary is an association list in the order of
    insertion; \<open>setitem\<close>, \<open>getitem\<close> and \<open>delitem\<close> are the three forms of its use. Numbers that the
    code computes with are unbounded integers or rationals; \<open>pyfloat\<close> adds the infinities and NaN where
    the code tests for them. \<open>Machine\<close> has the interface of a component that is used by sequences of
    calls (the locales \<open>invariant_machine\<close> and \<open>atomic_machine\<close>), which the core, the resource model
    and the delivery scheduler interpret.
  \<^item> Semantic core: \<open>Entities\<close> (\<open>entities.py\<close>, \<open>errors.py\<close>), \<open>Core_State\<close>, \<open>Core_Graph\<close> (programs,
    sessions, continuations, derived State lifecycles), \<open>Core_Attempt\<close> (requests, attempts, phases,
    outputs, \<open>finalize_request\<close>), \<open>Core_Reuse\<close> (States, replicas, compatibility), \<open>Core_Binding\<close>
    (bindings, migration, events), \<open>Core_Evidence\<close> (the evidence gate of \<open>core.py\<close>), \<open>Core_Exec\<close> (the
    25 operations of \<open>replay.py\<close>), \<open>Core_History\<close> (how a core may change over time) and \<open>Oracle\<close> (the
    fifteen checks of \<open>invariants.py\<close>). \<open>Graph_Search\<close> has the two searches the core uses and what
    they compute. \<open>Core_Same\<close> says when two cores hold the same entities, as Python compares
    dictionaries and frozensets, and that the invariant does not tell such cores apart.
  \<^item> Snapshots and traces (\<open>serialization.py\<close>): \<open>Serial_Values\<close> (canonical JSON, \<open>_encode\<close>, \<open>_decode\<close>, the runtime
    type check), \<open>Serial_Entities\<close> (the entities as instances of their dataclasses), \<open>Serial_Snapshot\<close>
    (\<open>snapshot_core\<close>, \<open>restore_core\<close> and its validation), \<open>Serial_Restore\<close> and \<open>Serial_Canonical\<close> (what
    was written is read back, and is determined by the entities alone), \<open>Serial_Errors\<close> (what decoding
    and the oracle can raise) and \<open>Serial_Events\<close> (the event log as text and its replay); \<open>Core_Replay\<close>
    has the traces of \<open>replay.py\<close> (building, checking, dispatching, recording and replaying operations).
  \<^item> Simulator: \<open>Sim_Events\<close> (\<open>events.py\<close>), \<open>Sim_Engine\<close> (\<open>engine.py\<close>: the queue, scheduling,
    cancelling and the run loop), \<open>Sim_Resources\<close> (\<open>resources.py\<close>: workers, tasks, replicas, transfers
    and the ten handlers of events), \<open>Sim_Resource_Inv\<close> (its invariant), \<open>Sim_Budget\<close> (when runs
    return and what they raise, for any handlers) and \<open>Sim_Termination\<close> (the budget of the model).
  \<^item> Semantic adapter: \<open>Sim_Adapter\<close> (\<open>semantic_adapter.py\<close>: the deliveries on the engine that drive the
    core, their records, and authoritative outcomes) and \<open>Sim_Adapter_Inv\<close> (what deliveries keep,
    record, cost and raise).
  \<^item> Policies: \<open>Policies\<close> (\<open>policies.py\<close>: what each policy may see, and B0 to B3) and
    \<open>Policy_Continuity\<close> (\<open>continuity_policy.py\<close>: B4 over the core, and the paired evaluation).
  \<^item> Prototype: \<open>Proto_Json\<close> and \<open>Proto_Transport\<close> (\<open>c8_transport.py\<close>, \<open>c8_wire_contract.py\<close>:
    canonical JSON, envelopes, frames, receiving), \<open>Proto_Delivery\<close> (\<open>c8_faults.py\<close>), \<open>Proto_Process\<close>
    (\<open>c8_events.py\<close> and sending), \<open>Proto_Authority\<close>, \<open>Proto_Worker\<close>, \<open>Proto_Harness\<close> (the three
    processes) and \<open>Proto_System\<close> (what a message of one means to another).

  \<^bold>\<open>How the parts interact.\<close> The resource model schedules events on the engine and is called back by
  it; the engine's lemmas are proved once for any handlers that keep their world in order
  (\<open>event_world\<close>, \<open>event_handlers\<close>), with two further contracts for handlers of bounded cost
  (\<open>bounded_handlers\<close>) and for what they raise (\<open>raising_handlers\<close>), and interpreted for the ten handlers
  and for those of the adapter. The adapter calls the core, the oracle and the fingerprint. The policies read an
  observation of the resource model; B4 also asks an authority about attempts and States, which is an
  interface (\<open>semantic_authority\<close>), interpreted by the semantic core. The prototype's processes exchange
  frames; a socket is the sequence of what the calls on it find, so that every segmentation, delay,
  reset and end of stream is a value of a parameter.

  \<^bold>\<open>What the properties show.\<close>

  \<^item> \<open>Core_Properties\<close>, C1 to C12, C14, C15, C17, C19 and C20, over every core a program can reach: it passes all checks of
    the oracle, an operation that raises changes nothing, at most one attempt of a request has authority
    and lost authority never returns, a request is finalized exactly once and exactly by what may
    finalize it, invalid or superseded State is never reused, compatibility and the evidence gate are
    their specifications, migrations commit exactly on the current epoch, valid evidence has valid support,
    and the search for cycles terminates and is exact.
  \<^item> \<open>Adapter_Properties\<close>, C16, C18, C21 and C28: whatever is delivered, the core stays sound and the
    records are an audit chain of fingerprints; runs return and the audit never fails; a due observation
    finalizes its request; and what is delivered late changes no decided request.
  \<^item> \<open>Serial_Properties\<close>, C13, C22 to C25 and C32: replaying any trace keeps the core sound, traces
    survive as records, a snapshot restores the core it was taken from, equal
    snapshots are snapshots of the same core, the event log survives as text and replays, and restoring
    any document whatsoever gives a core the oracle accepts or raises \<open>ValueError\<close>.
  \<^item> \<open>Sim_Properties\<close>, C26, C27, C29 and C30, over every resource model a program can reach: capacity, the
    direction of physical history, atomicity, and that every run
    returns and executes exactly what is due.
  \<^item> \<open>Policy_Properties\<close>, C31 and C33: the paired evaluation never raises and ranks available workers
    only, and B4 is its specification over a reachable core.
  \<^item> \<open>Proto_Properties\<close>, C34 to C40: frames survive segmentation, schedulers are bounded and lose
    nothing silently, the harness only forwards, the authority's registration is that of its messages,
    whose time stamps have no effect, it never sends a message twice, and a broken connection ends a
    registration.

  \<^bold>\<open>Bounds and fuel.\<close> The loop of \<open>run\<close> is a partial function, whose value \<open>None\<close> stands for not
  returning; \<open>run_loop_returns\<close> and \<open>run_sim_terminates\<close> show when it returns. The reader of JSON
  has fuel, of which \<open>json_loads\<close> provides more than the length of the text can use up; every other
  recursion is total with a measure. The header of a frame is a word of 32 bits, and the bytes are words
  of 8 bits.

  \<^bold>\<open>What is not modelled.\<close> The messages of exceptions. In the core, the validity predicate of the
  user, the clock of \<open>time.time\<close> and the sampling of random numbers are parameters; values of a type
  other than the annotated one are modelled only where the code tests for them. In the prototype, strings
  are sequences of Latin-1 characters, JSON has no floating-point numbers, and what the operating system
  reports (sockets, clocks, processes, digests) is a parameter. In snapshots and logs strings are Latin-1
  too, floats are exact rationals whose decimal form is the parameter \<open>rp\<close>, the SHA-256 digest is the
  parameter \<open>sha\<close>, and reading starts from the parsed JSON document (\<open>sorted_json\<close> of what was written).
  Not modelled at all: the fault campaign and its oracles (\<open>faults.py\<close>, \<open>fault_campaign.py\<close>,
  \<open>fault_linkage.py\<close>, \<open>fault_oracle.py\<close>), \<open>scenarios.py\<close>, the models of
  inference cost and their calibration, which fit floating-point curves to measurements, \<open>c8_runtime.py\<close>,
  which starts the processes, and \<open>experiments/\<close>.
\<close>

end
